(* ===== verification/Prelude.thy ===== *)
theory Prelude
  imports Main "HOL-Library.Word"
begin

text \<open>
  Material shared by all components: the outcome of a C++ computation that may run out of fuel
  or run into undefined behaviour, the state monad over it with the fuel ordering, hexadecimal
  printing, and association lists read as maps.
\<close>

unbundle bit_operations_syntax

section \<open>Outcomes\<close>

text \<open>
  \<open>Done\<close> is a normal return; \<open>Crash\<close> is undefined behaviour (a null pointer is dereferenced,
  a vector is read out of range, an assertion fails); \<open>OutOfFuel\<close> is the model's own "no answer
  with this recursion depth". A computation that is \<open>OutOfFuel\<close> for every fuel does not return.
\<close>

datatype 'a outcome = Done 'a | Crash | OutOfFuel

type_synonym ('s, 'a) smon = "'s \<Rightarrow> ('a \<times> 's) outcome"

definition sret :: "'a \<Rightarrow> ('s, 'a) smon" where
  "sret x = (\<lambda>s. Done (x, s))"

definition scrash :: "('s, 'a) smon" where
  "scrash = (\<lambda>s. Crash)"

definition sbind :: "('s, 'a) smon \<Rightarrow> ('a \<Rightarrow> ('s, 'b) smon) \<Rightarrow> ('s, 'b) smon" where
  "sbind m f = (\<lambda>s. case m s of Done (x, s') \<Rightarrow> f x s' | Crash \<Rightarrow> Crash | OutOfFuel \<Rightarrow> OutOfFuel)"

definition sget :: "('s, 's) smon" where
  "sget = (\<lambda>s. Done (s, s))"

definition smodify :: "('s \<Rightarrow> 's) \<Rightarrow> ('s, unit) smon" where
  "smodify f = (\<lambda>s. Done ((), f s))"

named_theorems smon_defs \<open>the monad unfolded to its outcomes\<close>

declare sret_def [smon_defs] scrash_def [smon_defs] sbind_def [smon_defs]
  sget_def [smon_defs] smodify_def [smon_defs]

text \<open>The fuel ordering: more fuel only turns \<open>OutOfFuel\<close> into an answer.\<close>

definition refines :: "'a outcome \<Rightarrow> 'a outcome \<Rightarrow> bool" where
  "refines a b \<longleftrightarrow> a = OutOfFuel \<or> a = b"

definition srefines :: "('s, 'a) smon \<Rightarrow> ('s, 'a) smon \<Rightarrow> bool" where
  "srefines m m' \<longleftrightarrow> (\<forall>s. refines (m s) (m' s))"

named_theorems refine_intros \<open>the monad's operations preserve the fuel ordering\<close>

lemma refines_refl [simp]: "refines a a"
  by (simp add: refines_def)

lemma srefines_refl [simp]: "srefines m m"
  by (simp add: srefines_def)

lemma srefinesD: "srefines m m' \<Longrightarrow> m s = r \<Longrightarrow> r \<noteq> OutOfFuel \<Longrightarrow> m' s = r"
  by (auto simp: srefines_def refines_def)

lemma srefines_bind [refine_intros]:
  assumes "srefines m m'" and "\<And>x. srefines (f x) (f' x)"
  shows "srefines (sbind m f) (sbind m' f')"
proof -
  have "refines (sbind m f s) (sbind m' f' s)" for s
  proof (cases "m s")
    case (Done p)
    moreover obtain x s' where "p = (x, s')" by (cases p)
    moreover from Done assms(1) have "m' s = m s" by (auto dest: srefinesD)
    ultimately show ?thesis using assms(2) by (simp add: sbind_def srefines_def)
  next
    case Crash
    moreover from Crash assms(1) have "m' s = Crash" by (auto dest: srefinesD)
    ultimately show ?thesis by (simp add: sbind_def)
  next
    case OutOfFuel
    then show ?thesis by (simp add: sbind_def refines_def)
  qed
  then show ?thesis by (simp add: srefines_def)
qed

lemma srefines_if [refine_intros]:
  "(b \<Longrightarrow> srefines m m') \<Longrightarrow> (\<not> b \<Longrightarrow> srefines k k') \<Longrightarrow>
   srefines (if b then m else k) (if b then m' else k')"
  by simp

lemma srefines_option [refine_intros]:
  "srefines n n' \<Longrightarrow> (\<And>x. srefines (f x) (f' x)) \<Longrightarrow>
   srefines (case v of None \<Rightarrow> n | Some x \<Rightarrow> f x) (case v of None \<Rightarrow> n' | Some x \<Rightarrow> f' x)"
  by (cases v) auto

text \<open>A Hoare-style reading of one run: whenever it is \<open>Done\<close>, the postcondition holds.\<close>

definition sholds :: "('s, 'a) smon \<Rightarrow> 's \<Rightarrow> ('a \<Rightarrow> 's \<Rightarrow> bool) \<Rightarrow> bool" where
  "sholds m s Q \<longleftrightarrow> (\<forall>x s'. m s = Done (x, s') \<longrightarrow> Q x s')"

lemma sholds_ret [simp]: "sholds (sret x) s Q \<longleftrightarrow> Q x s"
  by (simp add: sholds_def sret_def)

lemma sholds_crash [simp]: "sholds scrash s Q"
  by (simp add: sholds_def scrash_def)

lemma sholds_get [simp]: "sholds sget s Q \<longleftrightarrow> Q s s"
  by (simp add: sholds_def sget_def)

lemma sholds_modify [simp]: "sholds (smodify f) s Q \<longleftrightarrow> Q () (f s)"
  by (simp add: sholds_def smodify_def)

lemma sholds_bind:
  "sholds m s (\<lambda>x s'. sholds (f x) s' Q) \<Longrightarrow> sholds (sbind m f) s Q"
  by (auto simp: sholds_def sbind_def split: outcome.splits)

lemma sholds_weaken: "sholds m s Q \<Longrightarrow> (\<And>x s'. Q x s' \<Longrightarrow> Q' x s') \<Longrightarrow> sholds m s Q'"
  by (auto simp: sholds_def)

text \<open>
  \<open>spres R m\<close>: every run of \<open>m\<close> that returns relates its initial and final state by \<open>R\<close>. For a
  reflexive and transitive \<open>R\<close> this composes through the monad.
\<close>

definition spres :: "('s \<Rightarrow> 's \<Rightarrow> bool) \<Rightarrow> ('s, 'a) smon \<Rightarrow> bool" where
  "spres R m \<longleftrightarrow> (\<forall>s. sholds m s (\<lambda>_. R s))"

lemma spresD: "spres R m \<Longrightarrow> m s = Done (x, s') \<Longrightarrow> R s s'"
  by (simp add: spres_def sholds_def)

lemma spresI: "(\<And>s x s'. m s = Done (x, s') \<Longrightarrow> R s s') \<Longrightarrow> spres R m"
  by (simp add: spres_def sholds_def)

locale state_frame =
  fixes R :: "'s \<Rightarrow> 's \<Rightarrow> bool"
  assumes frame_refl: "R s s"
    and frame_trans: "R s t \<Longrightarrow> R t u \<Longrightarrow> R s u"
begin

lemma spres_ret: "spres R (sret x)"
  by (simp add: spres_def frame_refl)

lemma spres_crash: "spres R scrash"
  by (simp add: spres_def)

lemma spres_get: "spres R sget"
  by (simp add: spres_def frame_refl)

lemma spres_modify: "(\<And>s. R s (f s)) \<Longrightarrow> spres R (smodify f)"
  by (simp add: spres_def)

lemma spres_bind:
  assumes "spres R m" and "\<And>x. spres R (f x)"
  shows "spres R (sbind m f)"
  using assms frame_trans unfolding spres_def sholds_def sbind_def
  by (auto split: outcome.splits) blast

lemma spres_if: "(c \<Longrightarrow> spres R m) \<Longrightarrow> (\<not> c \<Longrightarrow> spres R k) \<Longrightarrow> spres R (if c then m else k)"
  by simp

lemma spres_option:
  "spres R n \<Longrightarrow> (\<And>x. spres R (f x)) \<Longrightarrow> spres R (case v of None \<Rightarrow> n | Some x \<Rightarrow> f x)"
  by (cases v) auto

lemmas spres_intros = spres_ret spres_crash spres_get spres_bind spres_if spres_option

end

section \<open>Hexadecimal printing\<close>

text \<open>What \<open>stream << hex << n\<close> prints: lower-case digits, no leading zeros, "0" for 0.\<close>

definition hex_digit :: "nat \<Rightarrow> char" where
  "hex_digit d = (if d < 10 then char_of (48 + d) else char_of (87 + d))"

fun hex_string :: "nat \<Rightarrow> string" where
  "hex_string n = (if n < 16 then [hex_digit n] else hex_string (n div 16) @ [hex_digit (n mod 16)])"

declare hex_string.simps [simp del]

lemma of_char_hex_digit:
  "d < 16 \<Longrightarrow> (of_char (hex_digit d) :: nat) = (if d < 10 then 48 + d else 87 + d)"
  by (simp add: hex_digit_def)

lemma hex_digit_eq_iff:
  assumes "a < 16" and "b < 16"
  shows "hex_digit a = hex_digit b \<longleftrightarrow> a = b"
proof
  assume "hex_digit a = hex_digit b"
  then have "(of_char (hex_digit a) :: nat) = of_char (hex_digit b)" by simp
  with assms show "a = b" by (simp add: of_char_hex_digit split: if_splits)
qed simp

lemma hex_digit_not_underscore: "a < 16 \<Longrightarrow> hex_digit a \<noteq> CHR ''_''"
proof
  assume a: "a < 16" and "hex_digit a = CHR ''_''"
  then have "(of_char (hex_digit a) :: nat) = 95" by simp
  with a show False by (simp add: of_char_hex_digit split: if_splits)
qed

lemma hex_string_ne [simp]: "hex_string n \<noteq> []"
  by (subst hex_string.simps) simp

lemma hex_string_no_underscore: "CHR ''_'' \<notin> set (hex_string n)"
proof (induction n rule: hex_string.induct)
  case (1 n)
  show ?case
  proof (cases "n < 16")
    case True
    then show ?thesis using hex_digit_not_underscore [of n] by (simp add: hex_string.simps [of n])
  next
    case False
    with 1 hex_digit_not_underscore [of "n mod 16"] show ?thesis
      by (auto simp: hex_string.simps [of n])
  qed
qed

lemma hex_string_inj: "hex_string m = hex_string n \<Longrightarrow> m = n"
proof (induction m arbitrary: n rule: hex_string.induct)
  case (1 m)
  have last: "last (hex_string k) = hex_digit (k mod 16)" for k
    by (subst hex_string.simps) simp
  have butl: "butlast (hex_string k) = (if k < 16 then [] else hex_string (k div 16))" for k
    by (subst hex_string.simps) simp
  have mods: "m mod 16 = n mod 16"
    using arg_cong [OF 1(2), of last] by (simp add: last hex_digit_eq_iff)
  have divs: "(if m < 16 then [] else hex_string (m div 16)) = (if n < 16 then [] else hex_string (n div 16))"
    using arg_cong [OF 1(2), of butlast] by (simp add: butl)
  show ?case
  proof (cases "m < 16")
    case True
    with divs have "n < 16" by (auto split: if_splits dest: sym)
    with True mods show ?thesis by simp
  next
    case False
    with divs have n: "\<not> n < 16" and "hex_string (m div 16) = hex_string (n div 16)"
      by (auto split: if_splits)
    with 1(1) False have "m div 16 = n div 16" by blast
    with mods show ?thesis by (metis div_mod_decomp)
  qed
qed

section \<open>Association lists as maps\<close>

text \<open>
  A \<open>DenseMap\<close> is a list of key-value pairs with distinct keys; \<open>alist_put\<close> is what
  \<open>M[k] = v\<close> does to it. The list order stands for the iteration order, which the source
  leaves unspecified.
\<close>

fun alist_put :: "'k \<Rightarrow> 'v \<Rightarrow> ('k \<times> 'v) list \<Rightarrow> ('k \<times> 'v) list" where
  "alist_put k v [] = [(k, v)]"
| "alist_put k v ((k', v') # m) = (if k = k' then (k, v) # m else (k', v') # alist_put k v m)"

lemma map_of_alist_put [simp]: "map_of (alist_put k v m) = (map_of m)(k \<mapsto> v)"
  by (induction k v m rule: alist_put.induct) auto

lemma keys_alist_put [simp]: "fst ` set (alist_put k v m) = insert k (fst ` set m)"
  by (induction k v m rule: alist_put.induct) auto

lemma distinct_alist_put [simp]:
  "distinct (map fst m) \<Longrightarrow> distinct (map fst (alist_put k v m))"
proof (induction k v m rule: alist_put.induct)
  case (2 k v k' v' m)
  then show ?case using keys_alist_put [of k v m] by auto
qed simp

end
