(* ===== verification/IR.thy ===== *)
theory IR
  imports Prelude
begin

text \<open>
  The part of LLVM's in-memory IR that the analyses read: values identified by their address
  (\<open>vid\<close> is the identity of a \<^verbatim>\<open>Value*\<close>), their kind, type, operands and use lists, and functions
  with their arguments and basic blocks. The opcodes are those of
  \<^verbatim>\<open>include/llvm/IR/Instruction.def\<close>. The analyses never change the IR, so a module is a constant
  argument of every operation.
\<close>

type_synonym vid = nat

datatype opcode =
    ORet | OBr | OSwitch | OIndirectBr | OInvoke | OResume | OUnreachable | OCleanupRet
  | OCatchRet | OCatchSwitch | OCallBr
  | OFNeg
  | OAdd | OFAdd | OSub | OFSub | OMul | OFMul | OUDiv | OSDiv | OFDiv | OURem | OSRem | OFRem
  | OShl | OLShr | OAShr | OAnd | OOr | OXor
  | OAlloca | OLoad | OStore | OGetElementPtr | OFence | OAtomicCmpXchg | OAtomicRMW
  | OTrunc | OZExt | OSExt | OFPToUI | OFPToSI | OUIToFP | OSIToFP | OFPTrunc | OFPExt
  | OPtrToInt | OIntToPtr | OBitCast | OAddrSpaceCast
  | OCleanupPad | OCatchPad
  | OICmp | OFCmp | OPHI | OCall | OSelect | OUserOp1 | OUserOp2 | OVAArg
  | OExtractElement | OInsertElement | OShuffleVector | OExtractValue | OInsertValue | OLandingPad

datatype ir_type = VoidTy | IntTy nat | FloatTy | LabelTy | MetadataTy
  | PointerTy nat ir_type \<comment> \<open>address space, element type\<close>
  | ArrayTy nat ir_type | VectorTy nat ir_type | StructTy "ir_type list"
  | FunctionTy ir_type "ir_type list"

text \<open>The subclass of \<^verbatim>\<open>Value\<close> an object has, as \<^verbatim>\<open>dyn_cast\<close> tests it.\<close>

datatype vkind =
    KArgument nat \<comment> \<open>argument number\<close>
  | KBasicBlock
  | KFunction | KGlobalVariable | KGlobalAlias | KGlobalIFunc
  | KConstantExpr opcode
  | KConstantPointerNull
  | KConstantOther
  | KInstruction opcode
  | KOther \<comment> \<open>inline assembly, metadata wrapped as a value\<close>

record ir_value =
  vkind :: vkind
  vtype :: ir_type
  voperands :: "vid list"
  vuses :: "(vid \<times> nat) list" \<comment> \<open>the use list: user and operand number\<close>
  vname :: string
  vaddr :: "64 word"

record ir_function =
  fargs :: "vid list"
  fblocks :: "vid list list"
  fdecl :: bool

record ir_module =
  mval :: "vid \<Rightarrow> ir_value"
  mfun :: "vid \<Rightarrow> ir_function"

section \<open>Class tests and accessors\<close>

definition is_inst :: "ir_module \<Rightarrow> vid \<Rightarrow> bool" where
  "is_inst M v = (case vkind (mval M v) of KInstruction _ \<Rightarrow> True | _ \<Rightarrow> False)"

definition is_op :: "ir_module \<Rightarrow> opcode \<Rightarrow> vid \<Rightarrow> bool" where
  "is_op M op v = (vkind (mval M v) = KInstruction op)"

text \<open>An \<^verbatim>\<open>Operator\<close> is an instruction or a constant expression with that opcode.\<close>

definition is_operator :: "ir_module \<Rightarrow> opcode \<Rightarrow> vid \<Rightarrow> bool" where
  "is_operator M op v = (vkind (mval M v) = KInstruction op \<or> vkind (mval M v) = KConstantExpr op)"

definition is_argument :: "ir_module \<Rightarrow> vid \<Rightarrow> bool" where
  "is_argument M v = (case vkind (mval M v) of KArgument _ \<Rightarrow> True | _ \<Rightarrow> False)"

definition is_global_variable :: "ir_module \<Rightarrow> vid \<Rightarrow> bool" where
  "is_global_variable M v = (vkind (mval M v) = KGlobalVariable)"

definition is_global_value :: "ir_module \<Rightarrow> vid \<Rightarrow> bool" where
  "is_global_value M v =
     (vkind (mval M v) \<in> {KFunction, KGlobalVariable, KGlobalAlias, KGlobalIFunc})"

definition is_constant :: "ir_module \<Rightarrow> vid \<Rightarrow> bool" where
  "is_constant M v = (case vkind (mval M v) of
      KFunction \<Rightarrow> True | KGlobalVariable \<Rightarrow> True | KGlobalAlias \<Rightarrow> True | KGlobalIFunc \<Rightarrow> True
    | KConstantExpr _ \<Rightarrow> True | KConstantPointerNull \<Rightarrow> True | KConstantOther \<Rightarrow> True | _ \<Rightarrow> False)"

definition users :: "ir_module \<Rightarrow> vid \<Rightarrow> vid list" where
  "users M v = map fst (vuses (mval M v))"

definition operand :: "ir_module \<Rightarrow> vid \<Rightarrow> nat \<Rightarrow> vid option" where
  "operand M v i = (if i < length (voperands (mval M v)) then Some (voperands (mval M v) ! i) else None)"

text \<open>A store's operands are the value and the pointer, a load's the pointer.\<close>

definition store_value :: "ir_module \<Rightarrow> vid \<Rightarrow> vid option" where
  "store_value M v = operand M v 0"

definition store_pointer :: "ir_module \<Rightarrow> vid \<Rightarrow> vid option" where
  "store_pointer M v = operand M v 1"

definition load_pointer :: "ir_module \<Rightarrow> vid \<Rightarrow> vid option" where
  "load_pointer M v = operand M v 0"

text \<open>
  \<^verbatim>\<open>CallBase::getCalledFunction\<close>: the last operand when it is a function, null otherwise.
\<close>

definition called_function :: "ir_module \<Rightarrow> vid \<Rightarrow> vid option" where
  "called_function M v = (case voperands (mval M v) of [] \<Rightarrow> None
    | ops \<Rightarrow> (if vkind (mval M (last ops)) = KFunction then Some (last ops) else None))"

definition is_pointer :: "ir_type \<Rightarrow> bool" where
  "is_pointer t = (case t of PointerTy _ _ \<Rightarrow> True | _ \<Rightarrow> False)"

definition pointer_element :: "ir_type \<Rightarrow> ir_type option" where
  "pointer_element t = (case t of PointerTy _ e \<Rightarrow> Some e | _ \<Rightarrow> None)"

lemmas ir_access_defs = is_inst_def is_op_def is_operator_def is_argument_def
  is_global_variable_def is_global_value_def users_def operand_def store_value_def
  store_pointer_def load_pointer_def called_function_def is_pointer_def pointer_element_def

text \<open>The use lists agree with the operand lists, as \<^verbatim>\<open>Use::set\<close> keeps them.\<close>

definition wf_uses :: "ir_module \<Rightarrow> bool" where
  "wf_uses M \<longleftrightarrow> (\<forall>v u i. (u, i) \<in> set (vuses (mval M v)) \<longleftrightarrow> operand M u i = Some v)"

text \<open>A value with no operands and no uses, from which concrete modules are built.\<close>

definition value0 :: ir_value where
  "value0 = \<lparr>vkind = KOther, vtype = VoidTy, voperands = [], vuses = [], vname = '''', vaddr = 0\<rparr>"

definition function0 :: ir_function where
  "function0 = \<lparr>fargs = [], fblocks = [], fdecl = True\<rparr>"

end
