(* ===== verification/MemAccess.thy ===== *)
theory MemAccess
  imports IR
begin

text \<open>
  The memory SSA form of a function as its clients see it: each memory access is a use, a def or
  a phi, with the instruction it stands for (none for the live-on-entry def), its defining access,
  the incoming accesses of a phi and the list of its users (\<^verbatim>\<open>include/llvm/Analysis/MemorySSA.h\<close>).
\<close>

type_synonym maid = nat

datatype makind = MUse | MDef | MPhi

record maccess =
  makind :: makind
  mainst :: "vid option" \<comment> \<open>\<^verbatim>\<open>getMemoryInst\<close>, null for live-on-entry\<close>
  madefining :: "maid option" \<comment> \<open>\<^verbatim>\<open>getDefiningAccess\<close>\<close>
  maincoming :: "maid list"
  mausers :: "maid list"

text \<open>The live-on-entry def, and accesses over a defining access.\<close>

definition live_on_entry :: maccess where
  "live_on_entry = \<lparr>makind = MDef, mainst = None, madefining = None, maincoming = [], mausers = []\<rparr>"

definition def_of :: "vid \<Rightarrow> maid \<Rightarrow> maccess" where
  "def_of i d = \<lparr>makind = MDef, mainst = Some i, madefining = Some d, maincoming = [], mausers = []\<rparr>"

definition phi_of :: "maid list \<Rightarrow> maccess" where
  "phi_of ds = \<lparr>makind = MPhi, mainst = None, madefining = None, maincoming = ds, mausers = []\<rparr>"

end
