(* ===== verification/ModRef.thy ===== *)
theory ModRef
  imports IR
begin

text \<open>
  The result types of alias queries (\<^verbatim>\<open>include/llvm/Analysis/AliasAnalysis.h\<close>): alias results, the
  three-bit mod/ref information with the inline functions over it, the behaviour of functions, and
  the atomic orderings of \<^verbatim>\<open>include/llvm/Support/AtomicOrdering.h\<close>.
\<close>

section \<open>Alias results\<close>

datatype AliasResult = NoAlias | MayAlias | PartialAlias | MustAlias

definition print_AliasResult :: "AliasResult \<Rightarrow> string" where
  "print_AliasResult r = (case r of NoAlias \<Rightarrow> ''NoAlias'' | MustAlias \<Rightarrow> ''MustAlias''
     | MayAlias \<Rightarrow> ''MayAlias'' | PartialAlias \<Rightarrow> ''PartialAlias'')"

section \<open>Mod/ref information\<close>

datatype ModRefInfo = Must | MustRef | MustMod | MustModRef | NoModRef | Ref | Mod | ModRef

definition mri_bits :: "ModRefInfo \<Rightarrow> 32 word" where
  "mri_bits r = (case r of Must \<Rightarrow> 0 | MustRef \<Rightarrow> 1 | MustMod \<Rightarrow> 2 | MustModRef \<Rightarrow> 3
     | NoModRef \<Rightarrow> 4 | Ref \<Rightarrow> 5 | Mod \<Rightarrow> 6 | ModRef \<Rightarrow> 7)"

text \<open>The cast of an \<^verbatim>\<open>int\<close> back to the enumeration; the operands are below 8.\<close>

definition mri_of_bits :: "32 word \<Rightarrow> ModRefInfo" where
  "mri_of_bits w = (if w = 0 then Must else if w = 1 then MustRef else if w = 2 then MustMod
     else if w = 3 then MustModRef else if w = 4 then NoModRef else if w = 5 then Ref
     else if w = 6 then Mod else ModRef)"

definition isNoModRef :: "ModRefInfo \<Rightarrow> bool" where
  "isNoModRef r = (mri_bits r AND mri_bits MustModRef = mri_bits Must)"

definition isModOrRefSet :: "ModRefInfo \<Rightarrow> bool" where
  "isModOrRefSet r = (mri_bits r AND mri_bits MustModRef \<noteq> 0)"

definition isModAndRefSet :: "ModRefInfo \<Rightarrow> bool" where
  "isModAndRefSet r = (mri_bits r AND mri_bits MustModRef = mri_bits MustModRef)"

definition isModSet :: "ModRefInfo \<Rightarrow> bool" where
  "isModSet r = (mri_bits r AND mri_bits MustMod \<noteq> 0)"

definition isRefSet :: "ModRefInfo \<Rightarrow> bool" where
  "isRefSet r = (mri_bits r AND mri_bits MustRef \<noteq> 0)"

definition isMustSet :: "ModRefInfo \<Rightarrow> bool" where
  "isMustSet r = (\<not> mri_bits r AND mri_bits NoModRef \<noteq> 0)"

definition setMod :: "ModRefInfo \<Rightarrow> ModRefInfo" where
  "setMod r = mri_of_bits (mri_bits r OR mri_bits MustMod)"

definition setRef :: "ModRefInfo \<Rightarrow> ModRefInfo" where
  "setRef r = mri_of_bits (mri_bits r OR mri_bits MustRef)"

definition setMust :: "ModRefInfo \<Rightarrow> ModRefInfo" where
  "setMust r = mri_of_bits (mri_bits r AND mri_bits MustModRef)"

definition setModAndRef :: "ModRefInfo \<Rightarrow> ModRefInfo" where
  "setModAndRef r = mri_of_bits (mri_bits r OR mri_bits MustModRef)"

definition clearMod :: "ModRefInfo \<Rightarrow> ModRefInfo" where
  "clearMod r = mri_of_bits (mri_bits r AND mri_bits Ref)"

definition clearRef :: "ModRefInfo \<Rightarrow> ModRefInfo" where
  "clearRef r = mri_of_bits (mri_bits r AND mri_bits Mod)"

definition clearMust :: "ModRefInfo \<Rightarrow> ModRefInfo" where
  "clearMust r = mri_of_bits (mri_bits r OR mri_bits NoModRef)"

definition unionModRef :: "ModRefInfo \<Rightarrow> ModRefInfo \<Rightarrow> ModRefInfo" where
  "unionModRef r s = mri_of_bits (mri_bits r OR mri_bits s)"

definition intersectModRef :: "ModRefInfo \<Rightarrow> ModRefInfo \<Rightarrow> ModRefInfo" where
  "intersectModRef r s = mri_of_bits (mri_bits r AND mri_bits s)"

lemmas mri_defs = isNoModRef_def isModOrRefSet_def isModAndRefSet_def isModSet_def isRefSet_def
  isMustSet_def setMod_def setRef_def setMust_def setModAndRef_def clearMod_def clearRef_def
  clearMust_def unionModRef_def intersectModRef_def

text \<open>
  The eight values form the lattice of the subsets of three bits, with the code's intersection and
  union as meet and join.
\<close>

lemma mri_of_bits_bits [simp]: "mri_of_bits (mri_bits r) = r"
  by (cases r) (simp_all add: mri_bits_def mri_of_bits_def)

lemma mri_bits_less: "mri_bits r < 8"
  by (cases r) (simp_all add: mri_bits_def)

lemma mri_bits_of_bits: "w < 8 \<Longrightarrow> mri_bits (mri_of_bits w) = w"
proof -
  assume "w < 8"
  then have "unat w < 8" by (simp add: word_less_nat_alt)
  then have "unat w \<in> {0, 1, 2, 3, 4, 5, 6, 7}" by auto
  then have "w \<in> {0, 1, 2, 3, 4, 5, 6, 7}"
    by (auto simp: word_unat_eq_iff)
  then show ?thesis by (auto simp: mri_of_bits_def mri_bits_def)
qed

lemma mri_bits_intersect [simp]: "mri_bits (intersectModRef r s) = mri_bits r AND mri_bits s"
  by (cases r; cases s) (simp_all add: intersectModRef_def mri_bits_def mri_of_bits_def)

lemma mri_bits_union [simp]: "mri_bits (unionModRef r s) = mri_bits r OR mri_bits s"
  by (cases r; cases s) (simp_all add: unionModRef_def mri_bits_def mri_of_bits_def)

lemma mri_eqI: "mri_bits r = mri_bits s \<Longrightarrow> r = s"
  by (metis mri_of_bits_bits)

instantiation ModRefInfo :: lattice
begin

definition inf_ModRefInfo :: "ModRefInfo \<Rightarrow> ModRefInfo \<Rightarrow> ModRefInfo" where
  "inf_ModRefInfo = intersectModRef"

definition sup_ModRefInfo :: "ModRefInfo \<Rightarrow> ModRefInfo \<Rightarrow> ModRefInfo" where
  "sup_ModRefInfo = unionModRef"

definition less_eq_ModRefInfo :: "ModRefInfo \<Rightarrow> ModRefInfo \<Rightarrow> bool" where
  "less_eq_ModRefInfo r s = (intersectModRef r s = r)"

definition less_ModRefInfo :: "ModRefInfo \<Rightarrow> ModRefInfo \<Rightarrow> bool" where
  "less_ModRefInfo r s = (r \<le> s \<and> \<not> s \<le> (r :: ModRefInfo))"

instance
proof
  fix x y z :: ModRefInfo
  have le: "r \<le> s \<longleftrightarrow> mri_bits r AND mri_bits s = mri_bits r" for r s :: ModRefInfo
    unfolding less_eq_ModRefInfo_def by (metis mri_bits_intersect mri_eqI)
  show "x < y \<longleftrightarrow> x \<le> y \<and> \<not> y \<le> x" by (simp add: less_ModRefInfo_def)
  show "x \<le> x" by (simp add: le)
  show "x \<le> z" if "x \<le> y" "y \<le> z"
  proof -
    from that have "mri_bits x AND mri_bits z = mri_bits x AND (mri_bits y AND mri_bits z)"
      unfolding le by (metis (no_types) and.assoc)
    with that show ?thesis by (simp add: le)
  qed
  show "x = y" if "x \<le> y" "y \<le> x"
    using that by (cases x; cases y) (simp_all add: le mri_bits_def)
  show "inf x y \<le> x" "inf x y \<le> y"
    by (simp_all add: le inf_ModRefInfo_def and.commute and.left_commute)
  show "x \<le> y \<Longrightarrow> x \<le> z \<Longrightarrow> x \<le> inf y z"
    unfolding le inf_ModRefInfo_def mri_bits_intersect by (metis (no_types) and.assoc)
  show "x \<le> sup x y" "y \<le> sup x y"
    unfolding le sup_ModRefInfo_def mri_bits_union
    by (rule bit_eqI, auto simp: bit_and_iff bit_or_iff)+
  show "y \<le> x \<Longrightarrow> z \<le> x \<Longrightarrow> sup y z \<le> x"
    unfolding le by (simp add: sup_ModRefInfo_def bit.conj_disj_distrib2)
qed

end

section \<open>The accesses a result allows\<close>

datatype access = AMod | ARef

definition accs :: "ModRefInfo \<Rightarrow> access set" where
  "accs r = (if isModSet r then {AMod} else {}) \<union> (if isRefSet r then {ARef} else {})"

named_theorems mri_simps \<open>the inline functions as operations on sets of accesses\<close>

lemma isNoModRef_accs [mri_simps]: "isNoModRef r \<longleftrightarrow> accs r = {}"
  by (cases r) (simp_all add: accs_def mri_defs mri_bits_def)

lemma isModOrRefSet_accs [mri_simps]: "isModOrRefSet r \<longleftrightarrow> accs r \<noteq> {}"
  by (cases r) (simp_all add: accs_def mri_defs mri_bits_def)

lemma isModSet_accs [mri_simps]: "isModSet r \<longleftrightarrow> AMod \<in> accs r"
  by (simp add: accs_def)

lemma isRefSet_accs [mri_simps]: "isRefSet r \<longleftrightarrow> ARef \<in> accs r"
  by (simp add: accs_def)

lemma accs_intersect [mri_simps]: "accs (intersectModRef r s) = accs r \<inter> accs s"
  by (cases r; cases s) (simp_all add: accs_def mri_defs mri_bits_def mri_of_bits_def)

lemma accs_union [mri_simps]: "accs (unionModRef r s) = accs r \<union> accs s"
  by (cases r; cases s) (auto simp add: accs_def mri_defs mri_bits_def mri_of_bits_def)

lemma accs_set_clear [mri_simps]:
  "accs (clearMod r) = accs r - {AMod}" "accs (clearRef r) = accs r - {ARef}"
  "accs (clearMust r) = accs r" "accs (setMust r) = accs r"
  "accs (setMod r) = insert AMod (accs r)" "accs (setRef r) = insert ARef (accs r)"
  "accs (setModAndRef r) = {AMod, ARef}"
  by (cases r; auto simp: accs_def mri_defs mri_bits_def mri_of_bits_def)+

lemma accs_values [mri_simps]:
  "accs Must = {}" "accs NoModRef = {}" "accs MustRef = {ARef}" "accs Ref = {ARef}"
  "accs MustMod = {AMod}" "accs Mod = {AMod}" "accs MustModRef = {AMod, ARef}"
  "accs ModRef = {AMod, ARef}"
  by (auto simp: accs_def mri_defs mri_bits_def)

lemma accs_subset: "accs r \<subseteq> {AMod, ARef}"
  by (auto simp: accs_def)

lemma access_UNIV: "(UNIV :: access set) = {AMod, ARef}"
  using access.exhaust by auto

section \<open>Behaviour of functions\<close>

type_synonym FMRB = "32 word"

definition FMRL_Nowhere :: "32 word" where "FMRL_Nowhere = 0"
definition FMRL_ArgumentPointees :: "32 word" where "FMRL_ArgumentPointees = 8"
definition FMRL_InaccessibleMem :: "32 word" where "FMRL_InaccessibleMem = 16"
definition FMRL_Anywhere :: "32 word" where
  "FMRL_Anywhere = 32 OR FMRL_InaccessibleMem OR FMRL_ArgumentPointees"

definition FMRB_DoesNotAccessMemory :: FMRB where
  "FMRB_DoesNotAccessMemory = FMRL_Nowhere OR mri_bits NoModRef"
definition FMRB_OnlyReadsArgumentPointees :: FMRB where
  "FMRB_OnlyReadsArgumentPointees = FMRL_ArgumentPointees OR mri_bits Ref"
definition FMRB_OnlyAccessesArgumentPointees :: FMRB where
  "FMRB_OnlyAccessesArgumentPointees = FMRL_ArgumentPointees OR mri_bits ModRef"
definition FMRB_OnlyAccessesInaccessibleMem :: FMRB where
  "FMRB_OnlyAccessesInaccessibleMem = FMRL_InaccessibleMem OR mri_bits ModRef"
definition FMRB_OnlyAccessesInaccessibleOrArgMem :: FMRB where
  "FMRB_OnlyAccessesInaccessibleOrArgMem =
     FMRL_InaccessibleMem OR FMRL_ArgumentPointees OR mri_bits ModRef"
definition FMRB_OnlyReadsMemory :: FMRB where
  "FMRB_OnlyReadsMemory = FMRL_Anywhere OR mri_bits Ref"
definition FMRB_DoesNotReadMemory :: FMRB where
  "FMRB_DoesNotReadMemory = FMRL_Anywhere OR mri_bits Mod"
definition FMRB_UnknownModRefBehavior :: FMRB where
  "FMRB_UnknownModRefBehavior = FMRL_Anywhere OR mri_bits ModRef"

lemmas fmrb_values = FMRL_Nowhere_def FMRL_ArgumentPointees_def FMRL_InaccessibleMem_def
  FMRL_Anywhere_def FMRB_DoesNotAccessMemory_def FMRB_OnlyReadsArgumentPointees_def
  FMRB_OnlyAccessesArgumentPointees_def FMRB_OnlyAccessesInaccessibleMem_def
  FMRB_OnlyAccessesInaccessibleOrArgMem_def FMRB_OnlyReadsMemory_def FMRB_DoesNotReadMemory_def
  FMRB_UnknownModRefBehavior_def mri_bits_def

definition createModRefInfo :: "FMRB \<Rightarrow> ModRefInfo" where
  "createModRefInfo b = mri_of_bits (b AND mri_bits ModRef)"

definition onlyReadsMemory :: "FMRB \<Rightarrow> bool" where
  "onlyReadsMemory b = (\<not> isModSet (createModRefInfo b))"

definition doesNotReadMemory :: "FMRB \<Rightarrow> bool" where
  "doesNotReadMemory b = (\<not> isRefSet (createModRefInfo b))"

definition onlyAccessesArgPointees :: "FMRB \<Rightarrow> bool" where
  "onlyAccessesArgPointees b = (b AND FMRL_Anywhere AND NOT FMRL_ArgumentPointees = 0)"

definition doesAccessArgPointees :: "FMRB \<Rightarrow> bool" where
  "doesAccessArgPointees b =
     (isModOrRefSet (createModRefInfo b) \<and> b AND FMRL_ArgumentPointees \<noteq> 0)"

definition onlyAccessesInaccessibleMem :: "FMRB \<Rightarrow> bool" where
  "onlyAccessesInaccessibleMem b = (b AND FMRL_Anywhere AND NOT FMRL_InaccessibleMem = 0)"

definition doesAccessInaccessibleMem :: "FMRB \<Rightarrow> bool" where
  "doesAccessInaccessibleMem b =
     (isModOrRefSet (createModRefInfo b) \<and> b AND FMRL_InaccessibleMem \<noteq> 0)"

definition onlyAccessesInaccessibleOrArgMem :: "FMRB \<Rightarrow> bool" where
  "onlyAccessesInaccessibleOrArgMem b =
     (b AND FMRL_Anywhere AND NOT (FMRL_InaccessibleMem OR FMRL_ArgumentPointees) = 0)"

text \<open>
  A behaviour allows pairs of a kind of memory and an access. The kinds are the three location
  bits; in any memory other than the argument pointees and the inaccessible one, bit 5.
\<close>

datatype mem_kind = ArgumentMem | InaccessibleMem | OtherMem

definition kind_bit :: "mem_kind \<Rightarrow> nat" where
  "kind_bit k = (case k of ArgumentMem \<Rightarrow> 3 | InaccessibleMem \<Rightarrow> 4 | OtherMem \<Rightarrow> 5)"

definition fmrb_accs :: "FMRB \<Rightarrow> (mem_kind \<times> access) set" where
  "fmrb_accs b = {(k, a). bit b (kind_bit k) \<and> a \<in> accs (createModRefInfo b)}"

lemma and_7_less: "(b :: 32 word) AND 7 < 8"
proof -
  have "b AND 7 \<le> 7" by (simp add: word_and_le1)
  then show ?thesis by (rule le_less_trans) simp
qed

lemma mri_bits_create: "mri_bits (createModRefInfo b) = b AND 7"
proof -
  have "mri_bits ModRef = 7" by (simp add: mri_bits_def)
  then show ?thesis unfolding createModRefInfo_def
    by (simp add: mri_bits_of_bits and_7_less)
qed

lemma word_and_2_bit: "w AND 2 \<noteq> 0 \<longleftrightarrow> bit (w :: 32 word) 1"
proof -
  have "(2 :: 32 word) = 2 ^ 1" by simp
  then show ?thesis by (metis and_exp_eq_0_iff_not_bit)
qed

lemma word_and_1_bit: "w AND 1 \<noteq> 0 \<longleftrightarrow> bit (w :: 32 word) 0"
proof -
  have "(1 :: 32 word) = 2 ^ 0" by simp
  then show ?thesis by (metis and_exp_eq_0_iff_not_bit)
qed

lemma bit_7_word: "bit (7 :: 32 word) n \<longleftrightarrow> n < 3"
proof -
  have eq: "(7 :: 32 word) = mask 3" by (simp add: mask_eq_exp_minus_1)
  show ?thesis unfolding eq bit_mask_iff by auto
qed

lemma accs_create: "a \<in> accs (createModRefInfo b) \<longleftrightarrow> bit b (case a of AMod \<Rightarrow> 1 | ARef \<Rightarrow> 0)"
proof -
  have m: "mri_bits MustMod = 2" "mri_bits MustRef = 1" by (simp_all add: mri_bits_def)
  have "isModSet (createModRefInfo b) \<longleftrightarrow> bit b 1"
    unfolding isModSet_def mri_bits_create m word_and_2_bit by (simp add: bit_and_iff bit_7_word)
  moreover have "isRefSet (createModRefInfo b) \<longleftrightarrow> bit b 0"
    unfolding isRefSet_def mri_bits_create m word_and_1_bit by (simp add: bit_and_iff bit_7_word)
  ultimately show ?thesis by (cases a) (simp_all add: accs_def)
qed

lemma fmrb_accs_and: "fmrb_accs (b AND c) = fmrb_accs b \<inter> fmrb_accs c"
  by (auto simp: fmrb_accs_def accs_create bit_and_iff)

lemma bit_FMRL [simp]:
  "bit FMRL_ArgumentPointees n \<longleftrightarrow> n = 3" "bit FMRL_InaccessibleMem n \<longleftrightarrow> n = 4"
  "bit FMRL_Anywhere n \<longleftrightarrow> n = 3 \<or> n = 4 \<or> n = 5"
proof -
  have e: "(8 :: 32 word) = push_bit 3 1" "(16 :: 32 word) = push_bit 4 1" "(32 :: 32 word) = push_bit 5 1"
    by (simp_all add: push_bit_eq_mult)
  have b: "bit (push_bit k (1 :: 32 word)) n \<longleftrightarrow> n = k" if "k < 32" for k
    using that by (auto simp: push_bit_eq_mult bit_exp_iff)
  show "bit FMRL_ArgumentPointees n \<longleftrightarrow> n = 3" "bit FMRL_InaccessibleMem n \<longleftrightarrow> n = 4"
    unfolding FMRL_ArgumentPointees_def FMRL_InaccessibleMem_def e by (rule b, simp)+
  moreover have "bit (32 :: 32 word) n \<longleftrightarrow> n = 5"
    unfolding e by (rule b) simp
  ultimately show "bit FMRL_Anywhere n \<longleftrightarrow> n = 3 \<or> n = 4 \<or> n = 5"
    unfolding FMRL_Anywhere_def bit_or_iff by blast
qed

lemma word32_eq_0_iff: "w = 0 \<longleftrightarrow> (\<forall>n. \<not> bit (w :: 32 word) n)"
  by (metis bit_0_eq bit_eqI bot_apply bot_bool_def)

lemma only_accesses_bits:
  "onlyAccessesArgPointees b \<longleftrightarrow> \<not> bit b 4 \<and> \<not> bit b 5"
  "onlyAccessesInaccessibleMem b \<longleftrightarrow> \<not> bit b 3 \<and> \<not> bit b 5"
  "onlyAccessesInaccessibleOrArgMem b \<longleftrightarrow> \<not> bit b 5"
  unfolding onlyAccessesArgPointees_def onlyAccessesInaccessibleMem_def
    onlyAccessesInaccessibleOrArgMem_def word32_eq_0_iff
  by (auto simp: bit_and_iff bit_or_iff bit_not_iff_eq dest: spec [of _ 3] spec [of _ 4] spec [of _ 5])

lemma does_access_bits:
  "doesAccessArgPointees b \<longleftrightarrow> bit b 3 \<and> accs (createModRefInfo b) \<noteq> {}"
  "doesAccessInaccessibleMem b \<longleftrightarrow> bit b 4 \<and> accs (createModRefInfo b) \<noteq> {}"
  unfolding doesAccessArgPointees_def doesAccessInaccessibleMem_def word32_eq_0_iff
  by (auto simp: bit_and_iff mri_simps)

lemmas fmrb_only_simps = onlyReadsMemory_def doesNotReadMemory_def only_accesses_bits does_access_bits

lemma fmrb_accs_none: "fmrb_accs FMRB_DoesNotAccessMemory = {}"
  by (auto simp: fmrb_accs_def createModRefInfo_def fmrb_values mri_of_bits_def accs_def mri_defs)

lemma fmrb_accs_unknown: "fmrb_accs FMRB_UnknownModRefBehavior = UNIV"
proof -
  have "accs (createModRefInfo FMRB_UnknownModRefBehavior) = UNIV"
    by (simp add: createModRefInfo_def fmrb_values mri_of_bits_def accs_values access_UNIV)
  moreover have "bit FMRB_UnknownModRefBehavior (kind_bit k)" for k
    unfolding FMRB_UnknownModRefBehavior_def bit_or_iff by (cases k) (simp_all add: kind_bit_def)
  ultimately show ?thesis by (simp add: fmrb_accs_def)
qed

section \<open>Atomic orderings\<close>

datatype AtomicOrdering = NotAtomic | Unordered | Monotonic | Acquire | Release
  | AcquireRelease | SequentiallyConsistent

text \<open>The row and column of an ordering in the tables; number 3 (consume) is not used.\<close>

definition ordering_index :: "AtomicOrdering \<Rightarrow> nat" where
  "ordering_index ao = (case ao of NotAtomic \<Rightarrow> 0 | Unordered \<Rightarrow> 1 | Monotonic \<Rightarrow> 2 | Acquire \<Rightarrow> 4
     | Release \<Rightarrow> 5 | AcquireRelease \<Rightarrow> 6 | SequentiallyConsistent \<Rightarrow> 7)"

definition isStrongerThan :: "AtomicOrdering \<Rightarrow> AtomicOrdering \<Rightarrow> bool" where
  "isStrongerThan ao other =
     (let lookup =
        [[False, False, False, False, False, False, False, False],
         [True, False, False, False, False, False, False, False],
         [True, True, False, False, False, False, False, False],
         [True, True, True, False, False, False, False, False],
         [True, True, True, True, False, False, False, False],
         [True, True, True, False, False, False, False, False],
         [True, True, True, True, True, True, False, False],
         [True, True, True, True, True, True, True, False]]
      in lookup ! ordering_index ao ! ordering_index other)"

definition isAtLeastOrStrongerThan :: "AtomicOrdering \<Rightarrow> AtomicOrdering \<Rightarrow> bool" where
  "isAtLeastOrStrongerThan ao other =
     (let lookup =
        [[True, False, False, False, False, False, False, False],
         [True, True, False, False, False, False, False, False],
         [True, True, True, False, False, False, False, False],
         [True, True, True, True, False, False, False, False],
         [True, True, True, True, True, False, False, False],
         [True, True, True, False, False, True, False, False],
         [True, True, True, True, True, True, True, False],
         [True, True, True, True, True, True, True, True]]
      in lookup ! ordering_index ao ! ordering_index other)"

definition isStrongerThanMonotonic :: "AtomicOrdering \<Rightarrow> bool" where
  "isStrongerThanMonotonic ao = isStrongerThan ao Monotonic"

definition isStrongerThanUnordered :: "AtomicOrdering \<Rightarrow> bool" where
  "isStrongerThanUnordered ao = isStrongerThan ao Unordered"

lemma weakly_ordered: "\<not> isStrongerThan ao Unordered \<longleftrightarrow> ao \<in> {NotAtomic, Unordered}"
  by (cases ao) (simp_all add: isStrongerThan_def ordering_index_def)

end
