(* ===== verification/Escape.thy ===== *)
theory Escape
  imports MemAccess ModRef
begin

text \<open>
  The escape analysis of \<^verbatim>\<open>lib/Transforms/Escape/Escape.cpp\<close>: the two recursive searches over the
  use lists and over memory SSA, the per-function transformation and the passes that run it.

  The C++ methods call each other without a bound on the recursion, so each is a body over a
  parameter \<open>rec\<close> that stands for the recursive calls, and \<open>esc_run\<close> closes the recursion with
  fuel. The object's fields and the static set \<open>analyzing\<close> are the state; alias results, the memory
  SSA form and type sizes come from other analyses and are fields of the environment.
\<close>

section \<open>Data\<close>

datatype EscapeType = GlobalEscape | LocalEscape | NoEscape

definition GO_HEAP_CALL :: string where
  "GO_HEAP_CALL = ''__go_new''"

definition GO_LIB_PREFIX :: string where
  "GO_LIB_PREFIX = ''__go_''"

text \<open>
  \<open>getId\<close>: the name of an instruction (nothing for other values), an underscore, and the low 16
  bits of the value's address in hexadecimal.
\<close>

definition getId :: "ir_module \<Rightarrow> vid \<Rightarrow> string" where
  "getId M v =
     (let idn = vaddr (mval M v) AND 0xffff; stream = hex_string (unat idn)
      in if is_inst M v then vname (mval M v) @ ''_'' @ stream else ''_'' @ stream)"

definition getBottom :: EscapeType where
  "getBottom = GlobalEscape"

text \<open>A \<open>Summary\<close> is the vector of its arguments' verdicts; reading past its end is undefined.\<close>

type_synonym summary = "EscapeType list"

definition Summary_init :: "nat \<Rightarrow> summary" where
  "Summary_init n = replicate n getBottom"

definition Summary_get :: "summary \<Rightarrow> nat \<Rightarrow> ('s, EscapeType) smon" where
  "Summary_get sm i = (if i < length sm then sret (sm ! i) else scrash)"

text \<open>\<open>getSummary\<close> returns null whatever the map holds, and \<open>putSummary\<close> stores nothing.\<close>

type_synonym escape_cache = "vid \<rightharpoonup> summary"

definition getSummary :: "escape_cache \<Rightarrow> vid \<Rightarrow> summary option" where
  "getSummary cache ctx = None"

definition putSummary :: "escape_cache \<Rightarrow> vid \<Rightarrow> summary \<Rightarrow> escape_cache" where
  "putSummary cache ctx sm = cache"

record esc_env =
  emod :: ir_module
  eacc :: "maid \<Rightarrow> maccess"
  ememacc :: "vid \<Rightarrow> vid \<Rightarrow> maid option" \<comment> \<open>\<^verbatim>\<open>mssa().getMemoryAccess\<close> in a function\<close>
  ealias :: "vid \<Rightarrow> vid \<Rightarrow> nat \<Rightarrow> vid \<Rightarrow> nat \<Rightarrow> AliasResult" \<comment> \<open>\<^verbatim>\<open>aa().alias\<close> in a function\<close>
  esize :: "ir_type \<Rightarrow> nat" \<comment> \<open>\<^verbatim>\<open>DataLayout::getTypeAllocSize\<close>\<close>
  ecache :: "escape_cache option" \<comment> \<open>the cache pointer, null in the per-function pass\<close>

datatype out_line = Header string | Verdict string string EscapeType

record esc_state =
  trackList :: "string set"
  analyzing :: "vid set"
  current :: vid
  outs :: "out_line list"

type_synonym 'a esc = "(esc_state, 'a) smon"

datatype esc_call =
    Track vid bool
  | Backward maid
  | Forward maid vid
  | ResultFor vid vid
  | Transform vid

type_synonym esc_rec = "esc_call \<Rightarrow> EscapeType esc"

definition lift_outcome :: "'a outcome \<Rightarrow> 'a esc" where
  "lift_outcome r = (\<lambda>s. case r of Done x \<Rightarrow> Done (x, s) | Crash \<Rightarrow> Crash | OutOfFuel \<Rightarrow> OutOfFuel)"

definition operand_esc :: "vid option \<Rightarrow> vid esc" where
  "operand_esc v = (case v of None \<Rightarrow> scrash | Some x \<Rightarrow> sret x)"

section \<open>foundEscape\<close>

text \<open>The loop over the incoming values of a phi stops at the first that escapes.\<close>

fun first_escape :: "('v \<Rightarrow> EscapeType outcome) \<Rightarrow> 'v list \<Rightarrow> EscapeType outcome" where
  "first_escape f [] = Done NoEscape"
| "first_escape f (v # vs) =
     (case f v of
        Done e \<Rightarrow> (if e \<noteq> NoEscape then Done e else first_escape f vs)
      | Crash \<Rightarrow> Crash
      | OutOfFuel \<Rightarrow> OutOfFuel)"

definition on_operand0 :: "ir_module \<Rightarrow> (vid \<Rightarrow> 'a outcome) \<Rightarrow> vid \<Rightarrow> 'a outcome" where
  "on_operand0 M f v = (case operand M v 0 of None \<Rightarrow> Crash | Some x \<Rightarrow> f x)"

fun foundEscape :: "ir_module \<Rightarrow> nat \<Rightarrow> vid \<Rightarrow> EscapeType outcome" where
  "foundEscape M 0 v = OutOfFuel"
| "foundEscape M (Suc n) v =
     (if is_op M OBitCast v then on_operand0 M (foundEscape M n) v
      else if is_op M OGetElementPtr v then on_operand0 M (foundEscape M n) v
      else if is_op M OPHI v then first_escape (foundEscape M n) (voperands (mval M v))
      else if is_operator M OBitCast v then on_operand0 M (foundEscape M n) v
      else if is_operator M OGetElementPtr v then on_operand0 M (foundEscape M n) v
      else if is_global_variable M v then Done GlobalEscape
      else if is_argument M v then Done LocalEscape
      else Done NoEscape)"

declare foundEscape.simps(2) [simp del]

section \<open>backward\<close>

fun backward_incoming :: "esc_rec \<Rightarrow> maid list \<Rightarrow> EscapeType esc" where
  "backward_incoming rec [] = sret NoEscape"
| "backward_incoming rec (a # as) =
     sbind (rec (Backward a)) (\<lambda>escaping.
       if escaping \<noteq> NoEscape then sret escaping else backward_incoming rec as)"

definition backward_body ::
  "esc_env \<Rightarrow> (vid \<Rightarrow> EscapeType outcome) \<Rightarrow> esc_rec \<Rightarrow> maid \<Rightarrow> EscapeType esc" where
  "backward_body E fe rec ma =
     (let M = emod E; a = eacc E ma in
      if makind a = MUse \<or> makind a = MDef then
        (case mainst a of
           None \<Rightarrow> sret NoEscape
         | Some val \<Rightarrow>
             if is_op M OCall val then rec (Track val True)
             else
               sbind (if is_op M OStore val
                      then sbind (operand_esc (store_pointer M val)) (\<lambda>p. lift_outcome (fe p))
                      else sret NoEscape)
                 (\<lambda>escaping.
                   if escaping = GlobalEscape then sret GlobalEscape
                   else if escaping = LocalEscape then sret LocalEscape
                   else sbind (operand_esc (madefining a)) (\<lambda>d. rec (Backward d))))
      else backward_incoming rec (maincoming a))"

section \<open>resultFor\<close>

text \<open>
  A nested \<open>EscapeAnalysis\<close> object has a \<open>trackList\<close> of its own and sets its own \<open>current\<close>;
  \<open>analyzing\<close> is static and shared.
\<close>

definition nested :: "'a esc \<Rightarrow> 'a esc" where
  "nested m = sbind sget (\<lambda>s0.
     sbind (smodify (\<lambda>s. s\<lparr>trackList := {}\<rparr>)) (\<lambda>_.
     sbind m (\<lambda>x.
     sbind (smodify (\<lambda>s. s\<lparr>trackList := trackList s0, current := current s0\<rparr>)) (\<lambda>_.
     sret x))))"

text \<open>The loop over the callee's formal arguments with the summary pointer.\<close>

fun summary_loop :: "summary option \<Rightarrow> vid \<Rightarrow> nat \<Rightarrow> vid list \<Rightarrow> EscapeType esc" where
  "summary_loop sm v i [] = sret NoEscape"
| "summary_loop sm v i (arg # args) =
     (if arg = v then
        (case sm of
           None \<Rightarrow> scrash \<comment> \<open>\<^verbatim>\<open>summary->get\<close> on a null pointer\<close>
         | Some t \<Rightarrow> sbind (Summary_get t i) (\<lambda>e.
             if e = GlobalEscape then sret GlobalEscape else summary_loop sm v (Suc i) args))
      else summary_loop sm v (Suc i) args)"

definition resultFor_body :: "esc_env \<Rightarrow> esc_rec \<Rightarrow> vid \<Rightarrow> vid \<Rightarrow> EscapeType esc" where
  "resultFor_body E rec call v =
     (let M = emod E in
      case called_function M call of
        None \<Rightarrow> sret GlobalEscape
      | Some func \<Rightarrow>
          if fdecl (mfun M func) then sret NoEscape
          else (case ecache E of
              None \<Rightarrow> sret GlobalEscape
            | Some cache \<Rightarrow> sbind sget (\<lambda>s.
                if func \<in> analyzing s then sret GlobalEscape
                else
                  sbind (if getSummary cache func = None
                         then sbind (nested (rec (Transform func))) (\<lambda>_. sret ())
                         else sret ())
                    (\<lambda>_. summary_loop (getSummary cache func) v 0 (fargs (mfun M func))))))"

section \<open>forward\<close>

text \<open>
  The alias query for two pointers with their pointee sizes; a null \<^verbatim>\<open>PointerType*\<close> is dereferenced
  when one of them is not a pointer.
\<close>

definition alias_query :: "esc_env \<Rightarrow> vid \<Rightarrow> vid \<Rightarrow> AliasResult esc" where
  "alias_query E ptr loc =
     (case (pointer_element (vtype (mval (emod E) ptr)), pointer_element (vtype (mval (emod E) loc))) of
        (Some pt, Some lt) \<Rightarrow>
          sbind sget (\<lambda>s. sret (ealias E (current s) ptr (esize E pt) loc (esize E lt)))
      | _ \<Rightarrow> scrash)"

text \<open>The loop over the callee's arguments: each aliasing one overwrites the result.\<close>

fun forward_args :: "esc_env \<Rightarrow> esc_rec \<Rightarrow> vid \<Rightarrow> vid \<Rightarrow> EscapeType \<Rightarrow> vid list \<Rightarrow> EscapeType esc" where
  "forward_args E rec call loc escaping [] = sret escaping"
| "forward_args E rec call loc escaping (arg # args) =
     sbind (alias_query E arg loc) (\<lambda>ar.
       if ar \<noteq> NoAlias
       then sbind (rec (ResultFor call arg)) (\<lambda>e. forward_args E rec call loc e args)
       else forward_args E rec call loc escaping args)"

definition forward_user :: "esc_env \<Rightarrow> esc_rec \<Rightarrow> vid \<Rightarrow> maid \<Rightarrow> EscapeType esc" where
  "forward_user E rec loc user =
     (let M = emod E; a = eacc E user in
      case makind a of
        MUse \<Rightarrow> (case mainst a of
            None \<Rightarrow> sret GlobalEscape
          | Some val \<Rightarrow>
              if is_op M OLoad val then
                sbind (operand_esc (load_pointer M val)) (\<lambda>ptr.
                sbind (alias_query E ptr loc) (\<lambda>ar.
                  if ar \<noteq> NoAlias then rec (Track val False) else sret NoEscape))
              else sret GlobalEscape)
      | MPhi \<Rightarrow> rec (Forward user loc)
      | MDef \<Rightarrow> (case mainst a of
            None \<Rightarrow> sret NoEscape
          | Some val \<Rightarrow>
              if is_op M OStore val then
                sbind (operand_esc (store_pointer M val)) (\<lambda>ptr.
                sbind (alias_query E ptr loc) (\<lambda>ar.
                  if ar \<noteq> MustAlias then rec (Forward user loc) else sret NoEscape))
              else if is_op M OCall val then
                (case called_function M val of
                   None \<Rightarrow> sret GlobalEscape
                 | Some func \<Rightarrow>
                     if fdecl (mfun M func) then sret NoEscape
                     else forward_args E rec val loc NoEscape (fargs (mfun M func)))
              else sret GlobalEscape))"

text \<open>Every iteration starts with \<open>escaping = NoEscape\<close>, since the loop stops at anything else.\<close>

fun forward_loop :: "esc_env \<Rightarrow> esc_rec \<Rightarrow> vid \<Rightarrow> maid list \<Rightarrow> EscapeType esc" where
  "forward_loop E rec loc [] = sret NoEscape"
| "forward_loop E rec loc (u # us) =
     sbind (forward_user E rec loc u) (\<lambda>escaping.
       if escaping \<noteq> NoEscape then sret escaping else forward_loop E rec loc us)"

definition forward_body :: "esc_env \<Rightarrow> esc_rec \<Rightarrow> maid \<Rightarrow> vid \<Rightarrow> EscapeType esc" where
  "forward_body E rec m loc = forward_loop E rec loc (mausers (eacc E m))"

section \<open>track\<close>

text \<open>
  One user of the tracked value. \<open>Returned\<close> is the early return at a load, which skips the rest of
  the loop and the \<open>trackList\<close> clean-up after it. The phi test looks at the tracked value, not at
  the user, as in the source.
\<close>

datatype loop_exit = Fell EscapeType | Returned EscapeType

definition track_user :: "esc_env \<Rightarrow> esc_rec \<Rightarrow> vid \<Rightarrow> vid \<Rightarrow> loop_exit esc" where
  "track_user E rec v user =
     (let M = emod E; fell = (\<lambda>m. sbind m (\<lambda>e. sret (Fell e))) in
      if is_op M OBitCast user then fell (rec (Track user False))
      else if is_op M OGetElementPtr user then fell (rec (Track user False))
      else if is_op M OPHI v then fell (rec (Track v False))
      else if is_op M OStore user then
        sbind (operand_esc (store_value M user)) (\<lambda>sv.
          if getId M sv = getId M v then
            sbind sget (\<lambda>s.
            sbind (operand_esc (ememacc E (current s) user)) (\<lambda>m.
            sbind (rec (Backward m)) (\<lambda>escaping.
              if escaping = NoEscape
              then sbind (operand_esc (store_pointer M user)) (\<lambda>p. fell (rec (Forward m p)))
              else sret (Fell escaping))))
          else sret (Fell NoEscape))
      else if is_op M OLoad user then sret (Returned NoEscape)
      else if is_op M OInsertValue user then fell (rec (Track user False))
      else if is_op M OExtractValue user then fell (rec (Track user False))
      else if is_op M OICmp user then sret (Fell NoEscape)
      else if is_op M OCall user then fell (rec (ResultFor user v))
      else sret (Fell LocalEscape))"

fun track_loop :: "esc_env \<Rightarrow> esc_rec \<Rightarrow> vid \<Rightarrow> vid list \<Rightarrow> loop_exit esc" where
  "track_loop E rec v [] = sret (Fell NoEscape)"
| "track_loop E rec v (u # us) =
     sbind (track_user E rec v u) (\<lambda>r. case r of
         Returned e \<Rightarrow> sret (Returned e)
       | Fell e \<Rightarrow> (if e \<noteq> NoEscape then sret (Fell e) else track_loop E rec v us))"

definition track_body :: "esc_env \<Rightarrow> esc_rec \<Rightarrow> vid \<Rightarrow> bool \<Rightarrow> EscapeType esc" where
  "track_body E rec v isRoot =
     (let M = emod E in
      sbind sget (\<lambda>s.
        if isRoot \<and> getId M v \<in> trackList s then sret NoEscape
        else
          sbind (smodify (\<lambda>s. if isRoot then s\<lparr>trackList := insert (getId M v) (trackList s)\<rparr> else s)) (\<lambda>_.
          sbind (track_loop E rec v (users M v)) (\<lambda>r. case r of
              Returned e \<Rightarrow> sret e
            | Fell e \<Rightarrow>
                sbind (smodify (\<lambda>s. if isRoot then s\<lparr>trackList := trackList s - {getId M v}\<rparr> else s)) (\<lambda>_.
                sret e)))))"

section \<open>transform\<close>

fun transform_args :: "esc_rec \<Rightarrow> vid list \<Rightarrow> summary esc" where
  "transform_args rec [] = sret []"
| "transform_args rec (a # as) =
     sbind (rec (Track a True)) (\<lambda>e. sbind (transform_args rec as) (\<lambda>es. sret (e # es)))"

definition is_heap_call :: "ir_module \<Rightarrow> vid \<Rightarrow> bool" where
  "is_heap_call M i = (is_op M OCall i \<and>
     (case called_function M i of None \<Rightarrow> False | Some f \<Rightarrow> vname (mval M f) = GO_HEAP_CALL))"

definition transform_inst :: "esc_env \<Rightarrow> esc_rec \<Rightarrow> vid \<Rightarrow> unit esc" where
  "transform_inst E rec i =
     (let M = emod E in
      if is_heap_call M i then
        sbind (smodify (\<lambda>s. s\<lparr>trackList := {}\<rparr>)) (\<lambda>_.
        sbind (rec (Track i True)) (\<lambda>res.
        smodify (\<lambda>s. s\<lparr>outs := outs s @
          [Verdict (vname (mval M i))
             (case users M i of [] \<Rightarrow> '''' | u # _ \<Rightarrow> vname (mval M u)) res]\<rparr>)))
      else sret ())"

fun transform_insts :: "esc_env \<Rightarrow> esc_rec \<Rightarrow> vid list \<Rightarrow> unit esc" where
  "transform_insts E rec [] = sret ()"
| "transform_insts E rec (i # is) = sbind (transform_inst E rec i) (\<lambda>_. transform_insts E rec is)"

definition transform_body :: "esc_env \<Rightarrow> esc_rec \<Rightarrow> vid \<Rightarrow> summary esc" where
  "transform_body E rec F =
     (let f = mfun (emod E) F in
      sbind (smodify (\<lambda>s. s\<lparr>current := F, analyzing := insert F (analyzing s)\<rparr>)) (\<lambda>_.
      sbind (transform_args rec (fargs f)) (\<lambda>summary.
      sbind (transform_insts E rec (concat (fblocks f))) (\<lambda>_.
      \<comment> \<open>\<open>cache->putSummary(Context(F), summary)\<close>, which changes nothing\<close>
      sbind (smodify (\<lambda>s. s\<lparr>analyzing := analyzing s - {F}\<rparr>)) (\<lambda>_.
      sret summary)))))"

section \<open>Closing the recursion\<close>

definition esc_body :: "esc_env \<Rightarrow> nat \<Rightarrow> esc_rec \<Rightarrow> esc_rec" where
  "esc_body E n rec c = (case c of
       Track v r \<Rightarrow> track_body E rec v r
     | Backward m \<Rightarrow> backward_body E (foundEscape (emod E) n) rec m
     | Forward m l \<Rightarrow> forward_body E rec m l
     | ResultFor call v \<Rightarrow> resultFor_body E rec call v
     | Transform F \<Rightarrow> sbind (transform_body E rec F) (\<lambda>_. sret NoEscape))"

fun esc_run :: "esc_env \<Rightarrow> nat \<Rightarrow> esc_rec" where
  "esc_run E 0 c = (\<lambda>s. OutOfFuel)"
| "esc_run E (Suc n) c = esc_body E n (esc_run E n) c"

declare esc_run.simps(2) [simp del]

section \<open>The passes\<close>

definition has_prefix :: "string \<Rightarrow> string \<Rightarrow> bool" where
  "has_prefix p s = (take (length p) s = p)"

definition runOnFunction :: "esc_env \<Rightarrow> nat \<Rightarrow> vid \<Rightarrow> unit esc" where
  "runOnFunction E n F =
     (let name = vname (mval (emod E) F) in
      if has_prefix GO_LIB_PREFIX name then sret ()
      else
        sbind (smodify (\<lambda>s. s\<lparr>outs := outs s @ [Header name]\<rparr>)) (\<lambda>_.
        sbind (nested (transform_body E (esc_run E n) F)) (\<lambda>_. sret ())))"

fun runOnModule :: "esc_env \<Rightarrow> nat \<Rightarrow> vid list \<Rightarrow> unit esc" where
  "runOnModule E n [] = sret ()"
| "runOnModule E n (F # Fs) =
     (if fdecl (mfun (emod E) F) then runOnModule E n Fs
      else if \<not> has_prefix ''main.'' (vname (mval (emod E) F)) then runOnModule E n Fs
      else sbind (transform_body E (esc_run E n) F) (\<lambda>_. runOnModule E n Fs))"

text \<open>
  The \<open>try\<close> pass prints the alias result of every ordered pair of instructions of each block of
  \<^verbatim>\<open>main.fooo\<close>, with both sizes 8.
\<close>

definition try_runOnFunction ::
  "ir_module \<Rightarrow> (vid \<Rightarrow> nat \<Rightarrow> vid \<Rightarrow> nat \<Rightarrow> AliasResult) \<Rightarrow> vid \<Rightarrow> (string \<times> string \<times> AliasResult) list" where
  "try_runOnFunction M alias F =
     (if vname (mval M F) \<noteq> ''main.fooo'' then []
      else concat (map (\<lambda>bb. concat (map (\<lambda>i. map (\<lambda>j.
             (vname (mval M i), vname (mval M j), alias i 8 j 8)) bb) bb)) (fblocks (mfun M F))))"

definition esc_init :: esc_state where
  "esc_init = \<lparr>trackList = {}, analyzing = {}, current = 0, outs = []\<rparr>"

end
