(* ===== verification/EscapeFuel.thy ===== *)
theory EscapeFuel
  imports Escape
begin

text \<open>
  Facts about \<open>esc_run\<close> that hold for every call: the answer does not depend on the fuel, and what
  each call may change of the analysis object's fields.
\<close>

section \<open>More fuel refines\<close>

lemma refines_if: "refines a a' \<Longrightarrow> refines b b' \<Longrightarrow> refines (if c then a else b) (if c then a' else b')"
  by simp

lemma foundEscape_mono: "refines (foundEscape M n v) (foundEscape M (Suc n) v)"
proof (induction n arbitrary: v)
  case 0
  then show ?case by (simp add: refines_def)
next
  case (Suc n)
  have fe: "refines (first_escape (foundEscape M n) vs) (first_escape (foundEscape M (Suc n)) vs)" for vs
  proof (induction vs)
    case (Cons v vs)
    from Suc.IH [of v] Cons show ?case
      by (auto simp: refines_def split: outcome.splits)
  qed simp
  have op: "refines (on_operand0 M (foundEscape M n) v) (on_operand0 M (foundEscape M (Suc n)) v)"
    using Suc.IH by (auto simp: on_operand0_def split: option.splits)
  show ?case
    unfolding foundEscape.simps(2) [of M n v] foundEscape.simps(2) [of M "Suc n" v]
    by (intro refines_if fe op refines_refl)
qed

lemma foundEscape_mono_le:
  "foundEscape M n v = r \<Longrightarrow> r \<noteq> OutOfFuel \<Longrightarrow> n \<le> m \<Longrightarrow> foundEscape M m v = r"
proof (induction m)
  case (Suc m)
  then show ?case
    using foundEscape_mono [of M m v] by (cases "n = Suc m") (auto simp: refines_def)
qed simp

lemma foundEscape_deterministic:
  assumes "foundEscape M n v = r" "r \<noteq> OutOfFuel" "foundEscape M m v = r'" "r' \<noteq> OutOfFuel"
  shows "r = r'"
  using assms foundEscape_mono_le [of M n v r "max n m"] foundEscape_mono_le [of M m v r' "max n m"]
  by simp

lemma srefines_lift [refine_intros]: "refines a b \<Longrightarrow> srefines (lift_outcome a) (lift_outcome b)"
  by (auto simp: srefines_def refines_def lift_outcome_def)

definition rec_le :: "esc_rec \<Rightarrow> esc_rec \<Rightarrow> bool" where
  "rec_le rec rec' \<longleftrightarrow> (\<forall>c. srefines (rec c) (rec' c))"

lemma rec_leD: "rec_le rec rec' \<Longrightarrow> srefines (rec c) (rec' c)"
  by (simp add: rec_le_def)

text \<open>Each body is monotone in the recursive calls.\<close>

lemma backward_incoming_mono:
  assumes le: "rec_le rec rec'"
  shows "srefines (backward_incoming rec as) (backward_incoming rec' as)"
  by (induction as) (auto intro!: refine_intros rec_leD [OF le])


lemma backward_body_mono:
  assumes le: "rec_le rec rec'" and fe: "\<And>v. refines (fe v) (fe' v)"
  shows "srefines (backward_body E fe rec m) (backward_body E fe' rec' m)"
  unfolding backward_body_def Let_def
  by (auto intro!: refine_intros rec_leD [OF le] backward_incoming_mono [OF le] fe)


lemma resultFor_body_mono:
  assumes le: "rec_le rec rec'"
  shows "srefines (resultFor_body E rec call v) (resultFor_body E rec' call v)"
  unfolding resultFor_body_def Let_def nested_def
  by (auto intro!: refine_intros rec_leD [OF le])


lemma forward_args_mono:
  assumes le: "rec_le rec rec'"
  shows "srefines (forward_args E rec call loc e args) (forward_args E rec' call loc e args)"
  by (induction args arbitrary: e) (auto intro!: refine_intros rec_leD [OF le])


lemma forward_user_mono:
  assumes le: "rec_le rec rec'"
  shows "srefines (forward_user E rec loc u) (forward_user E rec' loc u)"
  unfolding forward_user_def Let_def
  by (cases "makind (eacc E u)") (auto intro!: refine_intros rec_leD [OF le] forward_args_mono [OF le])


lemma forward_body_mono:
  assumes le: "rec_le rec rec'"
  shows "srefines (forward_body E rec m l) (forward_body E rec' m l)"
proof -
  have "srefines (forward_loop E rec l us) (forward_loop E rec' l us)" for us
    by (induction us) (auto intro!: refine_intros forward_user_mono [OF le])
  then show ?thesis by (simp add: forward_body_def)
qed


lemma track_user_mono:
  assumes le: "rec_le rec rec'"
  shows "srefines (track_user E rec v u) (track_user E rec' v u)"
  unfolding track_user_def Let_def
  by (auto intro!: refine_intros rec_leD [OF le])


lemma track_loop_mono:
  assumes le: "rec_le rec rec'"
  shows "srefines (track_loop E rec v us) (track_loop E rec' v us)"
proof (induction us)
  case (Cons u us)
  show ?case
    unfolding track_loop.simps
    by (rule srefines_bind [OF track_user_mono [OF le]]) (auto simp: Cons split: loop_exit.split)
qed simp


lemma track_body_mono:
  assumes le: "rec_le rec rec'"
  shows "srefines (track_body E rec v r) (track_body E rec' v r)"
  unfolding track_body_def Let_def
  by (intro refine_intros track_loop_mono [OF le]) auto


lemma transform_body_mono:
  assumes le: "rec_le rec rec'"
  shows "srefines (transform_body E rec F) (transform_body E rec' F)"
proof -
  have "srefines (transform_args rec as) (transform_args rec' as)" for as
    by (induction as) (auto intro!: refine_intros rec_leD [OF le])
  moreover have "srefines (transform_insts E rec is) (transform_insts E rec' is)" for "is"
    by (induction "is") (auto simp: transform_inst_def Let_def intro!: refine_intros rec_leD [OF le])
  ultimately show ?thesis
    unfolding transform_body_def Let_def by (auto intro!: refine_intros)
qed


lemma esc_run_rec_le: "rec_le (esc_run E n) (esc_run E (Suc n))"
proof (induction n)
  case 0
  then show ?case by (simp add: rec_le_def srefines_def refines_def)
next
  case (Suc n)
  note mono = track_body_mono [OF Suc] backward_body_mono [OF Suc foundEscape_mono]
    forward_body_mono [OF Suc] resultFor_body_mono [OF Suc] transform_body_mono [OF Suc]
  have "srefines (esc_body E n (esc_run E n) c) (esc_body E (Suc n) (esc_run E (Suc n)) c)" for c
    unfolding esc_body_def
    by (cases c; simp only: esc_call.case) (intro mono refine_intros srefines_refl)+
  then show ?case unfolding rec_le_def esc_run.simps(2) by blast
qed

lemma esc_run_mono_le:
  "esc_run E n c s = r \<Longrightarrow> r \<noteq> OutOfFuel \<Longrightarrow> n \<le> m \<Longrightarrow> esc_run E m c s = r"
proof (induction m)
  case (Suc m)
  then show ?case
    using esc_run_rec_le [of E m] unfolding rec_le_def
    by (cases "n = Suc m") (auto dest: srefinesD)
qed simp

lemma esc_run_deterministic:
  assumes "esc_run E n c s = r" "r \<noteq> OutOfFuel" "esc_run E m c s = r'" "r' \<noteq> OutOfFuel"
  shows "r = r'"
  using assms esc_run_mono_le [of E n c s r "max n m"] esc_run_mono_le [of E m c s r' "max n m"]
  by simp

end
