(* ===== verification/EscapeFrame.thy ===== *)
theory EscapeFrame
  imports EscapeFuel
begin

text \<open>
  What the analysis may change of its object: outside \<open>transform\<close> the current function and the set
  of functions being analysed stay as they are and the track list only grows; without a cache
  nothing is printed.
\<close>

definition kept :: "esc_state \<Rightarrow> esc_state \<Rightarrow> bool" where
  "kept s s' \<longleftrightarrow> current s' = current s \<and> analyzing s' = analyzing s \<and> trackList s \<subseteq> trackList s'"

definition quiet :: "esc_state \<Rightarrow> esc_state \<Rightarrow> bool" where
  "quiet s s' \<longleftrightarrow> outs s' = outs s"

interpretation kept: state_frame kept
  by unfold_locales (auto simp: kept_def)

interpretation quiet: state_frame quiet
  by unfold_locales (auto simp: quiet_def)

lemma spres_lift_outcome: "(\<And>s. R s s) \<Longrightarrow> spres R (lift_outcome r)"
  by (auto simp: spres_def sholds_def lift_outcome_def split: outcome.splits)

text \<open>
  The bodies that do not touch the object themselves preserve whatever the calls preserve; a frame
  over the analysis object is a frame at this state type.
\<close>

locale esc_frame = state_frame R for R :: "esc_state \<Rightarrow> esc_state \<Rightarrow> bool"
begin

lemma operand_esc_pres: "spres R (operand_esc v)"
  by (cases v) (auto simp: operand_esc_def intro: spres_intros)

lemma alias_query_pres: "spres R (alias_query E p l)"
  unfolding alias_query_def
  by (auto intro!: spres_intros split: option.split)

lemma summary_loop_pres: "spres R (summary_loop sm v i args)"
  by (induction args arbitrary: i)
    (auto simp: Summary_get_def intro!: spres_intros split: option.split)

lemma backward_body_pres:
  assumes "\<And>v. spres R (rec (Track v True))" and bwd: "\<And>a. spres R (rec (Backward a))"
  shows "spres R (backward_body E fe rec m)"
proof -
  have "spres R (backward_incoming rec as)" for as
    by (induction as) (auto intro!: spres_intros bwd)
  then show ?thesis
    unfolding backward_body_def Let_def
    by (auto intro!: spres_intros operand_esc_pres spres_lift_outcome frame_refl assms)
qed

lemma forward_body_pres:
  assumes "\<And>v. spres R (rec (Track v False))" and "\<And>m l. spres R (rec (Forward m l))"
    and res: "\<And>c v. spres R (rec (ResultFor c v))"
  shows "spres R (forward_body E rec m l)"
proof -
  have args: "spres R (forward_args E rec c loc e args)" for c loc e args
    by (induction args arbitrary: e) (auto intro!: spres_intros alias_query_pres res)
  have user: "spres R (forward_user E rec loc u)" for loc u
    unfolding forward_user_def Let_def
    by (cases "makind (eacc E u)")
      (auto intro!: spres_intros args operand_esc_pres alias_query_pres assms)
  have "spres R (forward_loop E rec loc us)" for loc us
    by (induction us) (auto intro!: spres_intros user)
  then show ?thesis by (simp add: forward_body_def)
qed

lemma loop_exit_pres:
  "(\<And>e. spres R (f e)) \<Longrightarrow> (\<And>e. spres R (g e)) \<Longrightarrow>
   spres R (case r of Fell e \<Rightarrow> f e | Returned e \<Rightarrow> g e)"
  by (cases r) auto

lemma track_user_pres:
  assumes "\<And>v. spres R (rec (Track v False))" and "\<And>m. spres R (rec (Backward m))"
    and "\<And>m l. spres R (rec (Forward m l))" and "\<And>c v. spres R (rec (ResultFor c v))"
  shows "spres R (track_user E rec v u)"
  unfolding track_user_def Let_def
  by (auto intro!: spres_intros operand_esc_pres assms)

lemma track_loop_pres:
  assumes "\<And>v. spres R (rec (Track v False))" and "\<And>m. spres R (rec (Backward m))"
    and "\<And>m l. spres R (rec (Forward m l))" and "\<And>c v. spres R (rec (ResultFor c v))"
  shows "spres R (track_loop E rec v us)"
  by (induction us) (auto intro!: spres_intros loop_exit_pres track_user_pres assms)

end

interpretation kept_esc: esc_frame kept ..

interpretation quiet_esc: esc_frame quiet ..

section \<open>The frame of every call\<close>

definition frame_ok :: "esc_call \<Rightarrow> EscapeType esc \<Rightarrow> bool" where
  "frame_ok c m = (case c of
      Transform F \<Rightarrow> spres (\<lambda>s s'. analyzing s' = analyzing s - {F}) m
    | _ \<Rightarrow> spres kept m)"

lemma track_body_frame:
  assumes "\<And>us. spres kept (track_loop E rec v us)"
  shows "spres kept (track_body E rec v r)"
proof (rule spresI)
  fix s x s'
  assume run: "track_body E rec v r s = Done (x, s')"
  let ?id = "getId (emod E) v"
  show "kept s s'"
  proof (cases "r \<and> ?id \<in> trackList s")
    case True
    with run show ?thesis by (simp add: track_body_def Let_def smon_defs kept.frame_refl)
  next
    case False
    let ?s1 = "if r then s\<lparr>trackList := insert ?id (trackList s)\<rparr> else s"
    from run False obtain e s2 where loop: "track_loop E rec v (users (emod E) v) ?s1 = Done (e, s2)"
      and s': "s' = s2 \<or> r \<and> s' = s2\<lparr>trackList := trackList s2 - {?id}\<rparr>"
      by (auto simp: track_body_def Let_def smon_defs split: outcome.splits loop_exit.splits if_splits)
    from assms loop have "kept ?s1 s2" by (blast dest: spresD)
    with s' False show ?thesis by (auto simp: kept_def split: if_splits)
  qed
qed

lemma nested_frame:
  assumes m: "spres (\<lambda>s s'. analyzing s' = analyzing s - {F}) m" and F: "F \<notin> analyzing s"
    and run: "nested m s = Done (x, s')"
  shows "kept s s'"
proof -
  from run obtain t where t: "m (s\<lparr>trackList := {}\<rparr>) = Done (x, t)"
    and s': "s' = t\<lparr>trackList := trackList s, current := current s\<rparr>"
    by (auto simp: nested_def smon_defs split: outcome.splits)
  from spresD [OF m t] F have "analyzing t = analyzing s" by simp
  with s' show ?thesis by (simp add: kept_def)
qed

lemma resultFor_body_frame:
  assumes "\<And>F. frame_ok (Transform F) (rec (Transform F))"
  shows "spres kept (resultFor_body E rec call v)"
proof (rule spresI)
  fix s x s'
  assume run: "resultFor_body E rec call v s = Done (x, s')"
  have loop: "summary_loop sm v i args t = Done (z, t') \<Longrightarrow> kept t t'" for sm i args t z t'
    by (rule spresD [OF kept_esc.summary_loop_pres])
  have "kept s t" if "nested (rec (Transform F)) s = Done (y, t)" "F \<notin> analyzing s" for F y t
    using nested_frame [of F "rec (Transform F)" s y t] that assms [of F] by (simp add: frame_ok_def)
  with loop have "kept s t'"
    if "nested (rec (Transform F)) s = Done (y, t)" "F \<notin> analyzing s"
      "summary_loop sm v i args t = Done (z, t')" for F y t sm i args z t'
    using that kept.frame_trans by blast
  with run loop show "kept s s'"
    by (auto simp: resultFor_body_def Let_def smon_defs kept.frame_refl
        split: option.splits outcome.splits if_splits)
qed

definition same_scope :: "esc_state \<Rightarrow> esc_state \<Rightarrow> bool" where
  "same_scope s s' \<longleftrightarrow> current s' = current s \<and> analyzing s' = analyzing s"

interpretation scope_esc: esc_frame same_scope
  by unfold_locales (auto simp: same_scope_def)

lemma kept_same_scope: "spres kept m \<Longrightarrow> spres same_scope m"
  by (auto simp: spres_def sholds_def kept_def same_scope_def)

lemma transform_body_frame:
  assumes "\<And>a. spres kept (rec (Track a True))"
  shows "spres (\<lambda>s s'. current s' = F \<and> analyzing s' = analyzing s - {F}) (transform_body E rec F)"
proof -
  have track: "spres same_scope (rec (Track a True))" for a
    by (rule kept_same_scope) (rule assms)
  have args: "spres same_scope (transform_args rec as)" for as
    by (induction as) (auto intro!: scope_esc.spres_intros track)
  have "spres same_scope (transform_inst E rec i)" for i
    unfolding transform_inst_def Let_def
    by (auto intro!: scope_esc.spres_intros scope_esc.spres_modify track simp: same_scope_def)
  then have insts: "spres same_scope (transform_insts E rec is)" for "is"
    by (induction "is") (auto intro!: scope_esc.spres_intros)
  show ?thesis
    by (rule spresI)
      (auto simp: transform_body_def Let_def smon_defs same_scope_def split: outcome.splits
        dest!: spresD [OF args] spresD [OF insts])
qed

lemma esc_run_frame: "frame_ok c (esc_run E n c)"
proof (induction n arbitrary: c)
  case 0
  then show ?case by (auto simp: frame_ok_def spres_def sholds_def split: esc_call.split)
next
  case (Suc n)
  have ih: "spres kept (esc_run E n (Track v r))" "spres kept (esc_run E n (Backward m))"
    "spres kept (esc_run E n (Forward m l))" "spres kept (esc_run E n (ResultFor k v))" for v r m l k
    using Suc [of "Track v r"] Suc [of "Backward m"] Suc [of "Forward m l"] Suc [of "ResultFor k v"]
    by (auto simp: frame_ok_def)
  have "spres (\<lambda>s s'. analyzing s' = analyzing s - {F})
      (sbind (transform_body E (esc_run E n) F) (\<lambda>_. sret NoEscape))" for F
    using transform_body_frame [of "esc_run E n" F E, OF ih(1)]
    by (auto simp: spres_def sholds_def smon_defs split: outcome.splits)
  then show ?case
    unfolding esc_run.simps(2)
    by (cases c) (auto simp: esc_body_def frame_ok_def
        intro!: track_body_frame kept_esc.track_loop_pres kept_esc.backward_body_pres
          kept_esc.forward_body_pres resultFor_body_frame ih Suc)
qed

lemma esc_run_kept:
  assumes "esc_run E n c s = Done (x, s')" and "\<And>F. c \<noteq> Transform F"
  shows "kept s s'"
  using assms esc_run_frame [of c E n]
  by (cases c) (auto simp: frame_ok_def dest: spresD)

section \<open>The per-function pass prints in \<open>transform\<close> only\<close>

lemma esc_run_quiet:
  assumes "ecache E = None" and "\<And>F. c \<noteq> Transform F"
  shows "spres quiet (esc_run E n c)"
  using assms(2)
proof (induction n arbitrary: c)
  case 0
  then show ?case by (auto simp: spres_def sholds_def)
next
  case (Suc n)
  have res: "spres quiet (resultFor_body E rec k v)" for rec k v
    unfolding resultFor_body_def Let_def
    by (auto simp: assms(1) intro!: quiet.spres_intros split: option.split)
  have track: "spres quiet (track_body E (esc_run E n) v r)" for v r
    unfolding track_body_def Let_def
    by (intro quiet.spres_intros quiet.spres_modify quiet_esc.track_loop_pres
        quiet_esc.loop_exit_pres Suc.IH) (auto simp: quiet_def)
  from Suc.prems show ?case
    unfolding esc_run.simps(2)
    by (cases c) (auto simp: esc_body_def intro!: res track quiet_esc.backward_body_pres
        quiet_esc.forward_body_pres Suc.IH)
qed

end
