(* ===== verification/EscapeBases.thy ===== *)
theory EscapeBases
  imports EscapeFrame
begin

text \<open>
  \<open>foundEscape\<close> against its specification: the bases a pointer may be derived from by bitcasts,
  address arithmetic and phis, each base classified once. Also the identifiers \<open>getId\<close> makes.
\<close>

section \<open>Identifiers\<close>

definition id_name :: "ir_module \<Rightarrow> vid \<Rightarrow> string" where
  "id_name M v = (if is_inst M v then vname (mval M v) else '''')"

lemma getId_split: "getId M v = id_name M v @ ''_'' @ hex_string (unat (vaddr (mval M v) AND 0xffff))"
  by (simp add: getId_def id_name_def Let_def)

lemma last_underscore_split:
  assumes "a @ ''_'' @ x = b @ ''_'' @ y" and "CHR ''_'' \<notin> set x" and "CHR ''_'' \<notin> set y"
  shows "a = b \<and> x = y"
  using assms by (auto simp: append_eq_append_conv2 Cons_eq_append_conv append_eq_Cons_conv)

section \<open>Specification of foundEscape\<close>

definition cast_like :: "ir_module \<Rightarrow> vid \<Rightarrow> bool" where
  "cast_like M v \<longleftrightarrow> is_operator M OBitCast v \<or> is_operator M OGetElementPtr v"

definition base_class :: "ir_module \<Rightarrow> vid \<Rightarrow> EscapeType" where
  "base_class M w = (if is_global_variable M w then GlobalEscape
     else if is_argument M w then LocalEscape else NoEscape)"

inductive base_of :: "ir_module \<Rightarrow> vid \<Rightarrow> vid \<Rightarrow> bool" for M where
  base_leaf: "\<not> cast_like M v \<Longrightarrow> \<not> is_op M OPHI v \<Longrightarrow> base_of M v v"
| base_cast: "cast_like M v \<Longrightarrow> operand M v 0 = Some x \<Longrightarrow> base_of M x w \<Longrightarrow> base_of M v w"
| base_phi: "is_op M OPHI v \<Longrightarrow> x \<in> set (voperands (mval M v)) \<Longrightarrow> base_of M x w \<Longrightarrow> base_of M v w"

lemma phi_not_cast: "is_op M OPHI v \<Longrightarrow> \<not> cast_like M v"
  by (simp add: cast_like_def ir_access_defs)

lemma base_of_cast_iff:
  "cast_like M v \<Longrightarrow> base_of M v w \<longleftrightarrow> (\<exists>x. operand M v 0 = Some x \<and> base_of M x w)"
  by (auto elim: base_of.cases intro: base_cast dest: phi_not_cast)

lemma base_of_phi_iff:
  "is_op M OPHI v \<Longrightarrow> base_of M v w \<longleftrightarrow> (\<exists>x \<in> set (voperands (mval M v)). base_of M x w)"
  by (auto elim: base_of.cases intro: base_phi dest: phi_not_cast)

lemma base_of_leaf_iff:
  "\<not> cast_like M v \<Longrightarrow> \<not> is_op M OPHI v \<Longrightarrow> base_of M v w \<longleftrightarrow> w = v"
  by (auto elim: base_of.cases intro: base_leaf)

text \<open>The chain of class tests, by the three ways a value is handled.\<close>

lemma foundEscape_Suc:
  "foundEscape M (Suc n) v =
     (if cast_like M v then on_operand0 M (foundEscape M n) v
      else if is_op M OPHI v then first_escape (foundEscape M n) (voperands (mval M v))
      else Done (base_class M v))"
  by (auto simp: foundEscape.simps(2) cast_like_def base_class_def ir_access_defs)

lemma first_escape_Done:
  "first_escape f vs = Done e \<Longrightarrow>
   (if e = NoEscape then \<forall>v \<in> set vs. f v = Done NoEscape else \<exists>v \<in> set vs. f v = Done e)"
  by (induction vs) (auto split: outcome.splits if_splits)

lemma first_escape_total:
  "(\<And>v. v \<in> set vs \<Longrightarrow> \<exists>e. f v = Done e) \<Longrightarrow> \<exists>e. first_escape f vs = Done e"
proof (induction vs)
  case (Cons v vs)
  then obtain e where "f v = Done e" by auto
  with Cons show ?case by (cases "e = NoEscape") auto
qed simp

definition found_ok :: "ir_module \<Rightarrow> vid \<Rightarrow> EscapeType \<Rightarrow> bool" where
  "found_ok M v e \<longleftrightarrow>
     (if e = NoEscape then \<forall>w. base_of M v w \<longrightarrow> base_class M w = NoEscape
      else \<exists>w. base_of M v w \<and> base_class M w = e)"

lemma foundEscape_found_ok: "foundEscape M n v = Done e \<Longrightarrow> found_ok M v e"
proof (induction n arbitrary: v e)
  case (Suc n)
  consider "cast_like M v" | "\<not> cast_like M v" "is_op M OPHI v" | "\<not> cast_like M v" "\<not> is_op M OPHI v"
    by blast
  then show ?case
  proof cases
    case 1
    with Suc.prems obtain x where x: "operand M v 0 = Some x" and "foundEscape M n x = Done e"
      by (auto simp: foundEscape_Suc on_operand0_def split: option.splits)
    then have "found_ok M x e" by (blast intro: Suc.IH)
    with 1 x show ?thesis by (simp add: found_ok_def base_of_cast_iff)
  next
    case 2
    with Suc.prems have "first_escape (foundEscape M n) (voperands (mval M v)) = Done e"
      by (simp add: foundEscape_Suc)
    from first_escape_Done [OF this] Suc.IH
    have "if e = NoEscape then \<forall>x \<in> set (voperands (mval M v)). found_ok M x NoEscape
      else \<exists>x \<in> set (voperands (mval M v)). found_ok M x e"
      by (auto split: if_splits)
    with 2 show ?thesis by (auto simp: found_ok_def base_of_phi_iff split: if_splits)
  next
    case 3
    with Suc.prems show ?thesis by (auto simp: foundEscape_Suc found_ok_def base_of_leaf_iff)
  qed
qed simp

text \<open>One step down the derivation; a ranking of it bounds the recursion depth.\<close>

definition derives_from :: "ir_module \<Rightarrow> vid \<Rightarrow> vid \<Rightarrow> bool" where
  "derives_from M v x \<longleftrightarrow> (cast_like M v \<and> operand M v 0 = Some x)
     \<or> (is_op M OPHI v \<and> x \<in> set (voperands (mval M v)))"

lemma foundEscape_total:
  assumes rank: "\<And>v x. derives_from M v x \<Longrightarrow> rank x < rank v"
    and ops: "\<And>v. cast_like M v \<Longrightarrow> operand M v 0 \<noteq> None"
  shows "rank v < n \<Longrightarrow> \<exists>e. foundEscape M n v = Done e"
proof (induction n arbitrary: v)
  case (Suc n)
  have step: "\<exists>e. foundEscape M n x = Done e" if "derives_from M v x" for x
    using rank [OF that] Suc.prems by (intro Suc.IH) simp
  show ?case
  proof (cases "cast_like M v")
    case True
    then obtain x where "operand M v 0 = Some x" using ops by auto
    with True step show ?thesis by (auto simp: foundEscape_Suc on_operand0_def derives_from_def)
  next
    case False
    with step show ?thesis
      by (auto simp: foundEscape_Suc derives_from_def intro!: first_escape_total)
  qed
qed simp

text \<open>A phi whose first escaping input would be found only through itself.\<close>

lemma foundEscape_phi_cycle:
  assumes p: "is_op M OPHI p" "voperands (mval M p) = b # q # rest"
    and b: "\<not> cast_like M b" "\<not> is_op M OPHI b" "base_class M b = NoEscape"
    and q: "cast_like M q" "operand M q 0 = Some p"
  shows "foundEscape M n p = OutOfFuel"
proof (induction n rule: less_induct)
  case (less n)
  show ?case
  proof (cases n)
    case (Suc m)
    have "foundEscape M m q = OutOfFuel"
      using q less Suc by (cases m) (auto simp: foundEscape_Suc on_operand0_def)
    moreover have "foundEscape M m b \<in> {Done NoEscape, OutOfFuel}"
      using b by (cases m) (auto simp: foundEscape_Suc)
    ultimately show ?thesis
      using p Suc phi_not_cast [OF p(1)] by (auto simp: foundEscape_Suc)
  qed simp
qed

end
