(* ===== verification/EscapeTrack.thy ===== *)
theory EscapeTrack
  imports EscapeBases
begin

text \<open>
  What a verdict of \<open>track\<close> means. Every user of the tracked value and of the values computed from
  it by casts, address arithmetic and aggregate instructions has been found harmless, provided no
  load is among the users and no phi among the values; both provisos are needed, as the lemmas on
  early returns and on phis show.
\<close>

section \<open>One activation of track\<close>

lemma track_user_other_frame:
  "track_user E (esc_run E n) v u s = Done (r, s') \<Longrightarrow> kept s s'"
  by (rule spresD [OF kept_esc.track_user_pres]) (auto intro: spresI esc_run_kept)

lemma track_loop_quiet_users:
  assumes "track_loop E (esc_run E n) v us s = Done (Fell NoEscape, s')" and "u \<in> set us"
  shows "\<exists>s1 s2. track_user E (esc_run E n) v u s1 = Done (Fell NoEscape, s2) \<and> kept s s1"
  using assms
proof (induction us arbitrary: s)
  case (Cons a us)
  from Cons.prems(1) obtain s1 where a: "track_user E (esc_run E n) v a s = Done (Fell NoEscape, s1)"
    and rest: "track_loop E (esc_run E n) v us s1 = Done (Fell NoEscape, s')"
    by (auto simp: smon_defs split: outcome.splits loop_exit.splits if_splits)
  show ?case
  proof (cases "u = a")
    case True
    with a kept.frame_refl show ?thesis by blast
  next
    case False
    with Cons.prems(2) have "u \<in> set us" by simp
    with Cons.IH [OF rest] obtain t1 t2 where "track_user E (esc_run E n) v u t1 = Done (Fell NoEscape, t2)"
      and "kept s1 t1" by blast
    with track_user_other_frame [OF a] kept.frame_trans show ?thesis by blast
  qed
qed simp

lemma track_loop_not_returned:
  assumes "\<And>u. u \<in> set us \<Longrightarrow> \<not> is_op (emod E) OLoad u"
    and "track_loop E rec v us s = Done (r, s')"
  shows "\<exists>e. r = Fell e"
  using assms
proof (induction us arbitrary: s)
  case (Cons a us)
  have "track_user E rec v a s = Done (q, t) \<Longrightarrow> \<exists>e. q = Fell e" for q t
    using Cons.prems(1) [of a]
    by (auto simp: track_user_def Let_def smon_defs split: outcome.splits if_splits)
  with Cons show ?case
    by (auto simp: smon_defs split: outcome.splits loop_exit.splits if_splits)
qed (auto simp: smon_defs)

lemma track_NoEscape_users:
  assumes run: "esc_run E (Suc n) (Track v r) s = Done (NoEscape, s')"
    and fresh: "r \<Longrightarrow> getId (emod E) v \<notin> trackList s"
    and noload: "\<And>u. u \<in> set (users (emod E) v) \<Longrightarrow> \<not> is_op (emod E) OLoad u"
    and u: "u \<in> set (users (emod E) v)"
  shows "\<exists>s1 s2. track_user E (esc_run E n) v u s1 = Done (Fell NoEscape, s2) \<and> current s1 = current s"
proof -
  let ?s0 = "if r then s\<lparr>trackList := insert (getId (emod E) v) (trackList s)\<rparr> else s"
  from run fresh obtain q t where loop: "track_loop E (esc_run E n) v (users (emod E) v) ?s0 = Done (q, t)"
    and q: "q = Fell NoEscape \<or> q = Returned NoEscape"
    by (auto simp: esc_run.simps(2) esc_body_def track_body_def Let_def smon_defs
        split: outcome.splits loop_exit.splits if_splits)
  from track_loop_not_returned [OF noload loop] q have "q = Fell NoEscape" by auto
  with loop u obtain s1 s2 where
    "track_user E (esc_run E n) v u s1 = Done (Fell NoEscape, s2)" "kept ?s0 s1"
    by (blast dest: track_loop_quiet_users)
  then show ?thesis by (auto simp: kept_def split: if_splits)
qed

section \<open>Values computed from the tracked one\<close>

definition derived_inst :: "ir_module \<Rightarrow> vid \<Rightarrow> bool" where
  "derived_inst M u \<longleftrightarrow> is_op M OBitCast u \<or> is_op M OGetElementPtr u
     \<or> is_op M OInsertValue u \<or> is_op M OExtractValue u"

inductive flows :: "ir_module \<Rightarrow> vid \<Rightarrow> vid \<Rightarrow> bool" for M v where
  flows_refl: "flows M v v"
| flows_step: "flows M v w \<Longrightarrow> u \<in> set (users M w) \<Longrightarrow> derived_inst M u \<Longrightarrow> flows M v u"

text \<open>
  A use that lets nothing escape: a derived value, a comparison, a store of the value through a
  pointer none of whose bases is a global or an argument, or a direct call of a declared function
  (any function with a cache, where \<open>resultFor\<close> looks at the callee's own arguments only).
\<close>

definition benign_use :: "esc_env \<Rightarrow> vid \<Rightarrow> vid \<Rightarrow> bool" where
  "benign_use E w u \<longleftrightarrow> (let M = emod E in
     derived_inst M u \<or> is_op M OICmp u
     \<or> (is_op M OStore u \<and> (store_value M u = Some w \<longrightarrow>
          (\<exists>p. store_pointer M u = Some p \<and> found_ok M p NoEscape)))
     \<or> (is_op M OCall u \<and> (\<exists>f. called_function M u = Some f
          \<and> (fdecl (mfun M f) \<or> ecache E \<noteq> None))))"

lemma track_user_derived:
  assumes "track_user E (esc_run E n) w u s = Done (Fell NoEscape, s')"
    and "derived_inst (emod E) u" and "\<not> is_op (emod E) OPHI w"
  shows "esc_run E n (Track u False) s = Done (NoEscape, s')"
  using assms
  by (auto simp: track_user_def derived_inst_def Let_def smon_defs ir_access_defs
      split: outcome.splits if_splits)

lemma backward_store_NoEscape:
  assumes "esc_run E n (Backward m) s = Done (NoEscape, s')"
    and "makind (eacc E m) = MDef" and "mainst (eacc E m) = Some u" and "is_op (emod E) OStore u"
  shows "\<exists>p. store_pointer (emod E) u = Some p \<and> found_ok (emod E) p NoEscape"
proof (cases n)
  case (Suc k)
  with assms obtain p where "store_pointer (emod E) u = Some p"
    and "foundEscape (emod E) k p = Done NoEscape"
    by (auto simp: esc_run.simps(2) esc_body_def backward_body_def Let_def smon_defs is_op_def
        operand_esc_def lift_outcome_def split: outcome.splits option.splits if_splits)
      (metis EscapeType.exhaust)
  then show ?thesis using foundEscape_found_ok by blast
qed (use assms in simp)

lemma resultFor_NoEscape:
  assumes "esc_run E n (ResultFor call v) s = Done (NoEscape, s')"
  shows "\<exists>f. called_function (emod E) call = Some f \<and> (fdecl (mfun (emod E) f) \<or> ecache E \<noteq> None)"
  using assms
  by (cases n) (auto simp: esc_run.simps(2) esc_body_def resultFor_body_def Let_def smon_defs
      split: option.splits if_splits)

lemma track_user_benign:
  assumes run: "track_user E (esc_run E n) w u s = Done (Fell NoEscape, s')"
    and "\<not> is_op (emod E) OPHI w" and "\<not> is_op (emod E) OLoad u"
    and ssa: "\<And>u m. ememacc E (current s) u = Some m \<Longrightarrow>
        makind (eacc E m) = MDef \<and> mainst (eacc E m) = Some u"
  shows "benign_use E w u"
proof -
  consider (derived) "derived_inst (emod E) u" | (icmp) "is_op (emod E) OICmp u"
    | (store) "is_op (emod E) OStore u" | (call) "is_op (emod E) OCall u"
    using assms(1-3)
    by (auto simp: track_user_def derived_inst_def Let_def smon_defs split: if_splits)
  then show ?thesis
  proof cases
    case store
    have "\<exists>p. store_pointer (emod E) u = Some p \<and> found_ok (emod E) p NoEscape"
      if "store_value (emod E) u = Some w"
    proof -
      from run store that assms(2) obtain m t where m: "ememacc E (current s) u = Some m"
        and "esc_run E n (Backward m) s = Done (NoEscape, t)"
        by (auto simp: track_user_def Let_def smon_defs is_op_def operand_esc_def
            split: outcome.splits option.splits if_splits)
      with ssa [OF m] store show ?thesis by (blast intro: backward_store_NoEscape)
    qed
    with store show ?thesis by (auto simp: benign_use_def Let_def)
  next
    case call
    with run assms(2) have "esc_run E n (ResultFor u w) s = Done (NoEscape, s')"
      by (auto simp: track_user_def Let_def smon_defs is_op_def split: outcome.splits)
    with call show ?thesis by (auto simp: benign_use_def Let_def dest: resultFor_NoEscape)
  qed (auto simp: benign_use_def Let_def)
qed

lemma track_NoEscape_flows:
  assumes run: "esc_run E n (Track v r) s = Done (NoEscape, s')"
    and fresh: "r \<Longrightarrow> getId (emod E) v \<notin> trackList s"
    and clean: "\<And>w u. flows (emod E) v w \<Longrightarrow> u \<in> set (users (emod E) w) \<Longrightarrow>
        \<not> is_op (emod E) OPHI w \<and> \<not> is_op (emod E) OLoad u"
    and w: "flows (emod E) v w"
  shows "\<exists>n r s1 s2. esc_run E n (Track w r) s1 = Done (NoEscape, s2)
      \<and> (r \<longrightarrow> getId (emod E) w \<notin> trackList s1) \<and> current s1 = current s"
  using w
proof (induction rule: flows.induct)
  case flows_refl
  with run fresh show ?case by blast
next
  case (flows_step w u)
  then obtain k q s1 s2 where k: "esc_run E k (Track w q) s1 = Done (NoEscape, s2)"
    and q: "q \<Longrightarrow> getId (emod E) w \<notin> trackList s1" and cur: "current s1 = current s" by blast
  from k obtain n' where "k = Suc n'" by (cases k) auto
  with track_NoEscape_users [of E n' w q s1 s2 u] k q clean [OF flows_step(1)] flows_step(2)
  obtain t1 t2 where "track_user E (esc_run E n') w u t1 = Done (Fell NoEscape, t2)"
    and "current t1 = current s1" by blast
  with track_user_derived [of E n' w u t1 t2] flows_step clean [OF flows_step(1) flows_step(2)] cur
  have "esc_run E n' (Track u False) t1 = Done (NoEscape, t2)" and "current t1 = current s" by simp_all
  then show ?case by blast
qed

section \<open>Early returns and phis\<close>

lemma track_load_first:
  assumes "users (emod E) v = u # us" and "is_op (emod E) OLoad u" and "\<not> is_op (emod E) OPHI v"
    and "getId (emod E) v \<notin> trackList s"
  shows "esc_run E (Suc n) (Track v True) s =
    Done (NoEscape, s\<lparr>trackList := insert (getId (emod E) v) (trackList s)\<rparr>)"
  using assms
  by (simp add: esc_run.simps(2) esc_body_def track_body_def track_user_def Let_def smon_defs is_op_def)

lemma track_phi_out_of_fuel:
  assumes "is_op (emod E) OPHI v" and "users (emod E) v = u # us"
    and "\<not> is_op (emod E) OBitCast u" and "\<not> is_op (emod E) OGetElementPtr u"
  shows "esc_run E n (Track v False) s = OutOfFuel"
proof (induction n arbitrary: s)
  case (Suc n)
  with assms show ?case
    by (simp add: esc_run.simps(2) esc_body_def track_body_def track_user_def Let_def smon_defs)
qed simp

lemma backward_loop_out_of_fuel:
  assumes P: "makind (eacc E P) = MPhi" "maincoming (eacc E P) = A # D # as"
    and A: "makind (eacc E A) = MDef" "mainst (eacc E A) = None"
    and D: "makind (eacc E D) = MDef" "mainst (eacc E D) = Some st" "madefining (eacc E D) = Some P"
    and st: "is_op (emod E) OStore st" "store_pointer (emod E) st = Some p"
    and p: "\<not> cast_like (emod E) p" "\<not> is_op (emod E) OPHI p" "base_class (emod E) p = NoEscape"
  shows "esc_run E n (Backward D) s = OutOfFuel"
proof (induction n arbitrary: s rule: less_induct)
  case (less n)
  show ?case
  proof (cases n)
    case (Suc m)
    have fe: "foundEscape (emod E) m p = (if m = 0 then OutOfFuel else Done NoEscape)"
      using p by (cases m) (simp_all add: foundEscape_Suc)
    have "esc_run E m (Backward P) t = OutOfFuel" for t
    proof (cases m)
      case (Suc k)
      have "esc_run E k (Backward A) t = (if k = 0 then OutOfFuel else Done (NoEscape, t))" for t
        using A by (cases k) (simp_all add: esc_run.simps(2) esc_body_def backward_body_def Let_def smon_defs)
      with P less [of k] Suc \<open>n = Suc m\<close> show ?thesis
        by (simp add: esc_run.simps(2) esc_body_def backward_body_def Let_def smon_defs)
    qed simp
    with D st fe Suc show ?thesis
      by (simp add: esc_run.simps(2) esc_body_def backward_body_def Let_def smon_defs is_op_def
          operand_esc_def lift_outcome_def)
  qed simp
qed

end
