(* ===== verification/EscapeProps.thy ===== *)
theory EscapeProps
  imports EscapeTrack
begin

text \<open>
  The properties of the escape pass, with the concrete modules their witnesses run on.
\<close>

section \<open>What the per-function pass reports\<close>




section \<open>Concrete modules\<close>

text \<open>
  \<^verbatim>\<open>main.f\<close> allocates \<open>x\<close> with \<^verbatim>\<open>__go_new\<close>. In \<open>leak_mod\<close> it loads from \<open>x\<close> and stores \<open>x\<close> in the global
  \<open>g\<close>, and the argument is the order of the two uses in the use list of \<open>x\<close>. In \<open>local_mod\<close> it stores
  \<open>x\<close> in a stack slot \<open>y\<close>.
\<close>

definition i8ptr :: ir_type where
  "i8ptr = PointerTy 0 (IntTy 8)"

definition base_val :: "vid \<Rightarrow> ir_value" where
  "base_val v =
     (if v = 0 then value0\<lparr>vkind := KFunction, vname := ''main.f''\<rparr>
      else if v = 1 then value0\<lparr>vkind := KFunction, vname := GO_HEAP_CALL\<rparr>
      else if v = 2 then value0\<lparr>vkind := KGlobalVariable, vname := ''g'', vtype := PointerTy 0 i8ptr\<rparr>
      else if v = 3 then value0\<lparr>vkind := KInstruction OCall, vname := ''x'', vtype := i8ptr, voperands := [1]\<rparr>
      else if v = 4 then value0\<lparr>vkind := KInstruction OLoad, vname := ''l'', vtype := IntTy 8, voperands := [3]\<rparr>
      else if v = 5 then value0\<lparr>vkind := KInstruction OStore, voperands := [3, 2]\<rparr>
      else if v = 6 then value0\<lparr>vkind := KInstruction OAlloca, vname := ''y'', vtype := PointerTy 0 i8ptr, vuses := [(7, 1)]\<rparr>
      else if v = 7 then value0\<lparr>vkind := KInstruction OStore, voperands := [3, 6]\<rparr>
      else value0)"

definition leak_mod :: "(vid \<times> nat) list \<Rightarrow> ir_module" where
  "leak_mod us =
     \<lparr>mval = base_val(3 := (base_val 3)\<lparr>vuses := us\<rparr>),
      mfun = (\<lambda>_. function0)(0 := \<lparr>fargs = [], fblocks = [[3, 4, 5]], fdecl = False\<rparr>)\<rparr>"

definition local_mod :: ir_module where
  "local_mod =
     \<lparr>mval = base_val(3 := (base_val 3)\<lparr>vuses := [(7, 0)]\<rparr>),
      mfun = (\<lambda>_. function0)(0 := \<lparr>fargs = [], fblocks = [[6, 3, 7]], fdecl = False\<rparr>)\<rparr>"

text \<open>Access 0 is live-on-entry, 1 the call's def, 2 and 3 the defs of the stores 5 and 7.\<close>

definition demo_acc :: "maid \<Rightarrow> maccess" where
  "demo_acc a = (if a = 1 then def_of 3 0 else if a = 2 then def_of 5 1
     else if a = 3 then def_of 7 1 else live_on_entry)"

definition demo_memacc :: "vid \<Rightarrow> vid \<Rightarrow> maid option" where
  "demo_memacc F i = (if i = 5 then Some 2 else if i = 7 then Some 3 else None)"

definition demo_env :: "ir_module \<Rightarrow> escape_cache option \<Rightarrow> esc_env" where
  "demo_env M c = \<lparr>emod = M, eacc = demo_acc, ememacc = demo_memacc,
     ealias = (\<lambda>_ _ _ _ _. MayAlias), esize = (\<lambda>_. 8), ecache = c\<rparr>"


section \<open>Properties\<close>






text \<open>
  The two verdicts a use list's order can give: the same function, which stores its allocation
  in a global variable and loads from it, is reported as local when the load comes first in the use
  list and as escaping globally when the store does.
\<close>
theorem verdict_depends_on_use_order:
  "runOnFunction (demo_env (leak_mod [(4, 0), (5, 0)]) None) 10 0 esc_init =
     Done ((), esc_init\<lparr>outs := [Header ''main.f'', Verdict ''x'' ''l'' NoEscape]\<rparr>)
   \<and> runOnFunction (demo_env (leak_mod [(5, 0), (4, 0)]) None) 10 0 esc_init =
     Done ((), esc_init\<lparr>outs := [Header ''main.f'', Verdict ''x'' '''' GlobalEscape]\<rparr>)"
  by code_simp



text \<open>
  C34: \<open>foundEscape\<close> decides its specification: it returns \<open>NoEscape\<close> only if no value the pointer may
  be derived from is a global variable or an argument, and otherwise the class of such a value.
\<close>
theorem foundEscape_correct:
  assumes "foundEscape M n v = Done e"
  shows "if e = NoEscape then \<forall>w. base_of M v w \<longrightarrow> \<not> is_global_variable M w \<and> \<not> is_argument M w
    else \<exists>w. base_of M v w \<and> base_class M w = e"
  using foundEscape_found_ok [OF assms]
  by (auto simp: found_ok_def base_class_def split: if_splits)

theorem foundEscape_correct_witness:
  "foundEscape (leak_mod []) 1 2 = Done GlobalEscape
   \<and> (\<exists>w. base_of (leak_mod []) 2 w \<and> base_class (leak_mod []) w = GlobalEscape)"
proof -
  have run: "foundEscape (leak_mod []) 1 2 = Done GlobalEscape" by code_simp
  from foundEscape_correct [OF run] run show ?thesis by simp
qed






text \<open>
  The phi branch of \<open>track\<close> tests the tracked value instead of the user. A phi that uses a
  value other than a phi falls through to the last branch and ends the search with \<open>LocalEscape\<close>;
  and \<open>track\<close> on a phi whose first user is neither a bitcast nor address arithmetic calls itself on
  the same phi for ever.
\<close>
theorem track_phi_branch:
  assumes "users (emod E) v = u # us"
  shows "(is_op (emod E) OPHI u \<and> \<not> is_op (emod E) OPHI v
      \<longrightarrow> esc_run E (Suc n) (Track v False) s = Done (LocalEscape, s))
    \<and> (is_op (emod E) OPHI v \<and> \<not> is_op (emod E) OBitCast u \<and> \<not> is_op (emod E) OGetElementPtr u
      \<longrightarrow> (\<forall>k. esc_run E k (Track v False) s = OutOfFuel))"
  using assms
  by (auto simp: esc_run.simps(2) esc_body_def track_body_def track_user_def Let_def smon_defs is_op_def
      intro: track_phi_out_of_fuel)

text \<open>\<open>phi_mod\<close>: a phi (8) that uses \<open>x\<close> and is stored in \<open>y\<close>.\<close>

definition phi_mod :: ir_module where
  "phi_mod =
     \<lparr>mval = base_val(3 := (base_val 3)\<lparr>vuses := [(8, 0)]\<rparr>,
        8 := value0\<lparr>vkind := KInstruction OPHI, voperands := [3], vuses := [(7, 0)]\<rparr>,
        7 := value0\<lparr>vkind := KInstruction OStore, voperands := [8, 6]\<rparr>),
      mfun = (\<lambda>_. function0)\<rparr>"

theorem track_phi_branch_witness:
  "esc_run (demo_env phi_mod None) (Suc 0) (Track 3 False) esc_init = Done (LocalEscape, esc_init)
   \<and> (\<forall>k. esc_run (demo_env phi_mod None) k (Track 8 False) esc_init = OutOfFuel)"
  using track_phi_branch [of "demo_env phi_mod None" 3 8 "[]" 0 esc_init]
    track_phi_branch [of "demo_env phi_mod None" 8 7 "[]" 0 esc_init]
  by (simp add: demo_env_def phi_mod_def base_val_def value0_def ir_access_defs)

text \<open>
  The module pass's cache never holds anything. For a direct call of a function with a body
  that is not being analysed, once its analysis has returned, \<open>resultFor\<close> dereferences the null
  summary when it is asked about one of the callee's own arguments, and answers \<open>NoEscape\<close> for every
  other value, whatever the callee does with it.
\<close>
theorem resultFor_with_cache:
  assumes "ecache E = Some c" and "called_function (emod E) call = Some f"
    and "\<not> fdecl (mfun (emod E) f)" and "f \<notin> analyzing s"
    and "esc_run E n (Transform f) (s\<lparr>trackList := {}\<rparr>) = Done (e, t)"
  shows "esc_run E (Suc n) (ResultFor call v) s =
    (if v \<in> set (fargs (mfun (emod E) f)) then Crash
     else Done (NoEscape, t\<lparr>trackList := trackList s, current := current s\<rparr>))"
proof -
  have "summary_loop None v i args s' = (if v \<in> set args then Crash else Done (NoEscape, s'))" for i args s'
    by (induction args arbitrary: i) (auto simp: smon_defs)
  with assms show ?thesis
    by (simp add: esc_run.simps(2) esc_body_def resultFor_body_def nested_def getSummary_def Let_def
        smon_defs)
qed

text \<open>
  Without a cache a call is answered by the callee alone: \<open>NoEscape\<close> for a direct call of a
  declared function, \<open>GlobalEscape\<close> for a function with a body and for an indirect call.
\<close>
theorem resultFor_without_cache:
  assumes "ecache E = None"
  shows "esc_run E (Suc n) (ResultFor call v) s =
    Done (case called_function (emod E) call of
        Some f \<Rightarrow> if fdecl (mfun (emod E) f) then NoEscape else GlobalEscape
      | None \<Rightarrow> GlobalEscape, s)"
  using assms
  by (auto simp: esc_run.simps(2) esc_body_def resultFor_body_def Let_def smon_defs split: option.split)

theorem resultFor_without_cache_witness:
  "esc_run (demo_env local_mod None) (Suc 0) (ResultFor 3 6) esc_init = Done (NoEscape, esc_init)"
  using resultFor_without_cache [of "demo_env local_mod None" 0 3 6 esc_init]
  by (simp add: demo_env_def local_mod_def base_val_def value0_def called_function_def function0_def)

text \<open>
  \<^verbatim>\<open>main.g\<close> (9) with one argument (10), called by instruction 11 of \<^verbatim>\<open>main.f\<close>.
\<close>

definition callee_mod :: ir_module where
  "callee_mod =
     \<lparr>mval = base_val(9 := value0\<lparr>vkind := KFunction, vname := ''main.g''\<rparr>,
        10 := value0\<lparr>vkind := KArgument 0, vtype := i8ptr\<rparr>,
        11 := value0\<lparr>vkind := KInstruction OCall, voperands := [3, 9]\<rparr>),
      mfun = (\<lambda>_. function0)(9 := \<lparr>fargs = [10], fblocks = [[]], fdecl = False\<rparr>)\<rparr>"

theorem resultFor_with_cache_witness:
  "esc_run (demo_env callee_mod (Some Map.empty)) (Suc 5) (ResultFor 11 10) esc_init = Crash"
proof -
  let ?E = "demo_env callee_mod (Some Map.empty)"
  have run: "esc_run ?E 5 (Transform 9) (esc_init\<lparr>trackList := {}\<rparr>) = Done (NoEscape, esc_init\<lparr>current := 9\<rparr>)"
    by code_simp
  show ?thesis
    using resultFor_with_cache [OF _ _ _ _ run, of Map.empty 11 10]
    by (simp add: demo_env_def callee_mod_def base_val_def value0_def called_function_def esc_init_def)
qed



text \<open>
  Two values get the same identifier exactly when the low 16 bits of their addresses agree
  and so do their names, a value that is not an instruction counting as nameless. In particular
  two unnamed values 65536 bytes apart are confused, in the track list and in the test that a store
  stores the tracked value.
\<close>
theorem getId_eq_iff:
  "getId M v = getId M w \<longleftrightarrow>
     id_name M v = id_name M w \<and> vaddr (mval M v) AND 0xffff = vaddr (mval M w) AND 0xffff"
proof
  assume "getId M v = getId M w"
  then have "id_name M v = id_name M w"
    and "hex_string (unat (vaddr (mval M v) AND 0xffff)) = hex_string (unat (vaddr (mval M w) AND 0xffff))"
    unfolding getId_split using hex_string_no_underscore by (blast dest: last_underscore_split)+
  then show "id_name M v = id_name M w \<and> vaddr (mval M v) AND 0xffff = vaddr (mval M w) AND 0xffff"
    using hex_string_inj by (simp add: word_unat_eq_iff)
qed (simp add: getId_split)

end
