(* ===== verification/ConnectionNode.thy ===== *)
theory ConnectionNode
  imports Escape "HOL-Library.List_Lexorder" "HOL-Library.Char_ord"
begin

text \<open>
  The nodes of the connection graph declared in \<^verbatim>\<open>lib/Transforms/Escape/Node.h\<close>: their names, the
  comparison of two nodes and the index encoded in a memory node's name. A \<^verbatim>\<open>std::set<string>\<close> is its
  increasing list of elements.
\<close>

record node =
  isMem :: bool
  node_id :: string
  node_inst :: "vid option"
  indirects :: "string list"
  directs :: "string list"
  children :: "string list"
  node_fields :: "string list"

definition node0 :: node where
  "node0 = \<lparr>isMem = False, node_id = '''', node_inst = None, indirects = [], directs = [],
     children = [], node_fields = []\<rparr>"

section \<open>Comparison\<close>

text \<open>The lambda \<open>cmp\<close>: equal sizes, then a walk with two iterators.\<close>

fun cmp_walk :: "nat \<Rightarrow> string list \<Rightarrow> string list \<Rightarrow> bool" where
  "cmp_walk 0 as bs = True"
| "cmp_walk (Suc n) (a # as) (b # bs) = (if a \<noteq> b then False else cmp_walk n as bs)"
| "cmp_walk (Suc n) _ _ = False"

definition cmp_sets :: "string list \<Rightarrow> string list \<Rightarrow> bool" where
  "cmp_sets a b = (if length a \<noteq> length b then False else cmp_walk (length a) a b)"

definition node_eq :: "node \<Rightarrow> node \<Rightarrow> bool" where
  "node_eq x y = (if node_id x \<noteq> node_id y then False
     else cmp_sets (indirects x) (indirects y) \<and> cmp_sets (directs x) (directs y)
        \<and> cmp_sets (node_fields x) (node_fields y))"

section \<open>Printing\<close>

definition print_list :: "string list \<Rightarrow> string" where
  "print_list xs = concat (map (\<lambda>s. s @ '', '') xs)"

definition node_print :: "ir_module \<Rightarrow> node \<Rightarrow> string outcome" where
  "node_print M x = (case node_inst x of
       None \<Rightarrow> Crash
     | Some i \<Rightarrow>
         if \<not> (is_op M OCall i \<or> is_op M OStore i \<or> is_op M OAlloca i \<or> is_op M OBitCast i)
         then Done ''''
         else Done (node_id x @ '': '' @
           (if isMem x
            then ''fields '' @ print_list (node_fields x) @ [CHR 0x0A] @ ''children '' @
                 print_list (children x) @ [CHR 0x0A]
            else ''directs '' @ print_list (directs x) @ [CHR 0x0A] @ ''indirects '' @
                 print_list (indirects x) @ [CHR 0x0A])))"

section \<open>Names and indices\<close>









definition getRefNodeName :: "string \<Rightarrow> string" where
  "getRefNodeName reg = ''&'' @ reg"

definition makeRefNode :: "ir_module \<Rightarrow> vid \<Rightarrow> node" where
  "makeRefNode M v =
     node0\<lparr>isMem := False, node_id := getRefNodeName (vname (mval M v)),
       node_inst := (if is_inst M v then Some v else None)\<rparr>"

section \<open>Properties\<close>

lemma cmp_walk_eq: "length as = n \<Longrightarrow> length bs = n \<Longrightarrow> cmp_walk n as bs \<longleftrightarrow> as = bs"
  by (induction n as bs rule: cmp_walk.induct) auto

lemma cmp_sets_eq: "cmp_sets as bs \<longleftrightarrow> as = bs"
  using cmp_walk_eq [of as "length as" bs] by (auto simp: cmp_sets_def)

definition wf_node :: "node \<Rightarrow> bool" where
  "wf_node x \<longleftrightarrow> (\<forall>l \<in> {indirects x, directs x, children x, node_fields x}. sorted_wrt (<) l)"

lemma strict_sorted_set_eq:
  assumes "sorted_wrt (<) (xs :: string list)" and "sorted_wrt (<) ys"
  shows "xs = ys \<longleftrightarrow> set xs = set ys"
  using assms by (metis strict_sorted_equal)

text \<open>
  The comparison of two nodes decides equality of the identifiers and of the sets of indirect
  and direct references and of fields. The children, the kind and the instruction are not compared.
\<close>
theorem node_eq_iff:
  assumes "wf_node x" and "wf_node y"
  shows "node_eq x y \<longleftrightarrow> node_id x = node_id y \<and> set (indirects x) = set (indirects y)
    \<and> set (directs x) = set (directs y) \<and> set (node_fields x) = set (node_fields y)"
proof -
  from assms have "indirects x = indirects y \<longleftrightarrow> set (indirects x) = set (indirects y)"
    and "directs x = directs y \<longleftrightarrow> set (directs x) = set (directs y)"
    and "node_fields x = node_fields y \<longleftrightarrow> set (node_fields x) = set (node_fields y)"
    unfolding wf_node_def by (blast intro!: strict_sorted_set_eq)+
  then show ?thesis by (simp add: node_eq_def cmp_sets_eq)
qed

theorem node_eq_iff_witness:
  "node_eq (node0\<lparr>children := [''a'']\<rparr>) node0 \<and> node0\<lparr>children := [''a'']\<rparr> \<noteq> node0"
proof
  show "node_eq (node0\<lparr>children := [''a'']\<rparr>) node0"
    by (subst node_eq_iff) (simp_all add: wf_node_def node0_def)
  show "node0\<lparr>children := [''a'']\<rparr> \<noteq> node0" by (simp add: node0_def)
qed













end
