(* ===== verification/CallSite.thy ===== *)
theory CallSite
  imports ModRef
begin

text \<open>
  What the analyses read of a module beyond its operand graph: attributes, data layout, metadata,
  constants and intrinsics, as fields of an environment around the module, and the accessors of
  call sites (\<^verbatim>\<open>CallBase\<close> in \<^verbatim>\<open>include/llvm/IR/InstrTypes.h\<close>) over it.
\<close>

section \<open>The environment\<close>

datatype attr = ANoAlias | AByVal | ANoCapture | AReadNone | AReadOnly | AWriteOnly | AArgMemOnly
  | AInaccessibleMemOnly | AInaccessibleMemOrArgMemOnly | ANoUnwind | AReturned

datatype intrinsic = IMemset | IMemcpy | IMemmove | ILifetimeStart | ILifetimeEnd | IInvariantStart
  | IInvariantEnd | IArmNeonVld1 | IArmNeonVst1 | ILaunderInvariantGroup | IStripInvariantGroup | IOtherIntrinsic

text \<open>The three metadata nodes of \<^verbatim>\<open>AAMDNodes\<close>, null when absent.\<close>

record aatags =
  tbaa :: "nat option"
  alias_scope :: "nat option"
  noalias_scope :: "nat option"

record ir_env =
  xmod :: ir_module
  xparent :: "vid \<Rightarrow> vid" \<comment> \<open>the function of an argument or instruction\<close>
  xretattr :: "vid \<Rightarrow> attr set" \<comment> \<open>return attributes of a function or a call\<close>
  xparamattr :: "vid \<Rightarrow> nat \<Rightarrow> attr set" \<comment> \<open>parameter attributes of a function or a call\<close>
  xfnattr :: "vid \<Rightarrow> attr set" \<comment> \<open>function attributes of a function or a call\<close>
  xnbundle :: "vid \<Rightarrow> nat" \<comment> \<open>\<^verbatim>\<open>getNumTotalBundleOperands\<close>\<close>
  xbundleattr :: "vid \<Rightarrow> nat \<Rightarrow> attr \<Rightarrow> bool" \<comment> \<open>\<^verbatim>\<open>bundleOperandHasAttr\<close>\<close>
  xindirect :: "vid \<Rightarrow> nat" \<comment> \<open>\<^verbatim>\<open>CallBrInst::getNumIndirectDests\<close>\<close>
  xstoresize :: "ir_type \<Rightarrow> 64 word" \<comment> \<open>\<^verbatim>\<open>DataLayout::getTypeStoreSize\<close>\<close>
  xaatags :: "vid \<Rightarrow> aatags"
  xconstint :: "vid \<Rightarrow> 64 word option" \<comment> \<open>the zero-extended value of a \<^verbatim>\<open>ConstantInt\<close>\<close>
  xintrinsic :: "vid \<Rightarrow> intrinsic option" \<comment> \<open>\<^verbatim>\<open>dyn_cast<IntrinsicInst>\<close>\<close>
  xpattern16 :: "vid \<Rightarrow> bool" \<comment> \<open>the function is the available \<^verbatim>\<open>memset_pattern16\<close>\<close>
  xordering :: "vid \<Rightarrow> AtomicOrdering"
  xvolatile :: "vid \<Rightarrow> bool"
  xinbounds :: "vid \<Rightarrow> bool" \<comment> \<open>\<^verbatim>\<open>GEPOperator::isInBounds\<close>\<close>
  xinterposable :: "vid \<Rightarrow> bool" \<comment> \<open>\<^verbatim>\<open>GlobalValue::isInterposable\<close>\<close>

definition aatags0 :: aatags where
  "aatags0 = \<lparr>tbaa = None, alias_scope = None, noalias_scope = None\<rparr>"

text \<open>An environment without attributes, from which concrete ones are built.\<close>

definition env0 :: "ir_module \<Rightarrow> ir_env" where
  "env0 M = \<lparr>xmod = M, xparent = (\<lambda>_. 0), xretattr = (\<lambda>_. {}), xparamattr = (\<lambda>_ _. {}),
     xfnattr = (\<lambda>_. {}), xnbundle = (\<lambda>_. 0), xbundleattr = (\<lambda>_ _ _. False), xindirect = (\<lambda>_. 0),
     xstoresize = (\<lambda>_. 8), xaatags = (\<lambda>_. aatags0), xconstint = (\<lambda>_. None),
     xintrinsic = (\<lambda>_. None), xpattern16 = (\<lambda>_. False), xordering = (\<lambda>_. NotAtomic),
     xvolatile = (\<lambda>_. False), xinbounds = (\<lambda>_. False), xinterposable = (\<lambda>_. False)\<rparr>"

section \<open>Call sites\<close>

definition is_call_base :: "ir_module \<Rightarrow> vid \<Rightarrow> bool" where
  "is_call_base M v = (is_op M OCall v \<or> is_op M OInvoke v \<or> is_op M OCallBr v)"

text \<open>The operands after the data operands and before the callee.\<close>

definition extra_operands :: "ir_env \<Rightarrow> vid \<Rightarrow> nat" where
  "extra_operands X c = (if is_op (xmod X) OCall c then 0
     else if is_op (xmod X) OInvoke c then 2 else xindirect X c + 1)"

definition data_operands :: "ir_env \<Rightarrow> vid \<Rightarrow> vid list" where
  "data_operands X c =
     (let ops = voperands (mval (xmod X) c) in take (length ops - extra_operands X c - 1) ops)"

definition call_args :: "ir_env \<Rightarrow> vid \<Rightarrow> vid list" where
  "call_args X c =
     (let d = data_operands X c in take (length d - xnbundle X c) d)"

text \<open>Reading an argument past the end fails an assertion.\<close>

definition getArgOperand :: "ir_env \<Rightarrow> vid \<Rightarrow> nat \<Rightarrow> vid option" where
  "getArgOperand X c i = (if i < length (call_args X c) then Some (call_args X c ! i) else None)"

definition hasRetAttr :: "ir_env \<Rightarrow> vid \<Rightarrow> attr \<Rightarrow> bool" where
  "hasRetAttr X c k = (if k \<in> xretattr X c then True
     else case called_function (xmod X) c of Some f \<Rightarrow> k \<in> xretattr X f | None \<Rightarrow> False)"

definition paramHasAttr :: "ir_env \<Rightarrow> vid \<Rightarrow> nat \<Rightarrow> attr \<Rightarrow> bool" where
  "paramHasAttr X c i k = (if k \<in> xparamattr X c i then True
     else case called_function (xmod X) c of Some f \<Rightarrow> k \<in> xparamattr X f i | None \<Rightarrow> False)"

text \<open>Operands are numbered from 1 here; the value 0 is the return value.\<close>

definition dataOperandHasImpliedAttr :: "ir_env \<Rightarrow> vid \<Rightarrow> nat \<Rightarrow> attr \<Rightarrow> bool" where
  "dataOperandHasImpliedAttr X c i k =
     (if i = 0 then hasRetAttr X c k
      else if i < length (call_args X c) + 1 then paramHasAttr X c (i - 1) k
      else xbundleattr X c (i - 1) k)"

definition doesNotCapture :: "ir_env \<Rightarrow> vid \<Rightarrow> nat \<Rightarrow> bool" where
  "doesNotCapture X c i = dataOperandHasImpliedAttr X c (i + 1) ANoCapture"

definition isByValArgument :: "ir_env \<Rightarrow> vid \<Rightarrow> nat \<Rightarrow> bool" where
  "isByValArgument X c i = paramHasAttr X c i AByVal"

definition operandDoesNotAccessMemory :: "ir_env \<Rightarrow> vid \<Rightarrow> nat \<Rightarrow> bool" where
  "operandDoesNotAccessMemory X c i = dataOperandHasImpliedAttr X c (i + 1) AReadNone"

definition operandOnlyReadsMemory :: "ir_env \<Rightarrow> vid \<Rightarrow> nat \<Rightarrow> bool" where
  "operandOnlyReadsMemory X c i =
     (dataOperandHasImpliedAttr X c (i + 1) AReadOnly \<or> dataOperandHasImpliedAttr X c (i + 1) AReadNone)"

section \<open>Arguments\<close>

definition argHasAttribute :: "ir_env \<Rightarrow> vid \<Rightarrow> attr \<Rightarrow> bool" where
  "argHasAttribute X a k = (case vkind (mval (xmod X) a) of
       KArgument n \<Rightarrow> k \<in> xparamattr X (xparent X a) n | _ \<Rightarrow> False)"

definition hasNoAliasAttr :: "ir_env \<Rightarrow> vid \<Rightarrow> bool" where
  "hasNoAliasAttr X a =
     (if \<not> is_pointer (vtype (mval (xmod X) a)) then False else argHasAttribute X a ANoAlias)"

definition hasByValAttr :: "ir_env \<Rightarrow> vid \<Rightarrow> bool" where
  "hasByValAttr X a =
     (if \<not> is_pointer (vtype (mval (xmod X) a)) then False else argHasAttribute X a AByVal)"

definition isFenceLike :: "ir_module \<Rightarrow> vid \<Rightarrow> bool" where
  "isFenceLike M i = (is_op M OFence i \<or> is_op M OCatchPad i \<or> is_op M OCatchRet i
     \<or> is_op M OCall i \<or> is_op M OInvoke i)"

section \<open>Identified objects\<close>

definition isNoAliasCall :: "ir_env \<Rightarrow> vid \<Rightarrow> bool" where
  "isNoAliasCall X v = (is_call_base (xmod X) v \<and> hasRetAttr X v ANoAlias)"

definition isNoAliasArgument :: "ir_env \<Rightarrow> vid \<Rightarrow> bool" where
  "isNoAliasArgument X v = (is_argument (xmod X) v \<and> hasNoAliasAttr X v)"

definition isIdentifiedObject :: "ir_env \<Rightarrow> vid \<Rightarrow> bool" where
  "isIdentifiedObject X v =
     (let M = xmod X in
      if is_op M OAlloca v then True
      else if is_global_value M v \<and> vkind (mval M v) \<noteq> KGlobalAlias then True
      else if isNoAliasCall X v then True
      else if is_argument M v then hasNoAliasAttr X v \<or> hasByValAttr X v
      else False)"

definition isIdentifiedFunctionLocal :: "ir_env \<Rightarrow> vid \<Rightarrow> bool" where
  "isIdentifiedFunctionLocal X v =
     (is_op (xmod X) OAlloca v \<or> isNoAliasCall X v \<or> isNoAliasArgument X v)"

lemma identified_function_local_object: "isIdentifiedFunctionLocal X v \<Longrightarrow> isIdentifiedObject X v"
  by (auto simp: isIdentifiedFunctionLocal_def isIdentifiedObject_def isNoAliasArgument_def Let_def)

lemma call_args_prefix: "call_args X c = take (length (call_args X c)) (voperands (mval (xmod X) c))"
  by (simp add: call_args_def data_operands_def Let_def)

end
