(* ===== verification/MemLocation.thy ===== *)
theory MemLocation
  imports CallSite
begin

text \<open>
  Memory locations: \<open>LocationSize\<close> (\<^verbatim>\<open>include/llvm/Analysis/MemoryLocation.h\<close>) with its encoding in
  64 bits, and the location an instruction or a call argument accesses
  (\<^verbatim>\<open>lib/Analysis/MemoryLocation.cpp\<close>).
\<close>

section \<open>Location sizes\<close>

type_synonym LocationSize = "64 word"

definition UnknownSize :: LocationSize where "UnknownSize = NOT 0"
definition ImpreciseBit :: "64 word" where "ImpreciseBit = push_bit 63 1"
definition MapEmpty :: LocationSize where "MapEmpty = UnknownSize - 1"
definition MapTombstone :: LocationSize where "MapTombstone = UnknownSize - 2"
definition MaxValue :: "64 word" where "MaxValue = (MapTombstone - 1) AND NOT ImpreciseBit"

definition precise :: "64 word \<Rightarrow> LocationSize" where
  "precise v = (if v > MaxValue then UnknownSize else v)"

definition upperBound :: "64 word \<Rightarrow> LocationSize" where
  "upperBound v = (if v = 0 then precise 0 else if v > MaxValue then UnknownSize
     else v OR ImpreciseBit)"

definition hasValue :: "LocationSize \<Rightarrow> bool" where
  "hasValue s = (s \<noteq> UnknownSize)"

definition getValue :: "LocationSize \<Rightarrow> 64 word" where
  "getValue s = s AND NOT ImpreciseBit"

definition isPrecise :: "LocationSize \<Rightarrow> bool" where
  "isPrecise s = (s AND ImpreciseBit = 0)"

definition isZero :: "LocationSize \<Rightarrow> bool" where
  "isZero s = (hasValue s \<and> getValue s = 0)"

definition unionWith :: "LocationSize \<Rightarrow> LocationSize \<Rightarrow> LocationSize" where
  "unionWith s t = (if t = s then s else if \<not> hasValue s \<or> \<not> hasValue t then UnknownSize
     else upperBound (max (getValue s) (getValue t)))"

datatype printed_size = PUnknown | PMapEmpty | PMapTombstone | PPrecise "64 word" | PUpperBound "64 word"

definition print_size :: "LocationSize \<Rightarrow> printed_size" where
  "print_size s = (if s = UnknownSize then PUnknown else if s = MapEmpty then PMapEmpty
     else if s = MapTombstone then PMapTombstone
     else if isPrecise s then PPrecise (getValue s) else PUpperBound (getValue s))"

section \<open>Locations\<close>

record memloc =
  lptr :: "vid option" \<comment> \<open>null in a default-constructed location\<close>
  lsize :: LocationSize
  ltags :: aatags

definition memloc0 :: memloc where
  "memloc0 = \<lparr>lptr = None, lsize = UnknownSize, ltags = aatags0\<rparr>"

definition loc_of :: "vid \<Rightarrow> LocationSize \<Rightarrow> memloc" where
  "loc_of p s = \<lparr>lptr = Some p, lsize = s, ltags = aatags0\<rparr>"

definition type_size :: "ir_env \<Rightarrow> vid \<Rightarrow> LocationSize" where
  "type_size X v = precise (xstoresize X (vtype (mval (xmod X) v)))"

text \<open>
  The location of a load, store, \<open>va_arg\<close>, compare-exchange or read-modify-write; \<open>None\<close> stands for
  the failed assertion when an operand is missing.
\<close>

definition get_load :: "ir_env \<Rightarrow> vid \<Rightarrow> memloc option" where
  "get_load X i = map_option (\<lambda>p. \<lparr>lptr = Some p, lsize = type_size X i, ltags = xaatags X i\<rparr>)
     (operand (xmod X) i 0)"

definition get_store :: "ir_env \<Rightarrow> vid \<Rightarrow> memloc option" where
  "get_store X i = Option.bind (operand (xmod X) i 1) (\<lambda>p. Option.bind (operand (xmod X) i 0)
     (\<lambda>v. Some \<lparr>lptr = Some p, lsize = type_size X v, ltags = xaatags X i\<rparr>))"

definition get_vaarg :: "ir_env \<Rightarrow> vid \<Rightarrow> memloc option" where
  "get_vaarg X i = map_option (\<lambda>p. \<lparr>lptr = Some p, lsize = UnknownSize, ltags = xaatags X i\<rparr>)
     (operand (xmod X) i 0)"

definition get_cmpxchg :: "ir_env \<Rightarrow> vid \<Rightarrow> memloc option" where
  "get_cmpxchg X i = Option.bind (operand (xmod X) i 0) (\<lambda>p. Option.bind (operand (xmod X) i 1)
     (\<lambda>v. Some \<lparr>lptr = Some p, lsize = type_size X v, ltags = xaatags X i\<rparr>))"

definition get_rmw :: "ir_env \<Rightarrow> vid \<Rightarrow> memloc option" where
  "get_rmw X i = Option.bind (operand (xmod X) i 0) (\<lambda>p. Option.bind (operand (xmod X) i 1)
     (\<lambda>v. Some \<lparr>lptr = Some p, lsize = type_size X v, ltags = xaatags X i\<rparr>))"

text \<open>\<open>MemoryLocation::get\<close> on an instruction; other opcodes have no location.\<close>

definition get_loc :: "ir_env \<Rightarrow> vid \<Rightarrow> memloc option" where
  "get_loc X i =
     (if is_op (xmod X) OLoad i then get_load X i
      else if is_op (xmod X) OStore i then get_store X i
      else if is_op (xmod X) OVAArg i then get_vaarg X i
      else if is_op (xmod X) OAtomicCmpXchg i then get_cmpxchg X i
      else if is_op (xmod X) OAtomicRMW i then get_rmw X i
      else None)"

text \<open>The source and destination of a memory intrinsic: arguments 1 and 0, with length argument 2.\<close>

definition length_size :: "ir_env \<Rightarrow> vid option \<Rightarrow> LocationSize" where
  "length_size X l = (case Option.bind l (xconstint X) of Some n \<Rightarrow> precise n | None \<Rightarrow> UnknownSize)"

definition getForSource :: "ir_env \<Rightarrow> vid \<Rightarrow> memloc option" where
  "getForSource X c = map_option
     (\<lambda>p. \<lparr>lptr = Some p, lsize = length_size X (getArgOperand X c 2), ltags = xaatags X c\<rparr>)
     (getArgOperand X c 1)"

definition getForDest :: "ir_env \<Rightarrow> vid \<Rightarrow> memloc option" where
  "getForDest X c = map_option
     (\<lambda>p. \<lparr>lptr = Some p, lsize = length_size X (getArgOperand X c 2), ltags = xaatags X c\<rparr>)
     (getArgOperand X c 0)"

text \<open>
  \<open>getForArgument\<close>: the sized cases of the intrinsics, then \<^verbatim>\<open>memset_pattern16\<close>, then an unknown size.
  \<open>None\<close> is a failed assertion or cast.
\<close>

definition const_arg_size :: "ir_env \<Rightarrow> vid \<Rightarrow> nat \<Rightarrow> LocationSize option" where
  "const_arg_size X c i = Option.bind (getArgOperand X c i) (\<lambda>v. map_option precise (xconstint X v))"

definition intrinsic_arg_size :: "ir_env \<Rightarrow> vid \<Rightarrow> nat \<Rightarrow> intrinsic \<Rightarrow> LocationSize option option" where
  "intrinsic_arg_size X c i ii =
     (case ii of
        IMemset \<Rightarrow> (if i = 0 \<or> i = 1 then Some (const_arg_size X c 2) else None)
      | IMemcpy \<Rightarrow> (if i = 0 \<or> i = 1 then Some (const_arg_size X c 2) else None)
      | IMemmove \<Rightarrow> (if i = 0 \<or> i = 1 then Some (const_arg_size X c 2) else None)
      | ILifetimeStart \<Rightarrow> (if i = 1 then map_option Some (const_arg_size X c 0) else None)
      | ILifetimeEnd \<Rightarrow> (if i = 1 then map_option Some (const_arg_size X c 0) else None)
      | IInvariantStart \<Rightarrow> (if i = 1 then map_option Some (const_arg_size X c 0) else None)
      | IInvariantEnd \<Rightarrow> (if i = 0 then Some (Some (precise 0))
          else if i = 2 then map_option Some (const_arg_size X c 1) else None)
      | IArmNeonVld1 \<Rightarrow> (if i = 0 then Some (Some (type_size X c)) else None)
      | IArmNeonVst1 \<Rightarrow> (if i = 0 then map_option (\<lambda>v. Some (type_size X v)) (getArgOperand X c 1) else None)
      | _ \<Rightarrow> Some None)"

definition pattern16_arg_size :: "ir_env \<Rightarrow> vid \<Rightarrow> nat \<Rightarrow> LocationSize option option" where
  "pattern16_arg_size X c i =
     (case called_function (xmod X) c of
        Some f \<Rightarrow> if xpattern16 X f
          then (if i = 1 then Some (Some (precise 16))
                else if i = 0 then Some (const_arg_size X c 2) else None)
          else Some None
      | None \<Rightarrow> Some None)"

definition getForArgument :: "ir_env \<Rightarrow> vid \<Rightarrow> nat \<Rightarrow> memloc option" where
  "getForArgument X c i =
     Option.bind (getArgOperand X c i) (\<lambda>arg.
     Option.bind (case xintrinsic X c of Some ii \<Rightarrow> intrinsic_arg_size X c i ii | None \<Rightarrow> Some None)
       (\<lambda>s1. case s1 of
          Some s \<Rightarrow> Some \<lparr>lptr = Some arg, lsize = s, ltags = xaatags X c\<rparr>
        | None \<Rightarrow> Option.bind (pattern16_arg_size X c i) (\<lambda>s2.
            Some \<lparr>lptr = Some arg, lsize = (case s2 of Some s \<Rightarrow> s | None \<Rightarrow> UnknownSize),
                 ltags = xaatags X c\<rparr>)))"

section \<open>What a size allows\<close>

text \<open>The number of bytes a location of a given size may cover, and the sizes the constructors build.\<close>

definition size_allows :: "LocationSize \<Rightarrow> 64 word \<Rightarrow> bool" where
  "size_allows s n \<longleftrightarrow> (if \<not> hasValue s then True else if isPrecise s then n = getValue s
     else n \<le> getValue s)"

definition wf_size :: "LocationSize \<Rightarrow> bool" where
  "wf_size s \<longleftrightarrow> s = UnknownSize \<or> (s \<noteq> ImpreciseBit \<and> getValue s \<le> MaxValue)"

lemma size_consts:
  "UnknownSize = 18446744073709551615" "ImpreciseBit = 9223372036854775808"
  "MaxValue = 9223372036854775804" "MapEmpty = 18446744073709551614"
  "MapTombstone = 18446744073709551613"
proof -
  show u: "UnknownSize = 18446744073709551615" by (simp add: UnknownSize_def)
  show i: "ImpreciseBit = 9223372036854775808" by (simp add: ImpreciseBit_def)
  show e: "MapEmpty = 18446744073709551614" by (simp add: MapEmpty_def u)
  show t: "MapTombstone = 18446744073709551613" by (simp add: MapTombstone_def u)
  show "MaxValue = 9223372036854775804" by (simp add: MaxValue_def t i)
qed

lemma bit_ImpreciseBit: "bit ImpreciseBit n \<longleftrightarrow> n = 63"
proof -
  have eq: "ImpreciseBit = 2 ^ 63" by (simp add: size_consts)
  show ?thesis unfolding eq bit_exp_iff by auto
qed

lemma bit_63_iff: "bit (v :: 64 word) 63 \<longleftrightarrow> ImpreciseBit \<le> v"
proof -
  have "drop_bit 63 v = 0 \<longleftrightarrow> unat (drop_bit 63 v) = 0" by (rule unat_eq_0 [symmetric])
  also have "\<dots> \<longleftrightarrow> unat v div 2 ^ 63 = 0" 
    unfolding unat_drop_bit_eq by (simp only: drop_bit_eq_div)
  also have "\<dots> \<longleftrightarrow> unat v < 2 ^ 63" by (simp add: div_eq_0_iff)
  finally show ?thesis
    using drop_bit_eq_zero_iff_not_bit_last [of v] by (auto simp: size_consts word_le_nat_alt not_less)
qed

lemma small_value:
  assumes "v \<le> MaxValue"
  shows "v AND NOT ImpreciseBit = v" "v AND ImpreciseBit = 0"
    "(v OR ImpreciseBit) AND NOT ImpreciseBit = v" "(v OR ImpreciseBit) AND ImpreciseBit = ImpreciseBit"
proof -
  from assms have "v < ImpreciseBit" by (auto simp: size_consts intro: le_less_trans)
  then have nb: "\<not> bit v 63" by (simp add: bit_63_iff)
  show "v AND NOT ImpreciseBit = v"
    using nb by (intro bit_eqI) (auto simp: bit_and_iff bit_not_iff_eq bit_ImpreciseBit)
  show "v AND ImpreciseBit = 0"
    using nb by (intro bit_eqI) (auto simp: bit_and_iff bit_ImpreciseBit)
  show "(v OR ImpreciseBit) AND NOT ImpreciseBit = v"
    using nb by (intro bit_eqI) (auto simp: bit_and_iff bit_or_iff bit_not_iff_eq bit_ImpreciseBit)
  show "(v OR ImpreciseBit) AND ImpreciseBit = ImpreciseBit"
    by (intro bit_eqI) (auto simp: bit_and_iff bit_or_iff)
qed

lemma Unknown_not_small: "\<not> UnknownSize \<le> MaxValue" "ImpreciseBit \<noteq> 0"
  by (simp_all add: size_consts)

lemma upper_not_Unknown: "v \<le> MaxValue \<Longrightarrow> v OR ImpreciseBit \<noteq> UnknownSize"
proof
  assume v: "v \<le> MaxValue" and e: "v OR ImpreciseBit = UnknownSize"
  from small_value(3) [OF v] e have "v = UnknownSize AND NOT ImpreciseBit" by simp
  also have "\<dots> = 9223372036854775807" by (simp add: size_consts)
  finally show False using v by (simp add: size_consts)
qed

lemma precise_size:
  assumes "v \<le> MaxValue"
  shows "precise v = v" "hasValue v" "isPrecise v" "getValue v = v"
  using assms small_value [OF assms] Unknown_not_small
  by (auto simp: precise_def hasValue_def isPrecise_def getValue_def)

lemma upper_size:
  assumes "v \<le> MaxValue" and "v \<noteq> 0"
  shows "upperBound v = v OR ImpreciseBit" "hasValue (v OR ImpreciseBit)"
    "\<not> isPrecise (v OR ImpreciseBit)" "getValue (v OR ImpreciseBit) = v"
  using assms small_value [OF assms(1)] upper_not_Unknown [OF assms(1)] Unknown_not_small
  by (auto simp: upperBound_def hasValue_def isPrecise_def getValue_def)

lemma wf_size_cases:
  assumes "wf_size s"
  obtains "s = UnknownSize"
  | v where "v \<le> MaxValue" "s = v"
  | v where "v \<le> MaxValue" "v \<noteq> 0" "s = v OR ImpreciseBit"
proof (cases "s = UnknownSize")
  case False
  with assms have s: "s \<noteq> ImpreciseBit" "getValue s \<le> MaxValue" by (auto simp: wf_size_def)
  show thesis
  proof (cases "bit s 63")
    case True
    then have "s = getValue s OR ImpreciseBit"
      by (intro bit_eqI) (auto simp: getValue_def bit_and_iff bit_or_iff bit_not_iff_eq bit_ImpreciseBit)
    moreover from this s(1) have "getValue s \<noteq> 0" by auto
    ultimately show thesis using s(2) that(3) by blast
  next
    case False
    then have "s = getValue s"
      by (intro bit_eqI) (auto simp: getValue_def bit_and_iff bit_not_iff_eq bit_ImpreciseBit)
    with s(2) that(2) show thesis by metis
  qed
qed (rule that(1))

lemma wf_sizes:
  "wf_size UnknownSize" "v \<le> MaxValue \<Longrightarrow> wf_size v"
  "v \<le> MaxValue \<Longrightarrow> v \<noteq> 0 \<Longrightarrow> wf_size (v OR ImpreciseBit)"
  "wf_size (precise v)" "wf_size (upperBound v)"
proof -
  show *: "wf_size UnknownSize" by (simp add: wf_size_def)
  show **: "wf_size v" if "v \<le> MaxValue" for v
    using that precise_size [OF that] by (auto simp: wf_size_def size_consts)
  show ***: "wf_size (v OR ImpreciseBit)" if "v \<le> MaxValue" "v \<noteq> 0" for v
  proof -
    from small_value(3) [OF that(1)] that(2) have "v OR ImpreciseBit \<noteq> ImpreciseBit"
      by auto
    with upper_size [OF that] that show ?thesis by (simp add: wf_size_def)
  qed
  show "wf_size (precise v)" using * ** by (simp add: precise_def)
  show "wf_size (upperBound v)" using * ** [of 0] *** by (auto simp: upperBound_def precise_def)
qed

lemma size_allows_simps:
  "size_allows UnknownSize n"
  "v \<le> MaxValue \<Longrightarrow> size_allows v n \<longleftrightarrow> n = v"
  "v \<le> MaxValue \<Longrightarrow> v \<noteq> 0 \<Longrightarrow> size_allows (v OR ImpreciseBit) n \<longleftrightarrow> n \<le> v"
  using precise_size upper_size by (auto simp: size_allows_def hasValue_def)

lemma size_allows_upperBound: "v \<le> MaxValue \<Longrightarrow> size_allows (upperBound v) n \<longleftrightarrow> n \<le> v"
  by (cases "v = 0") (simp_all add: upper_size size_allows_simps upperBound_def [of 0] precise_size
      word_le_0_iff)

lemma only_value:
  assumes "wf_size s" and "hasValue s" and "\<And>n. size_allows s n \<Longrightarrow> n = k"
  shows "s = k"
  using assms(1)
proof (cases rule: wf_size_cases)
  case (2 v)
  with assms(3) show ?thesis by (simp add: size_allows_simps)
next
  case (3 v)
  with assms(3) [of 0] assms(3) [of v] show ?thesis by (simp add: size_allows_simps)
qed (use assms(2) in \<open>simp add: hasValue_def\<close>)

text \<open>Bounds on a well-formed size: the values it allows when it is known.\<close>

lemma wf_size_known:
  assumes "wf_size s" "hasValue s"
  shows "getValue s \<le> MaxValue" "size_allows s (getValue s)" "size_allows s n \<Longrightarrow> n \<le> getValue s"
  using assms by (auto simp: wf_size_def hasValue_def size_allows_def split: if_splits)

lemma allows_above_unknown: "size_allows s n \<Longrightarrow> \<not> n \<le> MaxValue \<Longrightarrow> wf_size s \<Longrightarrow> s = UnknownSize"
  using wf_size_known hasValue_def by (metis order_trans)

text \<open>
  C30: \<open>unionWith\<close> is the least upper bound of the representable sizes: it allows every byte count
  either size allows, and any constructible size that does so allows at least as much as it does.
\<close>
theorem unionWith_least:
  assumes "wf_size s" and "wf_size t"
  shows "wf_size (unionWith s t)
    \<and> (\<forall>n. size_allows s n \<or> size_allows t n \<longrightarrow> size_allows (unionWith s t) n)
    \<and> (\<forall>u. wf_size u \<and> (\<forall>n. size_allows s n \<or> size_allows t n \<longrightarrow> size_allows u n)
        \<longrightarrow> (\<forall>n. size_allows (unionWith s t) n \<longrightarrow> size_allows u n))"
proof -
  consider "t = s" | "t \<noteq> s" "\<not> hasValue s \<or> \<not> hasValue t" | "t \<noteq> s" "hasValue s" "hasValue t" by blast
  then show ?thesis
  proof cases
    case 1
    with assms show ?thesis by (simp add: unionWith_def)
  next
    case 2
    then have "unionWith s t = UnknownSize" by (simp add: unionWith_def)
    with 2 show ?thesis
      by (auto simp: wf_sizes size_allows_simps hasValue_def)
  next
    case 3
    let ?m = "max (getValue s) (getValue t)"
    have m: "?m \<le> MaxValue" using assms 3 wf_size_known(1) by (simp add: max_def)
    have u: "unionWith s t = upperBound ?m" using 3 by (simp add: unionWith_def)
    have up: "\<forall>n. size_allows s n \<or> size_allows t n \<longrightarrow> n \<le> ?m"
      using assms 3 wf_size_known(3) by (simp add: le_max_iff_disj)
    have "size_allows w n" if w: "wf_size w" "\<forall>n. size_allows s n \<or> size_allows t n \<longrightarrow> size_allows w n"
      and n: "n \<le> ?m" for w n
    proof (cases "hasValue w \<and> isPrecise w")
      case True
      with w(2) have "\<forall>n. size_allows s n \<or> size_allows t n \<longrightarrow> n = getValue w"
        by (simp add: size_allows_def)
      with only_value assms 3(2,3) have "s = getValue w" "t = getValue w" by blast+
      with 3(1) show ?thesis by simp
    next
      case False
      have "getValue s \<le> getValue w \<and> getValue t \<le> getValue w" if "hasValue w"
        using that False w(2) wf_size_known(2) [OF assms(1) 3(2)] wf_size_known(2) [OF assms(2) 3(3)]
        by (simp add: size_allows_def)
      then have "n \<le> getValue w" if "hasValue w"
        using that by (intro order_trans [OF n]) simp
      with False show ?thesis by (simp add: size_allows_def)
    qed
    then have "\<forall>w. wf_size w \<and> (\<forall>n. size_allows s n \<or> size_allows t n \<longrightarrow> size_allows w n)
        \<longrightarrow> (\<forall>n. n \<le> ?m \<longrightarrow> size_allows w n)"
      by blast
    with up show ?thesis
      unfolding u size_allows_upperBound [OF m] using wf_sizes(5) by blast
  qed
qed

theorem unionWith_least_witness:
  "wf_size (unionWith 3 5) \<and> size_allows (unionWith 3 5) 4 \<and> \<not> size_allows (unionWith 3 5) 6"
proof -
  have wf: "wf_size 3" "wf_size 5" by (auto intro: wf_sizes(2) simp: size_consts)
  have u: "unionWith 3 5 = upperBound 5"
    by (simp add: unionWith_def hasValue_def getValue_def size_consts max_def)
  have m: "(5 :: 64 word) \<le> MaxValue" by (simp add: size_consts)
  show ?thesis
    using unionWith_least [OF wf] unfolding u size_allows_upperBound [OF m] by simp
qed

end
