(* ===== verification/AAResults.thy ===== *)
theory AAResults
  imports MemLocation
begin

text \<open>
  The aggregation of alias analyses (\<^verbatim>\<open>lib/Analysis/AliasAnalysis.cpp\<close> and the inline parts of
  \<^verbatim>\<open>AliasAnalysis.h\<close>): each registered analysis is a provider, and a query is answered by asking the
  providers in the order of their registration. A provider is a record of pure functions: the
  per-query cache of \<^verbatim>\<open>AAQueryInfo\<close> belongs to the providers and is not seen here. A result \<open>None\<close>
  is a failed assertion (an argument without a location, an instruction without one).
\<close>

section \<open>Providers\<close>

record aa_provider =
  p_alias :: "memloc \<Rightarrow> memloc \<Rightarrow> AliasResult"
  p_constant :: "memloc \<Rightarrow> bool \<Rightarrow> bool"
  p_argmri :: "vid \<Rightarrow> nat \<Rightarrow> ModRefInfo"
  p_behavior :: "vid \<Rightarrow> FMRB"
  p_fun_behavior :: "vid \<Rightarrow> FMRB"
  p_mri_loc :: "vid \<Rightarrow> memloc \<Rightarrow> ModRefInfo"
  p_mri_call :: "vid \<Rightarrow> vid \<Rightarrow> ModRefInfo"

text \<open>The answers of \<open>AAResultBase\<close>, which an analysis inherits for the queries it does not refine.\<close>

definition AAResultBase :: aa_provider where
  "AAResultBase = \<lparr>p_alias = (\<lambda>_ _. MayAlias), p_constant = (\<lambda>_ _. False),
     p_argmri = (\<lambda>_ _. ModRef), p_behavior = (\<lambda>_. FMRB_UnknownModRefBehavior),
     p_fun_behavior = (\<lambda>_. FMRB_UnknownModRefBehavior), p_mri_loc = (\<lambda>_ _. ModRef),
     p_mri_call = (\<lambda>_ _. ModRef)\<rparr>"

record aa_results =
  aaenv :: ir_env
  aalist :: "aa_provider list"

section \<open>The chaining loops\<close>

fun alias_chain :: "aa_provider list \<Rightarrow> memloc \<Rightarrow> memloc \<Rightarrow> AliasResult" where
  "alias_chain [] a b = MayAlias"
| "alias_chain (P # Ps) a b =
     (let result = p_alias P a b in if result \<noteq> MayAlias then result else alias_chain Ps a b)"

definition aa_alias :: "aa_results \<Rightarrow> memloc \<Rightarrow> memloc \<Rightarrow> AliasResult" where
  "aa_alias A a b = alias_chain (aalist A) a b"

fun constant_chain :: "aa_provider list \<Rightarrow> memloc \<Rightarrow> bool \<Rightarrow> bool" where
  "constant_chain [] l orLocal = False"
| "constant_chain (P # Ps) l orLocal =
     (if p_constant P l orLocal then True else constant_chain Ps l orLocal)"

definition pointsToConstantMemory :: "aa_results \<Rightarrow> memloc \<Rightarrow> bool \<Rightarrow> bool" where
  "pointsToConstantMemory A l orLocal = constant_chain (aalist A) l orLocal"

text \<open>
  The loop the mod/ref queries share: the answers are intersected, and the loop is left with the
  bottom as soon as it is reached.
\<close>

fun chain :: "('r \<Rightarrow> 'r \<Rightarrow> 'r) \<Rightarrow> ('r \<Rightarrow> bool) \<Rightarrow> 'r \<Rightarrow> (aa_provider \<Rightarrow> 'r) \<Rightarrow> 'r \<Rightarrow> aa_provider list \<Rightarrow> 'r" where
  "chain meet leave bottom f r [] = r"
| "chain meet leave bottom f r (P # Ps) =
     (let r' = meet r (f P) in if leave r' then bottom else chain meet leave bottom f r' Ps)"

definition mri_chain :: "aa_results \<Rightarrow> (aa_provider \<Rightarrow> ModRefInfo) \<Rightarrow> ModRefInfo" where
  "mri_chain A f = chain intersectModRef isNoModRef NoModRef f ModRef (aalist A)"

definition behavior_chain :: "aa_results \<Rightarrow> (aa_provider \<Rightarrow> FMRB) \<Rightarrow> FMRB" where
  "behavior_chain A f =
     chain (AND) (\<lambda>r. r = FMRB_DoesNotAccessMemory) FMRB_DoesNotAccessMemory f
       FMRB_UnknownModRefBehavior (aalist A)"

definition getArgModRefInfo :: "aa_results \<Rightarrow> vid \<Rightarrow> nat \<Rightarrow> ModRefInfo" where
  "getArgModRefInfo A c i = mri_chain A (\<lambda>P. p_argmri P c i)"

definition getModRefBehavior :: "aa_results \<Rightarrow> vid \<Rightarrow> FMRB" where
  "getModRefBehavior A c = behavior_chain A (\<lambda>P. p_behavior P c)"

definition getFunModRefBehavior :: "aa_results \<Rightarrow> vid \<Rightarrow> FMRB" where
  "getFunModRefBehavior A f = behavior_chain A (\<lambda>P. p_fun_behavior P f)"

section \<open>A call and a location\<close>

definition pointer_arg :: "aa_results \<Rightarrow> vid \<Rightarrow> bool" where
  "pointer_arg A v = is_pointer (vtype (mval (xmod (aaenv A)) v))"

text \<open>The loop over the arguments: the mask of the aliasing ones and whether all must alias.\<close>

fun arg_masks :: "aa_results \<Rightarrow> vid \<Rightarrow> memloc \<Rightarrow> (nat \<times> vid) list \<Rightarrow> ModRefInfo \<Rightarrow> bool
    \<Rightarrow> (ModRefInfo \<times> bool) option" where
  "arg_masks A c loc [] am must = Some (am, must)"
| "arg_masks A c loc ((i, arg) # as) am must =
     (if \<not> pointer_arg A arg then arg_masks A c loc as am must
      else Option.bind (getForArgument (aaenv A) c i) (\<lambda>argLoc.
        let ar = aa_alias A argLoc loc
        in arg_masks A c loc as
             (if ar \<noteq> NoAlias then unionModRef am (getArgModRefInfo A c i) else am)
             (must \<and> ar = MustAlias)))"

definition refine_const :: "aa_results \<Rightarrow> memloc \<Rightarrow> ModRefInfo \<Rightarrow> ModRefInfo" where
  "refine_const A loc r =
     (if isModSet r \<and> pointsToConstantMemory A loc False then clearMod r else r)"

definition getModRefInfo_call :: "aa_results \<Rightarrow> vid \<Rightarrow> memloc \<Rightarrow> ModRefInfo option" where
  "getModRefInfo_call A c loc =
     (let result = mri_chain A (\<lambda>P. p_mri_loc P c loc) in
      if isNoModRef result then Some NoModRef
      else let mrb = getModRefBehavior A c in
      if mrb = FMRB_DoesNotAccessMemory \<or> mrb = FMRB_OnlyAccessesInaccessibleMem then Some NoModRef
      else let result = (if onlyReadsMemory mrb then clearMod result
                         else if doesNotReadMemory mrb then clearRef result else result) in
      if onlyAccessesArgPointees mrb \<or> onlyAccessesInaccessibleOrArgMem mrb then
        Option.bind (if doesAccessArgPointees mrb
                     then arg_masks A c loc (enumerate 0 (call_args (aaenv A) c)) NoModRef True
                     else Some (NoModRef, True))
          (\<lambda>(allArgsMask, isMustAlias).
            Some (if isNoModRef allArgsMask then NoModRef
              else let result = intersectModRef result allArgsMask in
                refine_const A loc (if isMustAlias then setMust result else clearMust result)))
      else Some (refine_const A loc result))"

section \<open>Two calls\<close>

text \<open>The loop over the arguments of the second call; the early exit clears the must flag.\<close>

fun call2_loop :: "aa_results \<Rightarrow> vid \<Rightarrow> vid \<Rightarrow> ModRefInfo \<Rightarrow> (nat \<times> vid) list \<Rightarrow> ModRefInfo \<Rightarrow> bool
    \<Rightarrow> (ModRefInfo \<times> bool) option" where
  "call2_loop A c1 c2 result [] r must = Some (r, must)"
| "call2_loop A c1 c2 result ((i, arg) # as) r must =
     (if \<not> pointer_arg A arg then call2_loop A c1 c2 result as r must
      else Option.bind (getForArgument (aaenv A) c2 i) (\<lambda>call2ArgLoc.
        let argModRefC2 = getArgModRefInfo A c2 i;
            argMask = (if isModSet argModRefC2 then ModRef
                       else if isRefSet argModRefC2 then Mod else NoModRef)
        in Option.bind (getModRefInfo_call A c1 call2ArgLoc) (\<lambda>modRefC1.
          let argMask = intersectModRef argMask modRefC1;
              must' = (must \<and> isMustSet modRefC1);
              r' = intersectModRef (unionModRef r argMask) result
          in if r' = result then Some (r', must' \<and> as = [])
             else call2_loop A c1 c2 result as r' must')))"

fun call1_loop :: "aa_results \<Rightarrow> vid \<Rightarrow> vid \<Rightarrow> ModRefInfo \<Rightarrow> (nat \<times> vid) list \<Rightarrow> ModRefInfo \<Rightarrow> bool
    \<Rightarrow> (ModRefInfo \<times> bool) option" where
  "call1_loop A c1 c2 result [] r must = Some (r, must)"
| "call1_loop A c1 c2 result ((i, arg) # as) r must =
     (if \<not> pointer_arg A arg then call1_loop A c1 c2 result as r must
      else Option.bind (getForArgument (aaenv A) c1 i) (\<lambda>call1ArgLoc.
        let argModRefC1 = getArgModRefInfo A c1 i
        in Option.bind (getModRefInfo_call A c2 call1ArgLoc) (\<lambda>modRefC2.
          let r' = (if (isModSet argModRefC1 \<and> isModOrRefSet modRefC2)
                      \<or> (isRefSet argModRefC1 \<and> isModSet modRefC2)
                    then intersectModRef (unionModRef r argModRefC1) result else r);
              must' = (must \<and> isMustSet modRefC2)
          in if r' = result then Some (r', must' \<and> as = [])
             else call1_loop A c1 c2 result as r' must')))"

definition must_result :: "ModRefInfo \<times> bool \<Rightarrow> ModRefInfo" where
  "must_result = (\<lambda>(r, isMustAlias). if isNoModRef r then NoModRef
     else if isMustAlias then setMust r else clearMust r)"

definition getModRefInfo_calls :: "aa_results \<Rightarrow> vid \<Rightarrow> vid \<Rightarrow> ModRefInfo option" where
  "getModRefInfo_calls A c1 c2 =
     (let result = mri_chain A (\<lambda>P. p_mri_call P c1 c2) in
      if isNoModRef result then Some NoModRef
      else let call1B = getModRefBehavior A c1 in
      if call1B = FMRB_DoesNotAccessMemory then Some NoModRef
      else let call2B = getModRefBehavior A c2 in
      if call2B = FMRB_DoesNotAccessMemory then Some NoModRef
      else if onlyReadsMemory call1B \<and> onlyReadsMemory call2B then Some NoModRef
      else let result = (if onlyReadsMemory call1B then clearMod result
                         else if doesNotReadMemory call1B then clearRef result else result) in
      if onlyAccessesArgPointees call2B then
        (if \<not> doesAccessArgPointees call2B then Some NoModRef
         else map_option must_result
           (call2_loop A c1 c2 result (enumerate 0 (call_args (aaenv A) c2)) NoModRef True))
      else if onlyAccessesArgPointees call1B then
        (if \<not> doesAccessArgPointees call1B then Some NoModRef
         else map_option must_result
           (call1_loop A c1 c2 result (enumerate 0 (call_args (aaenv A) c1)) NoModRef True))
      else Some result)"

section \<open>Instructions and a location\<close>

text \<open>
  The first case of each: atomic accesses with an ordering are not refined. \<open>get\<close> is the location
  accessed, computed only when the queried location has a pointer.
\<close>

definition with_alias :: "aa_results \<Rightarrow> memloc option \<Rightarrow> memloc \<Rightarrow> (AliasResult \<Rightarrow> ModRefInfo) \<Rightarrow> ModRefInfo option" where
  "with_alias A mine loc k = Option.bind mine (\<lambda>m. Some (k (aa_alias A m loc)))"

definition getModRefInfo_load :: "aa_results \<Rightarrow> vid \<Rightarrow> memloc \<Rightarrow> ModRefInfo option" where
  "getModRefInfo_load A i loc =
     (if isStrongerThan (xordering (aaenv A) i) Unordered then Some ModRef
      else if lptr loc \<noteq> None then
        with_alias A (get_load (aaenv A) i) loc (\<lambda>ar.
          if ar = NoAlias then NoModRef else if ar = MustAlias then MustRef else Ref)
      else Some Ref)"

definition getModRefInfo_store :: "aa_results \<Rightarrow> vid \<Rightarrow> memloc \<Rightarrow> ModRefInfo option" where
  "getModRefInfo_store A i loc =
     (if isStrongerThan (xordering (aaenv A) i) Unordered then Some ModRef
      else if lptr loc \<noteq> None then
        with_alias A (get_store (aaenv A) i) loc (\<lambda>ar.
          if ar = NoAlias then NoModRef
          else if pointsToConstantMemory A loc False then NoModRef
          else if ar = MustAlias then MustMod else Mod)
      else Some Mod)"

definition getModRefInfo_fence :: "aa_results \<Rightarrow> vid \<Rightarrow> memloc \<Rightarrow> ModRefInfo option" where
  "getModRefInfo_fence A i loc =
     Some (if lptr loc \<noteq> None \<and> pointsToConstantMemory A loc False then Ref else ModRef)"

definition getModRefInfo_vaarg :: "aa_results \<Rightarrow> vid \<Rightarrow> memloc \<Rightarrow> ModRefInfo option" where
  "getModRefInfo_vaarg A i loc =
     (if lptr loc \<noteq> None then
        with_alias A (get_vaarg (aaenv A) i) loc (\<lambda>ar.
          if ar = NoAlias then NoModRef
          else if pointsToConstantMemory A loc False then NoModRef
          else if ar = MustAlias then MustModRef else ModRef)
      else Some ModRef)"

definition getModRefInfo_catchpad :: "aa_results \<Rightarrow> vid \<Rightarrow> memloc \<Rightarrow> ModRefInfo option" where
  "getModRefInfo_catchpad A i loc =
     Some (if lptr loc \<noteq> None \<and> pointsToConstantMemory A loc False then NoModRef else ModRef)"

definition getModRefInfo_catchret :: "aa_results \<Rightarrow> vid \<Rightarrow> memloc \<Rightarrow> ModRefInfo option" where
  "getModRefInfo_catchret A i loc =
     Some (if lptr loc \<noteq> None \<and> pointsToConstantMemory A loc False then NoModRef else ModRef)"

text \<open>The ordering of a compare-exchange is its success ordering.\<close>

definition getModRefInfo_cmpxchg :: "aa_results \<Rightarrow> vid \<Rightarrow> memloc \<Rightarrow> ModRefInfo option" where
  "getModRefInfo_cmpxchg A i loc =
     (if isStrongerThanMonotonic (xordering (aaenv A) i) then Some ModRef
      else if lptr loc \<noteq> None then
        with_alias A (get_cmpxchg (aaenv A) i) loc (\<lambda>ar.
          if ar = NoAlias then NoModRef else if ar = MustAlias then MustModRef else ModRef)
      else Some ModRef)"

definition getModRefInfo_rmw :: "aa_results \<Rightarrow> vid \<Rightarrow> memloc \<Rightarrow> ModRefInfo option" where
  "getModRefInfo_rmw A i loc =
     (if isStrongerThanMonotonic (xordering (aaenv A) i) then Some ModRef
      else if lptr loc \<noteq> None then
        with_alias A (get_rmw (aaenv A) i) loc (\<lambda>ar.
          if ar = NoAlias then NoModRef else if ar = MustAlias then MustModRef else ModRef)
      else Some ModRef)"

text \<open>The dispatch on the opcode. \<^verbatim>\<open>callbr\<close> is a \<^verbatim>\<open>CallBase\<close> but has no case of its own.\<close>

definition getModRefInfo_inst :: "aa_results \<Rightarrow> vid \<Rightarrow> memloc option \<Rightarrow> ModRefInfo option" where
  "getModRefInfo_inst A i optLoc =
     (let M = xmod (aaenv A) in
      if optLoc = None \<and> is_call_base M i then Some (createModRefInfo (getModRefBehavior A i))
      else
        let loc = (case optLoc of Some l \<Rightarrow> l | None \<Rightarrow> memloc0) in
        if is_op M OVAArg i then getModRefInfo_vaarg A i loc
        else if is_op M OLoad i then getModRefInfo_load A i loc
        else if is_op M OStore i then getModRefInfo_store A i loc
        else if is_op M OFence i then getModRefInfo_fence A i loc
        else if is_op M OAtomicCmpXchg i then getModRefInfo_cmpxchg A i loc
        else if is_op M OAtomicRMW i then getModRefInfo_rmw A i loc
        else if is_op M OCall i then getModRefInfo_call A i loc
        else if is_op M OInvoke i then getModRefInfo_call A i loc
        else if is_op M OCatchPad i then getModRefInfo_catchpad A i loc
        else if is_op M OCatchRet i then getModRefInfo_catchret A i loc
        else Some NoModRef)"

text \<open>What an instruction does that a call depends on.\<close>

definition getModRefInfo_inst_call :: "aa_results \<Rightarrow> vid \<Rightarrow> vid \<Rightarrow> ModRefInfo option" where
  "getModRefInfo_inst_call A i call2 =
     (let M = xmod (aaenv A) in
      if is_call_base M i then getModRefInfo_calls A i call2
      else if isFenceLike M i then Some ModRef
      else Option.bind (get_loc (aaenv A) i) (\<lambda>defLoc.
        Option.bind (getModRefInfo_call A call2 defLoc) (\<lambda>mr.
          Some (if isModOrRefSet mr then setModAndRef mr else NoModRef))))"

section \<open>Ranges of instructions\<close>

text \<open>
  The range runs from the first instruction to the last, both included; running off the end of the
  block, when the last does not follow the first, has no result.
\<close>

fun range_loop :: "aa_results \<Rightarrow> memloc \<Rightarrow> ModRefInfo \<Rightarrow> vid \<Rightarrow> vid list \<Rightarrow> bool option" where
  "range_loop A loc mode e [] = None"
| "range_loop A loc mode e (i # is) =
     Option.bind (getModRefInfo_inst A i (Some loc)) (\<lambda>mr.
       if isModOrRefSet (intersectModRef mr mode) then Some True
       else if i = e then Some False
       else range_loop A loc mode e is)"

definition canInstructionRangeModRef ::
  "aa_results \<Rightarrow> vid list \<Rightarrow> vid \<Rightarrow> vid \<Rightarrow> memloc \<Rightarrow> ModRefInfo \<Rightarrow> bool option" where
  "canInstructionRangeModRef A bb i1 i2 loc mode =
     range_loop A loc mode i2 (dropWhile (\<lambda>i. i \<noteq> i1) bb)"

definition canBasicBlockModify :: "aa_results \<Rightarrow> vid list \<Rightarrow> memloc \<Rightarrow> bool option" where
  "canBasicBlockModify A bb loc =
     (case bb of [] \<Rightarrow> None | i # _ \<Rightarrow> canInstructionRangeModRef A bb i (last bb) loc Mod)"

section \<open>callCapturesBefore\<close>

text \<open>
  \<open>und\<close> is \<^verbatim>\<open>GetUnderlyingObject\<close> and \<open>captured\<close> says whether \<^verbatim>\<open>PointerMayBeCapturedBefore\<close> holds of the
  object at the instruction.
\<close>

fun captures_loop :: "aa_results \<Rightarrow> vid \<Rightarrow> vid \<Rightarrow> nat \<Rightarrow> vid list \<Rightarrow> ModRefInfo \<Rightarrow> bool \<Rightarrow> ModRefInfo" where
  "captures_loop A c object argNo [] r must = (if must then setMust r else clearMust r)"
| "captures_loop A c object argNo (ci # cis) r must =
     (let X = aaenv A in
      if \<not> pointer_arg A ci
         \<or> (\<not> doesNotCapture X c argNo \<and> argNo < length (call_args X c) \<and> \<not> isByValArgument X c argNo)
      then captures_loop A c object (Suc argNo) cis r must
      else
        let ar = aa_alias A (loc_of ci UnknownSize) (loc_of object UnknownSize);
            must' = (if ar \<noteq> MustAlias then False else must)
        in if ar = NoAlias then captures_loop A c object (Suc argNo) cis r must'
           else if operandDoesNotAccessMemory X c argNo
             then captures_loop A c object (Suc argNo) cis r must'
           else if operandOnlyReadsMemory X c argNo
             then captures_loop A c object (Suc argNo) cis Ref must'
           else ModRef)"

definition callCapturesBefore ::
  "aa_results \<Rightarrow> (vid \<Rightarrow> vid) \<Rightarrow> (vid \<Rightarrow> vid \<Rightarrow> bool) \<Rightarrow> bool \<Rightarrow> vid \<Rightarrow> memloc \<Rightarrow> ModRefInfo option" where
  "callCapturesBefore A und captured haveDT i loc =
     (let X = aaenv A; M = xmod X in
      if \<not> haveDT then Some ModRef
      else Option.bind (lptr loc) (\<lambda>p.
        let object = und p in
        if \<not> isIdentifiedObject X object \<or> is_global_value M object \<or> is_constant M object
        then Some ModRef
        else if \<not> is_call_base M i \<or> i = object then Some ModRef
        else if captured object i then Some ModRef
        else Some (captures_loop A i object 0 (data_operands X i) NoModRef True)))"

section \<open>The order of the providers\<close>

datatype aa_kind = BasicAA | ScopedNoAliasAA | TypeBasedAA | ObjCARCAA | GlobalsAA | SCEVAA
  | CFLAndersAA | CFLSteensAA

text \<open>\<open>AAResultsWrapperPass::runOnFunction\<close> and \<open>createLegacyPMAAResults\<close>, without the external callback.\<close>

definition wrapper_order :: "bool \<Rightarrow> (aa_kind \<Rightarrow> bool) \<Rightarrow> aa_kind list" where
  "wrapper_order disableBasicAA available =
     (if \<not> disableBasicAA then [BasicAA] else []) @
     filter available [ScopedNoAliasAA, TypeBasedAA, ObjCARCAA, GlobalsAA, SCEVAA, CFLAndersAA, CFLSteensAA]"

definition legacy_order :: "bool \<Rightarrow> (aa_kind \<Rightarrow> bool) \<Rightarrow> aa_kind list" where
  "legacy_order disableBasicAA available =
     (if \<not> disableBasicAA then [BasicAA] else []) @
     filter available [ScopedNoAliasAA, TypeBasedAA, ObjCARCAA, GlobalsAA, CFLAndersAA, CFLSteensAA]"

end
