(* ===== verification/AASound.thy ===== *)
theory AASound
  imports AAResults
begin

text \<open>
  Soundness of the aggregated queries. A \<open>ground\<close> says what each instruction really does: a set of
  accesses, each with the way the memory was reached and a byte, and the bytes a location covers. A
  provider is sound for it when every answer of its allows what happens. The theorems show that the
  aggregation of sound providers is sound.
\<close>

section \<open>What happens\<close>

datatype origin = FromArg nat | FromInaccessible | FromOther

definition kind_of :: "origin \<Rightarrow> mem_kind" where
  "kind_of o' = (case o' of FromArg _ \<Rightarrow> ArgumentMem | FromInaccessible \<Rightarrow> InaccessibleMem
     | FromOther \<Rightarrow> OtherMem)"

record 'x ground =
  g_acts :: "vid \<Rightarrow> (origin \<times> access \<times> 'x) set"
  g_foot :: "memloc \<Rightarrow> 'x set"

text \<open>
  The dependence of one instruction on another: it may modify what the other accesses, or read what
  the other modifies.
\<close>

definition depends :: "'x ground \<Rightarrow> vid \<Rightarrow> vid \<Rightarrow> access set" where
  "depends G i j = {a. \<exists>x o1 o2 b. (o1, a, x) \<in> g_acts G i \<and> (o2, b, x) \<in> g_acts G j
     \<and> (a = AMod \<or> b = AMod)}"

text \<open>
  What the documentation of each query promises. Constant memory is never modified; \<open>va_arg\<close> and the
  exception handling instructions do not access it at all, since loads from constants do not count
  as accesses.
\<close>

definition reads_constants :: "ir_module \<Rightarrow> vid \<Rightarrow> bool" where
  "reads_constants M i \<longleftrightarrow> \<not> is_op M OVAArg i \<and> \<not> is_op M OCatchPad i \<and> \<not> is_op M OCatchRet i"

definition provider_sound :: "'x ground \<Rightarrow> ir_module \<Rightarrow> aa_provider \<Rightarrow> bool" where
  "provider_sound G M P \<longleftrightarrow>
     (\<forall>l m. p_alias P l m = NoAlias \<longrightarrow> g_foot G l \<inter> g_foot G m = {})
   \<and> (\<forall>l i o' a x. p_constant P l False \<longrightarrow> (o', a, x) \<in> g_acts G i \<longrightarrow> x \<in> g_foot G l
        \<longrightarrow> a = ARef \<and> reads_constants M i)
   \<and> (\<forall>c k a x. (FromArg k, a, x) \<in> g_acts G c \<longrightarrow> a \<in> accs (p_argmri P c k))
   \<and> (\<forall>c o' a x. (o', a, x) \<in> g_acts G c \<longrightarrow> (kind_of o', a) \<in> fmrb_accs (p_behavior P c))
   \<and> (\<forall>c l o' a x. (o', a, x) \<in> g_acts G c \<longrightarrow> x \<in> g_foot G l \<longrightarrow> a \<in> accs (p_mri_loc P c l))
   \<and> (\<forall>c d. depends G c d \<subseteq> accs (p_mri_call P c d))"

text \<open>
  How instructions reach memory: through a pointer argument a call reaches bytes of that argument's
  location, and memory inaccessible to the IR is covered by no location.
\<close>

definition calls_ok :: "'x ground \<Rightarrow> aa_results \<Rightarrow> bool" where
  "calls_ok G A \<longleftrightarrow>
     (\<forall>c k a x. (FromArg k, a, x) \<in> g_acts G c \<longrightarrow>
        k < length (call_args (aaenv A) c) \<and> pointer_arg A (call_args (aaenv A) c ! k)
        \<and> (\<forall>l. getForArgument (aaenv A) c k = Some l \<longrightarrow> x \<in> g_foot G l))
   \<and> (\<forall>c a x l. (FromInaccessible, a, x) \<in> g_acts G c \<longrightarrow> x \<notin> g_foot G l)"

section \<open>The chaining loop\<close>

locale aa_chain =
  fixes meet :: "'r \<Rightarrow> 'r \<Rightarrow> 'r" and leave :: "'r \<Rightarrow> bool" and bottom :: 'r and gamma :: "'r \<Rightarrow> 'e set"
  assumes gamma_meet: "gamma (meet r s) = gamma r \<inter> gamma s"
    and gamma_leave: "leave r \<Longrightarrow> gamma r = {}"
    and gamma_bottom: "gamma bottom = {}"
begin

lemma gamma_chain: "gamma (chain meet leave bottom f r Ps) = gamma r \<inter> (\<Inter>P\<in>set Ps. gamma (f P))"
proof (induction Ps arbitrary: r)
  case (Cons P Ps)
  show ?case
  proof (cases "leave (meet r (f P))")
    case True
    then have "gamma r \<inter> gamma (f P) = {}" using gamma_leave gamma_meet by blast
    with True show ?thesis by (auto simp: gamma_bottom)
  qed (simp add: Cons.IH gamma_meet Int_assoc)
qed simp

lemma chain_allows:
  assumes "e \<in> gamma r" and "\<And>P. P \<in> set Ps \<Longrightarrow> e \<in> gamma (f P)"
  shows "e \<in> gamma (chain meet leave bottom f r Ps)"
  using assms by (simp add: gamma_chain)

end

interpretation mri: aa_chain intersectModRef isNoModRef NoModRef accs
  by unfold_locales (simp_all add: mri_simps)

interpretation fmrb: aa_chain "(AND)" "\<lambda>r. r = FMRB_DoesNotAccessMemory" FMRB_DoesNotAccessMemory fmrb_accs
  by unfold_locales (simp_all add: fmrb_accs_and fmrb_accs_none)

lemma mri_chain_allows: "(\<And>P. P \<in> set (aalist A) \<Longrightarrow> a \<in> accs (f P)) \<Longrightarrow> a \<in> accs (mri_chain A f)"
  unfolding mri_chain_def by (rule mri.chain_allows) (simp_all add: mri_simps, cases a, simp_all)

lemma behavior_chain_allows:
  "(\<And>P. P \<in> set (aalist A) \<Longrightarrow> e \<in> fmrb_accs (f P)) \<Longrightarrow> e \<in> fmrb_accs (behavior_chain A f)"
  unfolding behavior_chain_def by (rule fmrb.chain_allows) (simp_all add: fmrb_accs_unknown)

lemma alias_chain_first:
  "alias_chain Ps l m =
     (case filter (\<lambda>P. p_alias P l m \<noteq> MayAlias) Ps of [] \<Rightarrow> MayAlias | P # _ \<Rightarrow> p_alias P l m)"
  by (induction Ps) (auto simp: Let_def)

lemma alias_chain_in: "alias_chain Ps l m = r \<Longrightarrow> r \<noteq> MayAlias \<Longrightarrow> \<exists>P\<in>set Ps. p_alias P l m = r"
  by (induction Ps) (auto simp: Let_def split: if_splits)

lemma constant_chain_in: "constant_chain Ps l b \<Longrightarrow> \<exists>P\<in>set Ps. p_constant P l b"
  by (induction Ps) (auto split: if_splits)

section \<open>Soundness\<close>

definition providers_sound :: "'x ground \<Rightarrow> aa_results \<Rightarrow> bool" where
  "providers_sound G A \<longleftrightarrow> (\<forall>P\<in>set (aalist A). provider_sound G (xmod (aaenv A)) P)"

lemma provider_soundD:
  assumes "provider_sound G M P"
  shows "p_alias P l m = NoAlias \<Longrightarrow> g_foot G l \<inter> g_foot G m = {}"
    and "p_constant P l False \<Longrightarrow> (o', a, x) \<in> g_acts G i \<Longrightarrow> x \<in> g_foot G l \<Longrightarrow>
      a = ARef \<and> reads_constants M i"
    and "(FromArg k, a, x) \<in> g_acts G i \<Longrightarrow> a \<in> accs (p_argmri P i k)"
    and "(o', a, x) \<in> g_acts G i \<Longrightarrow> (kind_of o', a) \<in> fmrb_accs (p_behavior P i)"
    and "(o', a, x) \<in> g_acts G i \<Longrightarrow> x \<in> g_foot G l \<Longrightarrow> a \<in> accs (p_mri_loc P i l)"
    and "a \<in> depends G i j \<Longrightarrow> a \<in> accs (p_mri_call P i j)"
proof -
  note sound = assms [unfolded provider_sound_def]
  show "p_alias P l m = NoAlias \<Longrightarrow> g_foot G l \<inter> g_foot G m = {}"
    using sound by (elim conjE allE [where x = l] allE [where x = m]) simp
  show "a = ARef \<and> reads_constants M i"
    if "p_constant P l False" "(o', a, x) \<in> g_acts G i" "x \<in> g_foot G l"
    using that sound [THEN conjunct2, THEN conjunct1] by metis
  show "(FromArg k, a, x) \<in> g_acts G i \<Longrightarrow> a \<in> accs (p_argmri P i k)"
    using sound [THEN conjunct2, THEN conjunct2, THEN conjunct1] by metis
  show "(o', a, x) \<in> g_acts G i \<Longrightarrow> (kind_of o', a) \<in> fmrb_accs (p_behavior P i)"
    using sound [THEN conjunct2, THEN conjunct2, THEN conjunct2, THEN conjunct1] by metis
  show "(o', a, x) \<in> g_acts G i \<Longrightarrow> x \<in> g_foot G l \<Longrightarrow> a \<in> accs (p_mri_loc P i l)"
    using sound [THEN conjunct2, THEN conjunct2, THEN conjunct2, THEN conjunct2, THEN conjunct1] by metis
  show "a \<in> depends G i j \<Longrightarrow> a \<in> accs (p_mri_call P i j)"
    using sound [THEN conjunct2, THEN conjunct2, THEN conjunct2, THEN conjunct2, THEN conjunct2] by blast
qed

lemma providers_soundD:
  "providers_sound G A \<Longrightarrow> P \<in> set (aalist A) \<Longrightarrow> provider_sound G (xmod (aaenv A)) P"
  by (simp add: providers_sound_def)

lemma sound_alias:
  assumes "providers_sound G A" and "aa_alias A l m = NoAlias"
  shows "g_foot G l \<inter> g_foot G m = {}"
proof -
  from assms(2) obtain P where "P \<in> set (aalist A)" "p_alias P l m = NoAlias"
    using alias_chain_in by (fastforce simp: aa_alias_def)
  with providers_soundD [OF assms(1)] provider_soundD(1) show ?thesis by metis
qed

lemma sound_constant:
  assumes "providers_sound G A" and "pointsToConstantMemory A l False"
    and "(o', a, x) \<in> g_acts G i" and "x \<in> g_foot G l"
  shows "a = ARef \<and> reads_constants (xmod (aaenv A)) i"
proof -
  from assms(2) obtain P where "P \<in> set (aalist A)" "p_constant P l False"
    using constant_chain_in by (fastforce simp: pointsToConstantMemory_def)
  with providers_soundD [OF assms(1)] provider_soundD(2) assms(3,4) show ?thesis by metis
qed

lemma sound_arg:
  "providers_sound G A \<Longrightarrow> (FromArg k, a, x) \<in> g_acts G c \<Longrightarrow> a \<in> accs (getArgModRefInfo A c k)"
  unfolding getArgModRefInfo_def
  by (rule mri_chain_allows) (rule provider_soundD(3) [OF providers_soundD])

lemma sound_behavior:
  "providers_sound G A \<Longrightarrow> (o', a, x) \<in> g_acts G c \<Longrightarrow> (kind_of o', a) \<in> fmrb_accs (getModRefBehavior A c)"
  unfolding getModRefBehavior_def
  by (rule behavior_chain_allows) (rule provider_soundD(4) [OF providers_soundD])

lemma sound_loc_chain:
  "providers_sound G A \<Longrightarrow> (o', a, x) \<in> g_acts G c \<Longrightarrow> x \<in> g_foot G l \<Longrightarrow>
   a \<in> accs (mri_chain A (\<lambda>P. p_mri_loc P c l))"
  by (rule mri_chain_allows) (rule provider_soundD(5) [OF providers_soundD])

lemma sound_call_chain:
  "providers_sound G A \<Longrightarrow> a \<in> depends G c d \<Longrightarrow> a \<in> accs (mri_chain A (\<lambda>P. p_mri_call P c d))"
  by (rule mri_chain_allows) (rule provider_soundD(6) [OF providers_soundD])

text \<open>What the behaviour bits say of an access.\<close>

lemma fmrb_accsD:
  assumes "(k, a) \<in> fmrb_accs b"
  shows "a = AMod \<Longrightarrow> \<not> onlyReadsMemory b" "a = ARef \<Longrightarrow> \<not> doesNotReadMemory b"
    "onlyAccessesArgPointees b \<Longrightarrow> k = ArgumentMem"
    "onlyAccessesInaccessibleOrArgMem b \<Longrightarrow> k \<noteq> InaccessibleMem \<Longrightarrow> k = ArgumentMem"
    "k = ArgumentMem \<Longrightarrow> doesAccessArgPointees b"
  using assms
  by (auto simp: fmrb_accs_def fmrb_only_simps mri_simps kind_bit_def split: mem_kind.splits)

lemma accs_read_write_refine:
  assumes "(k, a) \<in> fmrb_accs b" and "a \<in> accs r"
  shows "a \<in> accs (if onlyReadsMemory b then clearMod r else if doesNotReadMemory b then clearRef r else r)"
  using assms fmrb_accsD(1,2) [OF assms(1)] by (auto simp: mri_simps)

lemma fmrb_inaccessible_only: "(k, a) \<in> fmrb_accs FMRB_OnlyAccessesInaccessibleMem \<Longrightarrow> k = InaccessibleMem"
proof -
  have "\<not> bit FMRB_OnlyAccessesInaccessibleMem 3" "\<not> bit FMRB_OnlyAccessesInaccessibleMem 5"
    unfolding FMRB_OnlyAccessesInaccessibleMem_def bit_or_iff
    by (simp_all add: mri_bits_def bit_7_word)
  then show "(k, a) \<in> fmrb_accs FMRB_OnlyAccessesInaccessibleMem \<Longrightarrow> k = InaccessibleMem"
    by (cases k) (auto simp: fmrb_accs_def kind_bit_def)
qed

lemma arg_masks_allows:
  assumes "arg_masks A c loc as am must = Some (r, b)"
  shows "accs am \<subseteq> accs r
    \<and> (\<forall>i arg l. (i, arg) \<in> set as \<longrightarrow> pointer_arg A arg \<longrightarrow> getForArgument (aaenv A) c i = Some l \<longrightarrow>
          aa_alias A l loc \<noteq> NoAlias \<longrightarrow> accs (getArgModRefInfo A c i) \<subseteq> accs r)
    \<and> (\<forall>i arg. (i, arg) \<in> set as \<longrightarrow> pointer_arg A arg \<longrightarrow> getForArgument (aaenv A) c i \<noteq> None)"
  using assms
proof (induction A c loc as am must rule: arg_masks.induct)
  case (2 A c loc i arg as am must)
  show ?case
  proof (cases "pointer_arg A arg")
    case False
    with 2 show ?thesis by auto
  next
    case True
    with 2(3) obtain l where l: "getForArgument (aaenv A) c i = Some l"
      and rest: "arg_masks A c loc as
          (if aa_alias A l loc \<noteq> NoAlias then unionModRef am (getArgModRefInfo A c i) else am)
          (must \<and> aa_alias A l loc = MustAlias) = Some (r, b)"
      by (auto simp: Let_def split: Option.bind_splits)
    from True have "\<not> \<not> pointer_arg A arg" by simp
    from 2(2) [OF this l refl rest] show ?thesis
      using l by (auto simp: mri_simps split: if_splits)
  qed
qed simp

lemma enumerate_mem: "k < length xs \<Longrightarrow> (k, xs ! k) \<in> set (enumerate 0 xs)"
  by (simp add: in_set_enumerate_eq)

lemma accs_refine_const:
  assumes "providers_sound G A" and "(o', a, x) \<in> g_acts G i" and "x \<in> g_foot G loc" and "a \<in> accs r"
  shows "a \<in> accs (refine_const A loc r)"
  using assms sound_constant [OF assms(1) _ assms(2,3)] by (auto simp: refine_const_def mri_simps)

lemma getModRefInfo_call_allows:
  assumes "providers_sound G A" and "calls_ok G A"
    and "getModRefInfo_call A c loc = Some r"
    and act: "(o', a, x) \<in> g_acts G c" and x: "x \<in> g_foot G loc"
  shows "a \<in> accs r"
proof -
  let ?r0 = "mri_chain A (\<lambda>P. p_mri_loc P c loc)" and ?b = "getModRefBehavior A c"
  let ?r1 = "if onlyReadsMemory ?b then clearMod ?r0 else if doesNotReadMemory ?b then clearRef ?r0 else ?r0"
  have r0: "a \<in> accs ?r0" using sound_loc_chain [OF assms(1) act x] .
  have b: "(kind_of o', a) \<in> fmrb_accs ?b" using sound_behavior [OF assms(1) act] .
  have k: "kind_of o' \<noteq> InaccessibleMem"
    using assms(2) act x by (cases o') (auto simp: calls_ok_def kind_of_def)
  have r1: "a \<in> accs ?r1" using accs_read_write_refine [OF b r0] .
  have const: "a \<in> accs s \<Longrightarrow> a \<in> accs (refine_const A loc s)" for s
    using accs_refine_const [OF assms(1) act x] .
  have nb: "?b \<noteq> FMRB_DoesNotAccessMemory" "?b \<noteq> FMRB_OnlyAccessesInaccessibleMem"
    using b k fmrb_inaccessible_only fmrb_accs_none by auto
  have n0: "\<not> isNoModRef ?r0" using r0 by (auto simp: mri_simps)
  show ?thesis
  proof (cases "onlyAccessesArgPointees ?b \<or> onlyAccessesInaccessibleOrArgMem ?b")
    case False
    with assms(3) n0 nb const [OF r1] show ?thesis
      by (simp add: getModRefInfo_call_def Let_def)
  next
    case True
    with fmrb_accsD(3,4) [OF b] k have kind: "kind_of o' = ArgumentMem" by blast
    then obtain j where j: "o' = FromArg j" by (cases o') (auto simp: kind_of_def)
    let ?masks = "arg_masks A c loc (enumerate 0 (call_args (aaenv A) c)) NoModRef True"
    have "getModRefInfo_call A c loc = Option.bind ?masks (\<lambda>(am, must).
        Some (if isNoModRef am then NoModRef
          else refine_const A loc (if must then setMust (intersectModRef ?r1 am)
            else clearMust (intersectModRef ?r1 am))))"
      using n0 nb True fmrb_accsD(5) [OF b kind]
      by (simp only: getModRefInfo_call_def Let_def simp_thms if_True if_False)
    with assms(3) obtain am must where masks: "?masks = Some (am, must)"
        and r: "r = (if isNoModRef am then NoModRef else
          refine_const A loc (if must then setMust (intersectModRef ?r1 am) else clearMust (intersectModRef ?r1 am)))"
      by (cases ?masks) (simp_all only: Option.bind.simps split_paired_all prod.case option.inject option.distinct)
    let ?arg = "call_args (aaenv A) c ! j"
    from assms(2) act j have arg: "j < length (call_args (aaenv A) c)" "pointer_arg A ?arg"
      and foot: "\<And>l. getForArgument (aaenv A) c j = Some l \<Longrightarrow> x \<in> g_foot G l"
      by (auto simp: calls_ok_def)
    from arg_masks_allows [OF masks] enumerate_mem [OF arg(1)] arg(2) obtain l
      where l: "getForArgument (aaenv A) c j = Some l" by blast
    with foot x sound_alias [OF assms(1), of l loc] have "aa_alias A l loc \<noteq> NoAlias" by blast
    with arg_masks_allows [OF masks] enumerate_mem [OF arg(1)] arg(2) l
    have "accs (getArgModRefInfo A c j) \<subseteq> accs am" by blast
    with sound_arg [OF assms(1), of j a x c] act j have "a \<in> accs am" by blast
    then have "\<not> isNoModRef am" and "a \<in> accs (intersectModRef ?r1 am)"
      using r1 by (auto simp only: mri_simps)
    then have "a \<in> accs (if must then setMust (intersectModRef ?r1 am) else clearMust (intersectModRef ?r1 am))"
      by (cases must) (simp_all only: mri_simps if_True if_False)
    from const [OF this] r \<open>\<not> isNoModRef am\<close> show ?thesis by simp
  qed
qed

text \<open>
  C3: The mod/ref information of a call and a location is sound: if every provider is sound, any
  access the call makes to a byte of the location is allowed by the answer, whichever way the code
  refined it (behaviour bits, argument masks, must bits, constant memory).
\<close>
theorem getModRefInfo_call_sound:
  assumes "providers_sound G A" and "calls_ok G A"
    and "getModRefInfo_call A c loc = Some r"
    and "(o', a, x) \<in> g_acts G c" and "x \<in> g_foot G loc"
  shows "a \<in> accs r"
  using assms by (rule getModRefInfo_call_allows)

section \<open>Two calls\<close>

lemma call2_loop_allows:
  assumes "call2_loop A c1 c2 result as r must = Some (r', b)" and "a \<in> accs result"
    and "a \<in> accs r \<or> (\<exists>(i, arg) \<in> set as. pointer_arg A arg
      \<and> (\<forall>l m. getForArgument (aaenv A) c2 i = Some l \<longrightarrow> getModRefInfo_call A c1 l = Some m \<longrightarrow> a \<in> accs m)
      \<and> (AMod \<in> accs (getArgModRefInfo A c2 i) \<or> a = AMod \<and> ARef \<in> accs (getArgModRefInfo A c2 i)))"
  shows "a \<in> accs r'"
  using assms(1,3)
proof (induction "as" arbitrary: r must)
  case (Cons p "as")
  obtain i arg where p: "p = (i, arg)" by (cases p)
  show ?case
  proof (cases "pointer_arg A arg")
    case False
    with Cons p show ?thesis by auto
  next
    case True
    let ?g = "getArgModRefInfo A c2 i"
    let ?am = "if isModSet ?g then ModRef else if isRefSet ?g then Mod else NoModRef"
    from True Cons.prems(1) p obtain l m where l: "getForArgument (aaenv A) c2 i = Some l"
      and m: "getModRefInfo_call A c1 l = Some m"
      by (auto simp: Let_def split: Option.bind_splits)
    let ?r1 = "intersectModRef (unionModRef r (intersectModRef ?am m)) result"
    have rest: "(if ?r1 = result then Some (?r1, (must \<and> isMustSet m) \<and> as = [])
        else call2_loop A c1 c2 result as ?r1 (must \<and> isMustSet m)) = Some (r', b)"
      using Cons.prems(1) True p l m by (simp add: Let_def)
    have am: "a \<in> accs ?am \<longleftrightarrow> AMod \<in> accs ?g \<or> a = AMod \<and> ARef \<in> accs ?g"
      by (cases a) (simp_all add: mri_simps)
    show ?thesis
    proof (cases "?r1 = result")
      case True
      with rest assms(2) show ?thesis by auto
    next
      case False
      from Cons.prems(2) p l m have "a \<in> accs ?r1 \<or> (\<exists>(i, arg) \<in> set as. pointer_arg A arg
        \<and> (\<forall>l m. getForArgument (aaenv A) c2 i = Some l \<longrightarrow> getModRefInfo_call A c1 l = Some m \<longrightarrow> a \<in> accs m)
        \<and> (AMod \<in> accs (getArgModRefInfo A c2 i) \<or> a = AMod \<and> ARef \<in> accs (getArgModRefInfo A c2 i)))"
        unfolding accs_intersect accs_union Int_iff Un_iff am using assms(2) by auto
      with False rest Cons.IH show ?thesis by simp
    qed
  qed
qed simp

lemma call1_loop_allows:
  assumes "call1_loop A c1 c2 result as r must = Some (r', b)" and "a \<in> accs result"
    and "a \<in> accs r \<or> (\<exists>(i, arg) \<in> set as. pointer_arg A arg \<and> a \<in> accs (getArgModRefInfo A c1 i)
      \<and> (\<forall>l m. getForArgument (aaenv A) c1 i = Some l \<longrightarrow> getModRefInfo_call A c2 l = Some m \<longrightarrow>
            AMod \<in> accs m \<or> a = AMod \<and> ARef \<in> accs m))"
  shows "a \<in> accs r'"
  using assms(1,3)
proof (induction "as" arbitrary: r must)
  case (Cons p "as")
  obtain i arg where p: "p = (i, arg)" by (cases p)
  show ?case
  proof (cases "pointer_arg A arg")
    case False
    with Cons p show ?thesis by auto
  next
    case True
    let ?g = "getArgModRefInfo A c1 i"
    from True Cons.prems(1) p obtain l m where l: "getForArgument (aaenv A) c1 i = Some l"
      and m: "getModRefInfo_call A c2 l = Some m"
      by (auto simp: Let_def split: Option.bind_splits)
    let ?test = "(isModSet ?g \<and> isModOrRefSet m) \<or> (isRefSet ?g \<and> isModSet m)"
    let ?r1 = "if ?test then intersectModRef (unionModRef r ?g) result else r"
    have rest: "(if ?r1 = result then Some (?r1, (must \<and> isMustSet m) \<and> as = [])
        else call1_loop A c1 c2 result as ?r1 (must \<and> isMustSet m)) = Some (r', b)"
      using Cons.prems(1) True p l m by (simp only: call1_loop.simps Let_def Option.bind.simps simp_thms if_False)
    have new: "a \<in> accs ?r1" if "a \<in> accs ?g" "AMod \<in> accs m \<or> a = AMod \<and> ARef \<in> accs m"
    proof -
      from that have ?test by (cases a) (auto simp: mri_simps)
      then show ?thesis using that(1) assms(2) by (simp add: mri_simps)
    qed
    have old: "a \<in> accs ?r1" if "a \<in> accs r" using that assms(2) by (simp add: mri_simps)
    show ?thesis
    proof (cases "?r1 = result")
      case True
      with rest assms(2) show ?thesis by (auto simp only: if_True simp_thms option.inject prod.inject)
    next
      case False
      from Cons.prems(2) p l m old new
      have "a \<in> accs ?r1 \<or> (\<exists>(i, arg) \<in> set as. pointer_arg A arg \<and> a \<in> accs (getArgModRefInfo A c1 i)
        \<and> (\<forall>l m. getForArgument (aaenv A) c1 i = Some l \<longrightarrow> getModRefInfo_call A c2 l = Some m \<longrightarrow>
              AMod \<in> accs m \<or> a = AMod \<and> ARef \<in> accs m))"
        by (simp only: set_simps bex_simps split_paired_all prod.case) blast
      with False rest Cons.IH show ?thesis by (simp only: if_False)
    qed
  qed
qed simp

lemma accs_must_result: "accs (must_result (r, b)) = accs r"
  by (auto simp: must_result_def mri_simps)

lemma arg_act:
  assumes "calls_ok G A" and "(FromArg j, a, x) \<in> g_acts G c"
  shows "(j, call_args (aaenv A) c ! j) \<in> set (enumerate 0 (call_args (aaenv A) c))"
    "pointer_arg A (call_args (aaenv A) c ! j)"
    "getForArgument (aaenv A) c j = Some l \<Longrightarrow> x \<in> g_foot G l"
proof -
  from assms have "j < length (call_args (aaenv A) c)" by (auto simp: calls_ok_def)
  then show "(j, call_args (aaenv A) c ! j) \<in> set (enumerate 0 (call_args (aaenv A) c))"
    by (rule enumerate_mem)
qed (use assms in \<open>auto simp: calls_ok_def\<close>)

lemma from_argument: "kind_of o' = ArgumentMem \<Longrightarrow> \<exists>j. o' = FromArg j"
  by (cases o') (auto simp: kind_of_def)

text \<open>
  C4: The mod/ref information of two calls is sound: if every provider is sound, the answer allows
  \<open>Mod\<close> whenever the first call modifies a byte the second accesses, and \<open>Ref\<close> whenever it reads a
  byte the second modifies, on every path, including the early exits of the argument loops.
\<close>
theorem getModRefInfo_calls_sound:
  assumes "providers_sound G A" and "calls_ok G A"
    and "getModRefInfo_calls A c1 c2 = Some r" and "a \<in> depends G c1 c2"
  shows "a \<in> accs r"
proof -
  let ?r0 = "mri_chain A (\<lambda>P. p_mri_call P c1 c2)"
    and ?b1 = "getModRefBehavior A c1" and ?b2 = "getModRefBehavior A c2"
  define r1 where "r1 = (if onlyReadsMemory ?b1 then clearMod ?r0
    else if doesNotReadMemory ?b1 then clearRef ?r0 else ?r0)"
  from assms(4) obtain x o1 o2 b where act1: "(o1, a, x) \<in> g_acts G c1"
    and act2: "(o2, b, x) \<in> g_acts G c2" and ab: "a = AMod \<or> b = AMod"
    by (auto simp: depends_def)
  have r0: "a \<in> accs ?r0" using sound_call_chain [OF assms(1,4)] .
  have b1: "(kind_of o1, a) \<in> fmrb_accs ?b1" and b2: "(kind_of o2, b) \<in> fmrb_accs ?b2"
    using sound_behavior [OF assms(1)] act1 act2 by blast+
  have r1: "a \<in> accs r1" unfolding r1_def using accs_read_write_refine [OF b1 r0] .
  have n0: "\<not> isNoModRef ?r0" using r0 by (auto simp: mri_simps)
  have nb: "?b1 \<noteq> FMRB_DoesNotAccessMemory" "?b2 \<noteq> FMRB_DoesNotAccessMemory"
    using b1 b2 fmrb_accs_none by auto
  have nro: "\<not> (onlyReadsMemory ?b1 \<and> onlyReadsMemory ?b2)"
    using ab fmrb_accsD(1) [OF b1] fmrb_accsD(1) [OF b2] by blast
  have eq: "getModRefInfo_calls A c1 c2 =
      (if onlyAccessesArgPointees ?b2 then
        (if \<not> doesAccessArgPointees ?b2 then Some NoModRef
         else map_option must_result (call2_loop A c1 c2 r1 (enumerate 0 (call_args (aaenv A) c2)) NoModRef True))
      else if onlyAccessesArgPointees ?b1 then
        (if \<not> doesAccessArgPointees ?b1 then Some NoModRef
         else map_option must_result (call1_loop A c1 c2 r1 (enumerate 0 (call_args (aaenv A) c1)) NoModRef True))
      else Some r1)"
    using n0 nb nro by (simp only: getModRefInfo_calls_def r1_def Let_def if_False simp_thms)
  consider (c2) "onlyAccessesArgPointees ?b2"
    | (c1) "\<not> onlyAccessesArgPointees ?b2" "onlyAccessesArgPointees ?b1"
    | (none) "\<not> onlyAccessesArgPointees ?b2" "\<not> onlyAccessesArgPointees ?b1" by blast
  then show ?thesis
  proof cases
    case none
    with eq assms(3) have "r = r1" by (simp only: if_False option.inject)
    with r1 show ?thesis by simp
  next
    case c2
    with fmrb_accsD(3) [OF b2] have k: "kind_of o2 = ArgumentMem" by blast
    with from_argument obtain j where j: "o2 = FromArg j" by blast
    from c2 eq assms(3) fmrb_accsD(5) [OF b2 k] obtain r' m where
      loop: "call2_loop A c1 c2 r1 (enumerate 0 (call_args (aaenv A) c2)) NoModRef True = Some (r', m)"
      and r: "r = must_result (r', m)"
      by (cases "call2_loop A c1 c2 r1 (enumerate 0 (call_args (aaenv A) c2)) NoModRef True") auto
    have g: "b \<in> accs (getArgModRefInfo A c2 j)" using sound_arg [OF assms(1)] act2 j by blast
    have "a \<in> accs m" if "getForArgument (aaenv A) c2 j = Some l" "getModRefInfo_call A c1 l = Some m" for l m
      using getModRefInfo_call_allows [OF assms(1,2) that(2) act1] arg_act(3) [OF assms(2)] act2 j that(1) by blast
    with arg_act(1,2) [OF assms(2), of j b x c2] act2 j g ab have "a \<in> accs r'"
      by (intro call2_loop_allows [OF loop r1] disjI2 bexI [of _ "(j, call_args (aaenv A) c2 ! j)"])
        (cases b; auto)+
    then show ?thesis by (simp add: r accs_must_result)
  next
    case c1
    with fmrb_accsD(3) [OF b1] have k: "kind_of o1 = ArgumentMem" by blast
    with from_argument obtain j where j: "o1 = FromArg j" by blast
    from c1 eq assms(3) fmrb_accsD(5) [OF b1 k] obtain r' m where
      loop: "call1_loop A c1 c2 r1 (enumerate 0 (call_args (aaenv A) c1)) NoModRef True = Some (r', m)"
      and r: "r = must_result (r', m)"
      by (cases "call1_loop A c1 c2 r1 (enumerate 0 (call_args (aaenv A) c1)) NoModRef True") auto
    have g: "a \<in> accs (getArgModRefInfo A c1 j)" using sound_arg [OF assms(1)] act1 j by blast
    have "b \<in> accs m" if "getForArgument (aaenv A) c1 j = Some l" "getModRefInfo_call A c2 l = Some m" for l m
      using getModRefInfo_call_allows [OF assms(1,2) that(2) act2] arg_act(3) [OF assms(2)] act1 j that(1) by blast
    with arg_act(1,2) [OF assms(2), of j a x c1] act1 j g ab have "a \<in> accs r'"
      by (intro call1_loop_allows [OF loop r1] disjI2 bexI [of _ "(j, call_args (aaenv A) c1 ! j)"])
        (cases b; auto)+
    then show ?thesis by (simp add: r accs_must_result)
  qed
qed

section \<open>Instructions\<close>

text \<open>
  What the other instructions do: a load or store that is at most unordered, a \<open>va_arg\<close>, and an
  atomic access that is at most monotonic touch only their location; an instruction without memory
  semantics touches nothing.
\<close>

definition touches_memory :: "ir_module \<Rightarrow> vid \<Rightarrow> bool" where
  "touches_memory M i \<longleftrightarrow> is_call_base M i \<or> is_op M OLoad i \<or> is_op M OStore i \<or> is_op M OVAArg i
     \<or> is_op M OAtomicCmpXchg i \<or> is_op M OAtomicRMW i \<or> is_op M OFence i \<or> is_op M OCatchPad i
     \<or> is_op M OCatchRet i"

definition confined :: "ir_env \<Rightarrow> vid \<Rightarrow> access set" where
  "confined X i =
     (if is_op (xmod X) OLoad i then if isStrongerThan (xordering X i) Unordered then {} else {ARef}
      else if is_op (xmod X) OStore i then if isStrongerThan (xordering X i) Unordered then {} else {AMod}
      else if is_op (xmod X) OVAArg i then {AMod, ARef}
      else if is_op (xmod X) OAtomicCmpXchg i \<or> is_op (xmod X) OAtomicRMW i
        then if isStrongerThanMonotonic (xordering X i) then {} else {AMod, ARef}
      else {})"

definition inst_ok :: "'x ground \<Rightarrow> aa_results \<Rightarrow> bool" where
  "inst_ok G A \<longleftrightarrow> (\<forall>i o' a x. (o', a, x) \<in> g_acts G i \<longrightarrow>
     touches_memory (xmod (aaenv A)) i
     \<and> (confined (aaenv A) i \<noteq> {} \<longrightarrow> a \<in> confined (aaenv A) i
          \<and> (\<forall>l. get_loc (aaenv A) i = Some l \<longrightarrow> x \<in> g_foot G l)))"

lemma with_alias_sound:
  assumes "providers_sound G A" and "with_alias A mine loc k = Some r" and "x \<in> g_foot G loc"
    and "\<And>l. mine = Some l \<Longrightarrow> x \<in> g_foot G l"
  shows "\<exists>ar. ar \<noteq> NoAlias \<and> r = k ar"
proof -
  from assms(2) obtain l where l: "mine = Some l" "r = k (aa_alias A l loc)"
    by (auto simp: with_alias_def split: Option.bind_splits)
  with assms(3,4) sound_alias [OF assms(1), of l loc] show ?thesis by blast
qed

lemmas inst_query_defs = getModRefInfo_load_def getModRefInfo_store_def getModRefInfo_fence_def
  getModRefInfo_vaarg_def getModRefInfo_catchpad_def getModRefInfo_catchret_def
  getModRefInfo_cmpxchg_def getModRefInfo_rmw_def

lemma is_op_unique: "is_op M p i \<Longrightarrow> is_op M q i \<longleftrightarrow> p = q"
  by (auto simp: is_op_def)

text \<open>
  C14: The dispatch over the opcodes is sound for every instruction but \<^verbatim>\<open>callbr\<close>: if every provider is
  sound, whatever the instruction does to a byte of the location is allowed by the answer.
\<close>
theorem getModRefInfo_inst_sound:
  assumes prov: "providers_sound G A" and "calls_ok G A" and inst: "inst_ok G A"
    and res: "getModRefInfo_inst A i (Some loc) = Some r" and cb: "\<not> is_op (xmod (aaenv A)) OCallBr i"
    and act: "(o', a, x) \<in> g_acts G i" and x: "x \<in> g_foot G loc"
  shows "a \<in> accs r"
proof -
  let ?X = "aaenv A" and ?M = "xmod (aaenv A)"
  have const: "a = ARef \<and> reads_constants ?M i" if "pointsToConstantMemory A loc False"
    using sound_constant [OF prov that act x] .
  from inst act have touch: "touches_memory ?M i"
    and conf: "\<And>l. confined ?X i \<noteq> {} \<Longrightarrow> a \<in> confined ?X i \<and> (get_loc ?X i = Some l \<longrightarrow> x \<in> g_foot G l)"
    by (auto simp: inst_ok_def)
  have al: "\<exists>ar. ar \<noteq> NoAlias \<and> s = k ar"
    if "with_alias A (get_loc ?X i) loc k = Some s" "confined ?X i \<noteq> {}" for k s
    using with_alias_sound [OF prov that(1) x] conf [OF that(2)] by blast
  from touch cb consider "is_op ?M OCall i" | "is_op ?M OInvoke i" | "is_op ?M OLoad i" | "is_op ?M OStore i"
    | "is_op ?M OVAArg i" | "is_op ?M OAtomicCmpXchg i" | "is_op ?M OAtomicRMW i" | "is_op ?M OFence i"
    | "is_op ?M OCatchPad i" | "is_op ?M OCatchRet i"
    by (auto simp: touches_memory_def is_call_base_def)
  then show ?thesis
  proof cases
    case 1
    then have "getModRefInfo_call A i loc = Some r"
      using res by (simp add: getModRefInfo_inst_def Let_def is_op_unique)
    from getModRefInfo_call_allows [OF prov assms(2) this act x] show ?thesis .
  next
    case 2
    then have "getModRefInfo_call A i loc = Some r"
      using res by (simp add: getModRefInfo_inst_def Let_def is_op_unique)
    from getModRefInfo_call_allows [OF prov assms(2) this act x] show ?thesis .
  next
    case 3
    then have r: "getModRefInfo_load A i loc = Some r" and l: "get_loc ?X i = get_load ?X i"
      using res by (simp_all add: getModRefInfo_inst_def get_loc_def Let_def is_op_unique)
    show ?thesis
    proof (cases "isStrongerThan (xordering ?X i) Unordered")
      case True
      with r show ?thesis by (cases a) (simp_all add: getModRefInfo_load_def mri_simps)
    next
      case False
      with 3 have c: "confined ?X i = {ARef}" by (simp add: confined_def)
      with conf have "a = ARef" by simp
      moreover from r False al [unfolded l] c have "r = Ref \<or> r = MustRef"
        by (fastforce simp: getModRefInfo_load_def split: if_splits)
      ultimately show ?thesis by (auto simp: mri_simps)
    qed
  next
    case 4
    then have r: "getModRefInfo_store A i loc = Some r" and l: "get_loc ?X i = get_store ?X i"
      using res by (simp_all add: getModRefInfo_inst_def get_loc_def Let_def is_op_unique)
    show ?thesis
    proof (cases "isStrongerThan (xordering ?X i) Unordered")
      case True
      with r show ?thesis by (cases a) (simp_all add: getModRefInfo_store_def mri_simps)
    next
      case False
      with 4 have c: "confined ?X i = {AMod}" by (simp add: confined_def is_op_unique)
      with conf have a: "a = AMod" by simp
      with const have "\<not> pointsToConstantMemory A loc False" by auto
      with r False al [unfolded l] c have "r = Mod \<or> r = MustMod"
        by (fastforce simp: getModRefInfo_store_def split: if_splits)
      with a show ?thesis by (auto simp: mri_simps)
    qed
  next
    case 5
    then have r: "getModRefInfo_vaarg A i loc = Some r" and l: "get_loc ?X i = get_vaarg ?X i"
      and c: "confined ?X i = {AMod, ARef}" and "\<not> reads_constants ?M i"
      using res by (simp_all add: getModRefInfo_inst_def get_loc_def confined_def reads_constants_def
          Let_def is_op_unique)
    with const have "\<not> pointsToConstantMemory A loc False" by auto
    with r al [unfolded l] c have "r = ModRef \<or> r = MustModRef"
      by (fastforce simp: getModRefInfo_vaarg_def split: if_splits)
    then show ?thesis by (cases a) (auto simp: mri_simps)
  next
    case 6
    then have r: "getModRefInfo_cmpxchg A i loc = Some r" and l: "get_loc ?X i = get_cmpxchg ?X i"
      using res by (simp_all add: getModRefInfo_inst_def get_loc_def Let_def is_op_unique)
    have c: "\<not> isStrongerThanMonotonic (xordering ?X i) \<Longrightarrow> confined ?X i \<noteq> {}"
      using 6 by (simp add: confined_def is_op_unique)
    from r al [unfolded l, OF _ c] have "r = ModRef \<or> r = MustModRef"
      by (fastforce simp: getModRefInfo_cmpxchg_def split: if_splits)
    then show ?thesis by (cases a) (auto simp: mri_simps)
  next
    case 7
    then have r: "getModRefInfo_rmw A i loc = Some r" and l: "get_loc ?X i = get_rmw ?X i"
      using res by (simp_all add: getModRefInfo_inst_def get_loc_def Let_def is_op_unique)
    have c: "\<not> isStrongerThanMonotonic (xordering ?X i) \<Longrightarrow> confined ?X i \<noteq> {}"
      using 7 by (simp add: confined_def is_op_unique)
    from r al [unfolded l, OF _ c] have "r = ModRef \<or> r = MustModRef"
      by (fastforce simp: getModRefInfo_rmw_def split: if_splits)
    then show ?thesis by (cases a) (auto simp: mri_simps)
  next
    case 8
    then have "getModRefInfo_fence A i loc = Some r"
      using res by (simp add: getModRefInfo_inst_def Let_def is_op_unique)
    with const show ?thesis
      by (cases a) (auto simp: getModRefInfo_fence_def mri_simps split: if_splits)
  next
    case 9
    then have "getModRefInfo_catchpad A i loc = Some r" and "\<not> reads_constants ?M i"
      using res by (simp_all add: getModRefInfo_inst_def reads_constants_def Let_def is_op_unique)
    with const show ?thesis
      by (cases a) (auto simp: getModRefInfo_catchpad_def mri_simps split: if_splits)
  next
    case 10
    then have "getModRefInfo_catchret A i loc = Some r" and "\<not> reads_constants ?M i"
      using res by (simp_all add: getModRefInfo_inst_def reads_constants_def Let_def is_op_unique)
    with const show ?thesis
      by (cases a) (auto simp: getModRefInfo_catchret_def mri_simps split: if_splits)
  qed
qed

end
