(* ===== verification/AAProps.thy ===== *)
theory AAProps
  imports AASound
begin

text \<open>
  Concrete modules and grounds on which the soundness theorems of the aggregated queries apply, and
  the properties of the remaining queries: ranges of instructions, \<^verbatim>\<open>callbr\<close> and \<open>callCapturesBefore\<close>.
\<close>

section \<open>A module with two calls\<close>

text \<open>
  Value 1 is a pointer argument, 2 a stack slot; 3 is a call of 9 with the pointer 1, 4 a call of 9
  with the pointer 2, 5 a store to 2, 6 a \<^verbatim>\<open>callbr\<close> with the same argument, 7 a load from 2, 8 a call
  without arguments.
\<close>

definition aa_mod :: ir_module where
  "aa_mod = \<lparr>mval = (\<lambda>_. value0)
     (1 := value0\<lparr>vkind := KArgument 0, vtype := PointerTy 0 (IntTy 8)\<rparr>,
      2 := value0\<lparr>vkind := KInstruction OAlloca, vtype := PointerTy 0 (IntTy 8)\<rparr>,
      3 := value0\<lparr>vkind := KInstruction OCall, voperands := [1, 9]\<rparr>,
      4 := value0\<lparr>vkind := KInstruction OCall, voperands := [2, 9]\<rparr>,
      5 := value0\<lparr>vkind := KInstruction OStore, voperands := [10, 2]\<rparr>,
      6 := value0\<lparr>vkind := KInstruction OCallBr, voperands := [2, 11, 9]\<rparr>,
      7 := value0\<lparr>vkind := KInstruction OLoad, vtype := IntTy 8, voperands := [2]\<rparr>,
      8 := value0\<lparr>vkind := KInstruction OCall, voperands := [9]\<rparr>,
      9 := value0\<lparr>vkind := KFunction\<rparr>),
    mfun = (\<lambda>_. function0)\<rparr>"

text \<open>
  A provider that knows the two pointers apart, that the calls access their arguments only and that
  call 3 only reads.
\<close>

definition aa_demo_provider :: aa_provider where
  "aa_demo_provider = AAResultBase\<lparr>
     p_alias := (\<lambda>l m. if {lptr l, lptr m} = {Some 1, Some 2} then NoAlias else MayAlias),
     p_behavior := (\<lambda>c. if c = 3 then FMRB_OnlyReadsArgumentPointees
       else if c = 4 then FMRB_OnlyAccessesArgumentPointees else FMRB_UnknownModRefBehavior)\<rparr>"

definition aa_demo :: aa_results where
  "aa_demo = \<lparr>aaenv = env0 aa_mod, aalist = [AAResultBase, aa_demo_provider]\<rparr>"

text \<open>Pointer 1 covers byte \<open>True\<close> and pointer 2 byte \<open>False\<close>.\<close>

definition aa_ground :: "bool ground" where
  "aa_ground = \<lparr>g_acts = (\<lambda>i. if i = 3 then {(FromArg 0, ARef, True)}
       else if i = 4 then {(FromArg 0, AMod, False)}
       else if i = 5 then {(FromOther, AMod, False)} else {}),
     g_foot = (\<lambda>l. if lptr l = Some 1 then {True} else if lptr l = Some 2 then {False} else {})\<rparr>"

lemmas aa_demo_defs = aa_demo_def aa_mod_def aa_demo_provider_def AAResultBase_def env0_def value0_def
  function0_def aa_ground_def

lemma aa_demo_args:
  "call_args (aaenv aa_demo) 3 = [1]" "call_args (aaenv aa_demo) 4 = [2]"
  by (simp_all add: call_args_def data_operands_def extra_operands_def is_op_def aa_demo_defs)

lemma aa_demo_for_argument:
  "getForArgument (aaenv aa_demo) 3 0 = Some (loc_of 1 UnknownSize)"
  "getForArgument (aaenv aa_demo) 4 0 = Some (loc_of 2 UnknownSize)"
  by (simp_all add: getForArgument_def getArgOperand_def aa_demo_args)
    (simp_all add: pattern16_arg_size_def called_function_def aa_demo_defs loc_of_def aatags0_def)

lemma aa_demo_pointer: "pointer_arg aa_demo 1" "pointer_arg aa_demo 2"
  by (simp_all add: pointer_arg_def is_pointer_def aa_demo_defs)

lemma base_sound: "provider_sound G M AAResultBase"
proof -
  have "a \<in> accs ModRef" for a by (cases a) (simp_all add: accs_values)
  then show ?thesis
    by (simp add: provider_sound_def AAResultBase_def fmrb_accs_unknown subset_iff)
qed

lemma only_arg_behaviors:
  "(ArgumentMem, ARef) \<in> fmrb_accs FMRB_OnlyReadsArgumentPointees"
  "(ArgumentMem, AMod) \<in> fmrb_accs FMRB_OnlyAccessesArgumentPointees"
proof -
  have b: "bit FMRB_OnlyReadsArgumentPointees 3" "bit FMRB_OnlyAccessesArgumentPointees 3"
    unfolding FMRB_OnlyReadsArgumentPointees_def FMRB_OnlyAccessesArgumentPointees_def bit_or_iff by simp_all
  have "createModRefInfo FMRB_OnlyReadsArgumentPointees = Ref"
    "createModRefInfo FMRB_OnlyAccessesArgumentPointees = ModRef"
    by (simp_all add: createModRefInfo_def fmrb_values mri_of_bits_def)
  with b show "(ArgumentMem, ARef) \<in> fmrb_accs FMRB_OnlyReadsArgumentPointees"
    "(ArgumentMem, AMod) \<in> fmrb_accs FMRB_OnlyAccessesArgumentPointees"
    by (simp_all add: fmrb_accs_def kind_bit_def accs_values)
qed

lemma aa_demo_provider_sound: "provider_sound aa_ground aa_mod aa_demo_provider"
proof -
  have all: "a \<in> accs ModRef" for a by (cases a) (simp_all add: accs_values)
  have al: "\<forall>l m. p_alias aa_demo_provider l m = NoAlias \<longrightarrow> g_foot aa_ground l \<inter> g_foot aa_ground m = {}"
    by (auto simp: aa_demo_provider_def aa_ground_def doubleton_eq_iff split: if_splits)
  have beh: "\<forall>c o' a x. (o', a, x) \<in> g_acts aa_ground c \<longrightarrow>
      (kind_of o', a) \<in> fmrb_accs (p_behavior aa_demo_provider c)"
    using only_arg_behaviors
    by (auto simp: aa_demo_provider_def aa_ground_def kind_of_def fmrb_accs_unknown split: if_splits)
  have rest: "p_constant aa_demo_provider = (\<lambda>_ _. False)" "p_argmri aa_demo_provider = (\<lambda>_ _. ModRef)"
    "p_mri_loc aa_demo_provider = (\<lambda>_ _. ModRef)" "p_mri_call aa_demo_provider = (\<lambda>_ _. ModRef)"
    by (simp_all add: aa_demo_provider_def AAResultBase_def)
  show ?thesis
    unfolding provider_sound_def rest by (intro conjI al beh) (simp_all add: all subset_iff)
qed

lemma aa_demo_sound: "providers_sound aa_ground aa_demo"
  using base_sound aa_demo_provider_sound
  by (simp add: providers_sound_def aa_demo_def env0_def)

lemma aa_demo_calls_ok: "calls_ok aa_ground aa_demo"
proof -
  have acts: "(FromArg k, a, x) \<in> g_acts aa_ground c \<Longrightarrow> k = 0 \<and> (c = 3 \<and> x \<or> c = 4 \<and> \<not> x)" for k a x c
    by (auto simp: aa_ground_def split: if_splits)
  have foot: "g_foot aa_ground (loc_of 1 UnknownSize) = {True}" "g_foot aa_ground (loc_of 2 UnknownSize) = {False}"
    by (simp_all add: aa_ground_def loc_of_def)
  have inacc: "(FromInaccessible, a, x) \<notin> g_acts aa_ground c" for a x c
    by (simp add: aa_ground_def)
  have "k < length (call_args (aaenv aa_demo) c) \<and> pointer_arg aa_demo (call_args (aaenv aa_demo) c ! k)
      \<and> (\<forall>l. getForArgument (aaenv aa_demo) c k = Some l \<longrightarrow> x \<in> g_foot aa_ground l)"
    if "(FromArg k, a, x) \<in> g_acts aa_ground c" for k a x c
    using acts [OF that]
    by (elim conjE disjE) (simp_all add: aa_demo_args aa_demo_for_argument aa_demo_pointer foot del: One_nat_def)
  with inacc show ?thesis unfolding calls_ok_def by blast
qed

text \<open>Call 3 does not touch pointer 2, and call 4 may access it.\<close>

lemma aa_demo_eval:
  "getModRefInfo_call aa_demo 3 (loc_of 2 4) = Some NoModRef"
  "getModRefInfo_call aa_demo 4 (loc_of 2 4) = Some ModRef"
  by code_simp+

theorem getModRefInfo_call_sound_witness:
  "getModRefInfo_call aa_demo 3 (loc_of 2 4) = Some NoModRef
   \<and> getModRefInfo_call aa_demo 4 (loc_of 2 4) = Some ModRef \<and> AMod \<in> accs ModRef"
proof -
  have "AMod \<in> accs ModRef"
    by (rule getModRefInfo_call_sound [OF aa_demo_sound aa_demo_calls_ok aa_demo_eval(2), of "FromArg 0" _ False])
      (simp_all add: aa_ground_def loc_of_def)
  with aa_demo_eval show ?thesis by blast
qed

lemma aa_demo_calls_eval: "getModRefInfo_calls aa_demo 4 4 = Some ModRef"
  by code_simp

theorem getModRefInfo_calls_sound_witness:
  "getModRefInfo_calls aa_demo 4 4 = Some ModRef \<and> AMod \<in> accs ModRef"
proof -
  have "AMod \<in> depends aa_ground 4 4" by (auto simp: depends_def aa_ground_def)
  with getModRefInfo_calls_sound [OF aa_demo_sound aa_demo_calls_ok aa_demo_calls_eval] aa_demo_calls_eval
  show ?thesis by blast
qed

lemma aa_demo_inst_ok: "inst_ok aa_ground aa_demo"
proof -
  have M: "xmod (aaenv aa_demo) = aa_mod" by (simp add: aa_demo_def env0_def)
  have ops: "is_op aa_mod OCall 3" "is_op aa_mod OCall 4" "is_op aa_mod OStore 5"
    by (simp_all add: is_op_def aa_mod_def value0_def)
  have "confined (aaenv aa_demo) 3 = {}" "confined (aaenv aa_demo) 4 = {}"
    by (simp_all add: confined_def M is_op_unique [OF ops(1)] is_op_unique [OF ops(2)])
  moreover have "confined (aaenv aa_demo) 5 = {AMod}"
    by (simp add: confined_def M is_op_unique [OF ops(3)] isStrongerThan_def ordering_index_def aa_demo_def env0_def)
  moreover have "get_loc (aaenv aa_demo) 5 = Some l \<Longrightarrow> lptr l = Some 2" for l
    by (auto simp: get_loc_def M is_op_unique [OF ops(3)] get_store_def operand_def)
      (auto simp: aa_mod_def value0_def)
  moreover have "touches_memory aa_mod 3" "touches_memory aa_mod 4" "touches_memory aa_mod 5"
    using ops by (simp_all add: touches_memory_def is_call_base_def)
  ultimately show ?thesis
    unfolding inst_ok_def by (auto simp: aa_ground_def M split: if_splits)
qed

lemma aa_demo_store_eval: "getModRefInfo_inst aa_demo 5 (Some (loc_of 2 4)) = Some Mod"
  by code_simp

theorem getModRefInfo_inst_sound_witness:
  "getModRefInfo_inst aa_demo 5 (Some (loc_of 2 4)) = Some Mod \<and> AMod \<in> accs Mod"
proof -
  have "AMod \<in> accs Mod"
    by (rule getModRefInfo_inst_sound [OF aa_demo_sound aa_demo_calls_ok aa_demo_inst_ok aa_demo_store_eval _,
        of FromOther _ False])
      (simp_all add: aa_ground_def loc_of_def is_op_def aa_demo_def env0_def aa_mod_def value0_def)
  with aa_demo_store_eval show ?thesis by blast
qed

section \<open>callbr\<close>

text \<open>
  A \<^verbatim>\<open>callbr\<close> is a call base, but the dispatch over the opcodes has no case for it: asked about any
  location the answer is \<open>NoModRef\<close>, whatever the providers say of the call; asked without a location
  it is the call's behaviour.
\<close>
theorem callbr_never_modifies:
  assumes "is_op (xmod (aaenv A)) OCallBr i"
  shows "getModRefInfo_inst A i (Some loc) = Some NoModRef
    \<and> getModRefInfo_inst A i None = Some (createModRefInfo (getModRefBehavior A i))"
  using assms by (simp add: getModRefInfo_inst_def is_call_base_def Let_def is_op_unique)

theorem callbr_never_modifies_witness:
  "getModRefInfo_inst aa_demo 6 (Some (loc_of 2 4)) = Some NoModRef
   \<and> getModRefInfo_call aa_demo 6 (loc_of 2 4) = Some ModRef"
proof -
  have "is_op (xmod (aaenv aa_demo)) OCallBr 6" by code_simp
  from callbr_never_modifies [OF this] have "getModRefInfo_inst aa_demo 6 (Some (loc_of 2 4)) = Some NoModRef" by blast
  moreover have "getModRefInfo_call aa_demo 6 (loc_of 2 4) = Some ModRef" by code_simp
  ultimately show ?thesis ..
qed

section \<open>Ranges\<close>

lemma range_loop_iff:
  assumes "range_loop A loc mode e (mid @ post) = Some b" and "mid \<noteq> []" and "last mid = e"
    and "distinct mid"
  shows "b \<longleftrightarrow> (\<exists>i\<in>set mid. \<exists>mr. getModRefInfo_inst A i (Some loc) = Some mr
    \<and> accs mr \<inter> accs mode \<noteq> {})"
  using assms
proof (induction mid)
  case (Cons i mid)
  from Cons.prems(1) obtain mr where mr: "getModRefInfo_inst A i (Some loc) = Some mr"
    by (cases "getModRefInfo_inst A i (Some loc)") auto
  show ?case
  proof (cases "isModOrRefSet (intersectModRef mr mode)")
    case True
    with Cons.prems(1) mr show ?thesis by (auto simp: mri_simps)
  next
    case False
    show ?thesis
    proof (cases "i = e")
      case True
      with Cons.prems(3,4) have "mid = []" using last_in_set [of mid] by (auto split: if_splits)
      with True False Cons.prems(1) mr show ?thesis by (simp add: mri_simps)
    next
      case i: False
      with Cons.prems(3) have "mid \<noteq> []" by auto
      with Cons i False mr show ?thesis by (simp add: mri_simps)
    qed
  qed
qed simp

lemma range_loop_total:
  assumes "mid \<noteq> []" and "last mid = e"
    and "\<forall>i\<in>set mid. getModRefInfo_inst A i (Some loc) \<noteq> None"
  shows "range_loop A loc mode e (mid @ post) \<noteq> None"
  using assms by (induction mid) (auto split: if_splits)

lemma dropWhile_to: "i \<notin> set pre \<Longrightarrow> dropWhile (\<lambda>j. j \<noteq> i) (pre @ i # xs) = i # xs"
  by (induction pre) auto

text \<open>
  The range query is exact: on a block without repeated instructions it returns for every range
  \<open>mid\<close> of the block whose instructions have an answer, and it returns true exactly when some
  instruction of the range, the first and the last included, may access the location in the mode
  asked about.
\<close>
theorem canInstructionRangeModRef_iff:
  assumes "distinct (pre @ mid @ post)" and "mid \<noteq> []"
    and "\<forall>i\<in>set mid. getModRefInfo_inst A i (Some loc) \<noteq> None"
  shows "canInstructionRangeModRef A (pre @ mid @ post) (hd mid) (last mid) loc mode =
    Some (\<exists>i\<in>set mid. \<exists>mr. getModRefInfo_inst A i (Some loc) = Some mr \<and> accs mr \<inter> accs mode \<noteq> {})"
proof -
  obtain i ms where mid: "mid = i # ms" using assms(2) by (cases mid) auto
  have "canInstructionRangeModRef A (pre @ mid @ post) (hd mid) (last mid) loc mode =
      range_loop A loc mode (last mid) (mid @ post)"
    using dropWhile_to [of i pre "ms @ post"] assms(1) by (simp add: canInstructionRangeModRef_def mid)
  moreover obtain b where b: "range_loop A loc mode (last mid) (mid @ post) = Some b"
    using range_loop_total [OF assms(2) refl assms(3)] by blast
  ultimately show ?thesis
    using range_loop_iff [OF b assms(2) refl] assms(1) by simp
qed

theorem canInstructionRangeModRef_iff_witness:
  "canInstructionRangeModRef aa_demo [2, 7, 5] 7 7 (loc_of 2 4) Mod = Some False
   \<and> canInstructionRangeModRef aa_demo [2, 7, 5] 7 5 (loc_of 2 4) Mod = Some True"
proof -
  have ev: "getModRefInfo_inst aa_demo 7 (Some (loc_of 2 4)) = Some Ref"
    "getModRefInfo_inst aa_demo 5 (Some (loc_of 2 4)) = Some Mod" by code_simp+
  show ?thesis
    using canInstructionRangeModRef_iff [of "[2]" "[7]" "[5]" aa_demo "loc_of 2 4" Mod]
      canInstructionRangeModRef_iff [of "[2]" "[7, 5]" "[]" aa_demo "loc_of 2 4" Mod]
    by (simp add: ev accs_values)
qed

section \<open>callCapturesBefore\<close>

lemma captures_loop_no_pointers:
  "\<forall>v\<in>set ops. \<not> pointer_arg A v \<Longrightarrow> captures_loop A c object n ops r must = (if must then setMust r else clearMust r)"
  by (induction ops arbitrary: n) (auto simp: Let_def)

text \<open>
  \<open>callCapturesBefore\<close> can answer \<open>Must\<close> alone, the value no routine is documented to return: it
  does for every call without pointer operands, when the location's object is an identified local
  object not captured before the call.
\<close>
theorem callCapturesBefore_must:
  assumes "is_call_base (xmod (aaenv A)) i" and "lptr loc = Some p" and "i \<noteq> und p"
    and "isIdentifiedObject (aaenv A) (und p)" and "\<not> is_constant (xmod (aaenv A)) (und p)"
    and "\<not> captured (und p) i" and "\<forall>v\<in>set (data_operands (aaenv A) i). \<not> pointer_arg A v"
  shows "callCapturesBefore A und captured True i loc = Some Must"
proof -
  have "\<not> is_global_value (xmod (aaenv A)) (und p)"
    using assms(5) by (auto simp: is_constant_def is_global_value_def split: vkind.splits)
  moreover have "setMust NoModRef = Must"
    by (simp add: setMust_def mri_bits_def mri_of_bits_def)
  ultimately show ?thesis
    using assms captures_loop_no_pointers [OF assms(7)] by (simp add: callCapturesBefore_def Let_def)
qed

theorem callCapturesBefore_must_witness:
  "callCapturesBefore aa_demo id (\<lambda>_ _. False) True 8 (loc_of 2 4) = Some Must"
  by (rule callCapturesBefore_must [where p = 2])
    (simp_all add: is_call_base_def is_op_def loc_of_def isIdentifiedObject_def is_constant_def
      data_operands_def extra_operands_def aa_demo_def env0_def aa_mod_def value0_def)

end
