(* ===== verification/CFLSummary.thy ===== *)
theory CFLSummary
  imports CallSite "HOL-Library.Product_Lexorder"
begin

text \<open>
  The attributes and function summaries shared by the CFL-based alias analyses
  (\<^verbatim>\<open>lib/Analysis/AliasAnalysisSummary.h\<close> and \<^verbatim>\<open>.cpp\<close>).
\<close>

section \<open>Alias attributes\<close>

text \<open>A \<^verbatim>\<open>bitset<32>\<close>; \<open>test\<close> reads a bit by its index, \<open>any\<close> tests for a set bit.\<close>

type_synonym AliasAttrs = "32 word"

definition AttrEscapedIndex :: nat where "AttrEscapedIndex = 0"
definition AttrUnknownIndex :: nat where "AttrUnknownIndex = 1"
definition AttrGlobalIndex :: nat where "AttrGlobalIndex = 2"
definition AttrCallerIndex :: nat where "AttrCallerIndex = 3"
definition AttrFirstArgIndex :: nat where "AttrFirstArgIndex = 4"
definition AttrLastArgIndex :: nat where "AttrLastArgIndex = 32"
definition AttrMaxNumArgs :: nat where "AttrMaxNumArgs = AttrLastArgIndex - AttrFirstArgIndex"

definition getAttrNone :: AliasAttrs where "getAttrNone = 0"
definition getAttrEscaped :: AliasAttrs where "getAttrEscaped = push_bit AttrEscapedIndex 1"
definition getAttrUnknown :: AliasAttrs where "getAttrUnknown = push_bit AttrUnknownIndex 1"
definition getAttrGlobal :: AliasAttrs where "getAttrGlobal = push_bit AttrGlobalIndex 1"
definition getAttrCaller :: AliasAttrs where "getAttrCaller = push_bit AttrCallerIndex 1"
definition ExternalAttrMask :: AliasAttrs where
  "ExternalAttrMask = getAttrEscaped OR getAttrUnknown OR getAttrGlobal"

definition any_attr :: "AliasAttrs \<Rightarrow> bool" where
  "any_attr a = (a \<noteq> 0)"

definition hasUnknownAttr :: "AliasAttrs \<Rightarrow> bool" where
  "hasUnknownAttr a = bit a AttrUnknownIndex"

text \<open>The test of the caller attribute passes the mask where the index is meant.\<close>

definition hasCallerAttr :: "AliasAttrs \<Rightarrow> bool" where
  "hasCallerAttr a = bit a (unat getAttrCaller)"

definition hasUnknownOrCallerAttr :: "AliasAttrs \<Rightarrow> bool" where
  "hasUnknownOrCallerAttr a = (bit a AttrUnknownIndex \<or> bit a AttrCallerIndex)"

definition hasEscapedAttr :: "AliasAttrs \<Rightarrow> bool" where
  "hasEscapedAttr a = bit a AttrEscapedIndex"

definition argNumberToAttr :: "nat \<Rightarrow> AliasAttrs" where
  "argNumberToAttr n = (if n \<ge> AttrMaxNumArgs then getAttrUnknown
     else push_bit (n + AttrFirstArgIndex) 1)"

definition getGlobalOrArgAttrFromValue :: "ir_env \<Rightarrow> vid \<Rightarrow> AliasAttrs" where
  "getGlobalOrArgAttrFromValue X v =
     (if is_global_value (xmod X) v then getAttrGlobal
      else case vkind (mval (xmod X) v) of
        KArgument n \<Rightarrow> if \<not> hasNoAliasAttr X v \<and> is_pointer (vtype (mval (xmod X) v))
          then argNumberToAttr n else getAttrNone
      | _ \<Rightarrow> getAttrNone)"

definition isGlobalOrArgAttr :: "AliasAttrs \<Rightarrow> bool" where
  "isGlobalOrArgAttr a =
     any_attr (unset_bit AttrCallerIndex (unset_bit AttrUnknownIndex (unset_bit AttrEscapedIndex a)))"

definition getExternallyVisibleAttrs :: "AliasAttrs \<Rightarrow> AliasAttrs" where
  "getExternallyVisibleAttrs a = a AND ExternalAttrMask"

lemmas attr_index_defs = AttrEscapedIndex_def AttrUnknownIndex_def AttrGlobalIndex_def
  AttrCallerIndex_def AttrFirstArgIndex_def AttrLastArgIndex_def AttrMaxNumArgs_def

lemmas attr_defs = getAttrNone_def getAttrEscaped_def getAttrUnknown_def getAttrGlobal_def
  getAttrCaller_def ExternalAttrMask_def attr_index_defs

section \<open>Interface values and summaries\<close>

text \<open>Index 0 is the return value, \<open>i + 1\<close> the parameter \<open>i\<close>; then the number of dereferences.\<close>

datatype InterfaceValue = IfaceValue (iv_index: nat) (iv_level: nat)

definition InterfaceValue_lt :: "InterfaceValue \<Rightarrow> InterfaceValue \<Rightarrow> bool" where
  "InterfaceValue_lt l r = (iv_index l < iv_index r \<or> (iv_index l = iv_index r \<and> iv_level l < iv_level r))"

definition InterfaceValue_le :: "InterfaceValue \<Rightarrow> InterfaceValue \<Rightarrow> bool" where
  "InterfaceValue_le l r = (\<not> InterfaceValue_lt r l)"

instantiation InterfaceValue :: linorder
begin

definition less_InterfaceValue :: "InterfaceValue \<Rightarrow> InterfaceValue \<Rightarrow> bool" where
  "less_InterfaceValue = InterfaceValue_lt"

definition less_eq_InterfaceValue :: "InterfaceValue \<Rightarrow> InterfaceValue \<Rightarrow> bool" where
  "less_eq_InterfaceValue = InterfaceValue_le"

instance
  by standard (auto simp: less_InterfaceValue_def less_eq_InterfaceValue_def InterfaceValue_lt_def
      InterfaceValue_le_def InterfaceValue.expand)

end

text \<open>An \<^verbatim>\<open>int64_t\<close> offset; the largest one stands for an unknown offset.\<close>

type_synonym cfl_offset = "64 word"

definition UnknownOffset :: cfl_offset where
  "UnknownOffset = 0x7FFFFFFFFFFFFFFF"

definition addOffset :: "cfl_offset \<Rightarrow> cfl_offset \<Rightarrow> cfl_offset" where
  "addOffset l r = (if l = UnknownOffset \<or> r = UnknownOffset then UnknownOffset else l + r)"

datatype ExternalRelation = ExtRel (er_from: InterfaceValue) (er_to: InterfaceValue) (er_offset: cfl_offset)

text \<open>The comparison, with the offsets compared as signed numbers.\<close>

definition ExternalRelation_lt :: "ExternalRelation \<Rightarrow> ExternalRelation \<Rightarrow> bool" where
  "ExternalRelation_lt l r =
     (if er_from l < er_from r then True
      else if er_from r < er_from l then False
      else if er_to l < er_to r then True
      else if er_to r < er_to l then False
      else er_offset l <s er_offset r)"

definition ExternalRelation_le :: "ExternalRelation \<Rightarrow> ExternalRelation \<Rightarrow> bool" where
  "ExternalRelation_le l r = (\<not> ExternalRelation_lt r l)"

instantiation ExternalRelation :: linorder
begin

definition less_ExternalRelation :: "ExternalRelation \<Rightarrow> ExternalRelation \<Rightarrow> bool" where
  "less_ExternalRelation = ExternalRelation_lt"

definition less_eq_ExternalRelation :: "ExternalRelation \<Rightarrow> ExternalRelation \<Rightarrow> bool" where
  "less_eq_ExternalRelation = ExternalRelation_le"

lemma less_ExternalRelation_key:
  "(l :: ExternalRelation) < r \<longleftrightarrow>
     (er_from l, er_to l, sint (er_offset l)) < (er_from r, er_to r, sint (er_offset r))"
  by (auto simp: less_ExternalRelation_def ExternalRelation_lt_def word_sless_alt)

instance
proof
  fix x y z :: ExternalRelation
  let ?k = "\<lambda>r. (er_from r, er_to r, sint (er_offset r))"
  have le: "a \<le> b \<longleftrightarrow> ?k a \<le> ?k b" for a b :: ExternalRelation
    using less_ExternalRelation_key [of b a]
    unfolding less_eq_ExternalRelation_def ExternalRelation_le_def less_ExternalRelation_def
    by (simp only: not_less)
  show "x < y \<longleftrightarrow> x \<le> y \<and> \<not> y \<le> x" unfolding le less_ExternalRelation_key by (rule less_le_not_le)
  show "x \<le> x" unfolding le by (rule order_refl)
  show "x \<le> y \<Longrightarrow> y \<le> z \<Longrightarrow> x \<le> z" unfolding le by (rule order_trans)
  show "x \<le> y \<or> y \<le> x" unfolding le by (rule linear)
  show "x = y" if "x \<le> y" "y \<le> x"
  proof -
    have "?k x = ?k y" using that unfolding le by (rule order_antisym)
    then show ?thesis by (cases x; cases y) (simp add: signed_word_eqI)
  qed
qed

end

datatype ExternalAttribute = ExtAttr (ea_value: InterfaceValue) (ea_attr: AliasAttrs)

record AliasSummary =
  RetParamRelations :: "ExternalRelation list"
  RetParamAttributes :: "ExternalAttribute list"

section \<open>Instantiation at a call\<close>

text \<open>A value and a number of dereferences.\<close>

type_synonym inode = "vid \<times> nat"

text \<open>The outer option is a failed assertion (an argument that does not exist), the inner is \<^verbatim>\<open>None\<close>.\<close>

definition instantiateInterfaceValue :: "ir_env \<Rightarrow> InterfaceValue \<Rightarrow> vid \<Rightarrow> inode option option" where
  "instantiateInterfaceValue X iv c =
     Option.bind (if iv_index iv = 0 then Some c else getArgOperand X c (iv_index iv - 1)) (\<lambda>v.
       Some (if is_pointer (vtype (mval (xmod X) v)) then Some (v, iv_level iv) else None))"

definition instantiateExternalRelation ::
  "ir_env \<Rightarrow> ExternalRelation \<Rightarrow> vid \<Rightarrow> (inode \<times> inode \<times> cfl_offset) option option" where
  "instantiateExternalRelation X er c =
     Option.bind (instantiateInterfaceValue X (er_from er) c) (\<lambda>from.
       case from of None \<Rightarrow> Some None
       | Some f \<Rightarrow> Option.bind (instantiateInterfaceValue X (er_to er) c) (\<lambda>to.
           case to of None \<Rightarrow> Some None | Some t \<Rightarrow> Some (Some (f, t, er_offset er))))"

definition instantiateExternalAttribute ::
  "ir_env \<Rightarrow> ExternalAttribute \<Rightarrow> vid \<Rightarrow> (inode \<times> AliasAttrs) option option" where
  "instantiateExternalAttribute X ea c =
     map_option (map_option (\<lambda>v. (v, ea_attr ea))) (instantiateInterfaceValue X (ea_value ea) c)"

section \<open>The bits of the attributes\<close>

lemma bit_push_1: "bit (push_bit k (1 :: 32 word)) n \<longleftrightarrow> n = k \<and> k < 32"
  by (auto simp: push_bit_eq_mult bit_exp_iff)

lemma bit_attrs [simp]:
  "bit getAttrEscaped n \<longleftrightarrow> n = 0" "bit getAttrUnknown n \<longleftrightarrow> n = 1"
  "bit getAttrGlobal n \<longleftrightarrow> n = 2" "bit getAttrCaller n \<longleftrightarrow> n = 3" "\<not> bit getAttrNone n"
  unfolding attr_defs by (rule trans [OF bit_push_1], simp)+ simp

lemma word32_ne_0_iff: "w \<noteq> 0 \<longleftrightarrow> (\<exists>n. bit (w :: 32 word) n)"
  using word32_eq_0_iff by auto

lemma isGlobalOrArgAttr_iff: "isGlobalOrArgAttr a \<longleftrightarrow> (\<exists>n. bit a n \<and> n \<notin> {0, 1, 3})"
  unfolding isGlobalOrArgAttr_def any_attr_def word32_ne_0_iff
  by (auto simp: bit_unset_bit_iff attr_index_defs)

lemma bit_externally_visible: "bit (getExternallyVisibleAttrs a) n \<longleftrightarrow> bit a n \<and> n < 3"
  by (auto simp: getExternallyVisibleAttrs_def ExternalAttrMask_def bit_and_iff bit_or_iff)

text \<open>
  The test for the caller attribute tests bit 8, the attribute of the fifth argument, instead of
  bit 3: it is false of the caller attribute itself and true of argument number 4, while
  \<open>hasUnknownOrCallerAttr\<close> tests the right bit.
\<close>
theorem hasCallerAttr_wrong_bit:
  "hasCallerAttr a = bit a 8
   \<and> \<not> hasCallerAttr getAttrCaller \<and> hasCallerAttr (argNumberToAttr 4)
   \<and> hasUnknownOrCallerAttr a = (hasUnknownAttr a \<or> bit a 3)"
proof -
  have eight: "unat getAttrCaller = 8" by (simp add: attr_defs)
  have "bit (argNumberToAttr 4) 8"
    unfolding argNumberToAttr_def attr_index_defs by (subst if_not_P, simp, subst bit_push_1) simp
  then show ?thesis
    by (simp add: hasCallerAttr_def eight hasUnknownOrCallerAttr_def hasUnknownAttr_def attr_index_defs)
qed

end
