(* ===== verification/CFLGraph.thy ===== *)
theory CFLGraph
  imports CFLSummary
begin

text \<open>
  The program expression graph of the CFL alias analyses and its construction from a function
  (\<^verbatim>\<open>lib/Analysis/CFLGraph.h\<close>). The builder is a template over the analysis that provides the
  summaries of called functions; here it is a computation over the graph, the returned values and
  the state of that analysis, with the summary lookup as an argument. A \<open>Crash\<close> is a failed
  assertion or \<^verbatim>\<open>llvm_unreachable\<close>.
\<close>

section \<open>The graph\<close>

record cfl_node =
  n_edges :: "(inode \<times> cfl_offset) list"
  n_redges :: "(inode \<times> cfl_offset) list"
  n_attr :: AliasAttrs

definition node_info0 :: cfl_node where
  "node_info0 = \<lparr>n_edges = [], n_redges = [], n_attr = getAttrNone\<rparr>"

type_synonym cfl_graph = "(vid \<times> cfl_node list) list"

definition levels_of :: "cfl_graph \<Rightarrow> vid \<Rightarrow> cfl_node list" where
  "levels_of G v = (case map_of G v of None \<Rightarrow> [] | Some ls \<Rightarrow> ls)"

definition getNode :: "cfl_graph \<Rightarrow> inode \<Rightarrow> cfl_node option" where
  "getNode G n = (case map_of G (fst n) of None \<Rightarrow> None
     | Some ls \<Rightarrow> if length ls \<le> snd n then None else Some (ls ! snd n))"

definition addNodeToLevel :: "cfl_node list \<Rightarrow> nat \<Rightarrow> bool \<times> cfl_node list" where
  "addNodeToLevel ls level = (if length ls > level then (False, ls)
     else (True, ls @ replicate (level + 1 - length ls) node_info0))"

definition graph_addNode :: "inode \<Rightarrow> AliasAttrs \<Rightarrow> cfl_graph \<Rightarrow> bool \<times> cfl_graph" where
  "graph_addNode n a G =
     (let (changed, ls) = addNodeToLevel (levels_of G (fst n)) (snd n);
          info = ls ! snd n
      in (changed, alist_put (fst n) (ls[snd n := info\<lparr>n_attr := n_attr info OR a\<rparr>]) G))"

definition update_node :: "inode \<Rightarrow> (cfl_node \<Rightarrow> cfl_node) \<Rightarrow> cfl_graph \<Rightarrow> cfl_graph option" where
  "update_node n f G = (case getNode G n of None \<Rightarrow> None
     | Some info \<Rightarrow> Some (alist_put (fst n) ((levels_of G (fst n))[snd n := f info]) G))"

definition graph_addAttr :: "inode \<Rightarrow> AliasAttrs \<Rightarrow> cfl_graph \<Rightarrow> cfl_graph option" where
  "graph_addAttr n a G = update_node n (\<lambda>info. info\<lparr>n_attr := n_attr info OR a\<rparr>) G"

definition graph_addEdge :: "inode \<Rightarrow> inode \<Rightarrow> cfl_offset \<Rightarrow> cfl_graph \<Rightarrow> cfl_graph option" where
  "graph_addEdge f t off G =
     (if getNode G t = None then None
      else Option.bind (update_node f (\<lambda>info. info\<lparr>n_edges := n_edges info @ [(t, off)]\<rparr>) G)
        (update_node t (\<lambda>info. info\<lparr>n_redges := n_redges info @ [(f, off)]\<rparr>)))"

definition attrFor :: "cfl_graph \<Rightarrow> inode \<Rightarrow> AliasAttrs option" where
  "attrFor G n = map_option n_attr (getNode G n)"

section \<open>The builder's environment and state\<close>

record cfl_env =
  cx :: ir_env
  cgep_offset :: "vid \<Rightarrow> cfl_offset option" \<comment> \<open>\<^verbatim>\<open>accumulateConstantOffset\<close>\<close>
  cmalloc_free :: "vid \<Rightarrow> bool" \<comment> \<open>\<^verbatim>\<open>isMallocOrCallocLikeFn || isFreeCall\<close>\<close>
  cexact :: "vid \<Rightarrow> bool" \<comment> \<open>\<^verbatim>\<open>hasExactDefinition\<close>\<close>
  cvararg :: "vid \<Rightarrow> bool"
  cdisallowed :: "vid \<Rightarrow> attr \<Rightarrow> bool" \<comment> \<open>\<^verbatim>\<open>isFnAttrDisallowedByOpBundle\<close>\<close>

abbreviation cmod :: "cfl_env \<Rightarrow> ir_module" where
  "cmod E \<equiv> xmod (cx E)"

definition has_pointer_type :: "cfl_env \<Rightarrow> vid \<Rightarrow> bool" where
  "has_pointer_type E v = is_pointer (vtype (mval (cmod E) v))"

definition hasFnAttr :: "cfl_env \<Rightarrow> vid \<Rightarrow> attr \<Rightarrow> bool" where
  "hasFnAttr E c k = (if k \<in> xfnattr (cx E) c then True
     else if cdisallowed E c k then False
     else case called_function (cmod E) c of Some f \<Rightarrow> k \<in> xfnattr (cx E) f | None \<Rightarrow> False)"

definition callOnlyReadsMemory :: "cfl_env \<Rightarrow> vid \<Rightarrow> bool" where
  "callOnlyReadsMemory E c = (hasFnAttr E c AReadNone \<or> hasFnAttr E c AReadOnly)"

record 'c cfl_build =
  bgraph :: cfl_graph
  brets :: "vid list"
  banalysis :: 'c

type_synonym ('c, 'a) cfl = "('c cfl_build, 'a) smon"

definition build_addNode :: "inode \<Rightarrow> AliasAttrs \<Rightarrow> ('c, bool) cfl" where
  "build_addNode n a = (\<lambda>s. let (b, G) = graph_addNode n a (bgraph s) in Done (b, s\<lparr>bgraph := G\<rparr>))"

definition build_update :: "(cfl_graph \<Rightarrow> cfl_graph option) \<Rightarrow> ('c, unit) cfl" where
  "build_update f = (\<lambda>s. case f (bgraph s) of None \<Rightarrow> Crash | Some G \<Rightarrow> Done ((), s\<lparr>bgraph := G\<rparr>))"

definition op_at :: "cfl_env \<Rightarrow> vid \<Rightarrow> nat \<Rightarrow> ('c, vid) cfl" where
  "op_at E v i = (case operand (cmod E) v i of None \<Rightarrow> scrash | Some x \<Rightarrow> sret x)"

fun sfor :: "('x \<Rightarrow> ('s, unit) smon) \<Rightarrow> 'x list \<Rightarrow> ('s, unit) smon" where
  "sfor f [] = sret ()"
| "sfor f (x # xs) = sbind (f x) (\<lambda>_. sfor f xs)"

section \<open>Adding values and edges\<close>

text \<open>
  The methods call each other through the operands of constant expressions; \<open>add\<close> is the recursive
  \<open>addNode\<close>. Only a compare is a constant expression without useful edges.
\<close>

type_synonym 'c cfl_add = "vid \<Rightarrow> AliasAttrs \<Rightarrow> ('c, unit) cfl"

definition addAssignEdge :: "cfl_env \<Rightarrow> 'c cfl_add \<Rightarrow> vid \<Rightarrow> vid \<Rightarrow> cfl_offset \<Rightarrow> ('c, unit) cfl" where
  "addAssignEdge E add from to off =
     (if \<not> has_pointer_type E from \<or> \<not> has_pointer_type E to then sret ()
      else sbind (add from getAttrNone) (\<lambda>_.
        if to \<noteq> from then
          sbind (add to getAttrNone) (\<lambda>_. build_update (graph_addEdge (from, 0) (to, 0) off))
        else sret ()))"

definition addDerefEdge :: "cfl_env \<Rightarrow> 'c cfl_add \<Rightarrow> vid \<Rightarrow> vid \<Rightarrow> bool \<Rightarrow> ('c, unit) cfl" where
  "addDerefEdge E add from to isRead =
     (if \<not> has_pointer_type E from \<or> \<not> has_pointer_type E to then sret ()
      else sbind (add from getAttrNone) (\<lambda>_. sbind (add to getAttrNone) (\<lambda>_.
        if isRead then
          sbind (build_addNode (from, 1) getAttrNone) (\<lambda>_.
            build_update (graph_addEdge (from, 1) (to, 0) 0))
        else
          sbind (build_addNode (to, 1) getAttrNone) (\<lambda>_.
            build_update (graph_addEdge (from, 0) (to, 1) 0)))))"

definition addLoadEdge :: "cfl_env \<Rightarrow> 'c cfl_add \<Rightarrow> vid \<Rightarrow> vid \<Rightarrow> ('c, unit) cfl" where
  "addLoadEdge E add from to = addDerefEdge E add from to True"

definition addStoreEdge :: "cfl_env \<Rightarrow> 'c cfl_add \<Rightarrow> vid \<Rightarrow> vid \<Rightarrow> ('c, unit) cfl" where
  "addStoreEdge E add from to = addDerefEdge E add from to False"

definition visitGEP :: "cfl_env \<Rightarrow> 'c cfl_add \<Rightarrow> vid \<Rightarrow> ('c, unit) cfl" where
  "visitGEP E add v =
     sbind (op_at E v 0) (\<lambda>p. addAssignEdge E add p v
       (case cgep_offset E v of Some off \<Rightarrow> off | None \<Rightarrow> UnknownOffset))"

definition assign_from :: "cfl_env \<Rightarrow> 'c cfl_add \<Rightarrow> vid \<Rightarrow> nat \<Rightarrow> ('c, unit) cfl" where
  "assign_from E add v i = sbind (op_at E v i) (\<lambda>x. addAssignEdge E add x v 0)"

definition insert_into :: "cfl_env \<Rightarrow> 'c cfl_add \<Rightarrow> vid \<Rightarrow> ('c, unit) cfl" where
  "insert_into E add v = sbind (op_at E v 0) (\<lambda>agg. sbind (op_at E v 1) (\<lambda>x.
     sbind (addAssignEdge E add agg v 0) (\<lambda>_. addStoreEdge E add x v)))"

definition assign_both :: "cfl_env \<Rightarrow> 'c cfl_add \<Rightarrow> vid \<Rightarrow> nat \<Rightarrow> nat \<Rightarrow> ('c, unit) cfl" where
  "assign_both E add v i j = sbind (op_at E v i) (\<lambda>x. sbind (op_at E v j) (\<lambda>y.
     sbind (addAssignEdge E add x v 0) (\<lambda>_. addAssignEdge E add y v 0)))"

definition visitConstantExpr :: "cfl_env \<Rightarrow> 'c cfl_add \<Rightarrow> opcode \<Rightarrow> vid \<Rightarrow> ('c, unit) cfl" where
  "visitConstantExpr E add op v =
     (if op = OGetElementPtr then visitGEP E add v
      else if op = OPtrToInt then sbind (op_at E v 0) (\<lambda>x. add x getAttrEscaped)
      else if op = OIntToPtr then add v getAttrUnknown
      else if op \<in> {OBitCast, OAddrSpaceCast, OTrunc, OZExt, OSExt, OFPExt, OFPTrunc, OUIToFP,
          OSIToFP, OFPToUI, OFPToSI} then assign_from E add v 0
      else if op = OSelect then assign_both E add v 1 2
      else if op \<in> {OInsertElement, OInsertValue} then insert_into E add v
      else if op \<in> {OExtractElement, OExtractValue} then sbind (op_at E v 0) (\<lambda>x. addLoadEdge E add x v)
      else if op \<in> {OAdd, OSub, OFSub, OMul, OFMul, OUDiv, OSDiv, OFDiv, OURem, OSRem, OFRem, OAnd,
          OOr, OXor, OShl, OLShr, OAShr, OICmp, OFCmp, OShuffleVector} then assign_both E add v 0 1
      else scrash)"

text \<open>The fuel bounds the nesting of constant expressions.\<close>

fun addNode :: "cfl_env \<Rightarrow> nat \<Rightarrow> 'c cfl_add" where
  "addNode E 0 v a = (\<lambda>s. OutOfFuel)"
| "addNode E (Suc n) v a =
     (if \<not> has_pointer_type E v then scrash
      else if is_global_value (cmod E) v then
        sbind (build_addNode (v, 0) (getGlobalOrArgAttrFromValue (cx E) v)) (\<lambda>new.
          if new then sbind (build_addNode (v, 1) getAttrUnknown) (\<lambda>_. sret ()) else sret ())
      else case vkind (mval (cmod E) v) of
        KConstantExpr op \<Rightarrow>
          if op \<noteq> OICmp \<and> op \<noteq> OFCmp then
            sbind (build_addNode (v, 0) getAttrNone) (\<lambda>new.
              if new then visitConstantExpr E (addNode E n) op v else sret ())
          else sret ()
      | _ \<Rightarrow> sbind (build_addNode (v, 0) a) (\<lambda>_. sret ()))"

declare addNode.simps(2) [simp del]

section \<open>Calls\<close>

definition MaxSupportedArgsInSummary :: nat where
  "MaxSupportedArgsInSummary = 50"

type_synonym 'c summary_lookup = "vid \<Rightarrow> ('c, AliasSummary option) cfl"

definition isFunctionExternal :: "cfl_env \<Rightarrow> vid \<Rightarrow> bool" where
  "isFunctionExternal E f = (\<not> cexact E f)"

text \<open>The first loop: every target must have a summary.\<close>

fun targets_ok :: "cfl_env \<Rightarrow> 'c summary_lookup \<Rightarrow> vid \<Rightarrow> vid list \<Rightarrow> ('c, bool) cfl" where
  "targets_ok E summ c [] = sret True"
| "targets_ok E summ c (f # fs) =
     (if isFunctionExternal E f \<or> cvararg E f then sret False
      else if length (fargs (mfun (cmod E) f)) > length (call_args (cx E) c) then scrash
      else sbind (summ f) (\<lambda>s. if s = None then sret False else targets_ok E summ c fs))"

definition add_relation :: "cfl_env \<Rightarrow> vid \<Rightarrow> ExternalRelation \<Rightarrow> ('c, unit) cfl" where
  "add_relation E c r = (case instantiateExternalRelation (cx E) r c of
       None \<Rightarrow> scrash
     | Some None \<Rightarrow> sret ()
     | Some (Some (f, t, _)) \<Rightarrow> sbind (build_addNode f getAttrNone) (\<lambda>_.
         sbind (build_addNode t getAttrNone) (\<lambda>_. build_update (graph_addEdge f t 0))))"

definition add_attribute :: "cfl_env \<Rightarrow> vid \<Rightarrow> ExternalAttribute \<Rightarrow> ('c, unit) cfl" where
  "add_attribute E c ea = (case instantiateExternalAttribute (cx E) ea c of
       None \<Rightarrow> scrash
     | Some None \<Rightarrow> sret ()
     | Some (Some (n, a)) \<Rightarrow> sbind (build_addNode n a) (\<lambda>_. sret ()))"

definition apply_summary :: "cfl_env \<Rightarrow> 'c summary_lookup \<Rightarrow> vid \<Rightarrow> vid \<Rightarrow> ('c, unit) cfl" where
  "apply_summary E summ c f = sbind (summ f) (\<lambda>s. case s of
       None \<Rightarrow> scrash
     | Some sm \<Rightarrow> sbind (sfor (add_relation E c) (RetParamRelations sm)) (\<lambda>_.
         sfor (add_attribute E c) (RetParamAttributes sm)))"

definition tryInterproceduralAnalysis ::
  "cfl_env \<Rightarrow> 'c summary_lookup \<Rightarrow> vid \<Rightarrow> vid list \<Rightarrow> ('c, bool) cfl" where
  "tryInterproceduralAnalysis E summ c fns =
     (if length (call_args (cx E) c) > MaxSupportedArgsInSummary then sret False
      else sbind (targets_ok E summ c fns) (\<lambda>ok.
        if \<not> ok then sret False
        else sbind (sfor (apply_summary E summ c) fns) (\<lambda>_. sret True)))"

definition getPossibleTargets :: "cfl_env \<Rightarrow> vid \<Rightarrow> vid list option" where
  "getPossibleTargets E c = map_option (\<lambda>f. [f]) (called_function (cmod E) c)"

text \<open>What an opaque call does to its arguments and its result.\<close>

definition opaque_argument :: "cfl_env \<Rightarrow> vid \<Rightarrow> ('c, unit) cfl" where
  "opaque_argument E v =
     (if has_pointer_type E v then
        sbind (build_update (graph_addAttr (v, 0) getAttrEscaped)) (\<lambda>_.
        sbind (build_addNode (v, 1) getAttrUnknown) (\<lambda>_. sret ()))
      else sret ())"

definition visitCallBase :: "cfl_env \<Rightarrow> nat \<Rightarrow> 'c summary_lookup \<Rightarrow> vid \<Rightarrow> ('c, unit) cfl" where
  "visitCallBase E n summ c =
     sbind (sfor (\<lambda>v. if has_pointer_type E v then addNode E n v getAttrNone else sret ())
       (call_args (cx E) c)) (\<lambda>_.
     sbind (if has_pointer_type E c then addNode E n c getAttrNone else sret ()) (\<lambda>_.
     if cmalloc_free E c then sret ()
     else sbind (case getPossibleTargets E c of
                   Some fns \<Rightarrow> tryInterproceduralAnalysis E summ c fns | None \<Rightarrow> sret False)
       (\<lambda>done. if done then sret ()
        else sbind (if \<not> callOnlyReadsMemory E c
                    then sfor (opaque_argument E) (call_args (cx E) c) else sret ())
          (\<lambda>_. if has_pointer_type E c
               then (case called_function (cmod E) c of
                   Some f \<Rightarrow> if ANoAlias \<notin> xretattr (cx E) f
                     then build_update (graph_addAttr (c, 0) getAttrUnknown) else sret ()
                 | None \<Rightarrow> build_update (graph_addAttr (c, 0) getAttrUnknown))
               else sret ()))))"

section \<open>Instructions\<close>

definition visitReturnInst :: "cfl_env \<Rightarrow> nat \<Rightarrow> vid \<Rightarrow> ('c, unit) cfl" where
  "visitReturnInst E n i = (case operand (cmod E) i 0 of
       None \<Rightarrow> sret ()
     | Some v \<Rightarrow> if has_pointer_type E v
         then sbind (addNode E n v getAttrNone) (\<lambda>_. smodify (\<lambda>s. s\<lparr>brets := brets s @ [v]\<rparr>))
         else sret ())"

definition visitPHINode :: "cfl_env \<Rightarrow> nat \<Rightarrow> vid \<Rightarrow> ('c, unit) cfl" where
  "visitPHINode E n i =
     sfor (\<lambda>v. addAssignEdge E (addNode E n) v i 0) (voperands (mval (cmod E) i))"

definition store_edge :: "cfl_env \<Rightarrow> nat \<Rightarrow> vid \<Rightarrow> nat \<Rightarrow> nat \<Rightarrow> ('c, unit) cfl" where
  "store_edge E n i val ptr = sbind (op_at E i ptr) (\<lambda>p. sbind (op_at E i val) (\<lambda>v.
     addStoreEdge E (addNode E n) v p))"

definition unknown_source :: "cfl_env \<Rightarrow> nat \<Rightarrow> vid \<Rightarrow> ('c, unit) cfl" where
  "unknown_source E n i =
     (if has_pointer_type E i then addNode E n i getAttrUnknown else sret ())"

definition is_binary :: "opcode \<Rightarrow> bool" where
  "is_binary op = (op \<in> {OAdd, OFAdd, OSub, OFSub, OMul, OFMul, OUDiv, OSDiv, OFDiv, OURem, OSRem,
     OFRem, OShl, OLShr, OAShr, OAnd, OOr, OXor})"

definition is_plain_cast :: "opcode \<Rightarrow> bool" where
  "is_plain_cast op = (op \<in> {OTrunc, OZExt, OSExt, OFPToUI, OFPToSI, OUIToFP, OSIToFP, OFPTrunc,
     OFPExt, OBitCast, OAddrSpaceCast})"

text \<open>The instruction visitor; an opcode without a method reaches \<open>visitInstruction\<close>.\<close>

definition visit :: "cfl_env \<Rightarrow> nat \<Rightarrow> 'c summary_lookup \<Rightarrow> opcode \<Rightarrow> vid \<Rightarrow> ('c, unit) cfl" where
  "visit E n summ op i =
     (let add = addNode E n in
      if op = ORet then visitReturnInst E n i
      else if op = OPtrToInt then sbind (op_at E i 0) (\<lambda>p. add p getAttrEscaped)
      else if op = OIntToPtr then add i getAttrUnknown
      else if is_plain_cast op then assign_from E add i 0
      else if is_binary op then assign_both E add i 0 1
      else if op = OAtomicCmpXchg then store_edge E n i 2 0
      else if op = OAtomicRMW then store_edge E n i 1 0
      else if op = OPHI then visitPHINode E n i
      else if op = OGetElementPtr then visitGEP E add i
      else if op = OSelect then assign_both E add i 1 2
      else if op = OAlloca then add i getAttrNone
      else if op = OLoad then sbind (op_at E i 0) (\<lambda>p. addLoadEdge E add p i)
      else if op = OStore then store_edge E n i 0 1
      else if op = OVAArg then unknown_source E n i
      else if op = OCall \<or> op = OInvoke then visitCallBase E n summ i
      else if op = OExtractElement then sbind (op_at E i 0) (\<lambda>p. addLoadEdge E add p i)
      else if op = OInsertElement then insert_into E add i
      else if op = OLandingPad then unknown_source E n i
      else if op = OInsertValue then insert_into E add i
      else if op = OExtractValue then sbind (op_at E i 0) (\<lambda>p. addLoadEdge E add p i)
      else if op = OShuffleVector then assign_both E add i 0 1
      else scrash)"

definition is_terminator :: "opcode \<Rightarrow> bool" where
  "is_terminator op = (op \<in> {ORet, OBr, OSwitch, OIndirectBr, OInvoke, OResume, OUnreachable,
     OCleanupRet, OCatchRet, OCatchSwitch, OCallBr})"

definition hasUsefulEdges :: "opcode \<Rightarrow> bool" where
  "hasUsefulEdges op = (op \<noteq> OICmp \<and> op \<noteq> OFCmp \<and> op \<noteq> OFence
     \<and> \<not> (is_terminator op \<and> op \<noteq> OInvoke \<and> op \<noteq> ORet))"

definition addInstructionToGraph :: "cfl_env \<Rightarrow> nat \<Rightarrow> 'c summary_lookup \<Rightarrow> vid \<Rightarrow> ('c, unit) cfl" where
  "addInstructionToGraph E n summ i = (case vkind (mval (cmod E) i) of
       KInstruction op \<Rightarrow> if \<not> hasUsefulEdges op then sret () else visit E n summ op i
     | _ \<Rightarrow> scrash)"

definition addArgumentToGraph :: "cfl_env \<Rightarrow> vid \<Rightarrow> ('c, unit) cfl" where
  "addArgumentToGraph E a =
     (if has_pointer_type E a then
        sbind (build_addNode (a, 0) (getGlobalOrArgAttrFromValue (cx E) a)) (\<lambda>_.
        sbind (build_addNode (a, 1) getAttrCaller) (\<lambda>_. sret ()))
      else sret ())"

definition buildGraphFrom :: "cfl_env \<Rightarrow> nat \<Rightarrow> 'c summary_lookup \<Rightarrow> vid \<Rightarrow> ('c, unit) cfl" where
  "buildGraphFrom E n summ F =
     sbind (sfor (addInstructionToGraph E n summ) (concat (fblocks (mfun (cmod E) F)))) (\<lambda>_.
     sfor (addArgumentToGraph E) (fargs (mfun (cmod E) F)))"

end
