(* ===== verification/CFLReach.thy ===== *)
theory CFLReach
  imports CFLGraph
begin

text \<open>
  The reachability computation of the inclusion-based alias analysis
  (\<^verbatim>\<open>lib/Analysis/CFLAndersAliasAnalysis.cpp\<close>): pairs of nodes are added to the set of value aliases
  in one of seven states, each at most once per state, and a worklist expands them along the edges
  of the graph and along memory aliases.
\<close>

section \<open>States and sets\<close>

datatype MatchState = FlowFromReadOnly | FlowFromMemAliasNoReadWrite | FlowFromMemAliasReadOnly
  | FlowToWriteOnly | FlowToReadWrite | FlowToMemAliasWriteOnly | FlowToMemAliasReadWrite

definition state_index :: "MatchState \<Rightarrow> nat" where
  "state_index s = (case s of FlowFromReadOnly \<Rightarrow> 0 | FlowFromMemAliasNoReadWrite \<Rightarrow> 1
     | FlowFromMemAliasReadOnly \<Rightarrow> 2 | FlowToWriteOnly \<Rightarrow> 3 | FlowToReadWrite \<Rightarrow> 4
     | FlowToMemAliasWriteOnly \<Rightarrow> 5 | FlowToMemAliasReadWrite \<Rightarrow> 6)"

type_synonym StateSet = "7 word"

definition ReadOnlyStateMask :: StateSet where
  "ReadOnlyStateMask = push_bit (state_index FlowFromReadOnly) 1
     OR push_bit (state_index FlowFromMemAliasReadOnly) 1"

definition WriteOnlyStateMask :: StateSet where
  "WriteOnlyStateMask = push_bit (state_index FlowToWriteOnly) 1
     OR push_bit (state_index FlowToMemAliasWriteOnly) 1"

definition hasReadOnlyState :: "StateSet \<Rightarrow> bool" where
  "hasReadOnlyState S = (S AND ReadOnlyStateMask \<noteq> 0)"

definition hasWriteOnlyState :: "StateSet \<Rightarrow> bool" where
  "hasWriteOnlyState S = (S AND WriteOnlyStateMask \<noteq> 0)"

definition test_state :: "StateSet \<Rightarrow> MatchState \<Rightarrow> bool" where
  "test_state S s = bit S (state_index s)"

text \<open>\<open>ReachMap[To][From]\<close> is the set of states of the pair.\<close>

type_synonym ReachabilitySet = "(inode \<times> (inode \<times> StateSet) list) list"

definition reachableValueAliases :: "ReachabilitySet \<Rightarrow> inode \<Rightarrow> (inode \<times> StateSet) list" where
  "reachableValueAliases R v = (case map_of R v of None \<Rightarrow> [] | Some m \<Rightarrow> m)"

definition reach_states :: "ReachabilitySet \<Rightarrow> inode \<Rightarrow> inode \<Rightarrow> StateSet" where
  "reach_states R from to = (case map_of (reachableValueAliases R to) from of None \<Rightarrow> 0 | Some S \<Rightarrow> S)"

definition reach_insert :: "inode \<Rightarrow> inode \<Rightarrow> MatchState \<Rightarrow> ReachabilitySet \<Rightarrow> bool \<times> ReachabilitySet" where
  "reach_insert from to s R =
     (let states = reach_states R from to in
      if \<not> bit states (state_index s)
      then (True, alist_put to (alist_put from (set_bit (state_index s) states) (reachableValueAliases R to)) R)
      else (False, R))"

type_synonym AliasMemSet = "(inode \<times> inode list) list"

definition getMemoryAliases :: "AliasMemSet \<Rightarrow> inode \<Rightarrow> inode list" where
  "getMemoryAliases M v = (case map_of M v of None \<Rightarrow> [] | Some l \<Rightarrow> l)"

definition mem_insert :: "inode \<Rightarrow> inode \<Rightarrow> AliasMemSet \<Rightarrow> bool \<times> AliasMemSet" where
  "mem_insert l r M = (let ms = getMemoryAliases M l in
     if r \<in> set ms then (False, M) else (True, alist_put l (ms @ [r]) M))"

section \<open>The worklist\<close>

type_synonym WorkListItem = "inode \<times> inode \<times> MatchState"

type_synonym reach_work = "ReachabilitySet \<times> WorkListItem list"

definition propagate :: "inode \<Rightarrow> inode \<Rightarrow> MatchState \<Rightarrow> reach_work \<Rightarrow> reach_work" where
  "propagate from to s = (\<lambda>(R, W).
     if from = to then (R, W)
     else let (new, R') = reach_insert from to s R in (R', if new then W @ [(from, to, s)] else W))"

definition propagate_item :: "WorkListItem \<Rightarrow> reach_work \<Rightarrow> reach_work" where
  "propagate_item it = (case it of (f, t, s) \<Rightarrow> propagate f t s)"

text \<open>The neighbours of every node: an edge from \<open>x\<close> to \<open>y\<close>.\<close>

definition initial_items :: "inode \<Rightarrow> cfl_node \<Rightarrow> WorkListItem list" where
  "initial_items src info = concat (map (\<lambda>(other, _).
     [(other, src, FlowFromReadOnly), (src, other, FlowToWriteOnly)]) (n_edges info))"

definition value_items :: "vid \<times> cfl_node list \<Rightarrow> WorkListItem list" where
  "value_items = (\<lambda>(v, ls). concat (map (\<lambda>i. initial_items (v, i) (ls ! i)) [0..<length ls]))"

definition initializeWorkList :: "cfl_graph \<Rightarrow> reach_work" where
  "initializeWorkList G = fold propagate_item (concat (map value_items G)) ([], [])"

definition getNodeBelow :: "cfl_graph \<Rightarrow> inode \<Rightarrow> inode option" where
  "getNodeBelow G v = (let below = (fst v, snd v + 1) in if getNode G below \<noteq> None then Some below else None)"

text \<open>The state in which a memory alias extends a value alias, where it may.\<close>

definition mem_state :: "MatchState \<Rightarrow> MatchState option" where
  "mem_state s = (case s of FlowFromReadOnly \<Rightarrow> Some FlowFromMemAliasReadOnly
     | FlowToWriteOnly \<Rightarrow> Some FlowToMemAliasWriteOnly
     | FlowToReadWrite \<Rightarrow> Some FlowToMemAliasReadWrite | _ \<Rightarrow> None)"

definition mem_alias_items :: "inode \<Rightarrow> inode \<times> StateSet \<Rightarrow> WorkListItem list" where
  "mem_alias_items toBelow = (\<lambda>(src, S).
     (if test_state S FlowFromReadOnly then [(src, toBelow, FlowFromMemAliasReadOnly)] else []) @
     (if test_state S FlowToWriteOnly then [(src, toBelow, FlowToMemAliasWriteOnly)] else []) @
     (if test_state S FlowToReadWrite then [(src, toBelow, FlowToMemAliasReadWrite)] else []))"

definition NextAssignState :: "inode \<Rightarrow> cfl_node \<Rightarrow> MatchState \<Rightarrow> WorkListItem list" where
  "NextAssignState from info s = map (\<lambda>(other, _). (from, other, s)) (n_edges info)"

definition NextRevAssignState :: "inode \<Rightarrow> cfl_node \<Rightarrow> MatchState \<Rightarrow> WorkListItem list" where
  "NextRevAssignState from info s = map (\<lambda>(other, _). (from, other, s)) (n_redges info)"

definition NextMemState :: "AliasMemSet \<Rightarrow> inode \<Rightarrow> inode \<Rightarrow> MatchState \<Rightarrow> WorkListItem list" where
  "NextMemState M from to s = map (\<lambda>m. (from, m, s)) (getMemoryAliases M to)"

definition next_items :: "AliasMemSet \<Rightarrow> cfl_node \<Rightarrow> WorkListItem \<Rightarrow> WorkListItem list" where
  "next_items M info it = (case it of (from, to, state) \<Rightarrow>
     (case state of
        FlowFromReadOnly \<Rightarrow>
          NextRevAssignState from info FlowFromReadOnly @ NextAssignState from info FlowToReadWrite
          @ NextMemState M from to FlowFromMemAliasReadOnly
      | FlowFromMemAliasNoReadWrite \<Rightarrow>
          NextRevAssignState from info FlowFromReadOnly @ NextAssignState from info FlowToWriteOnly
      | FlowFromMemAliasReadOnly \<Rightarrow>
          NextRevAssignState from info FlowFromReadOnly @ NextAssignState from info FlowToReadWrite
      | FlowToWriteOnly \<Rightarrow>
          NextAssignState from info FlowToWriteOnly @ NextMemState M from to FlowToMemAliasWriteOnly
      | FlowToReadWrite \<Rightarrow>
          NextAssignState from info FlowToReadWrite @ NextMemState M from to FlowToMemAliasReadWrite
      | FlowToMemAliasWriteOnly \<Rightarrow> NextAssignState from info FlowToWriteOnly
      | FlowToMemAliasReadWrite \<Rightarrow> NextAssignState from info FlowToReadWrite))"

text \<open>
  One item. A node without information fails an assertion. The aliases of the node below are read
  once: the insertions of the loop go to another entry of the map, that of the other node below.
\<close>

record cfl_reach =
  reach :: ReachabilitySet
  mem :: AliasMemSet
  next_list :: "WorkListItem list"

definition processWorkListItem :: "cfl_graph \<Rightarrow> WorkListItem \<Rightarrow> cfl_reach \<Rightarrow> cfl_reach option" where
  "processWorkListItem G it st = (case it of (from, to, state) \<Rightarrow>
     (case getNode G to of
        None \<Rightarrow> None
      | Some info \<Rightarrow>
          let st1 = (case (getNodeBelow G from, getNodeBelow G to) of
              (Some fb, Some tb) \<Rightarrow>
                (let (new, M) = mem_insert fb tb (mem st) in
                 if new then
                   (let (R, W) = propagate fb tb FlowFromMemAliasNoReadWrite (reach st, next_list st);
                        (R', W') = fold propagate_item
                          (concat (map (mem_alias_items tb) (reachableValueAliases R fb))) (R, W)
                    in \<lparr>reach = R', mem = M, next_list = W'\<rparr>)
                 else st)
            | _ \<Rightarrow> st);
            (R, W) = fold propagate_item (next_items (mem st1) info it) (reach st1, next_list st1)
          in Some (st1\<lparr>reach := R, next_list := W\<rparr>)))"

fun process_list :: "cfl_graph \<Rightarrow> WorkListItem list \<Rightarrow> cfl_reach \<Rightarrow> cfl_reach option" where
  "process_list G [] st = Some st"
| "process_list G (it # its) st = Option.bind (processWorkListItem G it st) (process_list G its)"

text \<open>The loop of \<open>buildInfoFrom\<close>: each round processes the whole list and then takes the next one.\<close>

fun reach_loop :: "cfl_graph \<Rightarrow> nat \<Rightarrow> WorkListItem list \<Rightarrow> cfl_reach \<Rightarrow> cfl_reach outcome" where
  "reach_loop G 0 W st = OutOfFuel"
| "reach_loop G (Suc n) W st =
     (if W = [] then Done st
      else case process_list G W st of
          None \<Rightarrow> Crash
        | Some st' \<Rightarrow> reach_loop G n (next_list st') (st'\<lparr>next_list := []\<rparr>))"

definition reach_solve :: "cfl_graph \<Rightarrow> nat \<Rightarrow> cfl_reach outcome" where
  "reach_solve G n = (let (R, W) = initializeWorkList G in
     reach_loop G n W \<lparr>reach = R, mem = [], next_list = []\<rparr>)"

section \<open>The relation it computes\<close>

text \<open>
  Assignment edges, and the smallest relations closed under the rules of the state machine: value
  aliases in a state and memory aliases. A node is not recorded as an alias of itself.
\<close>

definition edge :: "cfl_graph \<Rightarrow> inode \<Rightarrow> inode \<Rightarrow> bool" where
  "edge G x y = (case getNode G x of None \<Rightarrow> False | Some info \<Rightarrow> y \<in> fst ` set (n_edges info))"

definition rev_edge :: "cfl_graph \<Rightarrow> inode \<Rightarrow> inode \<Rightarrow> bool" where
  "rev_edge G x y = (case getNode G x of None \<Rightarrow> False | Some info \<Rightarrow> y \<in> fst ` set (n_redges info))"

definition assign_state :: "MatchState \<Rightarrow> MatchState" where
  "assign_state s = (case s of FlowFromReadOnly \<Rightarrow> FlowToReadWrite
     | FlowFromMemAliasNoReadWrite \<Rightarrow> FlowToWriteOnly | FlowFromMemAliasReadOnly \<Rightarrow> FlowToReadWrite
     | FlowToWriteOnly \<Rightarrow> FlowToWriteOnly | FlowToReadWrite \<Rightarrow> FlowToReadWrite
     | FlowToMemAliasWriteOnly \<Rightarrow> FlowToWriteOnly | FlowToMemAliasReadWrite \<Rightarrow> FlowToReadWrite)"

definition rev_state :: "MatchState \<Rightarrow> bool" where
  "rev_state s = (s \<in> {FlowFromReadOnly, FlowFromMemAliasNoReadWrite, FlowFromMemAliasReadOnly})"

definition below :: "inode \<Rightarrow> inode" where
  "below v = (fst v, snd v + 1)"

definition is_node :: "cfl_graph \<Rightarrow> inode \<Rightarrow> bool" where
  "is_node G n = (getNode G n \<noteq> None)"

inductive VA :: "cfl_graph \<Rightarrow> inode \<Rightarrow> inode \<Rightarrow> MatchState \<Rightarrow> bool"
  and MA :: "cfl_graph \<Rightarrow> inode \<Rightarrow> inode \<Rightarrow> bool" for G where
  VA_edge_to: "edge G x y \<Longrightarrow> x \<noteq> y \<Longrightarrow> VA G x y FlowToWriteOnly"
| VA_edge_from: "edge G x y \<Longrightarrow> x \<noteq> y \<Longrightarrow> VA G y x FlowFromReadOnly"
| VA_assign: "VA G f t s \<Longrightarrow> edge G t u \<Longrightarrow> f \<noteq> u \<Longrightarrow> VA G f u (assign_state s)"
| VA_rev: "VA G f t s \<Longrightarrow> rev_state s \<Longrightarrow> rev_edge G t u \<Longrightarrow> f \<noteq> u \<Longrightarrow> VA G f u FlowFromReadOnly"
| MA_below: "VA G f t s \<Longrightarrow> is_node G (below f) \<Longrightarrow> is_node G (below t) \<Longrightarrow> MA G (below f) (below t)"
| VA_mem: "MA G f t \<Longrightarrow> f \<noteq> t \<Longrightarrow> VA G f t FlowFromMemAliasNoReadWrite"
| VA_mem_ext: "VA G f t s \<Longrightarrow> MA G t u \<Longrightarrow> mem_state s = Some s' \<Longrightarrow> f \<noteq> u \<Longrightarrow> VA G f u s'"

end
