(* ===== verification/CFLSolve.thy ===== *)
theory CFLSolve
  imports CFLReach
begin

text \<open>
  Correctness of the reachability worklist: on a well-formed graph it ends after a number of rounds
  bounded by the size of the graph, no assertion fails, and the set of value aliases is exactly the
  smallest relation \<open>VA\<close> closed under the rules of the state machine.
\<close>

section \<open>Well-formed graphs\<close>

definition graph_nodes :: "cfl_graph \<Rightarrow> inode list" where
  "graph_nodes G = concat (map (\<lambda>(v, ls). map (\<lambda>i. (v, i)) [0..<length ls]) G)"

definition wf_graph :: "cfl_graph \<Rightarrow> bool" where
  "wf_graph G = (distinct (map fst G) \<and>
     list_all (\<lambda>x. list_all (\<lambda>(y, _). is_node G y \<and> rev_edge G y x) (n_edges (the (getNode G x)))
       \<and> list_all (\<lambda>(y, _). is_node G y \<and> edge G y x) (n_redges (the (getNode G x)))) (graph_nodes G))"

lemma below_proj [simp]: "fst (below v) = fst v" "snd (below v) = Suc (snd v)"
  by (simp_all add: below_def)

lemma getNode_Some_iff:
  "getNode G x = Some info \<longleftrightarrow>
     (\<exists>ls. map_of G (fst x) = Some ls \<and> snd x < length ls \<and> info = ls ! snd x)"
  by (auto simp: getNode_def split: option.splits if_splits)

lemma getNodeBelow_eq: "getNodeBelow G v = (if is_node G (below v) then Some (below v) else None)"
  by (simp add: getNodeBelow_def is_node_def below_def Let_def)

lemma graph_nodes_iff:
  assumes "distinct (map fst G)"
  shows "x \<in> set (graph_nodes G) \<longleftrightarrow> is_node G x"
proof -
  have "x \<in> set (graph_nodes G) \<longleftrightarrow> (\<exists>ls. (fst x, ls) \<in> set G \<and> snd x < length ls)"
    unfolding graph_nodes_def by (cases x) fastforce
  then show ?thesis using assms
    by (auto simp: is_node_def getNode_Some_iff map_of_eq_Some_iff)
qed

lemma edge_is_node: "edge G x y \<Longrightarrow> is_node G x" "rev_edge G x y \<Longrightarrow> is_node G x"
  by (auto simp: edge_def rev_edge_def is_node_def split: option.splits)

lemma node_edges:
  assumes "is_node G x"
  shows "list_all (\<lambda>(y, _). P y) (n_edges (the (getNode G x))) \<longleftrightarrow> (\<forall>y. edge G x y \<longrightarrow> P y)"
    "list_all (\<lambda>(y, _). P y) (n_redges (the (getNode G x))) \<longleftrightarrow> (\<forall>y. rev_edge G x y \<longrightarrow> P y)"
proof -
  have "list_all (\<lambda>(y, _). P y) l \<longleftrightarrow> (\<forall>y \<in> fst ` set l. P y)" for l :: "(inode \<times> cfl_offset) list"
    by (simp add: list_all_iff split_beta)
  then show "list_all (\<lambda>(y, _). P y) (n_edges (the (getNode G x))) \<longleftrightarrow> (\<forall>y. edge G x y \<longrightarrow> P y)"
    "list_all (\<lambda>(y, _). P y) (n_redges (the (getNode G x))) \<longleftrightarrow> (\<forall>y. rev_edge G x y \<longrightarrow> P y)"
    using assms by (clarsimp simp: is_node_def edge_def rev_edge_def Ball_def)+
qed

lemma wf_graph_iff:
  "wf_graph G \<longleftrightarrow> distinct (map fst G) \<and> (\<forall>x y. edge G x y \<longrightarrow> is_node G y)
     \<and> (\<forall>x y. edge G x y \<longleftrightarrow> rev_edge G y x)"
proof (cases "distinct (map fst G)")
  case True
  have "wf_graph G \<longleftrightarrow> (\<forall>x. is_node G x \<longrightarrow>
     (\<forall>y. edge G x y \<longrightarrow> is_node G y \<and> rev_edge G y x) \<and> (\<forall>y. rev_edge G x y \<longrightarrow> is_node G y \<and> edge G y x))"
    unfolding wf_graph_def list_all_iff [of _ "graph_nodes G"] Ball_def graph_nodes_iff [OF True]
    by (simp only: True node_edges simp_thms cong: imp_cong)
  then show ?thesis using True edge_is_node by meson
qed (simp add: wf_graph_def)

lemma wf_graphD:
  assumes "wf_graph G"
  shows "distinct (map fst G)" "edge G x y \<Longrightarrow> is_node G y" "edge G x y = rev_edge G y x"
  using assms unfolding wf_graph_iff by blast+

section \<open>The sets as relations\<close>

definition items :: "ReachabilitySet \<Rightarrow> WorkListItem set" where
  "items R = {(f, t, s). bit (reach_states R f t) (state_index s)}"

definition mem_pairs :: "AliasMemSet \<Rightarrow> (inode \<times> inode) set" where
  "mem_pairs M = {(l, r). r \<in> set (getMemoryAliases M l)}"

definition keys_distinct :: "ReachabilitySet \<Rightarrow> bool" where
  "keys_distinct R = (distinct (map fst R)
     \<and> (\<forall>(t, m) \<in> set R. distinct (map fst m) \<and> (\<forall>(f, S) \<in> set m. S \<noteq> 0)))"

definition proper :: "WorkListItem \<Rightarrow> bool" where
  "proper it = (fst it \<noteq> fst (snd it))"

lemma state_index_inj [simp]: "state_index s = state_index s' \<longleftrightarrow> s = s'"
  by (cases s; cases s') (simp_all add: state_index_def)

lemma state_index_less [simp]: "state_index s < 7"
  by (cases s) (simp_all add: state_index_def)

lemma items_Nil [simp]: "items [] = {}"
  by (auto simp: items_def reach_states_def reachableValueAliases_def)

lemma mem_pairs_Nil [simp]: "mem_pairs [] = {}"
  by (auto simp: mem_pairs_def getMemoryAliases_def)

lemma keys_distinct_Nil [simp]: "keys_distinct []"
  by (simp add: keys_distinct_def)

lemma reach_states_put:
  "reach_states (alist_put t (alist_put f S (reachableValueAliases R t)) R) f' t' =
     (if f' = f \<and> t' = t then S else reach_states R f' t')"
  by (simp add: reach_states_def reachableValueAliases_def)

lemma reach_insert_items:
  "items (snd (reach_insert f t s R)) = insert (f, t, s) (items R)"
  "fst (reach_insert f t s R) \<longleftrightarrow> (f, t, s) \<notin> items R"
  by (auto simp: reach_insert_def items_def Let_def reach_states_put bit_set_bit_iff
    split: if_splits)

lemma reachableValueAliases_in:
  "reachableValueAliases R t \<noteq> [] \<Longrightarrow> (t, reachableValueAliases R t) \<in> set R"
  by (auto simp: reachableValueAliases_def dest: map_of_SomeD split: option.splits)

lemma keys_distinct_reach:
  "keys_distinct R \<Longrightarrow> distinct (map fst (reachableValueAliases R t))"
  "keys_distinct R \<Longrightarrow> (f, S) \<in> set (reachableValueAliases R t) \<Longrightarrow> S \<noteq> 0"
  using reachableValueAliases_in [of R t] by (cases "reachableValueAliases R t = []"; fastforce simp: keys_distinct_def)+

lemma set_alist_put: "set (alist_put k v m) \<subseteq> insert (k, v) (set m)"
  by (induction k v m rule: alist_put.induct) auto

lemma keys_distinct_insert:
  assumes "keys_distinct R"
  shows "keys_distinct (snd (reach_insert f t s R))"
proof -
  let ?S = "set_bit (state_index s) (reach_states R f t)"
  let ?m = "alist_put f ?S (reachableValueAliases R t)"
  have "bit ?S (state_index s)" by (simp add: bit_set_bit_iff)
  then have "?S \<noteq> 0" by (metis bit_0_eq bot_apply bot_bool_def)
  then have "\<forall>p \<in> insert (f, ?S) (set (reachableValueAliases R t)). snd p \<noteq> 0"
    using keys_distinct_reach(2) [OF assms, where t = t] by fastforce
  then have "\<forall>p \<in> set ?m. snd p \<noteq> 0"
    using set_alist_put [of f ?S "reachableValueAliases R t"] by blast
  then have m: "distinct (map fst ?m)" "\<forall>(f, S) \<in> set ?m. S \<noteq> 0"
    using keys_distinct_reach(1) [OF assms] by auto
  have "keys_distinct (alist_put t ?m R)"
    using assms m set_alist_put [of t ?m R] unfolding keys_distinct_def by fastforce
  then show ?thesis using assms by (simp add: reach_insert_def Let_def)
qed

text \<open>The listed aliases are the pairs with a state.\<close>

lemma reach_listed:
  assumes "keys_distinct R"
  shows "(f, S) \<in> set (reachableValueAliases R t) \<longleftrightarrow> S \<noteq> 0 \<and> reach_states R f t = S"
proof -
  have "(f, S) \<in> set (reachableValueAliases R t) \<longleftrightarrow> map_of (reachableValueAliases R t) f = Some S"
    using keys_distinct_reach(1) [OF assms] by simp
  then show ?thesis
    using keys_distinct_reach(2) [OF assms, of f S t] by (auto simp: reach_states_def split: option.splits)
qed

lemma state_set_ne_0: "S \<noteq> 0 \<longleftrightarrow> (\<exists>s. bit (S :: StateSet) (state_index s))"
proof -
  have "\<exists>s. state_index s = n" if "n < 7" for n
  proof -
    have "n \<in> {0, 1, 2, 3, 4, 5, 6}" using that by auto
    then show ?thesis
      by (auto simp: state_index_def intro: exI [of _ FlowFromReadOnly] exI [of _ FlowFromMemAliasNoReadWrite]
        exI [of _ FlowFromMemAliasReadOnly] exI [of _ FlowToWriteOnly] exI [of _ FlowToReadWrite]
        exI [of _ FlowToMemAliasWriteOnly] exI [of _ FlowToMemAliasReadWrite])
  qed
  moreover have "S \<noteq> 0 \<longleftrightarrow> (\<exists>n < 7. bit S n)"
  proof
    assume "S \<noteq> 0"
    then obtain n where "bit S n" using bit_word_eqI [of S 0] by auto
    then show "\<exists>n < 7. bit S n" using bit_imp_le_length [of S n] by auto
  qed auto
  ultimately show ?thesis using state_index_less by metis
qed

lemma listed_items:
  assumes "keys_distinct R"
  shows "f \<in> fst ` set (reachableValueAliases R t) \<longleftrightarrow> (\<exists>s. (f, t, s) \<in> items R)"
proof -
  have "f \<in> fst ` set (reachableValueAliases R t) \<longleftrightarrow> (\<exists>S. (f, S) \<in> set (reachableValueAliases R t))"
    by force
  then show ?thesis unfolding reach_listed [OF assms] by (simp add: state_set_ne_0 items_def)
qed

lemma mem_state_iff: "mem_state s = Some s' \<longleftrightarrow>
    s = FlowFromReadOnly \<and> s' = FlowFromMemAliasReadOnly \<or> s = FlowToWriteOnly \<and> s' = FlowToMemAliasWriteOnly
    \<or> s = FlowToReadWrite \<and> s' = FlowToMemAliasReadWrite"
  by (cases s) (auto simp: mem_state_def)

text \<open>The aliases of a node that are listed are those in some state.\<close>

lemma mem_alias_items_iff:
  assumes "keys_distinct R"
  shows "it \<in> set (concat (map (mem_alias_items tb) (reachableValueAliases R fb))) \<longleftrightarrow>
    (\<exists>f s s'. it = (f, tb, s') \<and> (f, fb, s) \<in> items R \<and> mem_state s = Some s')"
proof -
  have "(f, S) \<in> set (reachableValueAliases R fb) \<longleftrightarrow>
      map_of (reachableValueAliases R fb) f = Some S" for f S
    using keys_distinct_reach(1) [OF assms] by simp
  moreover have "it \<in> set (mem_alias_items tb (f, S)) \<longleftrightarrow>
      (\<exists>s s'. it = (f, tb, s') \<and> bit S (state_index s) \<and> mem_state s = Some s')" for f S
    unfolding mem_state_iff by (cases it) (auto simp: mem_alias_items_def test_state_def)
  ultimately show ?thesis
    by (fastforce simp: items_def reach_states_def split: option.splits)
qed

lemma mem_insert_pairs:
  "mem_pairs (snd (mem_insert l r M)) = insert (l, r) (mem_pairs M)"
  "fst (mem_insert l r M) \<longleftrightarrow> (l, r) \<notin> mem_pairs M"
  by (auto simp: mem_insert_def mem_pairs_def Let_def getMemoryAliases_def split: if_splits option.splits)

section \<open>Propagation\<close>

text \<open>What a batch of propagations does: the items that are proper and new go to the set and to the list.\<close>

definition propagated :: "WorkListItem set \<Rightarrow> reach_work \<Rightarrow> reach_work \<Rightarrow> bool" where
  "propagated I rw rw' \<longleftrightarrow> items (fst rw') = items (fst rw) \<union> {it \<in> I. proper it}
     \<and> set (snd rw') = set (snd rw) \<union> ({it \<in> I. proper it} - items (fst rw))
     \<and> (keys_distinct (fst rw) \<longrightarrow> keys_distinct (fst rw'))"

lemma propagated_refl: "propagated {} rw rw"
  by (auto simp: propagated_def)

lemma propagated_trans:
  "propagated I rw rw' \<Longrightarrow> propagated J rw' rw'' \<Longrightarrow> propagated (I \<union> J) rw rw''"
  by (auto simp: propagated_def)

lemma propagated_item: "propagated {it} rw (propagate_item it rw)"
proof (cases it)
  case (fields f t s)
  obtain R W where rw: "rw = (R, W)" by (cases rw)
  obtain new R' where ins: "reach_insert f t s R = (new, R')" by fastforce
  have "items R' = insert (f, t, s) (items R)" "new \<longleftrightarrow> (f, t, s) \<notin> items R"
    "keys_distinct R \<Longrightarrow> keys_distinct R'"
    using reach_insert_items [of f t s R] keys_distinct_insert [of R f t s] ins by auto
  then show ?thesis
    by (auto simp: propagated_def propagate_item_def propagate_def fields rw ins proper_def)
qed

lemma propagated_fold: "propagated (set its) rw (fold propagate_item its rw)"
proof (induction its arbitrary: rw)
  case (Cons it its)
  then show ?case
    using propagated_trans [OF propagated_item Cons.IH [of "propagate_item it rw"]] by simp
qed (simp add: propagated_refl)

lemma propagatedD:
  assumes "propagated I (R, W) (R', W')"
  shows "items R' = items R \<union> {it \<in> I. proper it}"
    "set W' = set W \<union> ({it \<in> I. proper it} - items R)" "keys_distinct R \<Longrightarrow> keys_distinct R'"
  using assms by (auto simp: propagated_def)

section \<open>The rules as successor functions\<close>

text \<open>What an item leads to along the edges, and along the memory aliases of its target.\<close>

definition edge_succ :: "cfl_graph \<Rightarrow> WorkListItem \<Rightarrow> WorkListItem set" where
  "edge_succ G = (\<lambda>(f, t, s). {(f, u, assign_state s) |u. edge G t u}
     \<union> {(f, u, FlowFromReadOnly) |u. rev_state s \<and> rev_edge G t u})"

definition mem_succ :: "(inode \<times> inode) set \<Rightarrow> WorkListItem \<Rightarrow> WorkListItem set" where
  "mem_succ M = (\<lambda>(f, t, s). {(f, u, s') |u s'. (t, u) \<in> M \<and> mem_state s = Some s'})"

definition below_pairs :: "cfl_graph \<Rightarrow> WorkListItem \<Rightarrow> (inode \<times> inode) set" where
  "below_pairs G = (\<lambda>(f, t, s). if is_node G (below f) \<and> is_node G (below t) then {(below f, below t)} else {})"

definition start_items :: "cfl_graph \<Rightarrow> WorkListItem set" where
  "start_items G = {(y, x, FlowFromReadOnly) |x y. edge G x y} \<union> {(x, y, FlowToWriteOnly) |x y. edge G x y}"

lemma set_fst_pairs: "{(f, other, s) |other. other \<in> fst ` set l} = set (map (\<lambda>(other, _). (f, other, s)) l)"
  by force

lemma next_items_set:
  assumes "getNode G t = Some info"
  shows "set (next_items M info (f, t, s)) = edge_succ G (f, t, s) \<union> mem_succ (mem_pairs M) (f, t, s)"
proof -
  have e: "set (NextAssignState f info s') = {(f, u, s') |u. edge G t u}"
    "set (NextRevAssignState f info s') = {(f, u, s') |u. rev_edge G t u}"
    "set (NextMemState M f t s') = {(f, u, s') |u. (t, u) \<in> mem_pairs M}" for s'
    using assms set_fst_pairs [of f s' "n_edges info"] set_fst_pairs [of f s' "n_redges info"]
    by (auto simp: NextAssignState_def NextRevAssignState_def NextMemState_def edge_def rev_edge_def
      mem_pairs_def)
  show ?thesis
    by (cases s) (auto simp: next_items_def e edge_succ_def mem_succ_def assign_state_def rev_state_def
      mem_state_def)
qed

lemma initial_items_set:
  assumes "distinct (map fst G)"
  shows "set (concat (map value_items G)) = start_items G"
proof -
  have node: "initial_items (v, i) (ls ! i) = initial_items (v, i) (the (getNode G (v, i)))"
    if "(v, ls) \<in> set G" "i < length ls" for v ls i
    using that assms by (simp add: getNode_def)
  have "set (value_items (v, ls)) = (\<Union>i < length ls. set (initial_items (v, i) (the (getNode G (v, i)))))"
    if "(v, ls) \<in> set G" for v ls
    using node [OF that] by (auto simp: value_items_def)
  then have "set (concat (map value_items G)) = (\<Union>(v, ls) \<in> set G. \<Union>i < length ls.
      set (initial_items (v, i) (the (getNode G (v, i)))))"
    unfolding set_concat set_map image_image by (intro SUP_cong) auto
  also have "\<dots> = (\<Union>x \<in> set (graph_nodes G). set (initial_items x (the (getNode G x))))"
    by (simp add: graph_nodes_def split_beta atLeast0LessThan)
  also have "\<dots> = {it. \<exists>x y. edge G x y \<and> (it = (y, x, FlowFromReadOnly) \<or> it = (x, y, FlowToWriteOnly))}"
  proof -
    have "it \<in> set (initial_items x (the (getNode G x))) \<longleftrightarrow>
        (\<exists>y. edge G x y \<and> (it = (y, x, FlowFromReadOnly) \<or> it = (x, y, FlowToWriteOnly)))"
      if "is_node G x" for x it
      using that by (cases it) (auto simp: initial_items_def edge_def is_node_def image_iff, force+)
    then show ?thesis using edge_is_node(1) [of G]
      unfolding set_eq_iff UN_iff mem_Collect_eq Bex_def graph_nodes_iff [OF assms] by blast
  qed
  also have "\<dots> = start_items G" by (auto simp: start_items_def)
  finally show ?thesis .
qed

section \<open>One item\<close>

declare split_paired_All [simp del] split_paired_Ex [simp del]

text \<open>What a new memory alias contributes.\<close>

definition mem_new :: "(inode \<times> inode) set \<Rightarrow> WorkListItem set \<Rightarrow> WorkListItem set" where
  "mem_new N I = {(l, r, FlowFromMemAliasNoReadWrite) |l r. (l, r) \<in> N}
     \<union> {(f, r, s') |f l r s s'. (l, r) \<in> N \<and> (f, l, s) \<in> I \<and> mem_state s = Some s'}"

lemma mem_new_empty [simp]: "mem_new {} I = {}"
  by (simp add: mem_new_def)

definition advanced :: "WorkListItem set \<Rightarrow> cfl_reach \<Rightarrow> cfl_reach \<Rightarrow> bool" where
  "advanced I st st' = propagated I (reach st, next_list st) (reach st', next_list st')"

lemma below_step:
  assumes "keys_distinct (reach st)" "mem_insert fb tb (mem st) = (True, M)"
  defines "rw \<equiv> propagate fb tb FlowFromMemAliasNoReadWrite (reach st, next_list st)"
  defines "rw' \<equiv> fold propagate_item (concat (map (mem_alias_items tb) (reachableValueAliases (fst rw) fb))) rw"
  shows "advanced (mem_new {(fb, tb)} (items (reach st))) st \<lparr>reach = fst rw', mem = M, next_list = snd rw'\<rparr>"
proof -
  let ?it = "(fb, tb, FlowFromMemAliasNoReadWrite)"
  have one: "propagated {?it} (reach st, next_list st) rw"
    using propagated_item [of ?it "(reach st, next_list st)"] by (simp add: rw_def propagate_item_def)
  then have keys: "keys_distinct (fst rw)" and
    items: "items (fst rw) = items (reach st) \<union> {it \<in> {?it}. proper it}"
    using assms(1) by (auto simp: propagated_def)
  have "propagated ({?it} \<union> set (concat (map (mem_alias_items tb) (reachableValueAliases (fst rw) fb))))
      (reach st, next_list st) rw'"
    unfolding rw'_def by (rule propagated_trans [OF one propagated_fold])
  moreover have "set (concat (map (mem_alias_items tb) (reachableValueAliases (fst rw) fb))) =
      {(f, tb, s') |f s s'. (f, fb, s) \<in> items (reach st) \<and> mem_state s = Some s'}"
    unfolding set_eq_iff mem_alias_items_iff [OF keys] items by (auto simp: proper_def mem_state_def)
  moreover have "{?it} \<union> {(f, tb, s') |f s s'. (f, fb, s) \<in> items (reach st) \<and> mem_state s = Some s'} =
      mem_new {(fb, tb)} (items (reach st))"
    by (auto simp: mem_new_def)
  ultimately show ?thesis by (simp add: advanced_def)
qed

lemma process_spec:
  fixes f t :: inode and s :: MatchState
  assumes keys: "keys_distinct (reach st)" and node: "is_node G t"
  defines "it \<equiv> (f, t, s)"
  defines "N \<equiv> below_pairs G it - mem_pairs (mem st)"
  obtains st' where "processWorkListItem G it st = Some st'"
    "mem_pairs (mem st') = mem_pairs (mem st) \<union> below_pairs G it"
    "advanced (edge_succ G it \<union> mem_succ (mem_pairs (mem st')) it \<union> mem_new N (items (reach st))) st st'"
proof -
  obtain info where info: "getNode G t = Some info" using node by (auto simp: is_node_def)
  have "\<exists>st1. (case (getNodeBelow G f, getNodeBelow G t) of
      (Some fb, Some tb) \<Rightarrow>
        (let (new, M) = mem_insert fb tb (mem st) in
         if new then
           (let (R, W) = propagate fb tb FlowFromMemAliasNoReadWrite (reach st, next_list st);
                (R', W') = fold propagate_item
                  (concat (map (mem_alias_items tb) (reachableValueAliases R fb))) (R, W)
            in \<lparr>reach = R', mem = M, next_list = W'\<rparr>)
         else st)
    | _ \<Rightarrow> st) = st1
    \<and> mem_pairs (mem st1) = mem_pairs (mem st) \<union> below_pairs G it
    \<and> advanced (mem_new N (items (reach st))) st st1" (is "\<exists>st1. ?below = st1 \<and> ?spec st1")
  proof (cases "is_node G (below f) \<and> is_node G (below t) \<and> (below f, below t) \<notin> mem_pairs (mem st)")
    case True
    obtain new M where M: "mem_insert (below f) (below t) (mem st) = (new, M)" by fastforce
    then have new: "new" and pairs: "mem_pairs M = insert (below f, below t) (mem_pairs (mem st))"
      using mem_insert_pairs [of "below f" "below t" "mem st"] True by auto
    have "N = {(below f, below t)}" "below_pairs G it = {(below f, below t)}"
      using True by (auto simp: N_def below_pairs_def it_def)
    then show ?thesis
      using True M new pairs below_step [OF keys M [unfolded eqTrueI [OF new]]]
      by (simp add: getNodeBelow_eq split_beta Let_def)
  next
    case False
    have no_new: "N = {}" "below_pairs G it \<subseteq> mem_pairs (mem st)"
      using False by (auto simp: N_def below_pairs_def it_def split: if_splits)
    have st: "?below = st"
      using False mem_insert_pairs [of "below f" "below t" "mem st"]
      by (auto simp: getNodeBelow_eq split_beta Let_def)
    show ?thesis unfolding st
      unfolding no_new(1) mem_new_empty advanced_def using no_new(2) propagated_refl by blast
  qed
  then obtain st1 where st1: "?below = st1" and pairs: "mem_pairs (mem st1) = mem_pairs (mem st) \<union> below_pairs G it"
    and adv: "advanced (mem_new N (items (reach st))) st st1" by blast
  obtain R W where RW: "fold propagate_item (next_items (mem st1) info it) (reach st1, next_list st1) = (R, W)"
    by fastforce
  have "propagated (set (next_items (mem st1) info it)) (reach st1, next_list st1) (R, W)"
    using propagated_fold [of "next_items (mem st1) info it" "(reach st1, next_list st1)"] RW by simp
  from propagated_trans [OF adv [unfolded advanced_def] this]
  have "propagated (mem_new N (items (reach st)) \<union> (edge_succ G it \<union> mem_succ (mem_pairs (mem st1)) it))
      (reach st, next_list st) (R, W)"
    using next_items_set [OF info, of "mem st1" f s] by (simp add: it_def)
  then have "advanced (edge_succ G it \<union> mem_succ (mem_pairs (mem st1)) it \<union> mem_new N (items (reach st)))
      st (st1\<lparr>reach := R, next_list := W\<rparr>)"
    by (simp add: advanced_def Un_commute Un_assoc)
  moreover have "processWorkListItem G it st = Some (st1\<lparr>reach := R, next_list := W\<rparr>)"
    using st1 RW by (simp add: processWorkListItem_def it_def info Let_def)
  ultimately show thesis using that pairs by simp
qed

section \<open>The invariant of the loop\<close>

definition va_items :: "cfl_graph \<Rightarrow> WorkListItem set" where
  "va_items G = {(f, t, s). VA G f t s}"

definition ma_pairs :: "cfl_graph \<Rightarrow> (inode \<times> inode) set" where
  "ma_pairs G = {(f, t). MA G f t}"

definition only_proper :: "WorkListItem set \<Rightarrow> WorkListItem set" where
  "only_proper I = {it \<in> I. proper it}"

text \<open>\<open>P\<close> are the items that are still to be processed.\<close>

definition sound_state :: "cfl_graph \<Rightarrow> cfl_reach \<Rightarrow> bool" where
  "sound_state G st = (keys_distinct (reach st) \<and> items (reach st) \<subseteq> va_items G
     \<and> mem_pairs (mem st) \<subseteq> ma_pairs G)"

definition closed_item :: "cfl_graph \<Rightarrow> cfl_reach \<Rightarrow> WorkListItem \<Rightarrow> bool" where
  "closed_item G st it = (only_proper (edge_succ G it) \<subseteq> items (reach st)
     \<and> below_pairs G it \<subseteq> mem_pairs (mem st)
     \<and> only_proper (mem_succ (mem_pairs (mem st)) it) \<subseteq> items (reach st))"

definition closed_state :: "cfl_graph \<Rightarrow> WorkListItem set \<Rightarrow> cfl_reach \<Rightarrow> bool" where
  "closed_state G P st = (P \<subseteq> items (reach st) \<and> only_proper (start_items G) \<subseteq> items (reach st)
     \<and> (\<forall>it \<in> items (reach st) - P. closed_item G st it)
     \<and> (\<forall>(l, r) \<in> mem_pairs (mem st). l \<noteq> r \<longrightarrow> (l, r, FlowFromMemAliasNoReadWrite) \<in> items (reach st)))"

lemma advancedD:
  assumes "advanced I st st'"
  shows "items (reach st') = items (reach st) \<union> only_proper I"
    "set (next_list st') = set (next_list st) \<union> (items (reach st') - items (reach st))"
    "keys_distinct (reach st) \<Longrightarrow> keys_distinct (reach st')"
  using assms by (auto simp: advanced_def propagated_def only_proper_def)

lemma VA_is_node:
  assumes wf: "wf_graph G"
  shows "VA G f t s \<Longrightarrow> is_node G t" and "MA G f' t' \<Longrightarrow> is_node G t'"
  using wf_graphD(2) [OF wf] edge_is_node(1) [of G] wf_graphD(3) [OF wf]
  by (induction rule: VA_MA.inducts) blast+

text \<open>Everything an item or a memory alias contributes is in the relations.\<close>

lemma derived_items:
  "it \<in> va_items G \<Longrightarrow> only_proper (edge_succ G it) \<subseteq> va_items G"
  "it \<in> va_items G \<Longrightarrow> below_pairs G it \<subseteq> ma_pairs G"
  "it \<in> va_items G \<Longrightarrow> M \<subseteq> ma_pairs G \<Longrightarrow> only_proper (mem_succ M it) \<subseteq> va_items G"
  "N \<subseteq> ma_pairs G \<Longrightarrow> I \<subseteq> va_items G \<Longrightarrow> only_proper (mem_new N I) \<subseteq> va_items G"
  "only_proper (start_items G) \<subseteq> va_items G"
proof -
  show "it \<in> va_items G \<Longrightarrow> only_proper (edge_succ G it) \<subseteq> va_items G"
    by (auto simp: va_items_def only_proper_def proper_def edge_succ_def VA_assign VA_rev)
  show "it \<in> va_items G \<Longrightarrow> below_pairs G it \<subseteq> ma_pairs G"
    by (auto simp: va_items_def ma_pairs_def below_pairs_def MA_below split: if_splits)
  show "it \<in> va_items G \<Longrightarrow> M \<subseteq> ma_pairs G \<Longrightarrow> only_proper (mem_succ M it) \<subseteq> va_items G"
    by (auto simp: va_items_def ma_pairs_def only_proper_def proper_def mem_succ_def
      intro: VA_mem_ext)
  show "only_proper (mem_new N I) \<subseteq> va_items G" if "N \<subseteq> ma_pairs G" "I \<subseteq> va_items G"
  proof
    fix x assume "x \<in> only_proper (mem_new N I)"
    then consider l r where "x = (l, r, FlowFromMemAliasNoReadWrite)" "(l, r) \<in> N" "l \<noteq> r"
      | f l r s s' where "x = (f, r, s')" "(l, r) \<in> N" "(f, l, s) \<in> I" "mem_state s = Some s'" "f \<noteq> r"
      by (auto simp: only_proper_def proper_def mem_new_def)
    then show "x \<in> va_items G"
    proof cases
      case 1
      then show ?thesis using that(1) by (auto simp: va_items_def ma_pairs_def intro: VA_mem)
    next
      case 2
      then have "VA G f l s" "MA G l r" using that by (auto simp: va_items_def ma_pairs_def)
      then show ?thesis using 2 by (auto simp: va_items_def intro: VA_mem_ext)
    qed
  qed
  show "only_proper (start_items G) \<subseteq> va_items G"
    by (auto simp: va_items_def only_proper_def proper_def start_items_def VA_edge_to VA_edge_from)
qed

lemma process_sound:
  assumes "sound_state G st" "it \<in> va_items G"
    and "mem_pairs (mem st') = mem_pairs (mem st) \<union> below_pairs G it"
    and "advanced (edge_succ G it \<union> mem_succ (mem_pairs (mem st')) it
      \<union> mem_new (below_pairs G it - mem_pairs (mem st)) (items (reach st))) st st'"
  shows "sound_state G st'"
proof -
  have st: "keys_distinct (reach st)" "items (reach st) \<subseteq> va_items G" "mem_pairs (mem st) \<subseteq> ma_pairs G"
    using assms(1) by (auto simp: sound_state_def)
  have pairs: "mem_pairs (mem st') \<subseteq> ma_pairs G" "below_pairs G it - mem_pairs (mem st) \<subseteq> ma_pairs G"
    using st(3) derived_items(2) [OF assms(2)] assms(3) by auto
  have "only_proper (A \<union> B \<union> C) = only_proper A \<union> only_proper B \<union> only_proper C" for A B C
    by (auto simp: only_proper_def)
  then have "items (reach st') \<subseteq> va_items G"
    unfolding advancedD(1) [OF assms(4)]
    using st(2) derived_items(1) [OF assms(2)] derived_items(3) [OF assms(2) pairs(1)]
      derived_items(4) [OF pairs(2) st(2)] by auto
  then show ?thesis using advancedD(3) [OF assms(4) st(1)] pairs(1) by (simp add: sound_state_def)
qed

lemma process_closed:
  assumes st: "closed_state G (insert it (set its \<union> set (next_list st))) st"
    and pairs: "mem_pairs (mem st') = mem_pairs (mem st) \<union> below_pairs G it"
    and adv: "advanced (edge_succ G it \<union> mem_succ (mem_pairs (mem st')) it
      \<union> mem_new (below_pairs G it - mem_pairs (mem st)) (items (reach st))) st st'"
  shows "closed_state G (set its \<union> set (next_list st')) st'"
proof -
  let ?I = "items (reach st)" and ?I' = "items (reach st')"
  let ?N = "below_pairs G it - mem_pairs (mem st)"
  note I' = advancedD(1) [OF adv] and next' = advancedD(2) [OF adv]
  have new: "only_proper (edge_succ G it) \<subseteq> ?I'" "only_proper (mem_succ (mem_pairs (mem st')) it) \<subseteq> ?I'"
    "only_proper (mem_new ?N ?I) \<subseteq> ?I'" and grows: "?I \<subseteq> ?I'"
    unfolding I' by (auto simp: only_proper_def)
  have old: "closed_item G st' x" if "x \<in> ?I" "closed_item G st x" for x
  proof -
    have "mem_succ (mem_pairs (mem st')) x \<subseteq> mem_succ (mem_pairs (mem st)) x \<union> mem_new ?N ?I"
    proof
      fix y assume "y \<in> mem_succ (mem_pairs (mem st')) x"
      then obtain f t s u s' where "x = (f, t, s)" "y = (f, u, s')" "mem_state s = Some s'"
        "(t, u) \<in> mem_pairs (mem st) \<or> (t, u) \<in> ?N"
        by (auto simp: mem_succ_def pairs)
      then show "y \<in> mem_succ (mem_pairs (mem st)) x \<union> mem_new ?N ?I"
        using that(1) by (auto simp: mem_succ_def mem_new_def)
    qed
    then show ?thesis
      using that(2) new(3) grows pairs unfolding closed_item_def only_proper_def by blast
  qed
  have "closed_item G st' it" using new pairs by (auto simp: closed_item_def)
  then have "\<forall>x \<in> ?I' - (set its \<union> set (next_list st')). closed_item G st' x"
    using old st next' unfolding closed_state_def by blast
  moreover have "(l, r, FlowFromMemAliasNoReadWrite) \<in> ?I'"
    if "(l, r) \<in> mem_pairs (mem st')" "l \<noteq> r" for l r
  proof (cases "(l, r) \<in> mem_pairs (mem st)")
    case True
    then show ?thesis using st that(2) grows by (fastforce simp: closed_state_def)
  next
    case False
    then have "(l, r, FlowFromMemAliasNoReadWrite) \<in> only_proper (mem_new ?N ?I)"
      using that pairs by (auto simp: mem_new_def only_proper_def proper_def)
    then show ?thesis using new(3) by blast
  qed
  moreover have "set its \<union> set (next_list st') \<subseteq> ?I'" "only_proper (start_items G) \<subseteq> ?I'"
    using st grows next' unfolding closed_state_def by blast+
  ultimately show ?thesis unfolding closed_state_def by blast
qed

section \<open>The loop\<close>

lemma process_list_ok:
  assumes "wf_graph G" "sound_state G st" "closed_state G (set its \<union> set (next_list st)) st"
  shows "\<exists>st'. process_list G its st = Some st' \<and> sound_state G st'
    \<and> closed_state G (set (next_list st')) st' \<and> items (reach st) \<subseteq> items (reach st')
    \<and> set (next_list st') = set (next_list st) \<union> (items (reach st') - items (reach st))"
  using assms(2,3)
proof (induction its arbitrary: st)
  case (Cons it its)
  obtain f t s where it: "it = (f, t, s)" by (cases it)
  have "it \<in> va_items G" and keys: "keys_distinct (reach st)"
    using Cons.prems by (auto simp: sound_state_def closed_state_def)
  then have "is_node G t" using VA_is_node [OF assms(1)] it by (auto simp: va_items_def)
  from process_spec [OF keys this, of f s, folded it] obtain st1 where
    st1: "processWorkListItem G it st = Some st1"
    and pairs: "mem_pairs (mem st1) = mem_pairs (mem st) \<union> below_pairs G it"
    and adv: "advanced (edge_succ G it \<union> mem_succ (mem_pairs (mem st1)) it
      \<union> mem_new (below_pairs G it - mem_pairs (mem st)) (items (reach st))) st st1" by blast
  have "sound_state G st1" "closed_state G (set its \<union> set (next_list st1)) st1"
    using process_sound [OF Cons.prems(1) \<open>it \<in> va_items G\<close> pairs adv]
      process_closed [OF _ pairs adv] Cons.prems(2) by auto
  from Cons.IH [OF this] show ?case
    using st1 advancedD(1,2) [OF adv] by auto
qed simp

definition all_items :: "cfl_graph \<Rightarrow> WorkListItem set" where
  "all_items G = {(f, t, s). is_node G f \<and> is_node G t}"

definition max_items :: "cfl_graph \<Rightarrow> nat" where
  "max_items G = 7 * length (graph_nodes G) ^ 2"

lemma VA_is_node_from:
  assumes wf: "wf_graph G"
  shows "VA G f t s \<Longrightarrow> is_node G f" and "MA G f' t' \<Longrightarrow> is_node G f'"
  using wf_graphD(2) [OF wf] edge_is_node(1) [of G] wf_graphD(3) [OF wf]
  by (induction rule: VA_MA.inducts) blast+

lemma UNIV_MatchState: "UNIV = {FlowFromReadOnly, FlowFromMemAliasNoReadWrite, FlowFromMemAliasReadOnly,
    FlowToWriteOnly, FlowToReadWrite, FlowToMemAliasWriteOnly, FlowToMemAliasReadWrite}"
  using MatchState.exhaust by blast

lemma all_items_card:
  assumes "wf_graph G"
  shows "finite (all_items G)" "card (all_items G) \<le> max_items G"
proof -
  let ?V = "set (graph_nodes G)"
  have all: "all_items G = ?V \<times> ?V \<times> (UNIV :: MatchState set)"
    using graph_nodes_iff [OF wf_graphD(1) [OF assms]] by (auto simp: all_items_def)
  have states: "finite (UNIV :: MatchState set)" "card (UNIV :: MatchState set) \<le> 7"
    unfolding UNIV_MatchState by (simp_all add: card_insert_if)
  show "finite (all_items G)" unfolding all using states(1) by simp
  have "card (all_items G) = card ?V * card ?V * card (UNIV :: MatchState set)"
    unfolding all by (simp add: card_cartesian_product)
  also have "\<dots> \<le> length (graph_nodes G) * length (graph_nodes G) * 7"
    by (intro mult_le_mono card_length states)
  finally show "card (all_items G) \<le> max_items G" by (simp add: max_items_def power2_eq_square)
qed

lemma va_items_all: "wf_graph G \<Longrightarrow> va_items G \<subseteq> all_items G"
  using VA_is_node VA_is_node_from by (auto simp: va_items_def all_items_def)

lemma reach_loop_ok:
  assumes "wf_graph G" "sound_state G st" "closed_state G (set W) st" "next_list st = []"
    and "n + card (items (reach st)) > max_items G + (if W = [] then 0 else 1)" "n > 0"
  shows "\<exists>st'. reach_loop G n W st = Done st' \<and> sound_state G st' \<and> closed_state G {} st'"
  using assms(2-)
proof (induction n arbitrary: W st)
  case (Suc n)
  show ?case
  proof (cases "W = []")
    case True
    then show ?thesis using Suc.prems by simp
  next
    case False
    obtain st1 where st1: "process_list G W st = Some st1" "sound_state G st1"
      "closed_state G (set (next_list st1)) st1" "items (reach st) \<subseteq> items (reach st1)"
      "set (next_list st1) = items (reach st1) - items (reach st)"
      using process_list_ok [OF assms(1) Suc.prems(1), of W] Suc.prems(2,3) by auto
    let ?st2 = "st1\<lparr>next_list := []\<rparr>"
    have "items (reach st1) \<subseteq> all_items G"
      using st1(2) va_items_all [OF assms(1)] by (auto simp: sound_state_def)
    note sub = this
    have fin: "finite (items (reach st1))" by (rule finite_subset [OF sub all_items_card(1) [OF assms(1)]])
    have bound: "card (items (reach st1)) \<le> max_items G"
      using card_mono [OF all_items_card(1) [OF assms(1)] sub] all_items_card(2) [OF assms(1)] by simp
    have "card (items (reach st)) + (if next_list st1 = [] then 0 else 1) \<le> card (items (reach st1))"
    proof (cases "next_list st1 = []")
      case True
      then show ?thesis using card_mono [OF fin st1(4)] by simp
    next
      case nonempty: False
      then have "items (reach st1) - items (reach st) \<noteq> {}"
        unfolding st1(5) [symmetric] by simp
      then have "items (reach st) \<subset> items (reach st1)" using st1(4) by blast
      from psubset_card_mono [OF fin this] show ?thesis using nonempty by simp
    qed
    then have "n + card (items (reach st1)) > max_items G + (if next_list st1 = [] then 0 else 1)"
      using Suc.prems(4) False by (auto split: if_splits)
    moreover from this have "n > 0" using bound by (cases n) (auto split: if_splits)
    moreover have "sound_state G ?st2" "closed_state G (set (next_list st1)) ?st2"
      using st1(2,3) by (simp_all add: sound_state_def closed_state_def closed_item_def)
    ultimately show ?thesis
      using Suc.IH [of ?st2 "next_list st1"] False st1(1) by simp
  qed
qed simp

lemma initial_state:
  assumes "wf_graph G"
  defines "rw \<equiv> initializeWorkList G"
  shows "sound_state G \<lparr>reach = fst rw, mem = [], next_list = []\<rparr>"
    "closed_state G (set (snd rw)) \<lparr>reach = fst rw, mem = [], next_list = []\<rparr>"
proof -
  have "propagated (start_items G) ([], []) rw"
    using propagated_fold [of "concat (map value_items G)" "([], [])"]
    unfolding rw_def initializeWorkList_def initial_items_set [OF wf_graphD(1) [OF assms(1)]] .
  then have "items (fst rw) = only_proper (start_items G)" "set (snd rw) = only_proper (start_items G)"
    "keys_distinct (fst rw)"
    by (auto simp: propagated_def only_proper_def)
  then show "sound_state G \<lparr>reach = fst rw, mem = [], next_list = []\<rparr>"
    "closed_state G (set (snd rw)) \<lparr>reach = fst rw, mem = [], next_list = []\<rparr>"
    using derived_items(5) by (auto simp: sound_state_def closed_state_def)
qed

text \<open>A closed set contains the smallest relations.\<close>

lemma closed_complete:
  assumes "closed_state G {} st"
  shows "VA G f t s \<Longrightarrow> (f, t, s) \<in> items (reach st)" and "MA G f' t' \<Longrightarrow> (f', t') \<in> mem_pairs (mem st)"
proof (induction rule: VA_MA.inducts)
  case (VA_edge_to x y)
  then have "(x, y, FlowToWriteOnly) \<in> only_proper (start_items G)"
    by (auto simp: only_proper_def proper_def start_items_def)
  then show ?case using assms by (auto simp: closed_state_def)
next
  case (VA_edge_from x y)
  then have "(y, x, FlowFromReadOnly) \<in> only_proper (start_items G)"
    by (auto simp: only_proper_def proper_def start_items_def)
  then show ?case using assms by (auto simp: closed_state_def)
next
  case (VA_assign f t s u)
  then have "(f, u, assign_state s) \<in> only_proper (edge_succ G (f, t, s))"
    by (auto simp: only_proper_def proper_def edge_succ_def)
  then show ?case using assms VA_assign by (auto simp: closed_state_def closed_item_def)
next
  case (VA_rev f t s u)
  then have "(f, u, FlowFromReadOnly) \<in> only_proper (edge_succ G (f, t, s))"
    by (auto simp: only_proper_def proper_def edge_succ_def)
  then show ?case using assms VA_rev by (auto simp: closed_state_def closed_item_def)
next
  case (MA_below f t s)
  then have "(below f, below t) \<in> below_pairs G (f, t, s)" by (simp add: below_pairs_def)
  then show ?case using assms MA_below by (auto simp: closed_state_def closed_item_def)
next
  case (VA_mem f t)
  then show ?case using assms by (auto simp: closed_state_def)
next
  case (VA_mem_ext f t s u s')
  then have "(f, u, s') \<in> only_proper (mem_succ (mem_pairs (mem st)) (f, t, s))"
    by (auto simp: only_proper_def proper_def mem_succ_def)
  then show ?case using assms VA_mem_ext by (auto simp: closed_state_def closed_item_def)
qed

lemma reach_solve_exact:
  assumes "wf_graph G" "n \<ge> max_items G + 2"
  shows "\<exists>st. reach_solve G n = Done st \<and> keys_distinct (reach st)
    \<and> items (reach st) = va_items G \<and> mem_pairs (mem st) = ma_pairs G"
proof -
  obtain R W where RW: "initializeWorkList G = (R, W)" by fastforce
  have "\<exists>st. reach_loop G n W \<lparr>reach = R, mem = [], next_list = []\<rparr> = Done st
      \<and> sound_state G st \<and> closed_state G {} st"
    using assms(2) initial_state [OF assms(1)] RW by (intro reach_loop_ok [OF assms(1)]) auto
  then obtain st where st: "reach_solve G n = Done st" "sound_state G st" "closed_state G {} st"
    using RW by (auto simp: reach_solve_def)
  then show ?thesis using closed_complete [OF st(3)]
    by (auto simp: sound_state_def va_items_def ma_pairs_def)
qed

end
