(* ===== verification/CFLBuild.thy ===== *)
theory CFLBuild
  imports CFLSolve
begin

text \<open>
  What the graph builder establishes: the graph stays well formed, nodes, edges and attributes are
  only ever added, and every instruction of the function contributes the edges of its pointer flow.
\<close>

section \<open>The graph operations\<close>

lemma getNode_levels: "getNode G n = (if snd n < length (levels_of G (fst n)) then Some (levels_of G (fst n) ! snd n) else None)"
  by (auto simp: getNode_def levels_of_def split: option.splits)

lemma levels_of_put: "levels_of (alist_put v ls G) w = (if w = v then ls else levels_of G w)"
  by (simp add: levels_of_def)

lemma update_node_Some:
  assumes "update_node n f G = Some G'"
  obtains info where "getNode G n = Some info" "\<And>x. getNode G' x = (if x = n then Some (f info) else getNode G x)"
    "map fst G' = map fst (alist_put (fst n) [] G)"
proof -
  obtain info where info: "getNode G n = Some info"
    and G': "G' = alist_put (fst n) ((levels_of G (fst n))[snd n := f info]) G"
    using assms by (auto simp: update_node_def split: option.splits)
  have keys: "map fst (alist_put v ls H) = map fst (alist_put v [] H)" for v ls and H :: cfl_graph
    by (induction H) auto
  have "getNode G' x = (if x = n then Some (f info) else getNode G x)" for x
    using info unfolding G' by (cases x; cases n) (auto simp: getNode_levels levels_of_put split: if_splits)
  then show thesis using that info G' keys by blast
qed

lemma getNode_addNode:
  "getNode (snd (graph_addNode n a G)) x =
     (if x = n then Some ((case getNode G n of Some i \<Rightarrow> i | None \<Rightarrow> node_info0)
          \<lparr>n_attr := n_attr (case getNode G n of Some i \<Rightarrow> i | None \<Rightarrow> node_info0) OR a\<rparr>)
      else case getNode G x of Some i \<Rightarrow> Some i
        | None \<Rightarrow> if fst x = fst n \<and> snd x < snd n then Some node_info0 else None)"
  by (cases x; cases n) (auto simp: graph_addNode_def getNode_levels levels_of_put addNodeToLevel_def
    Let_def nth_append split: option.splits if_splits)

lemma addNode_new: "fst (graph_addNode n a G) \<longleftrightarrow> getNode G n = None"
  by (auto simp: graph_addNode_def addNodeToLevel_def getNode_levels Let_def)

lemma node_info0_edges [simp]: "n_edges node_info0 = []" "n_redges node_info0 = []"
  by (simp_all add: node_info0_def)

lemma addNode_edges [simp]:
  "edge (snd (graph_addNode n a G)) x y = edge G x y"
  "rev_edge (snd (graph_addNode n a G)) x y = rev_edge G x y"
  by (auto simp: edge_def rev_edge_def getNode_addNode split: option.splits if_splits)

lemma addNode_is_node:
  "is_node (snd (graph_addNode n a G)) x \<longleftrightarrow> is_node G x \<or> (fst x = fst n \<and> snd x \<le> snd n)"
  by (cases x; cases n) (auto simp: is_node_def getNode_addNode split: option.splits)

lemma addNode_keys: "distinct (map fst G) \<Longrightarrow> distinct (map fst (snd (graph_addNode n a G)))"
  by (simp add: graph_addNode_def Let_def split: prod.splits)

lemma wf_addNode: "wf_graph G \<Longrightarrow> wf_graph (snd (graph_addNode n a G))"
  by (auto simp: wf_graph_iff addNode_is_node addNode_keys)

lemma update_attr_edges:
  assumes "graph_addAttr n a G = Some G'"
  shows "edge G' x y = edge G x y" "rev_edge G' x y = rev_edge G x y" "is_node G' x = is_node G x"
    "distinct (map fst G) \<Longrightarrow> distinct (map fst G')"
proof -
  obtain i where i: "getNode G n = Some i"
    "\<And>x. getNode G' x = (if x = n then Some (i\<lparr>n_attr := n_attr i OR a\<rparr>) else getNode G x)"
    "map fst G' = map fst (alist_put (fst n) [] G)"
    using update_node_Some [OF assms [unfolded graph_addAttr_def]] by metis
  show "edge G' x y = edge G x y" "rev_edge G' x y = rev_edge G x y" "is_node G' x = is_node G x"
    using i(1,2) by (auto simp: edge_def rev_edge_def is_node_def)
  show "distinct (map fst G) \<Longrightarrow> distinct (map fst G')" using i(3) by (metis distinct_alist_put)
qed

lemma wf_addAttr: "graph_addAttr n a G = Some G' \<Longrightarrow> wf_graph G \<Longrightarrow> wf_graph G'"
  by (simp add: wf_graph_iff update_attr_edges)

lemma addEdge_edges:
  assumes "graph_addEdge f t off G = Some G'"
  shows "edge G' x y \<longleftrightarrow> edge G x y \<or> x = f \<and> y = t" "rev_edge G' x y \<longleftrightarrow> rev_edge G x y \<or> x = t \<and> y = f"
    "is_node G' x = is_node G x" "is_node G f" "is_node G t"
    "distinct (map fst G) \<Longrightarrow> distinct (map fst G')"
proof -
  obtain H where t: "getNode G t \<noteq> None"
    and H: "update_node f (\<lambda>info. info\<lparr>n_edges := n_edges info @ [(t, off)]\<rparr>) G = Some H"
    and G': "update_node t (\<lambda>info. info\<lparr>n_redges := n_redges info @ [(f, off)]\<rparr>) H = Some G'"
    using assms by (auto simp: graph_addEdge_def bind_eq_Some_conv split: if_splits)
  obtain i where i: "getNode G f = Some i"
    "\<And>x. getNode H x = (if x = f then Some (i\<lparr>n_edges := n_edges i @ [(t, off)]\<rparr>) else getNode G x)"
    "map fst H = map fst (alist_put (fst f) [] G)" using update_node_Some [OF H] by metis
  obtain j where j: "getNode H t = Some j"
    "\<And>x. getNode G' x = (if x = t then Some (j\<lparr>n_redges := n_redges j @ [(f, off)]\<rparr>) else getNode H x)"
    "map fst G' = map fst (alist_put (fst t) [] H)" using update_node_Some [OF G'] by metis
  have jt: "j = (if t = f then i\<lparr>n_edges := n_edges i @ [(t, off)]\<rparr> else the (getNode G t))"
    using j(1) i(2) by (auto split: if_splits)
  show "edge G' x y \<longleftrightarrow> edge G x y \<or> x = f \<and> y = t" "rev_edge G' x y \<longleftrightarrow> rev_edge G x y \<or> x = t \<and> y = f"
    "is_node G' x = is_node G x" "is_node G f" "is_node G t"
    using t i(1) by (auto simp: edge_def rev_edge_def is_node_def j(2) i(2) jt split: option.splits if_splits)
  show "distinct (map fst G) \<Longrightarrow> distinct (map fst G')"
    using i(3) j(3) by (metis distinct_alist_put)
qed

lemma wf_addEdge: "graph_addEdge f t off G = Some G' \<Longrightarrow> wf_graph G \<Longrightarrow> wf_graph G'"
  using addEdge_edges [of f t off G G'] by (auto simp: wf_graph_iff)

section \<open>What only grows\<close>

definition node_attr :: "cfl_graph \<Rightarrow> inode \<Rightarrow> AliasAttrs" where
  "node_attr G x = (case getNode G x of None \<Rightarrow> 0 | Some i \<Rightarrow> n_attr i)"

definition graph_le :: "cfl_graph \<Rightarrow> cfl_graph \<Rightarrow> bool" where
  "graph_le G H = ((wf_graph G \<longrightarrow> wf_graph H) \<and> (\<forall>x y. edge G x y \<longrightarrow> edge H x y)
     \<and> (\<forall>x. is_node G x \<longrightarrow> is_node H x) \<and> (\<forall>x n. bit (node_attr G x) n \<longrightarrow> bit (node_attr H x) n))"

definition build_le :: "'c cfl_build \<Rightarrow> 'c cfl_build \<Rightarrow> bool" where
  "build_le s t = graph_le (bgraph s) (bgraph t)"

lemma node_attr_addNode:
  "node_attr (snd (graph_addNode n a G)) x = (if x = n then node_attr G x OR a else node_attr G x)"
  by (auto simp: node_attr_def getNode_addNode node_info0_def getAttrNone_def split: option.splits)

lemma addNode_le: "graph_le G (snd (graph_addNode n a G))"
  by (auto simp: graph_le_def wf_addNode addNode_is_node node_attr_addNode bit_or_iff)

lemma node_attr_update:
  assumes "update_node n f G = Some H" "\<And>i m. bit (n_attr i) m \<Longrightarrow> bit (n_attr (f i)) m"
  shows "bit (node_attr G x) m \<Longrightarrow> bit (node_attr H x) m"
proof -
  obtain i where i: "getNode G n = Some i" "\<And>y. getNode H y = (if y = n then Some (f i) else getNode G y)"
    using update_node_Some [OF assms(1)] by metis
  show "bit (node_attr G x) m \<Longrightarrow> bit (node_attr H x) m"
    using i assms(2) by (auto simp: node_attr_def)
qed

lemma addAttr_le: "graph_addAttr n a G = Some H \<Longrightarrow> graph_le G H"
  using node_attr_update [of n "\<lambda>info. info\<lparr>n_attr := n_attr info OR a\<rparr>" G H]
  by (auto simp: graph_le_def wf_addAttr update_attr_edges graph_addAttr_def bit_or_iff)

lemma addEdge_le: "graph_addEdge f t off G = Some H \<Longrightarrow> graph_le G H"
proof -
  assume add: "graph_addEdge f t off G = Some H"
  then obtain K where K: "update_node f (\<lambda>info. info\<lparr>n_edges := n_edges info @ [(t, off)]\<rparr>) G = Some K"
    and H: "update_node t (\<lambda>info. info\<lparr>n_redges := n_redges info @ [(f, off)]\<rparr>) K = Some H"
    by (auto simp: graph_addEdge_def bind_eq_Some_conv split: if_splits)
  have "bit (node_attr G x) m \<Longrightarrow> bit (node_attr H x) m" for x m
    using node_attr_update [OF H] node_attr_update [OF K] by auto
  then show ?thesis using wf_addEdge [OF add] addEdge_edges [OF add] by (auto simp: graph_le_def)
qed

section \<open>Frames of the builder\<close>

text \<open>
  A relation between the states of the builder that its primitive operations respect is respected by
  the whole construction, whatever the analysis answers for called functions, as long as those
  answers respect it too.
\<close>

locale build_frame = state_frame R for R :: "'c cfl_build \<Rightarrow> 'c cfl_build \<Rightarrow> bool" +
  assumes frame_addNode: "R s (s\<lparr>bgraph := snd (graph_addNode n a (bgraph s))\<rparr>)"
    and frame_addAttr: "graph_addAttr n a (bgraph s) = Some G \<Longrightarrow> R s (s\<lparr>bgraph := G\<rparr>)"
    and frame_addEdge: "graph_addEdge f t off (bgraph s) = Some G \<Longrightarrow> R s (s\<lparr>bgraph := G\<rparr>)"
    and frame_rets: "R s (s\<lparr>brets := vs\<rparr>)"
begin

lemma spres_build_addNode: "spres R (build_addNode n a)"
  using frame_addNode by (auto simp: spres_def sholds_def build_addNode_def split_beta)

lemma spres_addEdge: "spres R (build_update (graph_addEdge f t off))"
  using frame_addEdge by (auto simp: spres_def sholds_def build_update_def split: option.splits)

lemma spres_addAttr: "spres R (build_update (graph_addAttr n a))"
  using frame_addAttr by (auto simp: spres_def sholds_def build_update_def split: option.splits)

lemma spres_op_at: "spres R (op_at E v i)"
  unfolding op_at_def by (intro spres_intros)

lemma spres_sfor: "(\<And>x. spres R (f x)) \<Longrightarrow> spres R (sfor f xs)"
  by (induction xs) (auto intro!: spres_intros)

lemmas build_intros = spres_intros spres_build_addNode spres_op_at spres_sfor spres_addEdge spres_addAttr

lemma spres_edges:
  assumes "\<And>v a. spres R (add v a)"
  shows "spres R (addAssignEdge E add f t off)" "spres R (addDerefEdge E add f t r)"
  unfolding addAssignEdge_def addDerefEdge_def by ((intro build_intros assms)+)

lemma spres_visits:
  assumes "\<And>v a. spres R (add v a)"
  shows "spres R (visitGEP E add v)" "spres R (assign_from E add v i)"
    "spres R (insert_into E add v)" "spres R (assign_both E add v i j)"
    "spres R (visitConstantExpr E add op v)"
  unfolding visitConstantExpr_def visitGEP_def assign_from_def insert_into_def assign_both_def
    addLoadEdge_def addStoreEdge_def
  by (intro build_intros spres_edges assms)+

lemma spres_addNode: "spres R (addNode E n v a)"
proof (induction n arbitrary: v a)
  case 0
  then show ?case by (simp add: spres_def sholds_def)
next
  case (Suc n)
  show ?case unfolding addNode.simps(2)
    by (cases "vkind (mval (cmod E) v)") (auto intro!: build_intros spres_visits Suc.IH)
qed

lemma spres_visitCallBase:
  assumes "\<And>f. spres R (summ f)"
  shows "spres R (visitCallBase E n summ c)"
proof -
  have rel: "spres R (add_relation E c r)" for r
    by (auto simp: add_relation_def split: option.splits intro!: build_intros)
  have attr: "spres R (add_attribute E c a)" for a
    by (auto simp: add_attribute_def split: option.splits intro!: build_intros)
  have ok: "spres R (targets_ok E summ c fns)" for fns
    by (induction fns) (auto intro!: build_intros assms)
  show ?thesis
    unfolding visitCallBase_def tryInterproceduralAnalysis_def apply_summary_def opaque_argument_def
    by (intro build_intros spres_addNode rel attr ok assms)
qed

lemma spres_visit:
  assumes "\<And>f. spres R (summ f)"
  shows "spres R (visit E n summ op i)"
  unfolding visit_def Let_def visitReturnInst_def visitPHINode_def store_edge_def unknown_source_def
    addLoadEdge_def addStoreEdge_def
  by (intro build_intros spres_addNode spres_visits spres_edges spres_visitCallBase assms
    spres_modify frame_rets)

lemma spres_addInstruction:
  assumes "\<And>f. spres R (summ f)"
  shows "spres R (addInstructionToGraph E n summ i)"
  by (cases "vkind (mval (cmod E) i)")
    (auto simp: addInstructionToGraph_def intro!: build_intros spres_visit assms)

lemma spres_addArgument: "spres R (addArgumentToGraph E a)"
  unfolding addArgumentToGraph_def by (intro build_intros)

lemma spres_buildGraphFrom:
  assumes "\<And>f. spres R (summ f)"
  shows "spres R (buildGraphFrom E n summ F)"
  unfolding buildGraphFrom_def by (intro build_intros spres_addInstruction spres_addArgument assms)

end

interpretation build: build_frame build_le
  by unfold_locales
    (auto simp: build_le_def addNode_le addAttr_le addEdge_le, auto simp: graph_le_def)

section \<open>The edges of an instruction\<close>

text \<open>
  The pointer flow of an instruction, as edges of the expression graph: an assignment from value to
  value, a load from the memory below a pointer, a store into it.
\<close>

definition assign_flow :: "cfl_env \<Rightarrow> vid \<Rightarrow> vid \<Rightarrow> (inode \<times> inode) list" where
  "assign_flow E f t =
     (if has_pointer_type E f \<and> has_pointer_type E t \<and> f \<noteq> t then [((f, 0), (t, 0))] else [])"

definition load_flow :: "cfl_env \<Rightarrow> vid \<Rightarrow> vid \<Rightarrow> (inode \<times> inode) list" where
  "load_flow E p i = (if has_pointer_type E p \<and> has_pointer_type E i then [((p, 1), (i, 0))] else [])"

definition store_flow :: "cfl_env \<Rightarrow> vid \<Rightarrow> vid \<Rightarrow> (inode \<times> inode) list" where
  "store_flow E v p = (if has_pointer_type E v \<and> has_pointer_type E p then [((v, 0), (p, 1))] else [])"

definition instr_flow :: "cfl_env \<Rightarrow> opcode \<Rightarrow> vid \<Rightarrow> (inode \<times> inode) list" where
  "instr_flow E op i =
     (let ops = voperands (mval (cmod E) i) in
      if is_plain_cast op \<or> op = OGetElementPtr then assign_flow E (ops ! 0) i
      else if is_binary op \<or> op = OShuffleVector then assign_flow E (ops ! 0) i @ assign_flow E (ops ! 1) i
      else if op = OSelect then assign_flow E (ops ! 1) i @ assign_flow E (ops ! 2) i
      else if op = OPHI then concat (map (\<lambda>v. assign_flow E v i) ops)
      else if op \<in> {OLoad, OExtractElement, OExtractValue} then load_flow E (ops ! 0) i
      else if op = OStore then store_flow E (ops ! 0) (ops ! 1)
      else if op = OAtomicCmpXchg then store_flow E (ops ! 2) (ops ! 0)
      else if op = OAtomicRMW then store_flow E (ops ! 1) (ops ! 0)
      else if op \<in> {OInsertElement, OInsertValue} then assign_flow E (ops ! 0) i @ store_flow E (ops ! 1) i
      else [])"

text \<open>A run that returns leaves all the given edges in the graph.\<close>

definition has_edges :: "(inode \<times> inode) set \<Rightarrow> 'c cfl_build \<Rightarrow> bool" where
  "has_edges F s = (\<forall>(x, y) \<in> F. edge (bgraph s) x y)"

definition adds_edges :: "('c, 'a) cfl \<Rightarrow> (inode \<times> inode) set \<Rightarrow> bool" where
  "adds_edges m F = (\<forall>s. sholds m s (\<lambda>_. has_edges F))"

lemma has_edges_le: "build_le s t \<Longrightarrow> has_edges F s \<Longrightarrow> has_edges F t"
  by (auto simp: build_le_def graph_le_def has_edges_def)

lemma adds_empty [simp]: "adds_edges m {}"
  by (simp add: adds_edges_def sholds_def has_edges_def)

lemma adds_first: "adds_edges m F \<Longrightarrow> (\<And>x. spres build_le (f x)) \<Longrightarrow> adds_edges (sbind m f) F"
  unfolding adds_edges_def spres_def sholds_def sbind_def
  by (auto split: outcome.splits) (metis has_edges_le)

lemma adds_then: "(\<And>x. adds_edges (f x) F) \<Longrightarrow> adds_edges (sbind m f) F"
  unfolding adds_edges_def sholds_def sbind_def by (auto split: outcome.splits)

lemma adds_union: "adds_edges m F \<Longrightarrow> adds_edges m F' \<Longrightarrow> adds_edges m (F \<union> F')"
  unfolding adds_edges_def sholds_def has_edges_def by blast

lemma adds_both:
  "adds_edges m F \<Longrightarrow> (\<And>x. spres build_le (f x)) \<Longrightarrow> (\<And>x. adds_edges (f x) F') \<Longrightarrow>
   adds_edges (sbind m f) (F \<union> F')"
  by (intro adds_union adds_first adds_then)

lemma adds_op_at: "(\<And>x. operand (cmod E) v i = Some x \<Longrightarrow> adds_edges (f x) F) \<Longrightarrow>
    adds_edges (sbind (op_at E v i) f) F"
  by (auto simp: adds_edges_def sholds_def sbind_def op_at_def sret_def scrash_def split: outcome.splits option.splits)

lemma adds_sfor:
  "(\<And>x. adds_edges (f x) (F x)) \<Longrightarrow> (\<And>x. spres build_le (f x)) \<Longrightarrow> adds_edges (sfor f xs) (\<Union>x \<in> set xs. F x)"
  by (induction xs) (auto intro!: adds_both build.spres_sfor)

lemma adds_addEdge: "adds_edges (build_update (graph_addEdge x y off)) {(x, y)}"
  by (auto simp: adds_edges_def sholds_def build_update_def has_edges_def addEdge_edges split: option.splits)

lemma adds_assign: "adds_edges (addAssignEdge E add f t off) (set (assign_flow E f t))"
  unfolding addAssignEdge_def assign_flow_def by (auto intro!: adds_then adds_addEdge)

lemma adds_deref:
  "adds_edges (addLoadEdge E add f t) (set (load_flow E f t))"
  "adds_edges (addStoreEdge E add f t) (set (store_flow E f t))"
  unfolding addLoadEdge_def addStoreEdge_def addDerefEdge_def load_flow_def store_flow_def
  by (auto intro!: adds_then adds_addEdge)

lemma operand_nth: "operand M v i = Some x \<Longrightarrow> voperands (mval M v) ! i = x"
  by (auto simp: operand_def split: if_splits)

lemma adds_visits:
  assumes "\<And>v a. spres build_le (add v a)"
  shows "adds_edges (assign_from E add v i) (set (assign_flow E (voperands (mval (cmod E) v) ! i) v))"
    "adds_edges (visitGEP E add v) (set (assign_flow E (voperands (mval (cmod E) v) ! 0) v))"
    "adds_edges (assign_both E add v i j) (set (assign_flow E (voperands (mval (cmod E) v) ! i) v)
       \<union> set (assign_flow E (voperands (mval (cmod E) v) ! j) v))"
    "adds_edges (insert_into E add v) (set (assign_flow E (voperands (mval (cmod E) v) ! 0) v)
       \<union> set (store_flow E (voperands (mval (cmod E) v) ! 1) v))"
    "adds_edges (sbind (op_at E v 0) (\<lambda>p. addLoadEdge E add p v))
       (set (load_flow E (voperands (mval (cmod E) v) ! 0) v))"
  unfolding assign_from_def visitGEP_def assign_both_def insert_into_def addLoadEdge_def addStoreEdge_def
  by (auto dest!: operand_nth intro!: adds_op_at adds_both build.spres_edges assms adds_assign
    adds_deref [unfolded addLoadEdge_def addStoreEdge_def])

lemma adds_store_edge:
  "adds_edges (store_edge E n i val ptr)
     (set (store_flow E (voperands (mval (cmod E) i) ! val) (voperands (mval (cmod E) i) ! ptr)))"
  unfolding store_edge_def by (auto dest!: operand_nth intro!: adds_op_at adds_deref)

lemma adds_phi:
  "adds_edges (visitPHINode E n i)
     (\<Union>v \<in> set (voperands (mval (cmod E) i)). set (assign_flow E v i))"
  unfolding visitPHINode_def
  by (intro adds_sfor adds_assign build.spres_edges(1) build.spres_addNode)

lemma adds_visit: "adds_edges (visit E n summ op i) (set (instr_flow E op i))"
proof -
  note visits = adds_visits [of "addNode E n" E, OF build.spres_addNode]
  show ?thesis
    unfolding visit_def instr_flow_def Let_def
    by (cases op) (simp_all add: is_plain_cast_def is_binary_def visits adds_store_edge adds_phi
      del: One_nat_def)
qed

lemma build_has_flow:
  assumes "\<And>f. spres build_le (summ f)" "buildGraphFrom E n summ F s = Done ((), s')"
    and "i \<in> set (concat (fblocks (mfun (cmod E) F)))" "vkind (mval (cmod E) i) = KInstruction op"
    and "(x, y) \<in> set (instr_flow E op i)"
  shows "edge (bgraph s') x y"
proof -
  let ?F = "\<lambda>i. case vkind (mval (cmod E) i) of KInstruction op \<Rightarrow> set (instr_flow E op i) | _ \<Rightarrow> {}"
  have useless: "instr_flow E op i = []" if "\<not> hasUsefulEdges op" for op i
    using that by (cases op) (simp_all add: hasUsefulEdges_def is_terminator_def instr_flow_def
      is_plain_cast_def is_binary_def)
  have instr: "adds_edges (addInstructionToGraph E n summ i) (?F i)" for i
    by (cases "vkind (mval (cmod E) i)") (auto simp: addInstructionToGraph_def useless adds_visit)
  have "adds_edges (buildGraphFrom E n summ F) (\<Union>i \<in> set (concat (fblocks (mfun (cmod E) F))). ?F i)"
    unfolding buildGraphFrom_def by (intro adds_first adds_sfor instr build.spres_sfor build.spres_addInstruction
      build.spres_addArgument assms(1))
  then have "has_edges (\<Union>i \<in> set (concat (fblocks (mfun (cmod E) F))). ?F i) s'"
    using assms(2) by (auto simp: adds_edges_def sholds_def)
  then show ?thesis using assms(3-5) by (force simp: has_edges_def)
qed

end
