(* ===== verification/CFLAttr.thy ===== *)
theory CFLAttr
  imports CFLBuild
begin

text \<open>
  The propagation of attributes over the computed aliases (\<^verbatim>\<open>AliasAttrMap\<close> and \<^verbatim>\<open>buildAttrMap\<close> of
  \<^verbatim>\<open>CFLAndersAliasAnalysis.cpp\<close>): the second worklist of the analysis. It ends, and a node has exactly
  the attributes that reach it through aliases and dereferences.
\<close>

section \<open>The attribute map\<close>

type_synonym AliasAttrMap = "(inode \<times> AliasAttrs) list"

definition getAttrs :: "AliasAttrMap \<Rightarrow> inode \<Rightarrow> AliasAttrs" where
  "getAttrs M v = (case map_of M v of None \<Rightarrow> getAttrNone | Some a \<Rightarrow> a)"

text \<open>The entry is created by the access even if it does not change.\<close>

definition attr_add :: "inode \<Rightarrow> AliasAttrs \<Rightarrow> AliasAttrMap \<Rightarrow> bool \<times> AliasAttrMap" where
  "attr_add v a M = (let old = getAttrs M v; new = old OR a in (old \<noteq> new, alist_put v new M))"

section \<open>The worklist\<close>

type_synonym attr_work = "AliasAttrMap \<times> inode list"

definition attr_push :: "AliasAttrs \<Rightarrow> inode \<Rightarrow> attr_work \<Rightarrow> attr_work" where
  "attr_push a v = (\<lambda>(M, W). let (changed, M') = attr_add v a M in
     (M', if changed then W @ [v] else W))"

definition attr_init :: "cfl_graph \<Rightarrow> attr_work" where
  "attr_init G = (fold (\<lambda>x M. snd (attr_add x (n_attr (the (getNode G x))) M)) (graph_nodes G) [], graph_nodes G)"

text \<open>The loop down the levels of a value; it stops at the first one that changes.\<close>

function attr_below :: "cfl_graph \<Rightarrow> AliasAttrs \<Rightarrow> inode \<Rightarrow> attr_work \<Rightarrow> attr_work" where
  "attr_below G a dst w = (case getNodeBelow G dst of None \<Rightarrow> w
     | Some b \<Rightarrow> if fst (attr_add b a (fst w)) then attr_push a b w
         else attr_below G a b (snd (attr_add b a (fst w)), snd w))"
  by pat_completeness auto

termination
proof (relation "measure (\<lambda>(G, _, dst, _). length (levels_of G (fst dst)) - snd dst)")
  fix G a dst w b
  assume "getNodeBelow G dst = Some b"
  then have "b = below dst" "is_node G (below dst)" by (auto simp: getNodeBelow_eq split: if_splits)
  then show "((G, a, b, snd (attr_add b a (fst w)), snd w), G, a, dst, w)
      \<in> measure (\<lambda>(G, _, dst, _). length (levels_of G (fst dst)) - snd dst)"
    by (auto simp: is_node_def getNode_levels split: if_splits)
qed simp

declare attr_below.simps [simp del]

definition attr_item :: "cfl_graph \<Rightarrow> ReachabilitySet \<Rightarrow> inode \<Rightarrow> attr_work \<Rightarrow> attr_work" where
  "attr_item G R dst w =
     (let a = getAttrs (fst w) dst in
      if a = 0 then w
      else attr_below G a dst (fold (attr_push a) (map fst (reachableValueAliases R dst)) w))"

fun attr_loop :: "cfl_graph \<Rightarrow> ReachabilitySet \<Rightarrow> nat \<Rightarrow> attr_work \<Rightarrow> AliasAttrMap outcome" where
  "attr_loop G R 0 w = OutOfFuel"
| "attr_loop G R (Suc n) w =
     (if snd w = [] then Done (fst w) else attr_loop G R n (fold (attr_item G R) (snd w) (fst w, [])))"

definition buildAttrMap :: "cfl_graph \<Rightarrow> ReachabilitySet \<Rightarrow> nat \<Rightarrow> AliasAttrMap outcome" where
  "buildAttrMap G R n = attr_loop G R n (attr_init G)"

section \<open>The attributes that reach a node\<close>

inductive attr_reach :: "cfl_graph \<Rightarrow> ReachabilitySet \<Rightarrow> inode \<Rightarrow> nat \<Rightarrow> bool" for G R where
  attr_own: "bit (node_attr G x) n \<Longrightarrow> attr_reach G R x n"
| attr_alias: "attr_reach G R x n \<Longrightarrow> y \<in> fst ` set (reachableValueAliases R x) \<Longrightarrow> attr_reach G R y n"
| attr_under: "attr_reach G R x n \<Longrightarrow> is_node G (below x) \<Longrightarrow> attr_reach G R (below x) n"

definition attr_bits :: "AliasAttrMap \<Rightarrow> (inode \<times> nat) set" where
  "attr_bits M = {(x, n). bit (getAttrs M x) n}"

definition of_word :: "inode \<Rightarrow> AliasAttrs \<Rightarrow> (inode \<times> nat) set" where
  "of_word x a = {(x, n) |n. bit a n}"

lemma in_of_word [simp]: "(y, n) \<in> of_word x a \<longleftrightarrow> y = x \<and> bit a n"
  by (auto simp: of_word_def)

lemma of_word_subset: "of_word x a \<subseteq> A \<longleftrightarrow> (\<forall>n. bit a n \<longrightarrow> (x, n) \<in> A)"
  by (auto simp: of_word_def)

lemma fst_of_word: "fst ` (of_word x a - A) = (if of_word x a \<subseteq> A then {} else {x})"
proof (cases "of_word x a \<subseteq> A")
  case False
  then obtain n where "(x, n) \<in> of_word x a - A" unfolding of_word_subset by auto
  then have "x \<in> fst ` (of_word x a - A)" by (rule image_eqI [rotated]) simp
  moreover have "fst ` (of_word x a - A) \<subseteq> {x}" by (auto simp: of_word_def)
  ultimately show ?thesis using False by auto
next
  case True
  then have "of_word x a - A = {}" by blast
  then show ?thesis using True by simp
qed

lemma attr_bits_Nil [simp]: "attr_bits [] = {}"
  by (auto simp: attr_bits_def getAttrs_def)

lemma attr_add_bits:
  "attr_bits (snd (attr_add v a M)) = attr_bits M \<union> of_word v a"
  "fst (attr_add v a M) \<longleftrightarrow> \<not> of_word v a \<subseteq> attr_bits M"
proof -
  have "getAttrs (snd (attr_add v a M)) x = (if x = v then getAttrs M v OR a else getAttrs M x)" for x
    by (simp add: attr_add_def getAttrs_def Let_def)
  then show "attr_bits (snd (attr_add v a M)) = attr_bits M \<union> of_word v a"
    by (auto simp: attr_bits_def of_word_def bit_or_iff split: if_splits)
  have "getAttrs M v = getAttrs M v OR a \<longleftrightarrow> (\<forall>n. bit a n \<longrightarrow> bit (getAttrs M v) n)" (is "?l \<longleftrightarrow> ?r")
  proof
    assume ?l
    then have "bit (getAttrs M v) n = bit (getAttrs M v OR a) n" for n by (rule arg_cong)
    then show ?r by (auto simp: bit_or_iff)
  next
    assume ?r
    then show ?l by (intro bit_word_eqI) (auto simp: bit_or_iff)
  qed
  then show "fst (attr_add v a M) \<longleftrightarrow> \<not> of_word v a \<subseteq> attr_bits M"
    by (auto simp: attr_add_def Let_def attr_bits_def of_word_def)
qed

text \<open>One batch of additions: which bits were added, and that every node that changed is pushed.\<close>

definition attr_step :: "(inode \<times> nat) set \<Rightarrow> attr_work \<Rightarrow> attr_work \<Rightarrow> bool" where
  "attr_step B w w' \<longleftrightarrow> attr_bits (fst w') = attr_bits (fst w) \<union> B
     \<and> set (snd w') = set (snd w) \<union> fst ` (attr_bits (fst w') - attr_bits (fst w))"

lemma attr_step_refl: "B \<subseteq> attr_bits (fst w) \<Longrightarrow> attr_step B w w"
  by (auto simp: attr_step_def)

lemma attr_step_trans: "attr_step B w w' \<Longrightarrow> attr_step C w' w'' \<Longrightarrow> attr_step (B \<union> C) w w''"
  unfolding attr_step_def by (auto simp: image_iff)

lemma attr_step_push: "attr_step (of_word v a) w (attr_push a v w)"
proof -
  obtain M W where w: "w = (M, W)" by (cases w)
  have "fst ` (of_word v a - attr_bits M) = (if fst (attr_add v a M) then {v} else {})"
    by (simp add: attr_add_bits(2) fst_of_word)
  then show ?thesis
    using attr_add_bits [of v a M]
    by (auto simp: attr_step_def attr_push_def w split_beta Let_def Un_Diff)
qed

lemma attr_step_fold: "attr_step (\<Union>v \<in> set vs. of_word v a) w (fold (attr_push a) vs w)"
proof (induction vs arbitrary: w)
  case (Cons v vs)
  then show ?case using attr_step_trans [OF attr_step_push Cons.IH [of "attr_push a v w"]] by simp
qed (simp add: attr_step_refl)

definition attr_set :: "cfl_graph \<Rightarrow> ReachabilitySet \<Rightarrow> (inode \<times> nat) set" where
  "attr_set G R = {(x, n). attr_reach G R x n}"

lemma attr_below_step:
  "\<exists>B. attr_step B w (attr_below G a dst w) \<and> (is_node G (below dst) \<longrightarrow> of_word (below dst) a \<subseteq> B)
     \<and> (of_word dst a \<subseteq> attr_set G R \<longrightarrow> B \<subseteq> attr_set G R)"
proof (induction G a dst w rule: attr_below.induct)
  case (1 G a dst w)
  have under: "of_word dst a \<subseteq> attr_set G R \<Longrightarrow> is_node G (below dst) \<Longrightarrow> of_word (below dst) a \<subseteq> attr_set G R"
    by (auto simp: of_word_subset attr_set_def intro: attr_under)
  show ?case
  proof (cases "is_node G (below dst)")
    case False
    then have "attr_below G a dst w = w" by (simp add: attr_below.simps [of G a dst] getNodeBelow_eq)
    then show ?thesis using False attr_step_refl [of "{}" w] by (intro exI [of _ "{}"]) simp
  next
    case node: True
    then have b: "getNodeBelow G dst = Some (below dst)" by (simp add: getNodeBelow_eq)
    show ?thesis
    proof (cases "fst (attr_add (below dst) a (fst w))")
      case True
      then have "attr_below G a dst w = attr_push a (below dst) w"
        using b by (simp add: attr_below.simps [of G a dst])
      then show ?thesis
        using attr_step_push [of "below dst" a w] under node by (intro exI [of _ "of_word (below dst) a"]) simp
    next
      case False
      let ?w = "(snd (attr_add (below dst) a (fst w)), snd w)"
      have old: "of_word (below dst) a \<subseteq> attr_bits (fst w)" using False by (simp add: attr_add_bits)
      then have w: "attr_step (of_word (below dst) a) w ?w"
        by (auto simp: attr_step_def attr_add_bits)
      obtain B where B: "attr_step B ?w (attr_below G a (below dst) ?w)"
        "of_word (below dst) a \<subseteq> attr_set G R \<longrightarrow> B \<subseteq> attr_set G R"
        using 1 [OF b False] by blast
      have "attr_below G a dst w = attr_below G a (below dst) ?w"
        using b False by (simp add: attr_below.simps [of G a dst])
      then show ?thesis
        using attr_step_trans [OF w B(1)] B(2) under node
        by (intro exI [of _ "of_word (below dst) a \<union> B"]) auto
    qed
  qed
qed

section \<open>The invariant\<close>

definition attr_closed :: "cfl_graph \<Rightarrow> ReachabilitySet \<Rightarrow> (inode \<times> nat) set \<Rightarrow> inode \<Rightarrow> bool" where
  "attr_closed G R A x = (\<forall>n. (x, n) \<in> A \<longrightarrow>
     (\<forall>y \<in> fst ` set (reachableValueAliases R x). (y, n) \<in> A) \<and> (is_node G (below x) \<longrightarrow> (below x, n) \<in> A))"

definition attr_inv :: "cfl_graph \<Rightarrow> ReachabilitySet \<Rightarrow> inode set \<Rightarrow> AliasAttrMap \<Rightarrow> bool" where
  "attr_inv G R P M = (attr_bits M \<subseteq> attr_set G R \<and> {(x, n). bit (node_attr G x) n} \<subseteq> attr_bits M
     \<and> (\<forall>x. x \<notin> P \<longrightarrow> attr_closed G R (attr_bits M) x))"

lemma attr_item_step:
  assumes "attr_bits (fst w) \<subseteq> attr_set G R"
  shows "\<exists>B. attr_step B w (attr_item G R x w) \<and> B \<subseteq> attr_set G R
    \<and> attr_closed G R (attr_bits (fst w) \<union> B) x \<or> x \<in> fst ` (B - attr_bits (fst w)) \<and> attr_step B w (attr_item G R x w) \<and> B \<subseteq> attr_set G R"
proof -
  define a where "a = getAttrs (fst w) x"
  have bits: "(x, n) \<in> attr_bits (fst w) \<longleftrightarrow> bit a n" for n by (simp add: attr_bits_def a_def)
  show ?thesis
  proof (cases "a = 0")
    case True
    then have "attr_item G R x w = w" by (simp add: attr_item_def a_def)
    moreover have "attr_closed G R (attr_bits (fst w) \<union> {}) x" using True bits by (simp add: attr_closed_def)
    ultimately show ?thesis using attr_step_refl [of "{}" w] by (intro exI [of _ "{}"]) auto
  next
    case False
    let ?vs = "map fst (reachableValueAliases R x)"
    let ?w = "fold (attr_push a) ?vs w"
    have item: "attr_item G R x w = attr_below G a x ?w"
      using False by (simp add: attr_item_def a_def Let_def)
    let ?A = "\<Union>v \<in> set ?vs. of_word v a"
    have own: "of_word x a \<subseteq> attr_set G R" using assms bits unfolding of_word_subset by blast
    then have A: "?A \<subseteq> attr_set G R"
    proof (intro UN_least)
      fix v assume "v \<in> set ?vs"
      then have "attr_reach G R v n" if "attr_reach G R x n" for n
        using attr_alias [OF that] by simp
      then show "of_word v a \<subseteq> attr_set G R" using own by (simp add: of_word_subset attr_set_def)
    qed
    obtain B where B: "attr_step B ?w (attr_item G R x w)" "is_node G (below x) \<longrightarrow> of_word (below x) a \<subseteq> B"
      "B \<subseteq> attr_set G R"
      using attr_below_step [of ?w G a x R] own item by auto
    have step: "attr_step (?A \<union> B) w (attr_item G R x w)"
      by (rule attr_step_trans [OF attr_step_fold B(1)])
    show ?thesis
    proof (cases "x \<in> fst ` (?A \<union> B - attr_bits (fst w))")
      case True
      then show ?thesis using step A B(3) by (intro exI [of _ "?A \<union> B"]) auto
    next
      case unchanged: False
      have "attr_closed G R (attr_bits (fst w) \<union> (?A \<union> B)) x"
        unfolding attr_closed_def
      proof (intro allI impI)
        fix n assume n: "(x, n) \<in> attr_bits (fst w) \<union> (?A \<union> B)"
        have "(x, n) \<in> attr_bits (fst w)"
        proof (rule ccontr)
          assume "(x, n) \<notin> attr_bits (fst w)"
          then have "(x, n) \<in> ?A \<union> B - attr_bits (fst w)" using n by blast
          then have "fst (x, n) \<in> fst ` (?A \<union> B - attr_bits (fst w))" by (rule imageI)
          then show False using unchanged by simp
        qed
        then have "bit a n" using bits by simp
        then show "(\<forall>y \<in> fst ` set (reachableValueAliases R x). (y, n) \<in> attr_bits (fst w) \<union> (?A \<union> B))
            \<and> (is_node G (below x) \<longrightarrow> (below x, n) \<in> attr_bits (fst w) \<union> (?A \<union> B))"
          using B(2) unfolding of_word_subset set_map by auto
      qed
      then show ?thesis using step A B(3) by (intro exI [of _ "?A \<union> B"]) auto
    qed
  qed
qed

lemma attr_closed_mono:
  "attr_closed G R A x \<Longrightarrow> A \<subseteq> A' \<Longrightarrow> x \<notin> fst ` (A' - A) \<Longrightarrow> attr_closed G R A' x"
proof -
  assume A: "attr_closed G R A x" "A \<subseteq> A'" and "x \<notin> fst ` (A' - A)"
  then have "(x, n) \<in> A" if "(x, n) \<in> A'" for n
    using that imageI [of "(x, n)" "A' - A" fst] by auto
  then show "attr_closed G R A' x" using A unfolding attr_closed_def by blast
qed

lemma attr_item_inv:
  assumes "attr_inv G R (insert x P \<union> set (snd w)) (fst w)"
  defines "w' \<equiv> attr_item G R x w"
  shows "attr_inv G R (P \<union> set (snd w')) (fst w')" "attr_bits (fst w) \<subseteq> attr_bits (fst w')"
    "set (snd w') = set (snd w) \<union> fst ` (attr_bits (fst w') - attr_bits (fst w))"
proof -
  have inv: "attr_bits (fst w) \<subseteq> attr_set G R" "{(x, n). bit (node_attr G x) n} \<subseteq> attr_bits (fst w)"
    "\<And>y. y \<notin> insert x P \<union> set (snd w) \<Longrightarrow> attr_closed G R (attr_bits (fst w)) y"
    using assms(1) by (auto simp: attr_inv_def)
  obtain B where step: "attr_step B w w'" and B: "B \<subseteq> attr_set G R"
    and x: "attr_closed G R (attr_bits (fst w) \<union> B) x \<or> x \<in> fst ` (B - attr_bits (fst w))"
    using attr_item_step [OF inv(1), of x] unfolding w'_def by blast
  have bits: "attr_bits (fst w') = attr_bits (fst w) \<union> B"
    and pushed: "set (snd w') = set (snd w) \<union> fst ` (attr_bits (fst w') - attr_bits (fst w))"
    using step by (simp_all add: attr_step_def)
  have diff: "attr_bits (fst w') - attr_bits (fst w) = B - attr_bits (fst w)" using bits by blast
  show "attr_bits (fst w) \<subseteq> attr_bits (fst w')" using bits by simp
  show "set (snd w') = set (snd w) \<union> fst ` (attr_bits (fst w') - attr_bits (fst w))" by (rule pushed)
  have "attr_closed G R (attr_bits (fst w')) y" if "y \<notin> P \<union> set (snd w')" for y
  proof (cases "y = x")
    case True
    then show ?thesis using x that pushed diff bits by auto
  next
    case False
    then have "attr_closed G R (attr_bits (fst w)) y" using that pushed inv(3) by blast
    then show ?thesis by (rule attr_closed_mono) (use that pushed bits in blast)+
  qed
  then show "attr_inv G R (P \<union> set (snd w')) (fst w')"
    unfolding attr_inv_def using inv(1,2) bits B by blast
qed

lemma attr_round:
  assumes "attr_inv G R (set xs \<union> set (snd w)) (fst w)"
  shows "attr_inv G R (set (snd (fold (attr_item G R) xs w))) (fst (fold (attr_item G R) xs w))
    \<and> attr_bits (fst w) \<subseteq> attr_bits (fst (fold (attr_item G R) xs w))
    \<and> set (snd (fold (attr_item G R) xs w)) = set (snd w)
        \<union> fst ` (attr_bits (fst (fold (attr_item G R) xs w)) - attr_bits (fst w))"
  using assms
proof (induction xs arbitrary: w)
  case (Cons x xs)
  let ?w = "attr_item G R x w" and ?v = "fold (attr_item G R) xs (attr_item G R x w)"
  have "attr_inv G R (insert x (set xs) \<union> set (snd w)) (fst w)" using Cons.prems by simp
  note item = attr_item_inv [OF this]
  note IH = Cons.IH [OF item(1)]
  have "attr_bits (fst ?v) - attr_bits (fst w)
      = (attr_bits (fst ?v) - attr_bits (fst ?w)) \<union> (attr_bits (fst ?w) - attr_bits (fst w))"
    using item(2) IH by blast
  then have "set (snd ?v) = set (snd w) \<union> fst ` (attr_bits (fst ?v) - attr_bits (fst w))"
    using IH item(3) by (simp add: image_Un Un_ac)
  then show ?case unfolding fold_simps using IH item(2) by blast
qed simp

definition max_attr_bits :: "cfl_graph \<Rightarrow> nat" where
  "max_attr_bits G = 32 * length (graph_nodes G)"

lemma attr_reach_node:
  assumes "\<And>x y. y \<in> fst ` set (reachableValueAliases R x) \<Longrightarrow> is_node G y"
  shows "attr_reach G R x n \<Longrightarrow> is_node G x \<and> n < 32"
proof (induction rule: attr_reach.induct)
  case (attr_own x n)
  then have "is_node G x" by (auto simp: node_attr_def is_node_def split: option.splits)
  then show ?case using bit_imp_le_length [OF attr_own] by simp
qed (use assms in auto)

lemma attr_set_card:
  assumes "distinct (map fst G)" "\<And>x y. y \<in> fst ` set (reachableValueAliases R x) \<Longrightarrow> is_node G y"
  shows "finite (attr_set G R)" "card (attr_set G R) \<le> max_attr_bits G"
proof -
  have sub: "attr_set G R \<subseteq> set (graph_nodes G) \<times> {..<32}"
    using attr_reach_node [OF assms(2)] graph_nodes_iff [OF assms(1)] by (auto simp: attr_set_def)
  then show "finite (attr_set G R)" by (rule finite_subset) simp
  have "card (attr_set G R) \<le> card (set (graph_nodes G)) * 32"
    using card_mono [OF _ sub] by (simp add: card_cartesian_product)
  also have "\<dots> \<le> length (graph_nodes G) * 32" by (intro mult_le_mono1 card_length)
  finally show "card (attr_set G R) \<le> max_attr_bits G" by (simp add: max_attr_bits_def)
qed

lemma attr_loop_ok:
  assumes fin: "finite (attr_set G R)" "card (attr_set G R) \<le> B"
    and "attr_inv G R (set (snd w)) (fst w)"
    and "n + card (attr_bits (fst w)) > B + (if snd w = [] then 0 else 1)" "n > 0"
  shows "\<exists>M. attr_loop G R n w = Done M \<and> attr_inv G R {} M"
  using assms(3-)
proof (induction n arbitrary: w)
  case (Suc n)
  show ?case
  proof (cases "snd w = []")
    case True
    then show ?thesis using Suc.prems by simp
  next
    case False
    let ?v = "fold (attr_item G R) (snd w) (fst w, [])"
    have "attr_inv G R (set (snd w) \<union> set (snd (fst w, []))) (fst (fst w, []))"
      using Suc.prems(1) by simp
    from attr_round [OF this] have v: "attr_inv G R (set (snd ?v)) (fst ?v)"
      "attr_bits (fst w) \<subseteq> attr_bits (fst ?v)" "set (snd ?v) = fst ` (attr_bits (fst ?v) - attr_bits (fst w))"
      by auto
    have sub: "attr_bits (fst ?v) \<subseteq> attr_set G R" using v(1) by (simp add: attr_inv_def)
    have finv: "finite (attr_bits (fst ?v))" by (rule finite_subset [OF sub fin(1)])
    have bound: "card (attr_bits (fst ?v)) \<le> B" using card_mono [OF fin(1) sub] fin(2) by simp
    have "card (attr_bits (fst w)) + (if snd ?v = [] then 0 else 1) \<le> card (attr_bits (fst ?v))"
    proof (cases "snd ?v = []")
      case True
      then show ?thesis using card_mono [OF finv v(2)] by simp
    next
      case nonempty: False
      then have "fst ` (attr_bits (fst ?v) - attr_bits (fst w)) \<noteq> {}" unfolding v(3) [symmetric] by simp
      then have "attr_bits (fst ?v) - attr_bits (fst w) \<noteq> {}" by blast
      then have "attr_bits (fst w) \<subset> attr_bits (fst ?v)" using v(2) by blast
      from psubset_card_mono [OF finv this] show ?thesis using nonempty by simp
    qed
    then have more: "n + card (attr_bits (fst ?v)) > B + (if snd ?v = [] then 0 else 1)"
      using Suc.prems(2) False by (auto split: if_splits)
    then have "n > 0" using bound by (cases n) (auto split: if_splits)
    from Suc.IH [OF v(1) more this] show ?thesis using False by simp
  qed
qed simp

lemma attr_init_bits:
  assumes "distinct (map fst G)"
  shows "attr_bits (fst (attr_init G)) = {(x, n). bit (node_attr G x) n}"
proof -
  have fold: "attr_bits (fold (\<lambda>x M. snd (attr_add x (f x) M)) xs M) = attr_bits M \<union> (\<Union>x \<in> set xs. of_word x (f x))"
    for f :: "inode \<Rightarrow> AliasAttrs" and xs M
    by (induction xs arbitrary: M) (auto simp: attr_add_bits)
  have "attr_bits (fst (attr_init G)) = (\<Union>x \<in> {x. is_node G x}. of_word x (n_attr (the (getNode G x))))"
    unfolding attr_init_def fst_conv fold using graph_nodes_iff [OF assms] by auto
  also have "\<dots> = {(x, n). bit (node_attr G x) n}"
    by (auto simp: is_node_def node_attr_def of_word_def split: option.splits)
  finally show ?thesis .
qed

lemma attr_closed_complete:
  assumes "attr_inv G R {} M"
  shows "attr_reach G R x n \<Longrightarrow> (x, n) \<in> attr_bits M"
proof (induction rule: attr_reach.induct)
  case (attr_alias x n y)
  then show ?case using assms unfolding attr_inv_def attr_closed_def by blast
next
  case (attr_under x n)
  then show ?case using assms unfolding attr_inv_def attr_closed_def by blast
qed (use assms in \<open>auto simp: attr_inv_def\<close>)

lemma buildAttrMap_exact:
  assumes "distinct (map fst G)" "\<And>x y. y \<in> fst ` set (reachableValueAliases R x) \<Longrightarrow> is_node G y"
    and "n \<ge> max_attr_bits G + 2"
  shows "\<exists>M. buildAttrMap G R n = Done M \<and> (\<forall>x k. bit (getAttrs M x) k \<longleftrightarrow> attr_reach G R x k)"
proof -
  let ?w = "attr_init G"
  have bits: "attr_bits (fst ?w) = {(x, n). bit (node_attr G x) n}" by (rule attr_init_bits [OF assms(1)])
  have "(x, k) \<notin> attr_bits (fst ?w)" if "x \<notin> set (snd ?w)" for x k
    using that graph_nodes_iff [OF assms(1), of x]
    unfolding bits by (auto simp: attr_init_def node_attr_def is_node_def split: option.splits)
  then have "attr_inv G R (set (snd ?w)) (fst ?w)"
    by (auto simp: attr_inv_def bits attr_set_def attr_closed_def intro: attr_own)
  note start = this
  have fin: "finite (attr_set G R)" "card (attr_set G R) \<le> max_attr_bits G"
    by (rule attr_set_card [OF assms(1)], erule assms(2))+
  have more: "n + card (attr_bits (fst ?w)) > max_attr_bits G + (if snd ?w = [] then 0 else 1)"
    using assms(3) by simp
  have "n > 0" using assms(3) by simp
  from attr_loop_ok [OF fin start more this]
  obtain M where M: "buildAttrMap G R n = Done M" "attr_inv G R {} M" by (auto simp: buildAttrMap_def)
  then have "attr_bits M = attr_set G R"
    using attr_closed_complete [OF M(2)] by (auto simp: attr_inv_def attr_set_def)
  then show ?thesis using M(1) by (auto simp: attr_bits_def attr_set_def set_eq_iff)
qed

end
