(* ===== verification/CFLSym.thy ===== *)
theory CFLSym
  imports CFLSolve
begin

text \<open>
  The symmetry of the computed relations. Value aliases are the ends of the paths whose words have
  no two memory aliases in a row and no reverse assignment after an assignment; that language is
  closed under factors and under reversal, so the relation on pairs is symmetric. The relation on
  pairs in a state is not.
\<close>

section \<open>Paths\<close>

datatype step_kind = StepAssign | StepRev | StepMem

fun opposite :: "step_kind \<Rightarrow> step_kind" where
  "opposite StepAssign = StepRev"
| "opposite StepRev = StepAssign"
| "opposite StepMem = StepMem"

definition path_step :: "cfl_graph \<Rightarrow> (inode \<times> inode) set \<Rightarrow> step_kind \<Rightarrow> inode \<Rightarrow> inode \<Rightarrow> bool" where
  "path_step G M k x y = (case k of StepAssign \<Rightarrow> edge G x y | StepRev \<Rightarrow> rev_edge G x y
     | StepMem \<Rightarrow> (x, y) \<in> M)"

fun path :: "cfl_graph \<Rightarrow> (inode \<times> inode) set \<Rightarrow> inode \<Rightarrow> step_kind list \<Rightarrow> inode \<Rightarrow> bool" where
  "path G M x [] y = (x = y)"
| "path G M x (k # ks) y = (\<exists>z. path_step G M k x z \<and> path G M z ks y)"

definition alias_word :: "step_kind list \<Rightarrow> bool" where
  "alias_word w = (successively (\<lambda>x y. \<not> (x = StepMem \<and> y = StepMem)) w
     \<and> sorted_wrt (\<lambda>x y. \<not> (x = StepAssign \<and> y = StepRev)) w)"

lemma opposite_simps [simp]:
  "opposite k = StepMem \<longleftrightarrow> k = StepMem" "opposite k = StepAssign \<longleftrightarrow> k = StepRev"
  "opposite k = StepRev \<longleftrightarrow> k = StepAssign"
  by (cases k; simp)+

lemma path_append: "path G M x (v @ w) y \<longleftrightarrow> (\<exists>z. path G M x v z \<and> path G M z w y)"
  by (induction v arbitrary: x) auto

lemma path_snoc: "path G M x (w @ [k]) y \<longleftrightarrow> (\<exists>z. path G M x w z \<and> path_step G M k z y)"
  by (simp add: path_append)

lemma path_reverse:
  assumes "\<And>x y. edge G x y = rev_edge G y x" "sym M"
  shows "path G M x w y \<Longrightarrow> path G M y (rev (map opposite w)) x"
proof (induction w arbitrary: x)
  case (Cons k w)
  then obtain z where "path_step G M k x z" "path G M y (rev (map opposite w)) z" by auto
  moreover from this(1) have "path_step G M (opposite k) z x"
    using assms by (cases k) (auto simp: path_step_def dest: symD)
  ultimately show ?case by (auto simp: path_append)
qed simp

lemma alias_word_reverse: "alias_word w \<Longrightarrow> alias_word (rev (map opposite w))"
  by (auto simp: alias_word_def successively_rev successively_map sorted_wrt_rev sorted_wrt_map
    conj_commute elim: successively_mono sorted_wrt_mono_rel [rotated])

lemma alias_word_snoc:
  "alias_word (w @ [k]) \<longleftrightarrow> alias_word w
     \<and> \<not> (k = StepMem \<and> w \<noteq> [] \<and> List.last w = StepMem) \<and> \<not> (k = StepRev \<and> StepAssign \<in> set w)"
  by (auto simp: alias_word_def successively_append_iff sorted_wrt_append)

section \<open>Value aliases are paths\<close>

definition forward :: "MatchState \<Rightarrow> bool" where
  "forward s = (\<not> rev_state s)"

definition after_mem :: "MatchState \<Rightarrow> bool" where
  "after_mem s = (mem_state s = None)"

lemma state_phases:
  "forward (assign_state s)" "\<not> after_mem (assign_state s)"
  "mem_state s = Some s' \<Longrightarrow> after_mem s' \<and> forward s' = forward s"
  by (cases s; auto simp: forward_def rev_state_def after_mem_def assign_state_def mem_state_def)+

lemmas phase_simps = forward_def rev_state_def after_mem_def mem_state_def

lemma path_VA:
  assumes wf: "wf_graph G"
  shows "path G M f w t \<Longrightarrow> alias_word w \<Longrightarrow> M \<subseteq> ma_pairs G \<Longrightarrow>
    f = t \<or> (\<exists>s. VA G f t s \<and> (forward s \<longrightarrow> StepAssign \<in> set w)
      \<and> (after_mem s \<longrightarrow> w \<noteq> [] \<and> List.last w = StepMem))"
proof (induction w arbitrary: t rule: rev_induct)
  case (snoc k w)
  then obtain u where u: "path G M f w u" and k: "path_step G M k u t" by (auto simp: path_snoc)
  have word: "alias_word w" and next_ok: "k = StepMem \<Longrightarrow> w = [] \<or> List.last w \<noteq> StepMem"
    "k = StepRev \<Longrightarrow> StepAssign \<notin> set w"
    using snoc.prems(2) by (auto simp: alias_word_snoc)
  show ?case
  proof (cases "f = t")
    case False
    from snoc.IH [OF u word snoc.prems(3)] show ?thesis
    proof
      assume "f = u"
      show ?thesis
      proof (cases k)
        case StepAssign
        then have "VA G f t FlowToWriteOnly" using k False \<open>f = u\<close> by (auto simp: path_step_def intro: VA_edge_to)
        then show ?thesis using StepAssign by (auto simp: phase_simps)
      next
        case StepRev
        then have "VA G f t FlowFromReadOnly" using k False \<open>f = u\<close> wf_graphD(3) [OF wf, of t u]
          by (auto simp: path_step_def intro: VA_edge_from)
        then show ?thesis using StepRev by (intro disjI2 exI [of _ FlowFromReadOnly]) (simp add: phase_simps)
      next
        case StepMem
        then have "VA G f t FlowFromMemAliasNoReadWrite" using k False \<open>f = u\<close> snoc.prems(3)
          by (auto simp: path_step_def ma_pairs_def intro: VA_mem)
        then show ?thesis using StepMem
          by (intro disjI2 exI [of _ FlowFromMemAliasNoReadWrite]) (simp add: phase_simps)
      qed
    next
      assume "\<exists>s. VA G f u s \<and> (forward s \<longrightarrow> StepAssign \<in> set w)
        \<and> (after_mem s \<longrightarrow> w \<noteq> [] \<and> List.last w = StepMem)"
      then obtain s where s: "VA G f u s" "forward s \<Longrightarrow> StepAssign \<in> set w"
        "after_mem s \<Longrightarrow> w \<noteq> [] \<and> List.last w = StepMem" by blast
      show ?thesis
      proof (cases k)
        case StepAssign
        then have "VA G f t (assign_state s)" using k s(1) False by (auto simp: path_step_def intro: VA_assign)
        then show ?thesis using StepAssign state_phases(2) by auto
      next
        case StepRev
        then have "rev_state s" using s(2) next_ok(2) by (auto simp: forward_def)
        then have "VA G f t FlowFromReadOnly" using k StepRev s(1) False by (auto simp: path_step_def intro: VA_rev)
        then show ?thesis by (intro disjI2 exI [of _ FlowFromReadOnly]) (simp add: phase_simps)
      next
        case StepMem
        then obtain s' where s': "mem_state s = Some s'" using s(3) next_ok(1) by (auto simp: after_mem_def)
        have "(u, t) \<in> ma_pairs G" using k StepMem snoc.prems(3) by (auto simp: path_step_def)
        then have "VA G f t s'" using s(1) s' False by (auto simp: ma_pairs_def intro: VA_mem_ext)
        then show ?thesis using StepMem s(2) state_phases(3) [OF s'] by auto
      qed
    qed
  qed simp
qed simp

definition sym_ma :: "cfl_graph \<Rightarrow> (inode \<times> inode) set" where
  "sym_ma G = {(x, y). MA G x y \<and> MA G y x}"

lemma VA_proper: "VA G f t s \<Longrightarrow> f \<noteq> t" "MA G f' t' \<Longrightarrow> True"
  by (induction rule: VA_MA.inducts) simp_all

lemma reverse_VA:
  assumes wf: "wf_graph G" and w: "path G (sym_ma G) f w t" "alias_word w" "f \<noteq> t"
  shows "\<exists>s. VA G t f s"
proof -
  have "sym (sym_ma G)" "sym_ma G \<subseteq> ma_pairs G" by (auto simp: sym_ma_def sym_def ma_pairs_def)
  with path_reverse [OF wf_graphD(3) [OF wf] _ w(1)] path_VA [OF wf _ alias_word_reverse [OF w(2)]] w(3)
  show ?thesis by blast
qed

lemma VA_path:
  assumes wf: "wf_graph G"
  shows "VA G f t s \<Longrightarrow> \<exists>w. path G (sym_ma G) f w t \<and> alias_word w
      \<and> forward s = (StepAssign \<in> set w) \<and> after_mem s = (w \<noteq> [] \<and> List.last w = StepMem)"
    and "MA G f' t' \<Longrightarrow> MA G t' f'"
proof (induction rule: VA_MA.inducts)
  case (VA_edge_to x y)
  then show ?case
    by (intro exI [of _ "[StepAssign]"]) (auto simp: path_step_def alias_word_def phase_simps)
next
  case (VA_edge_from x y)
  then show ?case using wf_graphD(3) [OF wf, of x y]
    by (intro exI [of _ "[StepRev]"]) (auto simp: path_step_def alias_word_def phase_simps)
next
  case (VA_assign f t s u)
  then obtain w where "path G (sym_ma G) f w t" "alias_word w" by blast
  then show ?case using VA_assign state_phases
    by (intro exI [of _ "w @ [StepAssign]"]) (auto simp: path_snoc path_step_def alias_word_snoc)
next
  case (VA_rev f t s u)
  then obtain w where "path G (sym_ma G) f w t" "alias_word w" "StepAssign \<notin> set w"
    by (auto simp: forward_def)
  then show ?case using VA_rev
    by (intro exI [of _ "w @ [StepRev]"]) (auto simp: path_snoc path_step_def alias_word_snoc phase_simps)
next
  case (MA_below f t s)
  then obtain w where w: "path G (sym_ma G) f w t" "alias_word w" by blast
  have "\<exists>s. VA G t f s" by (rule reverse_VA [OF wf w VA_proper(1) [OF MA_below(1)]])
  then show ?case using MA_below by (auto intro: VA_MA.MA_below)
next
  case (VA_mem f t)
  then show ?case
    by (intro exI [of _ "[StepMem]"]) (auto simp: path_step_def alias_word_def phase_simps sym_ma_def)
next
  case (VA_mem_ext f t s u s')
  then obtain w where "path G (sym_ma G) f w t" "alias_word w" "forward s = (StepAssign \<in> set w)"
    "\<not> (w \<noteq> [] \<and> List.last w = StepMem)" by (auto simp: after_mem_def)
  then show ?case using VA_mem_ext state_phases(3) [OF \<open>mem_state s = Some s'\<close>]
    by (intro exI [of _ "w @ [StepMem]"]) (auto simp: path_snoc path_step_def alias_word_snoc sym_ma_def)
qed

lemma VA_pair_symmetric:
  assumes "wf_graph G" "VA G f t s"
  shows "\<exists>s'. VA G t f s'"
proof -
  obtain w where w: "path G (sym_ma G) f w t" "alias_word w" using VA_path(1) [OF assms] by blast
  then show ?thesis by (rule reverse_VA [OF assms(1) _ _ VA_proper(1) [OF assms(2)]])
qed

end
