(* ===== verification/CFLAnders.thy ===== *)
theory CFLAnders
  imports CFLAttr CFLSym MemLocation
begin

text \<open>
  The inclusion-based alias analysis itself (\<^verbatim>\<open>lib/Analysis/CFLAndersAliasAnalysis.cpp\<close>): what is kept
  of the relations of a function, its summary for callers, the cache of functions, and the queries.
\<close>

section \<open>The information kept for a function\<close>

type_synonym OffsetValue = "vid \<times> cfl_offset"

record FunctionInfo =
  AliasMap :: "(vid \<times> OffsetValue list) list"
  AttrMap :: "(vid \<times> AliasAttrs) list"
  Summary :: AliasSummary

definition getInterfaceValue :: "ir_module \<Rightarrow> inode \<Rightarrow> vid list \<Rightarrow> InterfaceValue option" where
  "getInterfaceValue M iv rets = (case vkind (mval M (fst iv)) of
       KArgument n \<Rightarrow> Some (IfaceValue (n + 1) (snd iv))
     | _ \<Rightarrow> if fst iv \<in> set rets then Some (IfaceValue 0 (snd iv)) else None)"

definition value_attrs :: "(vid \<times> AliasAttrs) list \<Rightarrow> vid \<Rightarrow> AliasAttrs" where
  "value_attrs T v = (case map_of T v of None \<Rightarrow> getAttrNone | Some a \<Rightarrow> a)"

definition populateAttrMap :: "AliasAttrMap \<Rightarrow> (vid \<times> AliasAttrs) list" where
  "populateAttrMap A = fold (\<lambda>(iv, a) T. alist_put (fst iv)
     (if snd iv = 0 then value_attrs T (fst iv) OR a else value_attrs T (fst iv)) T) A []"

text \<open>Values are compared by their addresses.\<close>

definition offset_key :: "ir_module \<Rightarrow> OffsetValue \<Rightarrow> 64 word \<times> int" where
  "offset_key M = (\<lambda>(v, off). (vaddr (mval M v), sint off))"

definition alias_list :: "(vid \<times> OffsetValue list) list \<Rightarrow> vid \<Rightarrow> OffsetValue list" where
  "alias_list T v = (case map_of T v of None \<Rightarrow> [] | Some l \<Rightarrow> l)"

definition populateAliasMap :: "ir_module \<Rightarrow> ReachabilitySet \<Rightarrow> (vid \<times> OffsetValue list) list" where
  "populateAliasMap M R = fold (\<lambda>(t, inner) T.
     if snd t > 0 then T
     else alist_put (fst t) (sort_key (offset_key M) (alias_list T (fst t) @
       map (\<lambda>(f, _). (fst f, UnknownOffset)) (filter (\<lambda>(f, _). snd f = 0) inner))) T) R []"

section \<open>The summary\<close>

type_synonym summary_record = "InterfaceValue \<times> nat"

record ValueSummary =
  FromRecords :: "summary_record list"
  ToRecords :: "summary_record list"

type_synonym relation_work = "ExternalRelation list \<times> (vid \<times> ValueSummary) list"

definition returned_arguments :: "ir_module \<Rightarrow> vid \<Rightarrow> vid list \<Rightarrow> ExternalRelation list" where
  "returned_arguments M F rets = concat (map (\<lambda>arg.
     (case vkind (mval M arg) of
        KArgument n \<Rightarrow> if arg \<in> set rets then [ExtRel (IfaceValue (n + 1) 0) (IfaceValue 0 0) 0] else []
      | _ \<Rightarrow> [])) (fargs (mfun M F)))"

definition value_summary :: "(vid \<times> ValueSummary) list \<Rightarrow> vid \<Rightarrow> ValueSummary" where
  "value_summary T v = (case map_of T v of None \<Rightarrow> \<lparr>FromRecords = [], ToRecords = []\<rparr> | Some s \<Rightarrow> s)"

definition relate_pair :: "ir_module \<Rightarrow> vid list \<Rightarrow> InterfaceValue \<Rightarrow> inode \<times> StateSet \<Rightarrow> relation_work \<Rightarrow> relation_work" where
  "relate_pair M rets dst = (\<lambda>(srcv, S) (rels, T). case getInterfaceValue M srcv rets of
       Some src \<Rightarrow>
         if dst = src then (rels, T)
         else (if hasReadOnlyState S then rels @ [ExtRel dst src UnknownOffset] else rels, T)
     | None \<Rightarrow>
         let T1 = (if hasReadOnlyState S
                   then (let s = value_summary T (fst srcv) in
                     alist_put (fst srcv) (s\<lparr>FromRecords := FromRecords s @ [(dst, snd srcv)]\<rparr>) T) else T);
             T2 = (if hasWriteOnlyState S
                   then (let s = value_summary T1 (fst srcv) in
                     alist_put (fst srcv) (s\<lparr>ToRecords := ToRecords s @ [(dst, snd srcv)]\<rparr>) T1) else T1)
         in (rels, T2))"

definition relate_all :: "ir_module \<Rightarrow> vid list \<Rightarrow> ReachabilitySet \<Rightarrow> relation_work \<Rightarrow> relation_work" where
  "relate_all M rets = fold (\<lambda>(t, inner) w. case getInterfaceValue M t rets of
     None \<Rightarrow> w | Some dst \<Rightarrow> fold (relate_pair M rets dst) inner w)"

definition through_value :: "ValueSummary \<Rightarrow> ExternalRelation list" where
  "through_value s = concat (map (\<lambda>(fi, fl). concat (map (\<lambda>(ti, tl).
     if tl = fl then []
     else [ExtRel (IfaceValue (iv_index fi) (if tl > fl then iv_level fi + (tl - fl) else iv_level fi))
             (IfaceValue (iv_index ti) (if tl > fl then iv_level ti else iv_level ti + (fl - tl)))
             UnknownOffset]) (ToRecords s))) (FromRecords s))"

definition populateExternalRelations ::
  "ir_module \<Rightarrow> vid \<Rightarrow> vid list \<Rightarrow> ReachabilitySet \<Rightarrow> ExternalRelation list" where
  "populateExternalRelations M F rets R =
     (let (rels, T) = relate_all M rets R (returned_arguments M F rets, []) in
      remdups_adj (sort (rels @ concat (map (through_value \<circ> snd) T))))"

definition populateExternalAttributes :: "ir_module \<Rightarrow> vid list \<Rightarrow> AliasAttrMap \<Rightarrow> ExternalAttribute list" where
  "populateExternalAttributes M rets A = concat (map (\<lambda>(iv, a).
     (case getInterfaceValue M iv rets of
        None \<Rightarrow> []
      | Some v \<Rightarrow> let e = getExternallyVisibleAttrs a in if any_attr e then [ExtAttr v e] else [])) A)"

definition function_info :: "ir_module \<Rightarrow> vid \<Rightarrow> vid list \<Rightarrow> ReachabilitySet \<Rightarrow> AliasAttrMap \<Rightarrow> FunctionInfo" where
  "function_info M F rets R A = \<lparr>AliasMap = populateAliasMap M R, AttrMap = populateAttrMap A,
     Summary = \<lparr>RetParamRelations = populateExternalRelations M F rets R,
       RetParamAttributes = populateExternalAttributes M rets A\<rparr>\<rparr>"

section \<open>The alias query of a function\<close>

definition info_attrs :: "FunctionInfo \<Rightarrow> vid \<Rightarrow> AliasAttrs option" where
  "info_attrs I v = map_of (AttrMap I) v"

definition equal_range :: "ir_module \<Rightarrow> OffsetValue list \<Rightarrow> vid \<Rightarrow> OffsetValue list" where
  "equal_range M l v = takeWhile (\<lambda>x. \<not> vaddr (mval M v) < vaddr (mval M (fst x)))
     (dropWhile (\<lambda>x. vaddr (mval M (fst x)) < vaddr (mval M v)) l)"

text \<open>
  The overlap test over the offsets. A sum outside the signed range is undefined: \<open>None\<close>.
\<close>

fun offsets_overlap :: "OffsetValue list \<Rightarrow> 64 word \<Rightarrow> 64 word \<Rightarrow> bool option" where
  "offsets_overlap [] ls rs = Some False"
| "offsets_overlap ((_, off) # os) ls rs =
     (if off = UnknownOffset then Some True
      else if uint ls > 2 ^ 63 - 1 \<or> uint rs > 2 ^ 63 - 1 then Some True
      else let lstart = sint off; lend = sint off + uint ls in
        if lend \<ge> 2 ^ 63 then None
        else if lend > 0 \<and> lstart < uint rs then Some True
        else offsets_overlap os ls rs)"

definition mayAlias :: "ir_module \<Rightarrow> FunctionInfo \<Rightarrow> vid \<Rightarrow> LocationSize \<Rightarrow> vid \<Rightarrow> LocationSize \<Rightarrow> bool option" where
  "mayAlias M I l ls r rs =
     (case (info_attrs I l, info_attrs I r) of
        (Some a, Some b) \<Rightarrow>
          if hasUnknownOrCallerAttr a then Some (any_attr b)
          else if hasUnknownOrCallerAttr b then Some (any_attr a)
          else if isGlobalOrArgAttr a then Some (isGlobalOrArgAttr b)
          else if isGlobalOrArgAttr b then Some (isGlobalOrArgAttr a)
          else (case map_of (AliasMap I) l of
              None \<Rightarrow> Some False
            | Some os \<Rightarrow>
                let range = equal_range M os r in
                if range = [] then Some False
                else if ls = UnknownSize \<or> rs = UnknownSize then Some True
                else offsets_overlap range (getValue ls) (getValue rs))
      | _ \<Rightarrow> Some True)"

section \<open>The cache\<close>

record anders =
  anders_cache :: "(vid \<times> FunctionInfo option) list"
  anders_handles :: "vid list"

definition anders0 :: anders where
  "anders0 = \<lparr>anders_cache = [], anders_handles = []\<rparr>"

text \<open>
  \<open>cn\<close> bounds the nesting of constant expressions, \<open>n\<close> the nesting of scans; the two worklists run
  with a number of rounds that is always enough.
\<close>

type_synonym ('a) anders_op = "(anders, 'a) smon"

definition lookup_in_build :: "(vid \<Rightarrow> AliasSummary option anders_op) \<Rightarrow> anders summary_lookup" where
  "lookup_in_build f F = (\<lambda>s. case f F (banalysis s) of
       Done (r, c) \<Rightarrow> Done (r, s\<lparr>banalysis := c\<rparr>) | Crash \<Rightarrow> Crash | OutOfFuel \<Rightarrow> OutOfFuel)"

definition solve_graph :: "ir_module \<Rightarrow> vid \<Rightarrow> vid list \<Rightarrow> cfl_graph \<Rightarrow> FunctionInfo outcome" where
  "solve_graph M F rets G = (case reach_solve G (max_items G + 2) of
       Done st \<Rightarrow> (case buildAttrMap G (reach st) (max_attr_bits G + 2) of
           Done A \<Rightarrow> Done (function_info M F rets (reach st) A)
         | Crash \<Rightarrow> Crash | OutOfFuel \<Rightarrow> OutOfFuel)
     | Crash \<Rightarrow> Crash | OutOfFuel \<Rightarrow> OutOfFuel)"

definition buildInfoFrom ::
  "cfl_env \<Rightarrow> nat \<Rightarrow> (vid \<Rightarrow> AliasSummary option anders_op) \<Rightarrow> vid \<Rightarrow> FunctionInfo anders_op" where
  "buildInfoFrom E cn summary F = (\<lambda>c.
     case buildGraphFrom E cn (lookup_in_build summary) F \<lparr>bgraph = [], brets = [], banalysis = c\<rparr> of
       Done (_, b) \<Rightarrow> (case solve_graph (cmod E) F (brets b) (bgraph b) of
           Done I \<Rightarrow> Done (I, banalysis b) | Crash \<Rightarrow> Crash | OutOfFuel \<Rightarrow> OutOfFuel)
     | Crash \<Rightarrow> Crash | OutOfFuel \<Rightarrow> OutOfFuel)"

definition cache_put :: "vid \<Rightarrow> FunctionInfo option \<Rightarrow> anders \<Rightarrow> anders" where
  "cache_put F I c = c\<lparr>anders_cache := alist_put F I (anders_cache c)\<rparr>"

definition anders_scan ::
  "cfl_env \<Rightarrow> nat \<Rightarrow> (vid \<Rightarrow> AliasSummary option anders_op) \<Rightarrow> vid \<Rightarrow> unit anders_op" where
  "anders_scan E cn summary F =
     sbind sget (\<lambda>c. if map_of (anders_cache c) F \<noteq> None then scrash
       else sbind (smodify (cache_put F None)) (\<lambda>_.
         sbind (buildInfoFrom E cn summary F) (\<lambda>I.
           smodify (\<lambda>c. (cache_put F (Some I) c)\<lparr>anders_handles := F # anders_handles c\<rparr>))))"

fun ensureCached :: "cfl_env \<Rightarrow> nat \<Rightarrow> nat \<Rightarrow> vid \<Rightarrow> FunctionInfo option anders_op" where
  "ensureCached E cn 0 F = (\<lambda>c. OutOfFuel)"
| "ensureCached E cn (Suc n) F =
     sbind sget (\<lambda>c. case map_of (anders_cache c) F of
       Some I \<Rightarrow> sret I
     | None \<Rightarrow> sbind (anders_scan E cn
           (\<lambda>f. sbind (ensureCached E cn n f) (\<lambda>I. sret (map_option Summary I))) F)
         (\<lambda>_. sbind sget (\<lambda>c. case map_of (anders_cache c) F of
            Some (Some I) \<Rightarrow> sret (Some I) | _ \<Rightarrow> scrash)))"

declare ensureCached.simps(2) [simp del]

definition getAliasSummary :: "cfl_env \<Rightarrow> nat \<Rightarrow> nat \<Rightarrow> vid \<Rightarrow> AliasSummary option anders_op" where
  "getAliasSummary E cn n F = sbind (ensureCached E cn n F) (\<lambda>I. sret (map_option Summary I))"

definition anders_evict :: "vid \<Rightarrow> anders \<Rightarrow> anders" where
  "anders_evict F c = c\<lparr>anders_cache := filter (\<lambda>(f, _). f \<noteq> F) (anders_cache c)\<rparr>"

text \<open>What the handle of a function does when the function is deleted or replaced.\<close>

definition removeSelfFromCache :: "vid \<Rightarrow> anders \<Rightarrow> anders" where
  "removeSelfFromCache F c = (anders_evict F c)\<lparr>anders_handles := remove1 F (anders_handles c)\<rparr>"

section \<open>Queries\<close>

definition parentFunctionOfValue :: "cfl_env \<Rightarrow> vid \<Rightarrow> vid option" where
  "parentFunctionOfValue E v =
     (if is_inst (cmod E) v \<or> is_argument (cmod E) v then Some (xparent (cx E) v) else None)"

definition query_in :: "cfl_env \<Rightarrow> nat \<Rightarrow> nat \<Rightarrow> vid \<Rightarrow> (vid \<times> LocationSize) \<Rightarrow> (vid \<times> LocationSize) \<Rightarrow> AliasResult anders_op" where
  "query_in E cn n F a b = sbind (ensureCached E cn n F) (\<lambda>I. case I of
       None \<Rightarrow> scrash
     | Some I \<Rightarrow> (case mayAlias (cmod E) I (fst a) (snd a) (fst b) (snd b) of
           None \<Rightarrow> scrash | Some r \<Rightarrow> sret (if r then MayAlias else NoAlias)))"

definition anders_query :: "cfl_env \<Rightarrow> nat \<Rightarrow> nat \<Rightarrow> (vid \<times> LocationSize) \<Rightarrow> (vid \<times> LocationSize) \<Rightarrow> AliasResult anders_op" where
  "anders_query E cn n a b =
     (if \<not> has_pointer_type E (fst a) \<or> \<not> has_pointer_type E (fst b) then sret NoAlias
      else case parentFunctionOfValue E (fst a) of
          None \<Rightarrow> (case parentFunctionOfValue E (fst b) of
              None \<Rightarrow> sret MayAlias | Some F \<Rightarrow> query_in E cn n F a b)
        | Some F \<Rightarrow>
            if parentFunctionOfValue E (fst b) \<in> {None, Some F} then query_in E cn n F a b else scrash)"

text \<open>A null pointer that is not compared with another null pointer is dereferenced.\<close>

definition anders_alias :: "cfl_env \<Rightarrow> nat \<Rightarrow> nat \<Rightarrow> memloc \<Rightarrow> memloc \<Rightarrow> AliasResult anders_op" where
  "anders_alias E cn n a b =
     (if lptr a = lptr b then sret MustAlias
      else case (lptr a, lptr b) of
          (Some p, Some q) \<Rightarrow>
            if is_constant (cmod E) p \<and> is_constant (cmod E) q then sret MayAlias
            else sbind (anders_query E cn n (p, lsize a) (q, lsize b))
              (\<lambda>r. if r = MayAlias then sret MayAlias else sret r)
        | _ \<Rightarrow> scrash)"

end
