(* ===== verification/CFLQuery.thy ===== *)
theory CFLQuery
  imports CFLAnders
begin

text \<open>
  What the queries answer. The information kept for a function is related to the exact relations of
  its graph, which gives the alias query in closed form; the cache only ever holds such information.
\<close>

section \<open>The kept maps\<close>

lemma getAttrs_add_other: "getAttrs (snd (attr_add v a M)) x = (if x = v then getAttrs M v OR a else getAttrs M x)"
  by (simp add: attr_add_def getAttrs_def Let_def)

lemma distinct_attr_add: "distinct (map fst M) \<Longrightarrow> distinct (map fst (snd (attr_add v a M)))"
  by (simp add: attr_add_def Let_def)

lemma distinct_attr_push: "distinct (map fst (fst w)) \<Longrightarrow> distinct (map fst (fst (attr_push a v w)))"
  using distinct_attr_add [of "fst w" v a] by (simp add: attr_push_def split_beta)

lemma distinct_attr_pushes:
  "distinct (map fst (fst w)) \<Longrightarrow> distinct (map fst (fst (fold (attr_push a) vs w)))"
  by (induction vs arbitrary: w) (simp_all add: distinct_attr_push)

lemma distinct_attr_below: "distinct (map fst (fst w)) \<Longrightarrow> distinct (map fst (fst (attr_below G a dst w)))"
proof (induction G a dst w rule: attr_below.induct)
  case (1 G a dst w)
  then show ?case
    by (subst attr_below.simps) (auto simp: distinct_attr_push distinct_attr_add split: option.splits)
qed

lemma distinct_attr_items:
  "distinct (map fst (fst w)) \<Longrightarrow> distinct (map fst (fst (fold (attr_item G R) xs w)))"
proof (induction xs arbitrary: w)
  case (Cons x xs)
  have "distinct (map fst (fst (attr_item G R x w)))"
    using Cons.prems by (simp add: attr_item_def Let_def distinct_attr_below distinct_attr_pushes)
  then show ?case using Cons.IH by simp
qed simp

lemma distinct_attr_loop:
  "attr_loop G R n w = Done M \<Longrightarrow> distinct (map fst (fst w)) \<Longrightarrow> distinct (map fst M)"
proof (induction n arbitrary: w)
  case (Suc n)
  then show ?case using distinct_attr_items [of "(fst w, [])"] by (auto split: if_splits)
qed simp

lemma distinct_buildAttrMap: "buildAttrMap G R n = Done M \<Longrightarrow> distinct (map fst M)"
proof -
  have "distinct (map fst (fold (\<lambda>x M. snd (attr_add x (f x) M)) xs M))" if "distinct (map fst M)"
    for f :: "inode \<Rightarrow> AliasAttrs" and xs M
    using that by (induction xs arbitrary: M) (simp_all add: distinct_attr_add)
  then have "distinct (map fst (fst (attr_init G)))" by (simp add: attr_init_def)
  then show "buildAttrMap G R n = Done M \<Longrightarrow> distinct (map fst M)"
    unfolding buildAttrMap_def by (rule distinct_attr_loop [rotated])
qed

lemma value_attrs_put: "value_attrs (alist_put v a T) w = (if w = v then a else value_attrs T w)"
  by (simp add: value_attrs_def)

lemma populate_attrs:
  assumes "distinct (map fst A)"
  shows "value_attrs (fold (\<lambda>(iv, a) T. alist_put (fst iv)
      (if snd iv = 0 then value_attrs T (fst iv) OR a else value_attrs T (fst iv)) T) A T) v
    = value_attrs T v OR getAttrs A (v, 0)"
  using assms
proof (induction A arbitrary: T)
  case (Cons p A)
  obtain w l a where p: "p = ((w, l), a)" by (metis prod.exhaust)
  have "getAttrs A (v, 0) = 0" if "w = v" "l = 0"
    using Cons.prems that unfolding p
    by (auto simp: getAttrs_def getAttrNone_def map_of_eq_None_iff [THEN iffD2] split: option.splits
      dest: map_of_SomeD)
  moreover have "getAttrs (p # A) (v, 0) = (if w = v \<and> l = 0 then a else getAttrs A (v, 0))"
    by (auto simp: p getAttrs_def)
  ultimately show ?case using Cons by (auto simp: p value_attrs_put or.assoc)
qed (simp add: getAttrs_def getAttrNone_def)

lemma info_attrs_eq:
  assumes "distinct (map fst A)" "info_attrs (function_info M F rets R A) v = Some a"
  shows "a = getAttrs A (v, 0)"
proof -
  have "value_attrs (populateAttrMap A) v = getAttrs A (v, 0)"
    using populate_attrs [OF assms(1), of "[]"] by (simp add: populateAttrMap_def value_attrs_def getAttrNone_def)
  then show ?thesis using assms(2) by (simp add: info_attrs_def function_info_def value_attrs_def)
qed

definition level0_list :: "(inode \<times> StateSet) list \<Rightarrow> OffsetValue list" where
  "level0_list inner = map (\<lambda>(f, _). (fst f, UnknownOffset)) (filter (\<lambda>(f, _). snd f = 0) inner)"

lemma alias_list_put: "alias_list (alist_put v l T) w = (if w = v then l else alias_list T w)"
  by (simp add: alias_list_def)

lemma set_populate_aliases:
  fixes R :: ReachabilitySet
  shows "set (alias_list (fold (\<lambda>(t, inner) T. if snd t > 0 then T
      else alist_put (fst t) (sort_key (offset_key M) (alias_list T (fst t) @ level0_list inner)) T) R T) v)
   = set (alias_list T v) \<union> (\<Union>(t, inner) \<in> set R. if t = (v, 0) then set (level0_list inner) else {})"
proof (induction R arbitrary: T)
  case (Cons p R)
  obtain w l inner where p: "p = ((w, l), inner)" by (metis prod.exhaust)
  show ?case using Cons by (auto simp: p alias_list_put)
qed simp

lemma sorted_populate_aliases:
  fixes R :: ReachabilitySet
  assumes "\<And>v. sorted (map (offset_key M) (alias_list T v))"
  shows "sorted (map (offset_key M) (alias_list (fold (\<lambda>(t, inner) T. if snd t > 0 then T
      else alist_put (fst t) (sort_key (offset_key M) (alias_list T (fst t) @ level0_list inner)) T) R T) v))"
  using assms
proof (induction R arbitrary: T)
  case (Cons p R)
  obtain w l inner where p: "p = ((w, l), inner)" by (metis prod.exhaust)
  show ?case using Cons by (auto simp: p alias_list_put)
qed simp

lemma populateAliasMap_eq:
  "populateAliasMap M R = fold (\<lambda>(t, inner) T. if snd t > 0 then T
      else alist_put (fst t) (sort_key (offset_key M) (alias_list T (fst t) @ level0_list inner)) T) R []"
  unfolding populateAliasMap_def level0_list_def by (rule refl)

lemma alias_list_iff:
  assumes "keys_distinct R"
  shows "(r, off) \<in> set (alias_list (populateAliasMap M R) l) \<longleftrightarrow>
    off = UnknownOffset \<and> (\<exists>s. ((r, 0), (l, 0), s) \<in> items R)"
proof -
  have "(t, inner) \<in> set R \<longleftrightarrow> map_of R t = Some inner" for t inner
    using assms by (simp add: keys_distinct_def)
  then have "(\<exists>inner. ((l, 0), inner) \<in> set R \<and> (r, 0) \<in> fst ` set inner) \<longleftrightarrow>
      (r, 0) \<in> fst ` set (reachableValueAliases R (l, 0))"
    by (cases "map_of R (l, 0)") (simp_all add: reachableValueAliases_def)
  moreover have "(r, off) \<in> set (level0_list inner) \<longleftrightarrow> off = UnknownOffset \<and> (r, 0) \<in> fst ` set inner" for inner
    by (auto simp: level0_list_def image_iff) force+
  moreover have "x \<in> (\<Union>(t, inner) \<in> set R. if t = u then f inner else {}) \<longleftrightarrow>
      (\<exists>inner. (u, inner) \<in> set R \<and> x \<in> f inner)" for x u and f :: "_ \<Rightarrow> OffsetValue set"
    unfolding UN_iff Bex_def split_paired_Ex by (simp add: if_distrib [of "\<lambda>S. x \<in> S"]) (cases u; auto)
  ultimately show ?thesis
    unfolding populateAliasMap_eq set_populate_aliases listed_items [OF assms, symmetric]
    by (auto simp: alias_list_def)
qed

lemma sorted_alias_list: "sorted (map (offset_key M) (alias_list (populateAliasMap M R) v))"
  unfolding populateAliasMap_eq by (rule sorted_populate_aliases) (simp add: alias_list_def)

text \<open>In a sorted list the range holds all entries with the address.\<close>

lemma sorted_range:
  assumes "sorted (map k l)" "x \<in> set l" "k x = (a :: 'k :: linorder)"
  shows "x \<in> set (takeWhile (\<lambda>y. \<not> a < k y) (dropWhile (\<lambda>y. k y < a) l))"
proof -
  have take: "sorted (map k l) \<Longrightarrow> x \<in> set l \<Longrightarrow> k x = a \<Longrightarrow> x \<in> set (takeWhile (\<lambda>y. \<not> a < k y) l)" for l
    by (induction l) (auto simp: not_less)
  show ?thesis using assms
  proof (induction l)
    case (Cons y l)
    then show ?case using take [of "y # l"] by (cases "k y < a") auto
  qed simp
qed

lemma equal_range_iff:
  assumes "sorted (map (offset_key M) l)"
  shows "p \<in> set (equal_range M l v) \<longleftrightarrow> p \<in> set l \<and> vaddr (mval M (fst p)) = vaddr (mval M v)"
proof -
  let ?a = "\<lambda>x :: OffsetValue. vaddr (mval M (fst x))"
  have key: "fst (offset_key M x) = ?a x" for x by (cases x) (simp add: offset_key_def)
  have sorted: "sorted (map ?a l)"
    using assms by (induction l) (auto simp: less_eq_prod_def simp flip: key intro: less_imp_le)
  have "p \<in> set l \<and> \<not> ?a p < vaddr (mval M v) \<and> \<not> vaddr (mval M v) < ?a p" if "p \<in> set (equal_range M l v)"
  proof -
    have p: "p \<in> set (dropWhile (\<lambda>x. ?a x < vaddr (mval M v)) l)" "\<not> vaddr (mval M v) < ?a p"
      using that set_takeWhileD unfolding equal_range_def by fastforce+
    moreover have "\<not> ?a y < c" if "y \<in> set (dropWhile (\<lambda>x. ?a x < c) l)" for y c
      using that sorted by (induction l) (auto split: if_splits)
    ultimately show ?thesis using set_dropWhileD by metis
  qed
  then show ?thesis using sorted_range [OF sorted, of p] by (auto simp: equal_range_def)
qed

section \<open>The query on genuine information\<close>

text \<open>
  What a scan leaves in the cache: the maps of some well-formed graph that holds the pointer flow of
  the function, computed from the exact relations of the graph.
\<close>

definition exact_state :: "cfl_graph \<Rightarrow> cfl_reach \<Rightarrow> AliasAttrMap \<Rightarrow> bool" where
  "exact_state G st A = (wf_graph G \<and> keys_distinct (reach st) \<and> items (reach st) = va_items G
     \<and> distinct (map fst A) \<and> (\<forall>x k. bit (getAttrs A x) k \<longleftrightarrow> attr_reach G (reach st) x k))"

definition has_flow :: "cfl_env \<Rightarrow> vid \<Rightarrow> cfl_graph \<Rightarrow> bool" where
  "has_flow E F G = (\<forall>i \<in> set (concat (fblocks (mfun (cmod E) F))). \<forall>op.
     vkind (mval (cmod E) i) = KInstruction op \<longrightarrow> (\<forall>(x, y) \<in> set (instr_flow E op i). edge G x y))"

definition good_info :: "cfl_env \<Rightarrow> vid \<Rightarrow> FunctionInfo \<Rightarrow> bool" where
  "good_info E F I = (\<exists>G rets st A. I = function_info (cmod E) F rets (reach st) A
     \<and> exact_state G st A \<and> has_flow E F G)"

lemma exact_alias:
  "exact_state G st A \<Longrightarrow> y \<in> fst ` set (reachableValueAliases (reach st) x) \<longleftrightarrow> (\<exists>s. VA G y x s)"
  by (simp add: exact_state_def listed_items va_items_def)

text \<open>Aliases have the same attributes.\<close>

lemma alias_same_attrs:
  assumes "exact_state G st A" "VA G x y s"
  shows "getAttrs A x = getAttrs A y"
proof (rule bit_word_eqI)
  fix k
  have wf: "wf_graph G" and attrs: "\<And>x k. bit (getAttrs A x) k \<longleftrightarrow> attr_reach G (reach st) x k"
    using assms(1) by (auto simp: exact_state_def)
  obtain s' where s': "VA G y x s'" using VA_pair_symmetric [OF wf assms(2)] by blast
  have "attr_reach G (reach st) u k \<Longrightarrow> attr_reach G (reach st) v k" if "VA G v u t" for u v t
    using attr_alias [of G "reach st" u k v] exact_alias [OF assms(1), of v u] that by blast
  from this [OF assms(2)] this [OF s'] show "bit (getAttrs A x) k = bit (getAttrs A y) k"
    unfolding attrs by blast
qed

lemma offsets_overlap_unknown:
  assumes "os \<noteq> []" "\<forall>q \<in> set os. snd q = UnknownOffset"
  shows "offsets_overlap os ls rs = Some True"
proof -
  obtain v qs where "os = (v, UnknownOffset) # qs" using assms by (cases os) auto
  then show ?thesis by simp
qed

text \<open>
  The query in closed form: the attributes decide if either pointer is unknown to the function or
  global; otherwise the value aliases do, and the sizes play no part.
\<close>

definition attrs_decide :: "AliasAttrs \<Rightarrow> AliasAttrs \<Rightarrow> bool option" where
  "attrs_decide a b =
     (if hasUnknownOrCallerAttr a then Some (b \<noteq> 0) else if hasUnknownOrCallerAttr b then Some (a \<noteq> 0)
      else if isGlobalOrArgAttr a \<or> isGlobalOrArgAttr b then Some (isGlobalOrArgAttr a \<and> isGlobalOrArgAttr b)
      else None)"

lemma mayAlias_form:
  assumes "exact_state G st A" and I: "I = function_info M F rets (reach st) A"
    and attrs: "info_attrs I l = Some a" "info_attrs I r = Some b"
  shows "mayAlias M I l ls r rs = Some (case attrs_decide (getAttrs A (l, 0)) (getAttrs A (r, 0)) of
      Some d \<Rightarrow> d
    | None \<Rightarrow> \<exists>q s. vaddr (mval M q) = vaddr (mval M r) \<and> VA G (q, 0) (l, 0) s)"
proof -
  have keys: "keys_distinct (reach st)" "distinct (map fst A)" using assms(1) by (auto simp: exact_state_def)
  have ab: "a = getAttrs A (l, 0)" "b = getAttrs A (r, 0)" using info_attrs_eq [OF keys(2)] attrs I by blast+
  let ?os = "alias_list (AliasMap I) l"
  have os: "p \<in> set ?os \<longleftrightarrow> snd p = UnknownOffset \<and> (\<exists>s. VA G (fst p, 0) (l, 0) s)" for p
    using alias_list_iff [OF keys(1), of "fst p" "snd p" M l] assms(1)
    by (simp add: I function_info_def exact_state_def va_items_def)
  have range: "p \<in> set (equal_range M ?os r) \<longleftrightarrow> p \<in> set ?os \<and> vaddr (mval M (fst p)) = vaddr (mval M r)" for p
    by (rule equal_range_iff) (simp add: I function_info_def sorted_alias_list)
  have "(case map_of (AliasMap I) l of None \<Rightarrow> Some False
      | Some os \<Rightarrow> let range = equal_range M os r in
          if range = [] then Some False
          else if ls = UnknownSize \<or> rs = UnknownSize then Some True
          else offsets_overlap range (getValue ls) (getValue rs))
    = Some (equal_range M ?os r \<noteq> [])"
  proof (cases "map_of (AliasMap I) l")
    case None
    then show ?thesis by (simp add: alias_list_def equal_range_def)
  next
    case (Some os)
    then have "?os = os" by (simp add: alias_list_def)
    moreover have "\<forall>q \<in> set (equal_range M ?os r). snd q = UnknownOffset" using range \<open>\<And>p. p \<in> set ?os \<longleftrightarrow> _\<close> by blast
    ultimately show ?thesis
      using Some offsets_overlap_unknown [of "equal_range M os r"] by (simp add: Let_def)
  qed
  also have "equal_range M ?os r \<noteq> [] \<longleftrightarrow> (\<exists>p. p \<in> set (equal_range M ?os r))"
    by (cases "equal_range M ?os r") auto
  also have "\<dots> \<longleftrightarrow> (\<exists>q s. vaddr (mval M q) = vaddr (mval M r) \<and> VA G (q, 0) (l, 0) s)"
    unfolding range os by auto
  finally show ?thesis
    using attrs by (simp add: mayAlias_def attrs_decide_def ab any_attr_def)
qed

lemma attrs_decide_same: "attrs_decide a a \<noteq> Some False"
  using bit_0_eq by (auto simp: attrs_decide_def hasUnknownOrCallerAttr_def)

lemma mayAlias_VA:
  assumes "exact_state G st A" "I = function_info M F rets (reach st) A" "VA G (l, 0) (r, 0) s"
  shows "mayAlias M I l ls r rs = Some True"
proof (cases "info_attrs I l = None \<or> info_attrs I r = None")
  case True
  then show ?thesis by (auto simp: mayAlias_def split: option.splits)
next
  case False
  then obtain a b where ab: "info_attrs I l = Some a" "info_attrs I r = Some b" by auto
  have same: "getAttrs A (l, 0) = getAttrs A (r, 0)" by (rule alias_same_attrs [OF assms(1,3)])
  have "wf_graph G" using assms(1) by (simp add: exact_state_def)
  then have "\<exists>s. VA G (r, 0) (l, 0) s" using VA_pair_symmetric assms(3) by blast
  then show ?thesis
    using mayAlias_form [OF assms(1,2) ab, of ls rs] attrs_decide_same [of "getAttrs A (r, 0)"]
    unfolding same by (auto split: option.splits)
qed

end
