(* ===== verification/CFLPointsTo.thy ===== *)
theory CFLPointsTo
  imports CFLQuery
begin

text \<open>
  The specification of an inclusion-based analysis: the points-to relation of a function, smallest
  under its assignments, loads and stores, with one summary cell per object. The value aliases of a
  graph that holds the flow of the function relate any two pointers that may point to one object.
\<close>

section \<open>Points-to relation\<close>

definition flows :: "cfl_env \<Rightarrow> vid \<Rightarrow> inode \<Rightarrow> inode \<Rightarrow> bool" where
  "flows E F x y = (\<exists>i op. i \<in> set (concat (fblocks (mfun (cmod E) F)))
     \<and> vkind (mval (cmod E) i) = KInstruction op \<and> (x, y) \<in> set (instr_flow E op i))"

text \<open>Every pointer has an object of its own: the one it points to when it is an allocation or an argument.\<close>

inductive points_to :: "cfl_env \<Rightarrow> vid \<Rightarrow> vid \<Rightarrow> vid \<Rightarrow> bool"
  and heap_holds :: "cfl_env \<Rightarrow> vid \<Rightarrow> vid \<Rightarrow> vid \<Rightarrow> bool" for E F where
  pt_own: "has_pointer_type E v \<Longrightarrow> points_to E F v v"
| pt_assign: "flows E F (x, 0) (y, 0) \<Longrightarrow> points_to E F x ob \<Longrightarrow> points_to E F y ob"
| pt_load: "flows E F (q, 1) (x, 0) \<Longrightarrow> points_to E F q a \<Longrightarrow> heap_holds E F a ob \<Longrightarrow> points_to E F x ob"
| pt_store: "flows E F (v, 0) (p, 1) \<Longrightarrow> points_to E F v ob \<Longrightarrow> points_to E F p a \<Longrightarrow> heap_holds E F a ob"

lemma instr_flow_pointers:
  "(x, y) \<in> set (instr_flow E op i) \<Longrightarrow> has_pointer_type E (fst x) \<and> has_pointer_type E (fst y)"
  by (auto simp: instr_flow_def Let_def assign_flow_def load_flow_def store_flow_def split: if_splits)

lemma points_to_pointer:
  "points_to E F x ob \<Longrightarrow> has_pointer_type E x" and "heap_holds E F a ob' \<Longrightarrow> True"
  by (induction rule: points_to_heap_holds.inducts)
    (auto simp: flows_def dest: instr_flow_pointers)

section \<open>Forward paths\<close>

definition forward_path :: "cfl_graph \<Rightarrow> vid \<Rightarrow> vid \<Rightarrow> bool" where
  "forward_path G ob x = (\<exists>w. path G (sym_ma G) (ob, 0) w (x, 0) \<and> alias_word w \<and> StepRev \<notin> set w
     \<and> (w = [] \<or> hd w \<noteq> StepMem \<and> List.last w \<noteq> StepMem))"

lemma forward_path_join:
  assumes "wf_graph G" "forward_path G ob x" "forward_path G ob y" "x \<noteq> y"
  shows "\<exists>s. VA G (x, 0) (y, 0) s"
proof -
  obtain v where v: "path G (sym_ma G) (ob, 0) v (x, 0)" "alias_word v" "StepRev \<notin> set v"
    "v = [] \<or> hd v \<noteq> StepMem" using assms(2) by (auto simp: forward_path_def)
  obtain w where w: "path G (sym_ma G) (ob, 0) w (y, 0)" "alias_word w" "StepRev \<notin> set w"
    using assms(3) by (auto simp: forward_path_def)
  let ?u = "rev (map opposite v) @ w"
  have backward: "path G (sym_ma G) (x, 0) (rev (map opposite v)) (ob, 0)"
    using path_reverse [OF wf_graphD(3) [OF assms(1)] _ v(1)] by (auto simp: sym_ma_def sym_def)
  then have "path G (sym_ma G) (x, 0) ?u (y, 0)" using w(1) by (auto simp: path_append)
  moreover have "StepAssign \<notin> set (rev (map opposite v))"
    using v(3) opposite_simps(2) by (metis (no_types, lifting) imageE set_map set_rev)
  then have "alias_word ?u"
    using alias_word_reverse [OF v(2)] w(2,3) v(4)
    by (auto simp: alias_word_def successively_append_iff sorted_wrt_append last_rev hd_map)
  moreover have "sym_ma G \<subseteq> ma_pairs G" by (auto simp: sym_ma_def ma_pairs_def)
  ultimately show ?thesis using path_VA [OF assms(1)] assms(4) by fastforce
qed

lemma forward_path_memory:
  assumes "wf_graph G" "forward_path G a p" "forward_path G a q" "is_node G (p, 1)" "is_node G (q, 1)" "p \<noteq> q"
  shows "((p, 1), (q, 1)) \<in> sym_ma G"
proof -
  obtain s s' where "VA G (p, 0) (q, 0) s" "VA G (q, 0) (p, 0) s'"
    using forward_path_join [OF assms(1)] assms(2,3,6) by metis
  then show ?thesis using assms(4,5) MA_below by (fastforce simp: sym_ma_def below_def)
qed

lemma forward_path_extend:
  assumes "path G (sym_ma G) (ob, 0) w (v, 0)" "alias_word w" "StepRev \<notin> set w"
    "w = [] \<or> hd w \<noteq> StepMem \<and> List.last w \<noteq> StepMem"
    and "path G (sym_ma G) (v, 0) ks (x, 0)" "ks \<in> {[StepAssign], [StepAssign, StepAssign], [StepAssign, StepMem, StepAssign]}"
  shows "forward_path G ob x"
proof -
  have "path G (sym_ma G) (ob, 0) (w @ ks) (x, 0)" using assms(1,5) by (auto simp: path_append)
  moreover have "alias_word (w @ ks)"
    using assms(2-4,6) by (auto simp: alias_word_def successively_append_iff sorted_wrt_append)
  moreover have "StepRev \<notin> set (w @ ks)" "hd (w @ ks) \<noteq> StepMem" "List.last (w @ ks) \<noteq> StepMem"
    using assms(3,4,6) by (cases w; auto)+
  ultimately show ?thesis unfolding forward_path_def by blast
qed

lemma points_to_forward:
  assumes wf: "wf_graph G" and flow: "\<And>x y. flows E F x y \<Longrightarrow> edge G x y"
  shows "points_to E F x ob \<Longrightarrow> forward_path G ob x"
    and "heap_holds E F a ob' \<Longrightarrow> \<exists>v p. forward_path G ob' v \<and> edge G (v, 0) (p, 1) \<and> forward_path G a p"
proof (induction rule: points_to_heap_holds.inducts)
  case (pt_own v)
  show ?case unfolding forward_path_def by (intro exI [of _ "[]"]) (simp add: alias_word_def)
next
  case (pt_assign x y ob)
  then obtain w where w: "path G (sym_ma G) (ob, 0) w (x, 0)" "alias_word w" "StepRev \<notin> set w"
    "w = [] \<or> hd w \<noteq> StepMem \<and> List.last w \<noteq> StepMem" by (auto simp: forward_path_def)
  show ?case
    by (rule forward_path_extend [OF w, of "[StepAssign]"]) (use flow [OF pt_assign(1)] in \<open>simp_all add: path_step_def\<close>)
next
  case (pt_load q x a ob)
  then obtain v p where vp: "forward_path G ob v" "edge G (v, 0) (p, 1)" "forward_path G a p" by blast
  then obtain w where w: "path G (sym_ma G) (ob, 0) w (v, 0)" "alias_word w" "StepRev \<notin> set w"
    "w = [] \<or> hd w \<noteq> StepMem \<and> List.last w \<noteq> StepMem" by (auto simp: forward_path_def)
  have load: "edge G (q, 1) (x, 0)" by (rule flow) fact
  show ?case
  proof (cases "p = q")
    case True
    then have "path G (sym_ma G) (v, 0) [StepAssign, StepAssign] (x, 0)"
      using vp(2) load by (auto simp: path_step_def)
    then show ?thesis by (rule forward_path_extend [OF w]) simp
  next
    case False
    have "is_node G (p, 1)" "is_node G (q, 1)"
      using wf_graphD(2) [OF wf vp(2)] edge_is_node(1) [OF load] .
    then have "((p, 1), (q, 1)) \<in> sym_ma G"
      using forward_path_memory [OF wf vp(3)] pt_load False by blast
    then have "path G (sym_ma G) (v, 0) [StepAssign, StepMem, StepAssign] (x, 0)"
      using vp(2) load by (auto simp: path_step_def)
    then show ?thesis by (rule forward_path_extend [OF w]) simp
  qed
next
  case (pt_store v p ob a)
  then show ?case using flow by blast
qed

lemma points_to_VA:
  assumes "wf_graph G" "\<And>x y. flows E F x y \<Longrightarrow> edge G x y"
    and "points_to E F x ob" "points_to E F y ob" "x \<noteq> y"
  shows "\<exists>s. VA G (x, 0) (y, 0) s"
  by (rule forward_path_join [OF assms(1) _ _ assms(5)]; rule points_to_forward(1) [OF assms(1,2)]) (fact | assumption)+

lemma good_info_alias:
  assumes "good_info E F I" "points_to E F l ob" "points_to E F r ob" "l \<noteq> r"
  shows "mayAlias (cmod E) I l ls r rs = Some True"
proof -
  obtain G rets st A where I: "I = function_info (cmod E) F rets (reach st) A"
    and st: "exact_state G st A" and flow: "has_flow E F G" using assms(1) by (auto simp: good_info_def)
  have "edge G x y" if "flows E F x y" for x y
    using flow that unfolding has_flow_def flows_def by blast
  moreover have "wf_graph G" using st by (simp add: exact_state_def)
  ultimately obtain s where "VA G (l, 0) (r, 0) s" using points_to_VA assms(2-4) by metis
  then show ?thesis by (rule mayAlias_VA [OF st I])
qed

end
