(* ===== verification/CFLCache.thy ===== *)
theory CFLCache
  imports CFLPointsTo
begin

text \<open>
  The cache of the analysis: a query scans the functions it needs once, leaves every earlier entry
  alone, completes every entry it begins, and only ever adds genuine information.
\<close>

section \<open>The invariant of the cache\<close>

definition cache_good :: "cfl_env \<Rightarrow> anders \<Rightarrow> bool" where
  "cache_good E c = (\<forall>F I. map_of (anders_cache c) F = Some (Some I) \<longrightarrow> good_info E F I)"

definition anders_le :: "cfl_env \<Rightarrow> anders \<Rightarrow> anders \<Rightarrow> bool" where
  "anders_le E c c' = ((cache_good E c \<longrightarrow> cache_good E c')
     \<and> (\<forall>F. map_of (anders_cache c) F \<noteq> None \<longrightarrow> map_of (anders_cache c') F = map_of (anders_cache c) F)
     \<and> (\<forall>F. map_of (anders_cache c) F = None \<longrightarrow> map_of (anders_cache c') F \<noteq> Some None))"

lemma anders_le_trans: "anders_le E c d \<Longrightarrow> anders_le E d e \<Longrightarrow> anders_le E c e"
  unfolding anders_le_def by metis

interpretation anders: state_frame "anders_le E" for E
proof
  show "anders_le E s s" for s by (simp add: anders_le_def)
  show "anders_le E s t \<Longrightarrow> anders_le E t u \<Longrightarrow> anders_le E s u" for s t u by (rule anders_le_trans)
qed

interpretation anders_build: build_frame "\<lambda>s t. anders_le E (banalysis s) (banalysis t)" for E
proof
  fix s t u :: "anders cfl_build"
  show "anders_le E (banalysis s) (banalysis s)" by (rule anders.frame_refl)
  show "anders_le E (banalysis s) (banalysis t) \<Longrightarrow> anders_le E (banalysis t) (banalysis u) \<Longrightarrow>
      anders_le E (banalysis s) (banalysis u)" by (rule anders.frame_trans)
qed (simp_all add: anders.frame_refl)

lemma lookup_frames:
  "spres build_le (lookup_in_build f F)"
  "spres (anders_le E) (f F) \<Longrightarrow> spres (\<lambda>s t. anders_le E (banalysis s) (banalysis t)) (lookup_in_build f F)"
  by (auto simp: spres_def sholds_def lookup_in_build_def build_le_def graph_le_def split: outcome.splits)

section \<open>A scan\<close>

lemma solve_graph_good:
  assumes "wf_graph G"
  shows "\<exists>st A. solve_graph M F rets G = Done (function_info M F rets (reach st) A) \<and> exact_state G st A"
proof -
  obtain st where st: "reach_solve G (max_items G + 2) = Done st" "keys_distinct (reach st)"
    "items (reach st) = va_items G" using reach_solve_exact [OF assms order_refl] by blast
  have node: "is_node G y" if "y \<in> fst ` set (reachableValueAliases (reach st) x)" for x y
  proof -
    obtain s where "VA G y x s" using \<open>y \<in> _\<close> unfolding listed_items [OF st(2)] st(3) va_items_def by blast
    then show ?thesis by (rule VA_is_node_from(1) [OF assms])
  qed
  obtain A where A: "buildAttrMap G (reach st) (max_attr_bits G + 2) = Done A"
    "\<forall>x k. bit (getAttrs A x) k \<longleftrightarrow> attr_reach G (reach st) x k"
    using buildAttrMap_exact [OF wf_graphD(1) [OF assms] _ order_refl, of "reach st"] node by blast
  have "exact_state G st A"
    using assms st A distinct_buildAttrMap [OF A(1)] by (simp add: exact_state_def)
  then show ?thesis using st(1) A(1) by (auto simp: solve_graph_def)
qed

lemma wf_graph_Nil [simp]: "wf_graph []"
  by (simp add: wf_graph_def graph_nodes_def)

lemma buildInfoFrom_good:
  assumes "buildInfoFrom E cn summary F c = Done (I, c')"
  shows "good_info E F I"
proof -
  obtain u b where b: "buildGraphFrom E cn (lookup_in_build summary) F \<lparr>bgraph = [], brets = [], banalysis = c\<rparr> = Done (u, b)"
    and I: "solve_graph (cmod E) F (brets b) (bgraph b) = Done I"
    using assms by (auto simp: buildInfoFrom_def split: outcome.splits)
  have frame: "spres build_le (lookup_in_build summary f)" for f by (rule lookup_frames(1))
  have "build_le \<lparr>bgraph = [], brets = [], banalysis = c\<rparr> b"
    using spresD [OF build.spres_buildGraphFrom [OF frame] b] .
  then have wf: "wf_graph (bgraph b)" by (simp add: build_le_def graph_le_def)
  have "has_flow E F (bgraph b)"
    using build_has_flow [OF frame] b unfolding has_flow_def by fastforce
  then show ?thesis
    using solve_graph_good [OF wf, of "cmod E" F "brets b"] I unfolding good_info_def by fastforce
qed

lemma buildInfoFrom_frame:
  assumes "\<And>f. spres (anders_le E) (summary f)"
  shows "spres (anders_le E) (buildInfoFrom E cn summary F)"
proof (rule spresI)
  fix c I c'
  assume "buildInfoFrom E cn summary F c = Done (I, c')"
  then obtain u b where b: "buildGraphFrom E cn (lookup_in_build summary) F \<lparr>bgraph = [], brets = [], banalysis = c\<rparr> = Done (u, b)"
    and c': "c' = banalysis b"
    by (auto simp: buildInfoFrom_def split: outcome.splits)
  show "anders_le E c c'"
    using spresD [OF anders_build.spres_buildGraphFrom [OF lookup_frames(2) [OF assms]] b] c' by simp
qed

lemma anders_scan_frame:
  assumes "\<And>f. spres (anders_le E) (summary f)"
  shows "spres (anders_le E) (anders_scan E cn summary F)"
proof (rule spresI)
  fix c u c'
  let ?c1 = "cache_put F None c"
  assume "anders_scan E cn summary F c = Done (u, c')"
  then obtain I c2 where new: "map_of (anders_cache c) F = None"
    and build: "buildInfoFrom E cn summary F ?c1 = Done (I, c2)"
    and c': "c' = (cache_put F (Some I) c2)\<lparr>anders_handles := F # anders_handles c2\<rparr>"
    by (auto simp: anders_scan_def smon_defs split: if_splits outcome.splits)
  have le: "anders_le E ?c1 c2" by (rule spresD [OF buildInfoFrom_frame [OF assms] build])
  have c'_at: "map_of (anders_cache c') G = (if G = F then Some (Some I) else map_of (anders_cache c2) G)" for G
    by (simp add: c' cache_put_def)
  have c1_at: "map_of (anders_cache ?c1) G = (if G = F then Some None else map_of (anders_cache c) G)" for G
    by (simp add: cache_put_def)
  have "good_info E F I" by (rule buildInfoFrom_good [OF build])
  moreover have "cache_good E c2" if "cache_good E c"
  proof -
    have "cache_good E ?c1" using that by (simp add: cache_good_def c1_at)
    then show ?thesis using le by (simp add: anders_le_def)
  qed
  ultimately have "cache_good E c \<longrightarrow> cache_good E c'" by (simp add: cache_good_def c'_at)
  moreover
  have "map_of (anders_cache c') G = map_of (anders_cache c) G" if "map_of (anders_cache c) G \<noteq> None" for G
    using that new le c1_at [of G] c'_at [of G] by (cases "G = F") (auto simp: anders_le_def)
  moreover have "map_of (anders_cache c') G \<noteq> Some None" if "map_of (anders_cache c) G = None" for G
    using that le c1_at [of G] c'_at [of G] by (cases "G = F") (auto simp: anders_le_def)
  ultimately show "anders_le E c c'" unfolding anders_le_def by blast
qed

lemma ensureCached_frame: "spres (anders_le E) (ensureCached E cn n F)"
proof (induction n arbitrary: F)
  case 0
  then show ?case by (simp add: spres_def sholds_def)
next
  case (Suc n)
  have "spres (anders_le E) (anders_scan E cn (\<lambda>f. sbind (ensureCached E cn n f) (\<lambda>I. sret (map_option Summary I))) F)"
    by (intro anders_scan_frame anders.spres_intros Suc.IH)
  then show ?case unfolding ensureCached.simps(2) by (intro anders.spres_intros)
qed

lemma ensureCached_cached:
  assumes "ensureCached E cn n F c = Done (I, c')"
  shows "map_of (anders_cache c') F = Some I"
  using assms
  by (cases n) (auto simp: ensureCached.simps(2) smon_defs split: option.splits outcome.splits)

text \<open>At rest no entry is under construction.\<close>

definition at_rest :: "anders \<Rightarrow> bool" where
  "at_rest c = (\<forall>F. map_of (anders_cache c) F \<noteq> Some None)"

lemma ensureCached_rest:
  assumes "ensureCached E cn n F c = Done (I, c')" "at_rest c"
  shows "at_rest c'" "I \<noteq> None"
proof -
  have "anders_le E c c'" by (rule spresD [OF ensureCached_frame assms(1)])
  then show rest: "at_rest c'" using assms(2) unfolding anders_le_def at_rest_def by metis
  show "I \<noteq> None" using rest ensureCached_cached [OF assms(1)] unfolding at_rest_def by metis
qed

section \<open>Queries\<close>

lemma query_in_sound:
  assumes "query_in E cn n F a b c = Done (NoAlias, c')" "cache_good E c"
    and "points_to E F (fst a) ob" "points_to E F (fst b) ob" "fst a \<noteq> fst b"
  shows False
proof -
  obtain I c1 where ens: "ensureCached E cn n F c = Done (Some I, c1)"
    and may: "mayAlias (cmod E) I (fst a) (snd a) (fst b) (snd b) = Some False"
    using assms(1) by (auto simp: query_in_def smon_defs split: outcome.splits option.splits if_splits)
  have "cache_good E c1" using spresD [OF ensureCached_frame ens] assms(2) by (simp add: anders_le_def)
  then have "good_info E F I" using ensureCached_cached [OF ens] by (auto simp: cache_good_def)
  then show False using good_info_alias [OF _ assms(3-5)] may by simp
qed

definition query_function :: "cfl_env \<Rightarrow> vid \<Rightarrow> vid \<Rightarrow> vid option" where
  "query_function E p q = (case parentFunctionOfValue E p of None \<Rightarrow> parentFunctionOfValue E q | Some F \<Rightarrow> Some F)"

lemma anders_alias_sound:
  assumes "anders_alias E cn n a b c = Done (NoAlias, c')" "cache_good E c"
    and "lptr a = Some p" "lptr b = Some q" "query_function E p q = Some F"
  shows "\<not> (\<exists>ob. points_to E F p ob \<and> points_to E F q ob)"
proof
  assume "\<exists>ob. points_to E F p ob \<and> points_to E F q ob"
  then obtain ob where ob: "points_to E F p ob" "points_to E F q ob" by blast
  have ptrs: "has_pointer_type E p" "has_pointer_type E q" using ob points_to_pointer(1) by blast+
  have neq: "p \<noteq> q" using assms(1,3,4) by (auto simp: anders_alias_def smon_defs)
  have "anders_query E cn n (p, lsize a) (q, lsize b) c = Done (NoAlias, c')"
    using assms(1,3,4) by (auto simp: anders_alias_def smon_defs split: if_splits outcome.splits)
  then have "query_in E cn n F (p, lsize a) (q, lsize b) c = Done (NoAlias, c')"
    using assms(5) ptrs by (auto simp: anders_query_def query_function_def smon_defs
      split: option.splits if_splits)
  then show False using query_in_sound assms(2) ob neq by fastforce
qed

end
