(* ===== verification/CFLTotal.thy ===== *)
theory CFLTotal
  imports CFLCache
begin

text \<open>
  Fuel. The recursion through constant expressions is bounded by their nesting, the recursion through
  called functions by the number of functions that are not yet in the cache: with that much fuel a
  query never runs out of it.
\<close>

section \<open>Computations that return\<close>

text \<open>
  \<open>returns\<close> is relative to a property of the state that the builder preserves: from a state with it
  the computation ends, normally or in a crash.
\<close>

locale build_total = build_frame "\<lambda>s t. I s \<longrightarrow> I t" for I :: "'c cfl_build \<Rightarrow> bool"
begin

definition returns :: "('c, 'a) cfl \<Rightarrow> bool" where
  "returns m = (\<forall>s. I s \<longrightarrow> m s \<noteq> OutOfFuel)"

lemma returns_ret: "returns (sret x)" and returns_crash: "returns scrash"
  and returns_modify: "returns (smodify f)" and returns_addNode: "returns (build_addNode n a)"
  and returns_update: "returns (build_update g)"
  by (auto simp: returns_def smon_defs build_addNode_def build_update_def split_beta split: option.splits)

lemma returns_bind:
  assumes "returns m" "spres (\<lambda>s t. I s \<longrightarrow> I t) m" "\<And>x. returns (f x)"
  shows "returns (sbind m f)"
  unfolding returns_def
proof (intro allI impI)
  fix s assume "I s"
  then show "sbind m f s \<noteq> OutOfFuel"
    using assms spresD [OF assms(2), of s] by (cases "m s") (auto simp: returns_def sbind_def)
qed

lemma returns_if: "(c \<Longrightarrow> returns m) \<Longrightarrow> (\<not> c \<Longrightarrow> returns k) \<Longrightarrow> returns (if c then m else k)"
  by simp

lemma returns_op_at:
  assumes "\<And>x. x \<in> set (voperands (mval (cmod E) v)) \<Longrightarrow> returns (f x)"
  shows "returns (sbind (op_at E v i) f)"
proof (cases "operand (cmod E) v i")
  case None
  then show ?thesis by (simp add: returns_def sbind_def op_at_def scrash_def)
next
  case (Some x)
  then have "x \<in> set (voperands (mval (cmod E) v))" by (auto simp: operand_def split: if_splits)
  then have "returns (f x)" by (rule assms)
  then show ?thesis using Some by (simp add: returns_def sbind_def op_at_def sret_def)
qed

lemma returns_sfor:
  assumes "\<And>x. x \<in> set xs \<Longrightarrow> returns (f x)" "\<And>x. spres (\<lambda>s t. I s \<longrightarrow> I t) (f x)"
  shows "returns (sfor f xs)"
  using assms by (induction xs) (auto intro!: returns_bind returns_ret)

lemmas returns_intros = returns_ret returns_crash returns_modify returns_addNode returns_update
  returns_if returns_op_at

lemma returns_edges:
  assumes "\<And>v a. spres (\<lambda>s t. I s \<longrightarrow> I t) (add v a)" "\<And>a. returns (add f a)" "\<And>a. returns (add t a)"
  shows "returns (addAssignEdge E add f t off)" "returns (addLoadEdge E add f t)" "returns (addStoreEdge E add f t)"
  unfolding addAssignEdge_def addLoadEdge_def addStoreEdge_def addDerefEdge_def
  by (intro returns_intros returns_bind build_intros assms)+

lemma returns_visits:
  assumes "\<And>v a. spres (\<lambda>s t. I s \<longrightarrow> I t) (add v a)"
    and "\<And>x a. x \<in> insert v (set (voperands (mval (cmod E) v))) \<Longrightarrow> returns (add x a)"
  shows "returns (visitGEP E add v)" "returns (assign_from E add v i)" "returns (insert_into E add v)"
    "returns (assign_both E add v i j)" "returns (sbind (op_at E v i) (\<lambda>x. addLoadEdge E add x v))"
    "returns (sbind (op_at E v i) (\<lambda>x. add x at))"
proof -
  show "returns (visitGEP E add v)" unfolding visitGEP_def
    by (intro returns_op_at returns_edges(1) assms) simp_all
  show "returns (assign_from E add v i)" unfolding assign_from_def
    by (intro returns_op_at returns_edges(1) assms) simp_all
  show "returns (insert_into E add v)" unfolding insert_into_def
    by (intro returns_op_at returns_bind returns_edges spres_edges assms) simp_all
  show "returns (assign_both E add v i j)" unfolding assign_both_def
    by (intro returns_op_at returns_bind returns_edges spres_edges assms) simp_all
  show "returns (sbind (op_at E v i) (\<lambda>x. addLoadEdge E add x v))"
    by (intro returns_op_at returns_edges(2) assms) simp_all
  show "returns (sbind (op_at E v i) (\<lambda>x. add x at))"
    by (intro returns_op_at assms) simp_all
qed

lemma returns_visitConstantExpr:
  assumes "\<And>v a. spres (\<lambda>s t. I s \<longrightarrow> I t) (add v a)"
    and "\<And>x a. x \<in> insert v (set (voperands (mval (cmod E) v))) \<Longrightarrow> returns (add x a)"
  shows "returns (visitConstantExpr E add op v)"
  unfolding visitConstantExpr_def
  by (intro returns_if returns_visits returns_crash assms) simp_all

end

lemma build_total_node: "build_total (\<lambda>s. is_node (bgraph s) x)"
  by unfold_locales (auto simp: addNode_is_node update_attr_edges addEdge_edges)

section \<open>Constant expressions\<close>

text \<open>Operands of a constant expression have a smaller rank.\<close>

definition const_rank :: "cfl_env \<Rightarrow> (vid \<Rightarrow> nat) \<Rightarrow> bool" where
  "const_rank E r = (\<forall>v op x. vkind (mval (cmod E) v) = KConstantExpr op \<longrightarrow>
     x \<in> set (voperands (mval (cmod E) v)) \<longrightarrow> r x < r v)"

lemma addNode_fuel:
  assumes rank: "const_rank E r"
  shows "n > 0 \<and> is_node (bgraph s) (v, 0) \<or> n \<ge> r v + 2 \<Longrightarrow> addNode E n v a (s :: 'c cfl_build) \<noteq> OutOfFuel"
proof (induction n arbitrary: v a s)
  case (Suc n)
  let ?I = "\<lambda>s :: 'c cfl_build. is_node (bgraph s) (v, 0)"
  show ?case
  proof (cases "has_pointer_type E v \<and> \<not> is_global_value (cmod E) v
      \<and> (\<exists>op. vkind (mval (cmod E) v) = KConstantExpr op \<and> op \<noteq> OICmp \<and> op \<noteq> OFCmp)")
    case False
    then show ?thesis
      by (auto simp: addNode.simps(2) smon_defs build_addNode_def split_beta split: vkind.splits)
  next
    case True
    then obtain op where op: "vkind (mval (cmod E) v) = KConstantExpr op" "op \<noteq> OICmp" "op \<noteq> OFCmp" by blast
    let ?s = "s\<lparr>bgraph := snd (graph_addNode (v, 0) getAttrNone (bgraph s))\<rparr>"
    have run: "addNode E (Suc n) v a s = (if fst (graph_addNode (v, 0) getAttrNone (bgraph s))
        then visitConstantExpr E (addNode E n) op v ?s else Done ((), ?s))"
      using True op by (simp add: addNode.simps(2) smon_defs build_addNode_def split_beta)
    show ?thesis
    proof (cases "is_node (bgraph s) (v, 0)")
      case True
      then show ?thesis by (auto simp: run addNode_new is_node_def)
    next
      case new: False
      then have n: "n \<ge> r v + 1" using Suc.prems by simp
      have "build_total.returns ?I (addNode E n x b)" if "x \<in> insert v (set (voperands (mval (cmod E) v)))" for x b
        unfolding build_total.returns_def [OF build_total_node]
        using that n rank op(1) Suc.IH by (fastforce simp: const_rank_def)
      moreover have "spres (\<lambda>s t. ?I s \<longrightarrow> ?I t) (addNode E n x b)" for x b
        by (rule build_frame.spres_addNode [OF build_total.axioms [OF build_total_node]])
      ultimately have "build_total.returns ?I (visitConstantExpr E (addNode E n) op v)"
        by (intro build_total.returns_visitConstantExpr [OF build_total_node])
      moreover have "?I ?s" by (simp add: addNode_is_node)
      ultimately have "visitConstantExpr E (addNode E n) op v ?s \<noteq> OutOfFuel"
        unfolding build_total.returns_def [OF build_total_node] by blast
      then show ?thesis by (simp add: run)
    qed
  qed
qed simp

section \<open>The builder\<close>

context build_total
begin

lemma returns_visitCallBase:
  assumes add: "\<And>v a. returns (addNode E n v a)"
    and summ: "\<And>f. spres (\<lambda>s t. I s \<longrightarrow> I t) (summ f)" "\<And>c f. called_function (cmod E) c = Some f \<Longrightarrow> returns (summ f)"
  shows "returns (visitCallBase E n summ c)"
proof -
  have rel: "returns (add_relation E c r)" and rel_frame: "spres (\<lambda>s t. I s \<longrightarrow> I t) (add_relation E c r)" for r
    by (auto simp: add_relation_def split: option.splits intro!: returns_intros returns_bind build_intros)
  have att: "returns (add_attribute E c a)" and att_frame: "spres (\<lambda>s t. I s \<longrightarrow> I t) (add_attribute E c a)" for a
    by (auto simp: add_attribute_def split: option.splits intro!: returns_intros returns_bind build_intros)
  have ok_frame: "spres (\<lambda>s t. I s \<longrightarrow> I t) (targets_ok E summ c fns)" for fns
    by (induction fns) (auto intro!: build_intros summ(1))
  have app_frame: "spres (\<lambda>s t. I s \<longrightarrow> I t) (apply_summary E summ c f)" for f
    unfolding apply_summary_def by (intro build_intros rel_frame att_frame summ(1))
  have ok: "returns (targets_ok E summ c [f])" and app: "returns (apply_summary E summ c f)"
    if "called_function (cmod E) c = Some f" for f
    unfolding apply_summary_def
    by (auto split: option.splits intro!: returns_intros returns_bind returns_sfor build_intros rel att rel_frame att_frame
      summ(1) summ(2) [OF that])
  have attempt_frame: "spres (\<lambda>s t. I s \<longrightarrow> I t) (tryInterproceduralAnalysis E summ c fns)" for fns
    unfolding tryInterproceduralAnalysis_def by (intro build_intros ok_frame app_frame)
  have attempt: "returns (case getPossibleTargets E c of
      Some fns \<Rightarrow> tryInterproceduralAnalysis E summ c fns | None \<Rightarrow> sret False)"
    unfolding getPossibleTargets_def tryInterproceduralAnalysis_def
    by (cases "called_function (cmod E) c")
      (auto simp del: targets_ok.simps
        intro!: returns_intros returns_bind returns_sfor ok app ok_frame app_frame build_intros)
  have arg: "returns (opaque_argument E v)" and arg_frame: "spres (\<lambda>s t. I s \<longrightarrow> I t) (opaque_argument E v)" for v
    unfolding opaque_argument_def by (intro returns_intros returns_bind build_intros)+
  have res: "returns (if has_pointer_type E c
      then (case called_function (cmod E) c of
          Some f \<Rightarrow> if ANoAlias \<notin> xretattr (cx E) f
            then build_update (graph_addAttr (c, 0) getAttrUnknown) else sret ()
        | None \<Rightarrow> build_update (graph_addAttr (c, 0) getAttrUnknown)) else sret ())"
    by (cases "called_function (cmod E) c") (auto intro!: returns_intros)
  show ?thesis unfolding visitCallBase_def
    by (intro returns_bind returns_sfor returns_if returns_ret add arg res attempt arg_frame attempt_frame
      build_intros spres_addNode)
qed

lemma returns_visit:
  assumes add: "\<And>v a. returns (addNode E n v a)"
    and summ: "\<And>f. spres (\<lambda>s t. I s \<longrightarrow> I t) (summ f)" "\<And>c f. called_function (cmod E) c = Some f \<Longrightarrow> returns (summ f)"
  shows "returns (visit E n summ op i)"
proof -
  have ret: "returns (visitReturnInst E n i)"
    unfolding visitReturnInst_def
    by (cases "operand (cmod E) i 0") (auto intro!: returns_intros returns_bind add spres_addNode)
  have phi: "returns (visitPHINode E n i)"
    unfolding visitPHINode_def by (intro returns_sfor returns_edges spres_edges spres_addNode add)
  have store: "returns (store_edge E n i v p)" for v p
    unfolding store_edge_def by (intro returns_op_at returns_edges spres_addNode add)
  have unknown: "returns (unknown_source E n i)"
    unfolding unknown_source_def by (intro returns_if returns_ret add)
  note call = returns_visitCallBase [OF add summ]
  note visits = returns_visits [of "addNode E n" _ E, OF spres_addNode add]
  show ?thesis unfolding visit_def Let_def
    by (intro returns_if ret phi store unknown call visits add returns_crash)
qed

lemma returns_buildGraphFrom:
  assumes add: "\<And>v a. returns (addNode E n v a)"
    and summ: "\<And>f. spres (\<lambda>s t. I s \<longrightarrow> I t) (summ f)" "\<And>c f. called_function (cmod E) c = Some f \<Longrightarrow> returns (summ f)"
  shows "returns (buildGraphFrom E n summ F)"
proof -
  have "returns (addInstructionToGraph E n summ i)" for i
    by (cases "vkind (mval (cmod E) i)")
      (auto simp: addInstructionToGraph_def intro!: returns_intros returns_visit assms)
  moreover have "returns (addArgumentToGraph E a)" for a
    unfolding addArgumentToGraph_def by (intro returns_intros returns_bind build_intros)
  ultimately show ?thesis unfolding buildGraphFrom_def
    by (intro returns_bind returns_sfor spres_sfor spres_addInstruction spres_addArgument summ(1))
qed

end

section \<open>Called functions\<close>

text \<open>The functions of the module, closed under calls.\<close>

definition call_closed :: "cfl_env \<Rightarrow> vid set \<Rightarrow> bool" where
  "call_closed E Fs = (finite Fs \<and> (\<forall>c f. called_function (cmod E) c = Some f \<longrightarrow> f \<in> Fs))"

definition unscanned :: "vid set \<Rightarrow> anders \<Rightarrow> nat" where
  "unscanned Fs c = card (Fs - dom (map_of (anders_cache c)))"

lemma solve_graph_total: "wf_graph G \<Longrightarrow> solve_graph M F rets G \<noteq> OutOfFuel"
  using solve_graph_good [of G M F rets] by auto

lemma anders_le_dom: "anders_le E c d \<Longrightarrow> dom (map_of (anders_cache c)) \<subseteq> dom (map_of (anders_cache d))"
  unfolding anders_le_def dom_def by auto

lemma build_total_cached: "build_total (\<lambda>s :: anders cfl_build. D \<subseteq> dom (map_of (anders_cache (banalysis s))))"
  by unfold_locales auto

lemma buildInfoFrom_total:
  assumes "const_rank E r" "\<And>v. r v + 2 \<le> cn"
    and frame: "\<And>f. spres (anders_le E) (summary f)"
    and summ: "\<And>c f d. called_function (cmod E) c = Some f \<Longrightarrow> D \<subseteq> dom (map_of (anders_cache d)) \<Longrightarrow> summary f d \<noteq> OutOfFuel"
    and "D \<subseteq> dom (map_of (anders_cache c))"
  shows "buildInfoFrom E cn summary F c \<noteq> OutOfFuel"
proof -
  let ?I = "\<lambda>s :: anders cfl_build. D \<subseteq> dom (map_of (anders_cache (banalysis s)))"
  let ?s = "\<lparr>bgraph = [], brets = [], banalysis = c\<rparr>"
  note returns_def = build_total.returns_def [OF build_total_cached, of D]
  have "build_total.returns ?I (addNode E cn v a)" for v a
    unfolding returns_def using addNode_fuel [OF assms(1)] assms(2) by blast
  moreover have "spres (\<lambda>s t. ?I s \<longrightarrow> ?I t) (lookup_in_build summary f)" for f
    using spresD [OF frame [of f]] anders_le_dom
    by (fastforce simp: spres_def sholds_def lookup_in_build_def split: outcome.splits)
  moreover have "build_total.returns ?I (lookup_in_build summary f)" if "called_function (cmod E) c' = Some f" for c' f
    unfolding returns_def using summ [OF that] by (auto simp: lookup_in_build_def split: outcome.splits)
  ultimately have "build_total.returns ?I (buildGraphFrom E cn (lookup_in_build summary) F)"
    by (rule build_total.returns_buildGraphFrom [OF build_total_cached])
  then have build: "buildGraphFrom E cn (lookup_in_build summary) F ?s \<noteq> OutOfFuel"
    unfolding returns_def using assms(5) by simp
  have "wf_graph (bgraph b)" if "buildGraphFrom E cn (lookup_in_build summary) F ?s = Done (u, b)" for u b
    using spresD [OF build.spres_buildGraphFrom [OF lookup_frames(1)] that] by (simp add: build_le_def graph_le_def)
  then show ?thesis
    using build solve_graph_total by (auto simp: buildInfoFrom_def split: outcome.splits)
qed

lemma ensureCached_total:
  assumes rank: "const_rank E r" "\<And>v. r v + 2 \<le> cn" and closed: "call_closed E Fs"
  shows "F \<in> Fs \<Longrightarrow> unscanned Fs c < n \<Longrightarrow> ensureCached E cn n F c \<noteq> OutOfFuel"
proof (induction n arbitrary: F c)
  case (Suc n)
  let ?summary = "\<lambda>f. sbind (ensureCached E cn n f) (\<lambda>I. sret (map_option Summary I))"
  show ?case
  proof (cases "map_of (anders_cache c) F")
    case (Some I)
    then show ?thesis by (simp add: ensureCached.simps(2) smon_defs)
  next
    case None
    let ?c = "cache_put F None c"
    let ?D = "dom (map_of (anders_cache ?c))"
    have D: "?D = insert F (dom (map_of (anders_cache c)))" by (auto simp: cache_put_def)
    have "Fs - ?D \<subset> Fs - dom (map_of (anders_cache c))" using Suc.prems(1) None D by auto
    then have less: "card (Fs - ?D) < n"
      using psubset_card_mono [of "Fs - dom (map_of (anders_cache c))" "Fs - ?D"] closed Suc.prems(2)
      by (simp add: unscanned_def call_closed_def)
    have "?summary f d \<noteq> OutOfFuel" if "called_function (cmod E) c' = Some f" "?D \<subseteq> dom (map_of (anders_cache d))" for c' f d
    proof -
      have "card (Fs - dom (map_of (anders_cache d))) \<le> card (Fs - ?D)"
        using closed that(2) by (intro card_mono) (auto simp: call_closed_def)
      then have "ensureCached E cn n f d \<noteq> OutOfFuel"
        using Suc.IH [of f d] less closed that(1) by (auto simp: unscanned_def call_closed_def)
      then show ?thesis by (auto simp: smon_defs split: outcome.splits)
    qed
    moreover have "spres (anders_le E) (?summary f)" for f
      by (intro anders.spres_intros ensureCached_frame)
    ultimately have build: "buildInfoFrom E cn ?summary F ?c \<noteq> OutOfFuel"
      using buildInfoFrom_total [OF rank, of ?summary ?D] by blast
    then have "anders_scan E cn ?summary F c \<noteq> OutOfFuel"
      using None by (auto simp: anders_scan_def smon_defs split: outcome.splits)
    then show ?thesis
      using None by (auto simp: ensureCached.simps(2) smon_defs split: outcome.splits option.splits)
  qed
qed simp

lemma anders_alias_total:
  assumes "const_rank E r" "\<And>v. r v + 2 \<le> cn" "call_closed E Fs" "\<And>v F. parentFunctionOfValue E v = Some F \<Longrightarrow> F \<in> Fs"
    and "card Fs < n"
  shows "anders_alias E cn n a b c \<noteq> OutOfFuel"
proof -
  have "unscanned Fs c < n"
    using assms(3,5) card_mono [of Fs "Fs - dom (map_of (anders_cache c))"]
    by (auto simp: unscanned_def call_closed_def)
  then have "ensureCached E cn n F c \<noteq> OutOfFuel" if "parentFunctionOfValue E v = Some F" for v F
    using ensureCached_total [OF assms(1,2,3)] assms(4) [OF that] by blast
  then have "query_in E cn n F x y c \<noteq> OutOfFuel" if "parentFunctionOfValue E v = Some F" for v F x y
    using that by (auto simp: query_in_def smon_defs split: outcome.splits option.splits)
  then have "anders_query E cn n x y c \<noteq> OutOfFuel" for x y
    by (auto simp: anders_query_def smon_defs split: option.splits)
  then show ?thesis
    by (auto simp: anders_alias_def smon_defs split: option.splits outcome.splits)
qed

end
