(* ===== verification/CFLProps.thy ===== *)
theory CFLProps
  imports CFLTotal
begin

text \<open>
  The properties of the inclusion-based alias analysis, with the concrete functions and graphs on
  which they apply.
\<close>

section \<open>A function\<close>

text \<open>
  Function 0 takes the pointer 1 and allocates the stack slots 2 and 3 and the pointer slot 4. It
  stores 2 into 4 (instruction 5), loads it back (6) and returns (7).
\<close>

abbreviation byte_ptr :: ir_type where "byte_ptr \<equiv> PointerTy 0 (IntTy 8)"

definition cfl_mod :: ir_module where
  "cfl_mod = \<lparr>mval = (\<lambda>_. value0)
     (0 := value0\<lparr>vkind := KFunction, vtype := byte_ptr, vaddr := 100\<rparr>,
      1 := value0\<lparr>vkind := KArgument 0, vtype := byte_ptr, vaddr := 101\<rparr>,
      2 := value0\<lparr>vkind := KInstruction OAlloca, vtype := byte_ptr, vaddr := 102\<rparr>,
      3 := value0\<lparr>vkind := KInstruction OAlloca, vtype := byte_ptr, vaddr := 103\<rparr>,
      4 := value0\<lparr>vkind := KInstruction OAlloca, vtype := PointerTy 0 byte_ptr, vaddr := 104\<rparr>,
      5 := value0\<lparr>vkind := KInstruction OStore, voperands := [2, 4], vaddr := 105\<rparr>,
      6 := value0\<lparr>vkind := KInstruction OLoad, vtype := byte_ptr, voperands := [4], vaddr := 106\<rparr>,
      7 := value0\<lparr>vkind := KInstruction ORet, vaddr := 107\<rparr>),
    mfun = (\<lambda>_. function0)(0 := \<lparr>fargs = [1], fblocks = [[2, 3, 4, 5, 6, 7]], fdecl = False\<rparr>)\<rparr>"

definition cfl_demo :: cfl_env where
  "cfl_demo = \<lparr>cx = env0 cfl_mod, cgep_offset = (\<lambda>_. None), cmalloc_free = (\<lambda>_. False),
     cexact = (\<lambda>_. True), cvararg = (\<lambda>_. False), cdisallowed = (\<lambda>_ _. False)\<rparr>"

definition demo_alias :: "vid \<Rightarrow> vid \<Rightarrow> AliasResult option" where
  "demo_alias p q = (case anders_alias cfl_demo 2 2 (loc_of p UnknownSize) (loc_of q UnknownSize) anders0 of
     Done (r, _) \<Rightarrow> Some r | _ \<Rightarrow> None)"

lemma demo_answers:
  "demo_alias 2 3 = Some NoAlias" "demo_alias 2 6 = Some MayAlias"
  by code_simp+

lemma summary_crash: "spres build_le (scrash :: (unit, AliasSummary option) cfl)"
  by (rule build.spres_crash)

definition demo_build :: "unit cfl_build" where
  "demo_build = (case buildGraphFrom cfl_demo 2 (\<lambda>_. scrash) 0 \<lparr>bgraph = [], brets = [], banalysis = ()\<rparr> of
     Done (_, b) \<Rightarrow> b | _ \<Rightarrow> \<lparr>bgraph = [], brets = [], banalysis = ()\<rparr>)"

lemma demo_built:
  "buildGraphFrom cfl_demo 2 (\<lambda>_. scrash) 0 \<lparr>bgraph = [], brets = [], banalysis = ()\<rparr> = Done ((), demo_build)"
proof -
  have "(case buildGraphFrom cfl_demo 2 (\<lambda>_. scrash) 0 \<lparr>bgraph = [], brets = [], banalysis = ()\<rparr> :: (unit \<times> unit cfl_build) outcome of
      Done _ \<Rightarrow> True | _ \<Rightarrow> False)"
    by code_simp
  then show ?thesis by (auto simp: demo_build_def split: outcome.splits)
qed

lemma demo_nodes: "length (graph_nodes (bgraph demo_build)) = 7"
  by code_simp

lemma demo_flow: "flows cfl_demo 0 (2, 0) (4, 1)"
proof -
  have "((2, 0), (4, 1)) \<in> set (instr_flow cfl_demo OStore 5)" by code_simp
  then show ?thesis unfolding flows_def
    by (intro exI [of _ 5] exI [of _ OStore]) (simp add: cfl_demo_def cfl_mod_def env0_def value0_def)
qed

lemma build_flows_edge:
  assumes "\<And>f. spres build_le (summ f)" "buildGraphFrom E n summ F s = Done ((), s')" "flows E F x y"
  shows "edge (bgraph s') x y"
proof -
  obtain i op where "i \<in> set (concat (fblocks (mfun (cmod E) F)))" "vkind (mval (cmod E) i) = KInstruction op"
    "(x, y) \<in> set (instr_flow E op i)" using assms(3) unfolding flows_def by blast
  then show ?thesis by (rule build_has_flow [OF assms(1,2)])
qed

lemma demo_edge: "edge (bgraph demo_build) (2, 0) (4, 1)"
  by (rule build_flows_edge [OF summary_crash demo_built demo_flow])

lemma demo_wf: "wf_graph (bgraph demo_build)"
  by code_simp

lemma demo_VA: "VA (bgraph demo_build) (2, 0) (4, 1) FlowToWriteOnly"
  by (rule VA_edge_to [OF demo_edge]) simp

lemma solve_relations:
  assumes "wf_graph G" "n \<ge> 7 * length (graph_nodes G) ^ 2 + 2"
  shows "\<exists>st. reach_solve G n = Done st \<and> keys_distinct (reach st)
    \<and> (\<forall>f t s. bit (reach_states (reach st) f t) (state_index s) \<longleftrightarrow> VA G f t s)
    \<and> (\<forall>l r. r \<in> set (getMemoryAliases (mem st) l) \<longleftrightarrow> MA G l r)"
proof -
  have "n \<ge> max_items G + 2" using assms(2) by (simp add: max_items_def)
  from reach_solve_exact [OF assms(1) this] obtain st where st: "reach_solve G n = Done st"
    "keys_distinct (reach st)" "items (reach st) = va_items G" "mem_pairs (mem st) = ma_pairs G" by blast
  have "bit (reach_states (reach st) f t) (state_index s) \<longleftrightarrow> (f, t, s) \<in> items (reach st)" for f t s
    by (simp add: items_def)
  moreover have "r \<in> set (getMemoryAliases (mem st) l) \<longleftrightarrow> (l, r) \<in> mem_pairs (mem st)" for l r
    by (simp add: mem_pairs_def)
  ultimately show ?thesis using st by (simp add: va_items_def ma_pairs_def)
qed

section \<open>Construction of the graph\<close>



text \<open>
  A constant \<^verbatim>\<open>inttoptr\<close> expression never gets the attribute of an unknown pointer: the builder
  adds the expression to the graph before it looks at it, and a value that is already there keeps
  its attributes. The same holds for every constant expression and attribute.
\<close>
theorem constant_inttoptr_keeps_attributes:
  assumes "vkind (mval (cmod E) v) = KConstantExpr OIntToPtr"
    and "addNode E n v a s = Done ((), t)"
  shows "node_attr (bgraph t) (v, 0) = node_attr (bgraph s) (v, 0)"
proof -
  have none: "node_attr (snd (graph_addNode (v, 0) getAttrNone G)) (v, 0) = node_attr G (v, 0)" for G
    by (simp add: node_attr_addNode getAttrNone_def)
  have unchanged: "addNode E m v b s' = Done ((), t') \<Longrightarrow> node_attr (bgraph t') (v, 0) = node_attr (bgraph s') (v, 0)" for m b s' t'
  proof (induction m arbitrary: b s' t')
    case (Suc m)
    then show ?case using assms(1) none
      by (auto simp: addNode.simps(2) is_global_value_def smon_defs build_addNode_def visitConstantExpr_def split_beta
        split: if_splits)
  qed simp
  show ?thesis by (rule unchanged [OF assms(2)])
qed

definition inttoptr_demo :: cfl_env where
  "inttoptr_demo = cfl_demo\<lparr>cx := env0 (cfl_mod\<lparr>mval := (mval cfl_mod)
     (8 := value0\<lparr>vkind := KConstantExpr OIntToPtr, vtype := byte_ptr, voperands := [9]\<rparr>)\<rparr>)\<rparr>"

theorem constant_inttoptr_keeps_attributes_witness:
  "\<exists>t. addNode inttoptr_demo 2 8 getAttrUnknown \<lparr>bgraph = [], brets = [], banalysis = ()\<rparr> = Done ((), t)
    \<and> node_attr (bgraph t) (8, 0) = 0"
proof -
  let ?s = "\<lparr>bgraph = [], brets = [], banalysis = ()\<rparr>"
  have "case addNode inttoptr_demo 2 8 getAttrUnknown ?s of Done _ \<Rightarrow> True | _ \<Rightarrow> False"
    by code_simp
  then obtain t where t: "addNode inttoptr_demo 2 8 getAttrUnknown ?s = Done ((), t)"
    by (auto split: outcome.splits)
  have kind: "vkind (mval (cmod inttoptr_demo) 8) = KConstantExpr OIntToPtr"
    by (simp add: inttoptr_demo_def cfl_demo_def env0_def cfl_mod_def value0_def)
  show ?thesis using t constant_inttoptr_keeps_attributes [OF kind t] by (simp add: node_attr_def getNode_def)
qed

text \<open>
  A floating-point negation, a \<^verbatim>\<open>catchpad\<close> and a \<^verbatim>\<open>cleanuppad\<close> reach the unreachable default of
  the visitor, so that the analysis stops the compiler on a function that has one; a \<^verbatim>\<open>callbr\<close> is skipped as
  a plain terminator, and its arguments do not escape.
\<close>
theorem unsupported_instructions:
  assumes "vkind (mval (cmod E) i) = KInstruction op"
  shows "(op \<in> {OFNeg, OCatchPad, OCleanupPad} \<longrightarrow> addInstructionToGraph E n summ i s = Crash)
    \<and> (op = OCallBr \<longrightarrow> addInstructionToGraph E n summ i s = Done ((), s))"
  using assms
  by (auto simp: addInstructionToGraph_def hasUsefulEdges_def is_terminator_def visit_def is_plain_cast_def
    is_binary_def smon_defs)

definition fneg_demo :: cfl_env where
  "fneg_demo = cfl_demo\<lparr>cx := env0 (cfl_mod\<lparr>mval := (mval cfl_mod)
     (8 := value0\<lparr>vkind := KInstruction OFNeg, vtype := FloatTy, voperands := [9]\<rparr>)\<rparr>)\<rparr>"

theorem unsupported_instructions_witness: "addInstructionToGraph fneg_demo 2 (\<lambda>_. scrash) 8 demo_build = Crash"
  using unsupported_instructions [of fneg_demo 8 OFNeg 2 "\<lambda>_. scrash" demo_build]
  by (simp add: fneg_demo_def cfl_demo_def env0_def cfl_mod_def value0_def)

section \<open>Reachability\<close>

text \<open>
  C2: On a well-formed graph with N nodes the reachability worklist ends after at most \<open>7 N^2 + 2\<close>
  rounds without a failed assertion, and it holds exactly the value aliases in each state and the
  memory aliases that the rules of the state machine derive.
\<close>
theorem reachability_exact:
  assumes "wf_graph G" "n \<ge> 7 * length (graph_nodes G) ^ 2 + 2"
  shows "\<exists>st. reach_solve G n = Done st
    \<and> (\<forall>f t s. test_state (reach_states (reach st) f t) s \<longleftrightarrow> VA G f t s)
    \<and> (\<forall>l r. r \<in> set (getMemoryAliases (mem st) l) \<longleftrightarrow> MA G l r)"
  using solve_relations [OF assms] by (auto simp: test_state_def)

theorem reachability_exact_witness:
  "\<exists>st. reach_solve (bgraph demo_build) 345 = Done st \<and> test_state (reach_states (reach st) (2, 0) (4, 1)) FlowToWriteOnly"
  using reachability_exact [OF demo_wf, of 345] demo_VA by (auto simp: demo_nodes)

text \<open>
  C39: Both relations the worklist computes are symmetric as relations on pairs of nodes, states aside.
\<close>
theorem alias_pairs_symmetric:
  assumes "wf_graph G" "n \<ge> 7 * length (graph_nodes G) ^ 2 + 2" "reach_solve G n = Done st"
  shows "(reach_states (reach st) f t \<noteq> 0 \<longleftrightarrow> reach_states (reach st) t f \<noteq> 0)
    \<and> (r \<in> set (getMemoryAliases (mem st) l) \<longleftrightarrow> l \<in> set (getMemoryAliases (mem st) r))"
proof -
  have rel: "\<And>f t s. bit (reach_states (reach st) f t) (state_index s) \<longleftrightarrow> VA G f t s"
    "\<And>l r. r \<in> set (getMemoryAliases (mem st) l) \<longleftrightarrow> MA G l r"
    using solve_relations [OF assms(1,2)] assms(3) by auto
  show ?thesis
    unfolding state_set_ne_0 rel using VA_pair_symmetric [OF assms(1)] VA_path(2) [OF assms(1)] by blast
qed

theorem alias_pairs_symmetric_witness:
  "\<exists>st. reach_solve (bgraph demo_build) 345 = Done st \<and> reach_states (reach st) (4, 1) (2, 0) \<noteq> 0"
proof -
  obtain st where st: "reach_solve (bgraph demo_build) 345 = Done st"
    "bit (reach_states (reach st) (2, 0) (4, 1)) (state_index FlowToWriteOnly)"
    using solve_relations [OF demo_wf, of 345] demo_VA by (auto simp: demo_nodes)
  then have "reach_states (reach st) (2, 0) (4, 1) \<noteq> 0" unfolding state_set_ne_0 by blast
  then show ?thesis
    using alias_pairs_symmetric [OF demo_wf _ st(1), of "(2, 0)" "(4, 1)"] st(1) by (auto simp: demo_nodes)
qed

section \<open>States are not symmetric\<close>

text \<open>
  Function 0 casts its argument 1 to 2 and 3, and copies a pointer from the memory of 2 (load 4) to
  the memory of 3 (store 5).
\<close>

definition copy_demo :: cfl_env where
  "copy_demo = cfl_demo\<lparr>cx := env0 \<lparr>mval = (\<lambda>_. value0)
     (1 := value0\<lparr>vkind := KArgument 0, vtype := byte_ptr\<rparr>,
      2 := value0\<lparr>vkind := KInstruction OBitCast, vtype := PointerTy 0 byte_ptr, voperands := [1]\<rparr>,
      3 := value0\<lparr>vkind := KInstruction OBitCast, vtype := PointerTy 0 byte_ptr, voperands := [1]\<rparr>,
      4 := value0\<lparr>vkind := KInstruction OLoad, vtype := byte_ptr, voperands := [2]\<rparr>,
      5 := value0\<lparr>vkind := KInstruction OStore, voperands := [4, 3]\<rparr>),
    mfun = (\<lambda>_. \<lparr>fargs = [1], fblocks = [[2, 3, 4, 5]], fdecl = False\<rparr>)\<rparr>\<rparr>"

definition copy_reach :: "ReachabilitySet option" where
  "copy_reach = (case buildGraphFrom copy_demo 2 (\<lambda>_. scrash) 0 \<lparr>bgraph = [], brets = [], banalysis = ()\<rparr> of
     Done (_, b) \<Rightarrow> (case reach_solve (bgraph b) 9 of Done st \<Rightarrow> Some (reach st) | _ \<Rightarrow> None)
   | _ \<Rightarrow> None)"

text \<open>
  The reachability set is not symmetric on states, although the summary is built on the claim
  that it is. For a function that copies from the memory of one cast of its argument to that of
  another, the memory of the argument flows to the memory of the first cast (a write-only state), but
  the reverse pair has no read-only state.
\<close>
theorem reach_states_not_symmetric:
  "\<exists>R. copy_reach = Some R \<and> hasWriteOnlyState (reach_states R (1, 1) (2, 1))
    \<and> \<not> hasReadOnlyState (reach_states R (2, 1) (1, 1))"
proof -
  have run: "case copy_reach of None \<Rightarrow> False | Some R \<Rightarrow> hasWriteOnlyState (reach_states R (1, 1) (2, 1))
      \<and> \<not> hasReadOnlyState (reach_states R (2, 1) (1, 1))"
    by code_simp
  show ?thesis
  proof (cases copy_reach)
    case None
    then show ?thesis using run unfolding None option.case by blast
  next
    case (Some R)
    then show ?thesis using run unfolding Some option.case by blast
  qed
qed

section \<open>Attributes\<close>

text \<open>
  C12: On a well-formed graph with N nodes the propagation of attributes ends after at most
  \<open>32 N + 2\<close> rounds, and a node has exactly the attributes that some node carries in the graph from
  which it is reached through value aliases and dereferences.
\<close>
theorem attributes_exact:
  assumes "wf_graph G" "n \<ge> 7 * length (graph_nodes G) ^ 2 + 2" "reach_solve G n = Done st"
    and "m \<ge> 32 * length (graph_nodes G) + 2"
  shows "\<exists>A. buildAttrMap G (reach st) m = Done A
    \<and> (\<forall>x k. bit (getAttrs A x) k \<longleftrightarrow> attr_reach G (reach st) x k)"
proof -
  have keys: "keys_distinct (reach st)"
    and va: "\<And>f t s. bit (reach_states (reach st) f t) (state_index s) \<longleftrightarrow> VA G f t s"
    using solve_relations [OF assms(1,2)] assms(3) by auto
  have "is_node G y" if y: "y \<in> fst ` set (reachableValueAliases (reach st) x)" for x y
  proof -
    obtain s where "VA G y x s" using y unfolding listed_items [OF keys] items_def by (auto simp: va)
    then show ?thesis by (rule VA_is_node_from(1) [OF assms(1)])
  qed
  then show ?thesis
    using buildAttrMap_exact [OF wf_graphD(1) [OF assms(1)], of "reach st" m] assms(4)
    by (auto simp: max_attr_bits_def)
qed

theorem attributes_exact_witness:
  "\<exists>st A. reach_solve (bgraph demo_build) 345 = Done st \<and> buildAttrMap (bgraph demo_build) (reach st) 226 = Done A
    \<and> bit (getAttrs A (1, 1)) AttrCallerIndex"
proof -
  obtain st where st: "reach_solve (bgraph demo_build) 345 = Done st"
    using solve_relations [OF demo_wf, of 345] by (auto simp: demo_nodes)
  have "bit (node_attr (bgraph demo_build) (1, 1)) AttrCallerIndex" by code_simp
  then have "attr_reach (bgraph demo_build) (reach st) (1, 1) AttrCallerIndex" by (rule attr_own)
  then show ?thesis using attributes_exact [OF demo_wf _ st, of 226] st by (auto simp: demo_nodes)
qed

section \<open>Queries\<close>

lemma demo_rank: "const_rank cfl_demo (\<lambda>_. 0)"
  by (auto simp: const_rank_def cfl_demo_def env0_def cfl_mod_def value0_def split: if_splits)

lemma demo_closed: "call_closed cfl_demo {0}"
  by (auto simp: call_closed_def called_function_def cfl_demo_def env0_def cfl_mod_def value0_def
    split: if_splits list.splits)

lemma demo_parent: "parentFunctionOfValue cfl_demo v = Some F \<Longrightarrow> F \<in> {0}"
  by (simp add: parentFunctionOfValue_def cfl_demo_def env0_def split: if_splits)

lemma anders0_good: "cache_good E anders0" "at_rest anders0"
  by (simp_all add: cache_good_def at_rest_def anders0_def)

text \<open>
  C10: A query never runs out of fuel when the nesting of constant expressions is bounded and the number of
  nested scans exceeds the number of functions: the cache makes the recursion through calls finite,
  recursive functions included.
\<close>
theorem alias_query_returns:
  assumes "const_rank E r" "\<And>v. r v + 2 \<le> cn" "call_closed E Fs"
    and "\<And>v F. parentFunctionOfValue E v = Some F \<Longrightarrow> F \<in> Fs" "card Fs < n"
  shows "anders_alias E cn n a b c \<noteq> OutOfFuel"
  by (rule anders_alias_total [OF assms])

theorem alias_query_returns_witness: "anders_alias cfl_demo 2 2 (loc_of 2 1) (loc_of 6 1) anders0 \<noteq> OutOfFuel"
  by (rule alias_query_returns [OF demo_rank _ demo_closed demo_parent]) simp_all

text \<open>
  C1: When the analysis answers that two pointers of a function do not alias, their points-to sets in
  the function are disjoint, for the smallest points-to relation closed under its assignments, loads
  and stores.
\<close>
theorem no_alias_points_to_disjoint:
  assumes "anders_alias E cn n a b c = Done (NoAlias, c')" "cache_good E c"
    and "lptr a = Some p" "lptr b = Some q" "query_function E p q = Some F"
  shows "\<not> (\<exists>ob. points_to E F p ob \<and> points_to E F q ob)"
  by (rule anders_alias_sound [OF assms])

theorem no_alias_points_to_disjoint_witness:
  "(\<exists>c. anders_alias cfl_demo 2 2 (loc_of 2 UnknownSize) (loc_of 3 UnknownSize) anders0 = Done (NoAlias, c))
   \<and> \<not> points_to cfl_demo 0 3 2"
proof -
  obtain c where c: "anders_alias cfl_demo 2 2 (loc_of 2 UnknownSize) (loc_of 3 UnknownSize) anders0 = Done (NoAlias, c)"
    using demo_answers(1) by (auto simp: demo_alias_def split: outcome.splits)
  have F: "query_function cfl_demo 2 3 = Some 0" by code_simp
  have "points_to cfl_demo 0 2 2" by (rule pt_own) code_simp
  then show ?thesis
    using no_alias_points_to_disjoint [OF c anders0_good(1) _ _ F] c by (auto simp: loc_of_def)
qed

text \<open>
  On the information kept for a function the query does not depend on the order of the pointers
  nor on the sizes, as long as the two pointers are told apart from other values by their addresses.
\<close>
theorem mayAlias_symmetric:
  assumes "good_info E F I"
    and "\<And>q. vaddr (mval (cmod E) q) = vaddr (mval (cmod E) l) \<Longrightarrow> q = l"
    and "\<And>q. vaddr (mval (cmod E) q) = vaddr (mval (cmod E) r) \<Longrightarrow> q = r"
  shows "mayAlias (cmod E) I l ls r rs = mayAlias (cmod E) I r rs' l ls'"
proof (cases "info_attrs I l = None \<or> info_attrs I r = None")
  case True
  then show ?thesis by (auto simp: mayAlias_def split: option.splits)
next
  case False
  then obtain a b where ab: "info_attrs I l = Some a" "info_attrs I r = Some b" by auto
  obtain G rets st A where I: "I = function_info (cmod E) F rets (reach st) A" and st: "exact_state G st A"
    using assms(1) by (auto simp: good_info_def)
  have "wf_graph G" using st by (simp add: exact_state_def)
  then have sym: "(\<exists>s. VA G (r, 0) (l, 0) s) \<longleftrightarrow> (\<exists>s. VA G (l, 0) (r, 0) s)" using VA_pair_symmetric by blast
  have "attrs_decide x y = attrs_decide y x" for x y
    using bit_0_eq by (auto simp: attrs_decide_def hasUnknownOrCallerAttr_def)
  moreover have "(\<exists>q s. vaddr (mval (cmod E) q) = vaddr (mval (cmod E) r) \<and> VA G (q, 0) (l, 0) s)
      \<longleftrightarrow> (\<exists>q s. vaddr (mval (cmod E) q) = vaddr (mval (cmod E) l) \<and> VA G (q, 0) (r, 0) s)"
    using assms(2,3) sym by blast
  ultimately show ?thesis
    using mayAlias_form [OF st I ab, of ls rs] mayAlias_form [OF st I ab(2,1), of rs' ls'] by (simp split: option.split)
qed

lemma demo_cached: "\<exists>I c. ensureCached cfl_demo 2 2 0 anders0 = Done (Some I, c) \<and> good_info cfl_demo 0 I"
proof -
  have "case ensureCached cfl_demo 2 2 0 anders0 of Done (Some _, _) \<Rightarrow> True | _ \<Rightarrow> False"
    by code_simp
  then obtain I c where ens: "ensureCached cfl_demo 2 2 0 anders0 = Done (Some I, c)"
    by (auto split: outcome.splits option.splits)
  have "cache_good cfl_demo c"
    using spresD [OF ensureCached_frame ens] anders0_good(1) by (simp add: anders_le_def)
  then show ?thesis using ens ensureCached_cached [OF ens] by (auto simp: cache_good_def)
qed

theorem mayAlias_symmetric_witness:
  "\<exists>I c. ensureCached cfl_demo 2 2 0 anders0 = Done (Some I, c)
    \<and> mayAlias (cmod cfl_demo) I 2 0 6 0 = mayAlias (cmod cfl_demo) I 6 5 2 5"
proof -
  obtain I c where I: "ensureCached cfl_demo 2 2 0 anders0 = Done (Some I, c)" "good_info cfl_demo 0 I"
    using demo_cached by blast
  have "vaddr (mval (cmod cfl_demo) q) = vaddr (mval (cmod cfl_demo) 2) \<Longrightarrow> q = 2"
    "vaddr (mval (cmod cfl_demo) q) = vaddr (mval (cmod cfl_demo) 6) \<Longrightarrow> q = 6" for q
    by (auto simp: cfl_demo_def env0_def cfl_mod_def value0_def split: if_splits)
  from mayAlias_symmetric [OF I(2) this] show ?thesis using I(1) by blast
qed

text \<open>
  C11: Ensuring that a function is cached leaves every earlier entry of the cache as it is, leaves no
  entry under construction, and returns the information it cached for the function; every entry
  holds genuine information, computed to the fixpoint from a graph with the flow of its function.
\<close>
theorem cache_invariant:
  assumes "ensureCached E cn n F c = Done (I, c')" "cache_good E c" "at_rest c"
  shows "cache_good E c' \<and> at_rest c' \<and> I \<noteq> None \<and> map_of (anders_cache c') F = Some I
    \<and> (\<forall>G J. map_of (anders_cache c) G = Some J \<longrightarrow> map_of (anders_cache c') G = Some J)"
proof -
  have "anders_le E c c'" by (rule spresD [OF ensureCached_frame assms(1)])
  then show ?thesis
    using assms(2) ensureCached_rest [OF assms(1,3)] ensureCached_cached [OF assms(1)]
    by (auto simp: anders_le_def)
qed

theorem cache_invariant_witness:
  "\<exists>I c. ensureCached cfl_demo 2 2 0 anders0 = Done (I, c) \<and> at_rest c \<and> I \<noteq> None"
proof -
  obtain I c where "ensureCached cfl_demo 2 2 0 anders0 = Done (Some I, c)" using demo_cached by blast
  then show ?thesis using cache_invariant anders0_good by blast
qed

end
