(* ===== verification/StripCasts.thy ===== *)
theory StripCasts
  imports CallSite
begin

text \<open>
  Looking through casts, zero offsets and aliases of a pointer
  (\<^verbatim>\<open>stripPointerCastsAndOffsets\<close> in \<^verbatim>\<open>lib/IR/Value.cpp\<close>, for each of its kinds).
\<close>

section \<open>One step\<close>

datatype PointerStripKind = PSK_ZeroIndices | PSK_ZeroIndicesAndAliases
  | PSK_ZeroIndicesAndAliasesAndInvariantGroups | PSK_InBoundsConstantIndices | PSK_InBounds

definition hasAllZeroIndices :: "ir_env \<Rightarrow> vid \<Rightarrow> bool" where
  "hasAllZeroIndices X v = (\<forall>i\<in>set (tl (voperands (mval (xmod X) v))). xconstint X i = Some 0)"

definition hasAllConstantIndices :: "ir_env \<Rightarrow> vid \<Rightarrow> bool" where
  "hasAllConstantIndices X v = (\<forall>i\<in>set (tl (voperands (mval (xmod X) v))). xconstint X i \<noteq> None)"

definition gep_stops :: "PointerStripKind \<Rightarrow> ir_env \<Rightarrow> vid \<Rightarrow> bool" where
  "gep_stops k X v = (case k of
     PSK_InBoundsConstantIndices \<Rightarrow> \<not> hasAllConstantIndices X v \<or> \<not> xinbounds X v
   | PSK_InBounds \<Rightarrow> \<not> xinbounds X v
   | _ \<Rightarrow> \<not> hasAllZeroIndices X v)"

text \<open>The first parameter with the attribute, of the call or else of the called function.\<close>

definition returned_index :: "ir_env \<Rightarrow> vid \<Rightarrow> nat \<Rightarrow> nat option" where
  "returned_index X c n = List.find (\<lambda>i. AReturned \<in> xparamattr X c i) [0..<n]"

definition getReturnedArgOperand :: "ir_env \<Rightarrow> vid \<Rightarrow> vid option outcome" where
  "getReturnedArgOperand X c =
     (let arg = (\<lambda>i. case getArgOperand X c i of None \<Rightarrow> Crash | Some v \<Rightarrow> Done (Some v)) in
      case returned_index X c (length (call_args X c)) of
        Some i \<Rightarrow> arg i
      | None \<Rightarrow> (case called_function (xmod X) c of
            None \<Rightarrow> Done None
          | Some f \<Rightarrow> (case returned_index X f (length (fargs (mfun (xmod X) f))) of
                Some i \<Rightarrow> arg i | None \<Rightarrow> Done None)))"

definition getIntrinsicID :: "ir_env \<Rightarrow> vid \<Rightarrow> intrinsic option" where
  "getIntrinsicID X c = (if is_call_base (xmod X) c then xintrinsic X c else None)"

definition isIntrinsicReturningPointerAliasingArgumentWithoutCapturing :: "ir_env \<Rightarrow> vid \<Rightarrow> bool" where
  "isIntrinsicReturningPointerAliasingArgumentWithoutCapturing X c =
     (getIntrinsicID X c = Some ILaunderInvariantGroup \<or> getIntrinsicID X c = Some IStripInvariantGroup)"

text \<open>
  A step of the loop: the value is returned, or replaced by one whose type is asserted to be a pointer, or
  replaced by \<^verbatim>\<open>continue\<close>, which skips the assertion.
\<close>

datatype strip_step = SReturn | SStep vid | SContinue vid

definition step_to_operand :: "(vid \<Rightarrow> strip_step) \<Rightarrow> vid option \<Rightarrow> strip_step outcome" where
  "step_to_operand f x = (case x of None \<Rightarrow> Crash | Some w \<Rightarrow> Done (f w))"

definition strip_one :: "PointerStripKind \<Rightarrow> ir_env \<Rightarrow> vid \<Rightarrow> strip_step outcome" where
  "strip_one k X v = (let M = xmod X in
     if is_operator M OGetElementPtr v
     then if gep_stops k X v then Done SReturn else step_to_operand SStep (operand M v 0)
     else if is_operator M OBitCast v \<or> is_operator M OAddrSpaceCast v
     then step_to_operand SStep (operand M v 0)
     else if vkind (mval M v) = KGlobalAlias
     then if k = PSK_ZeroIndices \<or> xinterposable X v then Done SReturn
          else step_to_operand SStep (operand M v 0)
     else if is_call_base M v
     then case getReturnedArgOperand X v of
         Crash \<Rightarrow> Crash | OutOfFuel \<Rightarrow> OutOfFuel
       | Done (Some w) \<Rightarrow> Done (SContinue w)
       | Done None \<Rightarrow>
          if k = PSK_ZeroIndicesAndAliasesAndInvariantGroups
             \<and> isIntrinsicReturningPointerAliasingArgumentWithoutCapturing X v
          then step_to_operand SContinue (getArgOperand X v 0)
          else Done SReturn
     else Done SReturn)"

section \<open>The loop\<close>

fun strip_loop :: "nat \<Rightarrow> PointerStripKind \<Rightarrow> ir_env \<Rightarrow> vid set \<Rightarrow> vid \<Rightarrow> vid outcome" where
  "strip_loop 0 k X visited v = OutOfFuel"
| "strip_loop (Suc n) k X visited v =
    (let again = (\<lambda>w. if w \<in> visited then Done w else strip_loop n k X (insert w visited) w) in
     case strip_one k X v of
       Crash \<Rightarrow> Crash | OutOfFuel \<Rightarrow> OutOfFuel
     | Done SReturn \<Rightarrow> Done v
     | Done (SStep w) \<Rightarrow> if is_pointer (vtype (mval (xmod X) w)) then again w else Crash
     | Done (SContinue w) \<Rightarrow> again w)"

definition stripPointerCastsAndOffsets :: "nat \<Rightarrow> PointerStripKind \<Rightarrow> ir_env \<Rightarrow> vid \<Rightarrow> vid outcome" where
  "stripPointerCastsAndOffsets n k X v =
     (if \<not> is_pointer (vtype (mval (xmod X) v)) then Done v else strip_loop n k X {v} v)"

definition stripPointerCasts :: "nat \<Rightarrow> ir_env \<Rightarrow> vid \<Rightarrow> vid outcome" where
  "stripPointerCasts n X v = stripPointerCastsAndOffsets n PSK_ZeroIndicesAndAliases X v"

definition stripPointerCastsNoFollowAliases :: "nat \<Rightarrow> ir_env \<Rightarrow> vid \<Rightarrow> vid outcome" where
  "stripPointerCastsNoFollowAliases n X v = stripPointerCastsAndOffsets n PSK_ZeroIndices X v"

definition stripInBoundsConstantOffsets :: "nat \<Rightarrow> ir_env \<Rightarrow> vid \<Rightarrow> vid outcome" where
  "stripInBoundsConstantOffsets n X v = stripPointerCastsAndOffsets n PSK_InBoundsConstantIndices X v"

definition stripPointerCastsAndInvariantGroups :: "nat \<Rightarrow> ir_env \<Rightarrow> vid \<Rightarrow> vid outcome" where
  "stripPointerCastsAndInvariantGroups n X v =
     stripPointerCastsAndOffsets n PSK_ZeroIndicesAndAliasesAndInvariantGroups X v"

definition stripInBoundsOffsets :: "nat \<Rightarrow> ir_env \<Rightarrow> vid \<Rightarrow> vid outcome" where
  "stripInBoundsOffsets n X v = stripPointerCastsAndOffsets n PSK_InBounds X v"

section \<open>It returns the end of the chain\<close>

definition strip_next :: "PointerStripKind \<Rightarrow> ir_env \<Rightarrow> (vid \<times> vid) set" where
  "strip_next k X = {(v, w). strip_one k X v = Done (SStep w) \<or> strip_one k X v = Done (SContinue w)}"

text \<open>Operands are there and have the types the verifier of the IR demands.\<close>

definition strip_ok :: "PointerStripKind \<Rightarrow> ir_env \<Rightarrow> bool" where
  "strip_ok k X = (\<forall>v. (\<exists>s. strip_one k X v = Done s)
     \<and> (\<forall>w. strip_one k X v = Done (SStep w) \<longrightarrow> is_pointer (vtype (mval (xmod X) w))))"

text \<open>The value stripping ends at: one without a step, or one on a cycle of unreachable code.\<close>

definition strip_end :: "PointerStripKind \<Rightarrow> ir_env \<Rightarrow> vid \<Rightarrow> vid \<Rightarrow> bool" where
  "strip_end k X v w = ((v, w) \<in> (strip_next k X)\<^sup>*
     \<and> (strip_one k X w = Done SReturn \<or> (w, w) \<in> (strip_next k X)\<^sup>+))"

lemma strip_loop_ends:
  assumes "strip_ok k X" "finite S" "visited \<subseteq> S" "v \<in> visited" "strip_next k X `` S \<subseteq> S"
    and "\<And>u. u \<in> visited \<Longrightarrow> (u, v) \<in> (strip_next k X)\<^sup>*" "card (S - visited) < n"
  shows "\<exists>w. strip_loop n k X visited v = Done w \<and> strip_end k X v w"
  using assms
proof (induction n arbitrary: visited v)
  case 0 then show ?case by simp
next
  case (Suc n)
  have again: "\<exists>u. (if w \<in> visited then Done w else strip_loop n k X (insert w visited) w) = Done u \<and> strip_end k X v u"
    if "(v, w) \<in> strip_next k X" for w
  proof (cases "w \<in> visited")
    case True
    with Suc.prems(6) that have "(w, w) \<in> (strip_next k X)\<^sup>+" by (blast intro: rtrancl_into_trancl1)
    with True that show ?thesis by (auto simp: strip_end_def)
  next
    case False
    have "w \<in> S" using that Suc.prems(3-5) by blast
    with False Suc.prems(2) have "card (S - insert w visited) < card (S - visited)"
      by (intro psubset_card_mono) auto
    moreover have "(u, w) \<in> (strip_next k X)\<^sup>*" if "u \<in> insert w visited" for u
      using that Suc.prems(6) \<open>(v, w) \<in> strip_next k X\<close> by (blast intro: rtrancl_into_rtrancl)
    ultimately obtain u where "strip_loop n k X (insert w visited) w = Done u" "strip_end k X w u"
      using Suc.IH [of "insert w visited" w] Suc.prems \<open>w \<in> S\<close> by auto
    with False that show ?thesis by (auto simp: strip_end_def intro: converse_rtrancl_into_rtrancl)
  qed
  obtain s where s: "strip_one k X v = Done s" using Suc.prems(1) by (auto simp: strip_ok_def)
  show ?case
  proof (cases s)
    case SReturn with s show ?thesis by (auto simp: strip_end_def)
  next
    case (SStep w)
    with s Suc.prems(1) have "is_pointer (vtype (mval (xmod X) w))" by (auto simp: strip_ok_def)
    with s SStep again [of w] show ?thesis by (simp add: strip_next_def Let_def)
  next
    case (SContinue w)
    with s again [of w] show ?thesis by (simp add: strip_next_def Let_def)
  qed
qed

lemma strip_ends:
  assumes "strip_ok k X" "finite S" "v \<in> S" "strip_next k X `` S \<subseteq> S" "card S \<le> n"
    and "is_pointer (vtype (mval (xmod X) v))"
  shows "\<exists>w. stripPointerCastsAndOffsets n k X v = Done w \<and> strip_end k X v w"
proof -
  have "card (S - {v}) < n" using assms(2,3,5) by (metis card_Diff1_less order_less_le_trans)
  with strip_loop_ends [OF assms(1,2), of "{v}" v n] assms(3,4,6)
  show ?thesis by (auto simp: stripPointerCastsAndOffsets_def)
qed

text \<open>
  C40: stripping returns, for each of its kinds: with a round for every value of a closed set the pointer lies in
  it ends at a value the chain of casts leads to, one that is stripped no further or one on a cycle (in
  unreachable code).
\<close>

theorem strip_returns:
  assumes "strip_ok k X" "finite S" "v \<in> S" "strip_next k X `` S \<subseteq> S" "card S \<le> n"
    and "is_pointer (vtype (mval (xmod X) v))"
  shows "\<exists>w. stripPointerCastsAndOffsets n k X v = Done w \<and> strip_end k X v w"
  using strip_ends [OF assms] .

text \<open>A bitcast of a bitcast of an allocation, and a bitcast on a cycle with itself.\<close>

definition strip_demo :: ir_env where
  "strip_demo = env0 \<lparr>mval = (\<lambda>v. if v = 1 then value0\<lparr>vkind := KInstruction OAlloca, vtype := PointerTy 0 (IntTy 8)\<rparr>
       else if v = 2 \<or> v = 3 then value0\<lparr>vkind := KInstruction OBitCast, vtype := PointerTy 0 (IntTy 8), voperands := [v - 1]\<rparr>
       else if v = 4 then value0\<lparr>vkind := KInstruction OBitCast, vtype := PointerTy 0 (IntTy 8), voperands := [4]\<rparr>
       else value0), mfun = (\<lambda>_. function0)\<rparr>"

lemma strip_demo_one:
  "strip_one k strip_demo v = Done (if v = 2 \<or> v = 3 then SStep (v - 1) else if v = 4 then SStep 4 else SReturn)"
  by (simp add: strip_one_def strip_demo_def env0_def is_operator_def is_call_base_def is_op_def value0_def
      step_to_operand_def operand_def)

theorem strip_returns_witness:
  "\<exists>w. stripPointerCastsAndOffsets 4 PSK_InBounds strip_demo 3 = Done w \<and> strip_end PSK_InBounds strip_demo 3 w"
proof (rule strip_returns [where S = "{1, 2, 3, 4}"])
  show "strip_ok PSK_InBounds strip_demo"
    by (auto simp: strip_ok_def strip_demo_one) (simp_all add: strip_demo_def env0_def is_pointer_def)
  show "strip_next PSK_InBounds strip_demo `` {1, 2, 3, 4} \<subseteq> {1, 2, 3, 4}"
    by (auto simp: strip_next_def strip_demo_one split: if_splits)
qed (simp_all add: strip_demo_def env0_def is_pointer_def)

end
