(* ===== verification/OrderedBB.thy ===== *)
theory OrderedBB
  imports IR
begin

text \<open>
  The numbering of the instructions of a basic block
  (\<^verbatim>\<open>lib/Analysis/OrderedBasicBlock.cpp\<close>): a block is the list of its instructions, numbered lazily
  from the front as far as the queries need. The positions are natural numbers; the source's
  \<^verbatim>\<open>unsigned\<close> counts instructions of one block and does not reach its limit.
\<close>

section \<open>The class\<close>

record obb =
  numbered :: "vid \<rightharpoonup> nat"
  lastFound :: "vid option" \<comment> \<open>\<^verbatim>\<open>BB->end()\<close> is \<open>None\<close>\<close>
  nextPos :: nat

definition obb_new :: obb where
  "obb_new = \<lparr>numbered = Map.empty, lastFound = None, nextPos = 0\<rparr>"

text \<open>The instructions after the last one found; the whole block at the start.\<close>

definition insts_after :: "vid option \<Rightarrow> vid list \<Rightarrow> vid list" where
  "insts_after l bb = (case l of None \<Rightarrow> bb | Some x \<Rightarrow> tl (dropWhile (\<lambda>y. y \<noteq> x) bb))"

definition number_inst :: "vid \<Rightarrow> obb \<Rightarrow> obb" where
  "number_inst x s = s\<lparr>numbered := (numbered s)(x \<mapsto> nextPos s), nextPos := Suc (nextPos s)\<rparr>"

fun number_until :: "vid \<Rightarrow> vid \<Rightarrow> vid list \<Rightarrow> obb \<Rightarrow> (vid \<times> obb) option" where
  "number_until a b [] s = None"
| "number_until a b (x # xs) s =
     (if x = a \<or> x = b then Some (x, (number_inst x s)\<lparr>lastFound := Some x\<rparr>)
      else number_until a b xs (number_inst x s))"

definition comesBefore :: "vid list \<Rightarrow> vid \<Rightarrow> vid \<Rightarrow> (obb, bool) smon" where
  "comesBefore bb a b = (\<lambda>s.
     if lastFound s = None \<and> nextPos s \<noteq> 0 then Crash
     else if a \<notin> set bb \<or> b \<notin> set bb then Crash
     else case number_until a b (insts_after (lastFound s) bb) s of
       None \<Rightarrow> Crash | Some (x, s') \<Rightarrow> Done (x \<noteq> b, s'))"

definition obb_dominates :: "vid list \<Rightarrow> vid \<Rightarrow> vid \<Rightarrow> (obb, bool) smon" where
  "obb_dominates bb a b = (\<lambda>s.
     if a \<notin> set bb \<or> b \<notin> set bb then Crash
     else case (numbered s a, numbered s b) of
       (Some i, Some j) \<Rightarrow> Done (i < j, s)
     | (Some i, None) \<Rightarrow> Done (True, s)
     | (None, Some j) \<Rightarrow> Done (False, s)
     | (None, None) \<Rightarrow> comesBefore bb a b s)"

definition inst_before :: "vid list \<Rightarrow> vid \<Rightarrow> vid option" where
  "inst_before bb x = (case rev (takeWhile (\<lambda>y. y \<noteq> x) bb) of [] \<Rightarrow> None | y # _ \<Rightarrow> Some y)"

definition eraseInstruction :: "vid list \<Rightarrow> vid \<Rightarrow> obb \<Rightarrow> obb" where
  "eraseInstruction bb i s =
     (let s' = (if lastFound s = Some i
                then if bb \<noteq> [] \<and> hd bb = i then s\<lparr>lastFound := None, nextPos := 0\<rparr>
                     else s\<lparr>lastFound := inst_before bb i\<rparr>
                else s)
      in s'\<lparr>numbered := (numbered s')(i := None)\<rparr>)"

definition replaceInstruction :: "vid \<Rightarrow> vid \<Rightarrow> obb \<Rightarrow> obb" where
  "replaceInstruction old new s = (case numbered s old of
       None \<Rightarrow> s
     | Some n \<Rightarrow>
        let nm = (if numbered s new = None then (numbered s)(new \<mapsto> n) else numbered s)
        in s\<lparr>numbered := nm(old := None),
             lastFound := (if lastFound s = Some old then Some new else lastFound s)\<rparr>)"

section \<open>The order it stands for\<close>

definition comes_before :: "'a list \<Rightarrow> 'a \<Rightarrow> 'a \<Rightarrow> bool" where
  "comes_before bb a b = (\<exists>xs ys zs. bb = xs @ a # ys @ b # zs)"

text \<open>
  The numbered instructions are a prefix of the block, numbered in increasing order below the next
  position, and the last one found is its end.
\<close>

definition numbered_in :: "vid list \<Rightarrow> obb \<Rightarrow> bool" where
  "numbered_in pre s = (dom (numbered s) = set pre
     \<and> sorted_wrt (\<lambda>x y. the (numbered s x) < the (numbered s y)) pre
     \<and> (\<forall>x\<in>set pre. the (numbered s x) < nextPos s))"

definition obb_prefix :: "vid list \<Rightarrow> obb \<Rightarrow> bool" where
  "obb_prefix pre s = (numbered_in pre s
     \<and> (if pre = [] then lastFound s = None \<and> nextPos s = 0 else lastFound s = Some (List.last pre)))"

definition obb_inv :: "vid list \<Rightarrow> obb \<Rightarrow> bool" where
  "obb_inv bb s = (distinct bb \<and> (\<exists>pre post. bb = pre @ post \<and> obb_prefix pre s))"

text \<open>
  A client queries the order while it erases and replaces instructions. \<open>order_spec\<close> are the answers for the
  block as it is at each query.
\<close>

datatype order_op = Before vid vid | Erase vid | Replace vid vid

fun order_run ::
  "(vid list \<Rightarrow> vid \<Rightarrow> vid \<Rightarrow> ('s, bool) smon) \<Rightarrow> (vid list \<Rightarrow> vid \<Rightarrow> 's \<Rightarrow> 's) \<Rightarrow> (vid \<Rightarrow> vid \<Rightarrow> 's \<Rightarrow> 's)
   \<Rightarrow> order_op list \<Rightarrow> vid list \<Rightarrow> ('s, bool list) smon" where
  "order_run q e r [] bb s = Done ([], s)"
| "order_run q e r (Before a b # ops) bb s =
     sbind (q bb a b) (\<lambda>x. sbind (order_run q e r ops bb) (\<lambda>xs. sret (x # xs))) s"
| "order_run q e r (Erase i # ops) bb s = order_run q e r ops (remove1 i bb) (e bb i s)"
| "order_run q e r (Replace old new # ops) bb s =
     order_run q e r ops (map (\<lambda>x. if x = old then new else x) bb) (r old new s)"

fun order_spec :: "order_op list \<Rightarrow> vid list \<Rightarrow> bool list" where
  "order_spec [] bb = []"
| "order_spec (Before a b # ops) bb = comes_before bb a b # order_spec ops bb"
| "order_spec (Erase i # ops) bb = order_spec ops (remove1 i bb)"
| "order_spec (Replace old new # ops) bb = order_spec ops (map (\<lambda>x. if x = old then new else x) bb)"

fun order_ops_ok :: "order_op list \<Rightarrow> vid list \<Rightarrow> bool" where
  "order_ops_ok [] bb = True"
| "order_ops_ok (Before a b # ops) bb = (a \<in> set bb \<and> b \<in> set bb \<and> order_ops_ok ops bb)"
| "order_ops_ok (Erase i # ops) bb = (i \<in> set bb \<and> order_ops_ok ops (remove1 i bb))"
| "order_ops_ok (Replace old new # ops) bb =
     (old \<in> set bb \<and> new \<notin> set bb \<and> order_ops_ok ops (map (\<lambda>x. if x = old then new else x) bb))"

text \<open>What a client of the ordering relies on.\<close>

locale block_order =
  fixes ordered :: "vid list \<Rightarrow> 's \<Rightarrow> bool" and new_order :: 's
    and before :: "vid list \<Rightarrow> vid \<Rightarrow> vid \<Rightarrow> ('s, bool) smon"
    and erase :: "vid list \<Rightarrow> vid \<Rightarrow> 's \<Rightarrow> 's" and replace :: "vid \<Rightarrow> vid \<Rightarrow> 's \<Rightarrow> 's"
  assumes new_ordered: "distinct bb \<Longrightarrow> ordered bb new_order"
    and before_exact: "ordered bb s \<Longrightarrow> a \<in> set bb \<Longrightarrow> b \<in> set bb
      \<Longrightarrow> \<exists>t. before bb a b s = Done (comes_before bb a b, t) \<and> ordered bb t"
    and erase_ordered: "ordered bb s \<Longrightarrow> i \<in> set bb \<Longrightarrow> ordered (remove1 i bb) (erase bb i s)"
    and replace_ordered: "ordered bb s \<Longrightarrow> old \<in> set bb \<Longrightarrow> new \<notin> set bb
      \<Longrightarrow> ordered (map (\<lambda>x. if x = old then new else x) bb) (replace old new s)"
begin

lemma run_exact:
  assumes "ordered bb s" "order_ops_ok ops bb"
  shows "\<exists>t. order_run before erase replace ops bb s = Done (order_spec ops bb, t)"
  using assms
proof (induction ops bb arbitrary: s rule: order_spec.induct)
  case (2 a b ops bb)
  then obtain t where "before bb a b s = Done (comes_before bb a b, t)" "ordered bb t"
    using before_exact [of bb s a b] by auto
  moreover from 2 calculation(2) obtain u where "order_run before erase replace ops bb t = Done (order_spec ops bb, u)"
    by auto
  ultimately show ?case by (simp add: smon_defs)
qed (simp_all add: erase_ordered replace_ordered)

end

section \<open>The numbering keeps the order\<close>

lemma comes_before_simps [simp]:
  "\<not> comes_before [] a b"
  "comes_before (x # xs) a b \<longleftrightarrow> x = a \<and> b \<in> set xs \<or> comes_before xs a b"
proof -
  show "\<not> comes_before [] a b" by (simp add: comes_before_def)
  have "comes_before (x # xs) a b" if "comes_before xs a b"
    using that unfolding comes_before_def by (metis append_Cons)
  moreover have "comes_before (x # xs) a b" if "x = a" "b \<in> set xs"
    using that split_list [of b xs] unfolding comes_before_def by (metis append_Nil)
  moreover have "x = a \<and> b \<in> set xs \<or> comes_before xs a b" if asm: "comes_before (x # xs) a b"
  proof -
    obtain us vs ws where "x # xs = us @ a # vs @ b # ws" using asm unfolding comes_before_def by blast
    then show ?thesis by (cases us) (auto simp: comes_before_def)
  qed
  ultimately show "comes_before (x # xs) a b \<longleftrightarrow> x = a \<and> b \<in> set xs \<or> comes_before xs a b" by blast
qed

lemma comes_before_in: "comes_before xs a b \<Longrightarrow> a \<in> set xs \<and> b \<in> set xs"
  by (induction xs) auto

lemma comes_before_append:
  "comes_before (xs @ ys) a b \<longleftrightarrow> comes_before xs a b \<or> comes_before ys a b \<or> a \<in> set xs \<and> b \<in> set ys"
  by (induction xs) auto

lemma sorted_comes_before:
  assumes "sorted_wrt (\<lambda>x y. (f x :: nat) < f y) xs" "a \<in> set xs" "b \<in> set xs"
  shows "comes_before xs a b \<longleftrightarrow> f a < f b"
  using assms by (induction xs) (auto dest: comes_before_in less_asym)

lemma numbered_in_step:
  assumes "numbered_in pre s" "x \<notin> set pre"
  shows "numbered_in (pre @ [x]) (number_inst x s)"
proof -
  have "sorted_wrt (\<lambda>y z. the (numbered (number_inst x s) y) < the (numbered (number_inst x s) z)) pre"
    using assms by (auto simp: numbered_in_def number_inst_def intro: sorted_wrt_mono_rel [rotated])
  with assms show ?thesis
    by (auto simp: numbered_in_def number_inst_def sorted_wrt_append intro: less_SucI)
qed

lemma number_until_found:
  assumes "numbered_in pre s" "distinct (pre @ xs)" "a \<in> set xs \<or> b \<in> set xs"
  shows "\<exists>x t ys zs. number_until a b xs s = Some (x, t) \<and> xs = ys @ x # zs \<and> x \<in> {a, b}
    \<and> a \<notin> set ys \<and> b \<notin> set ys \<and> obb_prefix (pre @ ys @ [x]) t"
  using assms
proof (induction xs arbitrary: pre s)
  case Nil then show ?case by simp
next
  case (Cons y xs)
  have step: "numbered_in (pre @ [y]) (number_inst y s)" using Cons.prems by (intro numbered_in_step) auto
  show ?case
  proof (cases "y = a \<or> y = b")
    case True
    then have "number_until a b (y # xs) s = Some (y, (number_inst y s)\<lparr>lastFound := Some y\<rparr>)" by simp
    moreover have "obb_prefix (pre @ [] @ [y]) ((number_inst y s)\<lparr>lastFound := Some y\<rparr>)"
      using step by (simp add: obb_prefix_def numbered_in_def)
    ultimately show ?thesis using True by (metis append_Nil empty_iff insert_iff list.set(1))
  next
    case False
    with Cons.IH [OF step] Cons.prems
    obtain x t ys zs where r: "number_until a b xs (number_inst y s) = Some (x, t)" "xs = ys @ x # zs"
      "x \<in> {a, b}" "a \<notin> set ys" "b \<notin> set ys" "obb_prefix ((pre @ [y]) @ ys @ [x]) t"
      by auto
    from r False have "number_until a b (y # xs) s = Some (x, t) \<and> y # xs = (y # ys) @ x # zs \<and> x \<in> {a, b}
      \<and> a \<notin> set (y # ys) \<and> b \<notin> set (y # ys) \<and> obb_prefix (pre @ (y # ys) @ [x]) t" by simp
    then show ?thesis by blast
  qed
qed

lemma insts_after_prefix:
  assumes "obb_prefix pre s" "distinct (pre @ post)"
  shows "insts_after (lastFound s) (pre @ post) = post"
proof (cases pre rule: rev_cases)
  case Nil with assms show ?thesis by (simp add: obb_prefix_def insts_after_def)
next
  case (snoc us l)
  with assms have "lastFound s = Some l" "l \<notin> set us" by (auto simp: obb_prefix_def)
  then have "dropWhile (\<lambda>y. y \<noteq> l) (us @ l # post) = l # post"
    by (subst dropWhile_append2) auto
  with snoc \<open>lastFound s = Some l\<close> show ?thesis by (simp add: insts_after_def)
qed

lemma comesBefore_exact:
  assumes "bb = pre @ post" "distinct bb" "obb_prefix pre s" "a \<in> set post" "b \<in> set post"
  shows "\<exists>t. comesBefore bb a b s = Done (comes_before bb a b, t) \<and> obb_inv bb t"
proof -
  have "numbered_in pre s" using assms(3) by (simp add: obb_prefix_def)
  from number_until_found [OF this, of post a b] assms
  obtain x t ys zs where f: "number_until a b post s = Some (x, t)" "post = ys @ x # zs" "x \<in> {a, b}"
    "a \<notin> set ys" "b \<notin> set ys" "obb_prefix (pre @ ys @ [x]) t" by auto
  have "\<not> (lastFound s = None \<and> nextPos s \<noteq> 0)" using assms(3) by (auto simp: obb_prefix_def split: if_splits)
  moreover have "insts_after (lastFound s) bb = post" using insts_after_prefix [OF assms(3)] assms by simp
  moreover have "a \<in> set bb" "b \<in> set bb" using assms by auto
  ultimately have "comesBefore bb a b s = Done (x \<noteq> b, t)" by (simp add: comesBefore_def f(1))
  moreover have "x \<noteq> b \<longleftrightarrow> comes_before bb a b"
    using f assms by (auto simp: comes_before_append dest: comes_before_in)
  moreover have "bb = (pre @ ys @ [x]) @ zs" using f(2) assms(1) by simp
  with f(6) assms(2) have "obb_inv bb t" unfolding obb_inv_def by blast
  ultimately show ?thesis by simp
qed

lemma obb_dominates_before:
  assumes "obb_inv bb s" "a \<in> set bb" "b \<in> set bb"
  shows "\<exists>t. obb_dominates bb a b s = Done (comes_before bb a b, t) \<and> obb_inv bb t"
proof -
  obtain pre post where bb: "bb = pre @ post" "obb_prefix pre s" "distinct bb"
    using assms(1) by (auto simp: obb_inv_def)
  have dom: "dom (numbered s) = set pre" and srt: "sorted_wrt (\<lambda>x y. the (numbered s x) < the (numbered s y)) pre"
    using bb(2) by (simp_all add: obb_prefix_def numbered_in_def)
  have num: "numbered s x = (if x \<in> set pre then Some (the (numbered s x)) else None)" for x
    using dom by (metis domIff option.collapse)
  show ?thesis
  proof (cases "a \<in> set pre \<or> b \<in> set pre")
    case True
    have "obb_dominates bb a b s = Done (comes_before bb a b, s)"
      using True bb assms sorted_comes_before [OF srt, of a b]
      by (subst obb_dominates_def, subst num [of a], subst num [of b])
        (auto simp: comes_before_append dest: comes_before_in)
    then show ?thesis using assms(1) by blast
  next
    case False
    then have "obb_dominates bb a b s = comesBefore bb a b s"
      using assms by (subst obb_dominates_def, subst num [of a], subst num [of b]) simp
    moreover have "a \<in> set post" "b \<in> set post" using False assms bb(1) by auto
    ultimately show ?thesis using comesBefore_exact [OF bb(1,3,2)] by simp
  qed
qed

section \<open>Erasing and replacing instructions\<close>

lemma numbered_in_erase:
  assumes "numbered_in pre s" "distinct pre"
  shows "numbered_in (remove1 i pre) (s\<lparr>numbered := (numbered s)(i := None)\<rparr>)"
proof -
  have "sorted_wrt (\<lambda>x y. the (((numbered s)(i := None)) x) < the (((numbered s)(i := None)) y)) (filter (\<lambda>x. x \<noteq> i) pre)"
  proof (rule sorted_wrt_mono_rel)
    show "sorted_wrt (\<lambda>x y. the (numbered s x) < the (numbered s y)) (filter (\<lambda>x. x \<noteq> i) pre)"
      using assms(1) by (simp add: numbered_in_def sorted_wrt_filter)
  qed simp
  moreover have "remove1 i pre = filter (\<lambda>x. x \<noteq> i) pre"
    using assms(2) by (simp add: distinct_remove1_removeAll removeAll_filter_not_eq eq_commute)
  ultimately show ?thesis using assms(1) by (auto simp: numbered_in_def)
qed

lemma inst_before_last: "i \<notin> set us \<Longrightarrow> us \<noteq> [] \<Longrightarrow> inst_before (us @ i # post) i = Some (List.last us)"
proof -
  assume "i \<notin> set us" "us \<noteq> []"
  then have "takeWhile (\<lambda>y. y \<noteq> i) (us @ i # post) = us" by (subst takeWhile_append2) auto
  with \<open>us \<noteq> []\<close> show ?thesis by (cases us rule: rev_cases) (simp_all add: inst_before_def)
qed

lemma eraseInstruction_ordered:
  assumes "obb_inv bb s" "i \<in> set bb"
  shows "obb_inv (remove1 i bb) (eraseInstruction bb i s)"
proof -
  obtain pre post where bb: "bb = pre @ post" "obb_prefix pre s" "distinct bb"
    using assms(1) by (auto simp: obb_inv_def)
  have n: "numbered_in pre s" using bb(2) by (simp add: obb_prefix_def)
  consider "i \<notin> set pre" | us where "pre = us @ [i]" | us l where "pre = us @ [l]" "i \<in> set us" "i \<noteq> l"
    by (cases pre rule: rev_cases) auto
  then show ?thesis
  proof cases
    case 1
    then have "numbered s i = None" "lastFound s \<noteq> Some i"
      using bb(2) by (auto simp: obb_prefix_def numbered_in_def split: if_splits)
    then have "eraseInstruction bb i s = s" by (simp add: eraseInstruction_def fun_upd_idem)
    moreover have "remove1 i bb = pre @ remove1 i post" using 1 bb(1) by (simp add: remove1_append)
    ultimately show ?thesis using bb(2,3) unfolding obb_inv_def by (metis distinct_remove1)
  next
    case 2
    then have last: "lastFound s = Some i" using bb(2) by (simp add: obb_prefix_def)
    have i: "i \<notin> set us" using 2 bb by simp
    then have nus: "numbered_in us (s\<lparr>numbered := (numbered s)(i := None)\<rparr>)"
      using numbered_in_erase [OF n, of i] 2 bb by (simp add: remove1_append)
    have "obb_prefix us (eraseInstruction bb i s)"
    proof (cases us)
      case Nil with nus 2 bb(1) last show ?thesis
        by (simp add: eraseInstruction_def obb_prefix_def numbered_in_def)
    next
      case (Cons u us')
      then have "hd bb \<noteq> i" "inst_before bb i = Some (List.last us)"
        using 2 bb(1) i inst_before_last [of i us post] by auto
      with nus Cons last show ?thesis by (simp add: eraseInstruction_def obb_prefix_def numbered_in_def)
    qed
    moreover have "remove1 i bb = us @ post" using 2 bb(1) i by (simp add: remove1_append)
    ultimately show ?thesis using bb(3) unfolding obb_inv_def by (metis distinct_remove1)
  next
    case 3
    then have "lastFound s = Some l" using bb(2) by (simp add: obb_prefix_def)
    with 3 have "eraseInstruction bb i s = s\<lparr>numbered := (numbered s)(i := None)\<rparr>"
      by (simp add: eraseInstruction_def)
    then have "obb_prefix (remove1 i us @ [l]) (eraseInstruction bb i s)"
      using numbered_in_erase [OF n, of i] 3 bb \<open>lastFound s = Some l\<close>
      by (simp add: obb_prefix_def remove1_append)
    moreover have "remove1 i bb = (remove1 i us @ [l]) @ post" using 3 bb(1) by (simp add: remove1_append)
    ultimately show ?thesis using bb(3) unfolding obb_inv_def by (metis distinct_remove1)
  qed
qed

lemma replaceInstruction_ordered:
  assumes "obb_inv bb s" "old \<in> set bb" "new \<notin> set bb"
  shows "obb_inv (map (\<lambda>x. if x = old then new else x) bb) (replaceInstruction old new s)"
proof -
  let ?f = "\<lambda>x. if x = old then new else x"
  obtain pre post where bb: "bb = pre @ post" "obb_prefix pre s" "distinct bb"
    using assms(1) by (auto simp: obb_inv_def)
  have n: "numbered_in pre s" using bb(2) by (simp add: obb_prefix_def)
  have "inj_on ?f (set bb)" using assms(3) by (auto simp: inj_on_def)
  with bb(3) have d: "distinct (map ?f bb)" by (simp add: distinct_map)
  have "obb_prefix (map ?f pre) (replaceInstruction old new s)"
  proof (cases "old \<in> set pre")
    case False
    then have "numbered s old = None" "map ?f pre = pre"
      using n by (auto simp: numbered_in_def intro!: map_idI)
    with bb(2) show ?thesis by (simp add: replaceInstruction_def)
  next
    case True
    then obtain k where k: "numbered s old = Some k" using n by (auto simp: numbered_in_def)
    have new: "numbered s new = None" "new \<notin> set pre" "new \<noteq> old"
      using n assms(2,3) bb(1) by (auto simp: numbered_in_def)
    have at: "numbered (replaceInstruction old new s) (?f x) = numbered s x" if "x \<in> set pre" for x
      using that k new by (auto simp: replaceInstruction_def)
    have "sorted_wrt (\<lambda>x y. the (numbered (replaceInstruction old new s) (?f x))
        < the (numbered (replaceInstruction old new s) (?f y))) pre"
    proof (rule sorted_wrt_mono_rel)
      show "sorted_wrt (\<lambda>x y. the (numbered s x) < the (numbered s y)) pre"
        using n by (simp add: numbered_in_def)
    qed (simp only: at)
    moreover have "dom (numbered (replaceInstruction old new s)) = set (map ?f pre)"
      using n k new True by (auto simp: numbered_in_def replaceInstruction_def)
    ultimately have "numbered_in (map ?f pre) (replaceInstruction old new s)"
      using n at k new unfolding numbered_in_def sorted_wrt_map by (auto simp: replaceInstruction_def)
    moreover have "pre \<noteq> []" using True by auto
    with bb(2) have "lastFound s = Some (List.last pre)" by (simp add: obb_prefix_def)
    then have "lastFound (replaceInstruction old new s) = Some (?f (List.last pre))"
      by (simp add: replaceInstruction_def k)
    ultimately show ?thesis using \<open>pre \<noteq> []\<close> by (simp add: obb_prefix_def last_map)
  qed
  moreover have "map ?f bb = map ?f pre @ map ?f post" using bb(1) by simp
  ultimately show ?thesis using d unfolding obb_inv_def by blast
qed

interpretation obb: block_order obb_inv obb_new obb_dominates eraseInstruction replaceInstruction
proof unfold_locales
  show "obb_inv bb obb_new" if "distinct bb" for bb
    using that unfolding obb_inv_def
    by (intro conjI exI [of _ "[]"] exI [of _ bb]) (simp_all add: obb_prefix_def numbered_in_def obb_new_def)
qed (fact obb_dominates_before eraseInstruction_ordered replaceInstruction_ordered)+

section \<open>Queries while the block changes\<close>

text \<open>
  C31: the lazy numbering answers every query as the order of the instructions in the block does, however
  queries, erased and replaced instructions follow each other. It implements the list order, and none of
  its assertions fails.
\<close>

theorem ordered_block_refines:
  assumes "distinct bb" "order_ops_ok ops bb"
  shows "\<exists>t. order_run obb_dominates eraseInstruction replaceInstruction ops bb obb_new = Done (order_spec ops bb, t)"
  using obb.run_exact [OF obb.new_ordered [OF assms(1)] assms(2)] .

theorem ordered_block_refines_witness:
  "\<exists>t. order_run obb_dominates eraseInstruction replaceInstruction
     [Before 3 2, Before 3 3, Erase 2, Before 1 3, Replace 1 5, Before 3 5, Erase 5, Before 3 3] [1, 2, 3, 4] obb_new
   = Done ([False, False, True, False, False], t)"
  using ordered_block_refines [of "[1, 2, 3, 4]"
      "[Before 3 2, Before 3 3, Erase 2, Before 1 3, Replace 1 5, Before 3 5, Erase 5, Before 3 3]"] by simp

end
