(* ===== verification/CFGReach.thy ===== *)
theory CFGReach
  imports OrderedBB
begin

text \<open>
  Reachability between blocks and instructions of a function (\<^verbatim>\<open>lib/Analysis/CFG.cpp\<close>). The dominator tree
  and the loop forest are given as what the queries read of them; both may be null. A loop is a value
  with its identity, its exit blocks and its parent, so that walking to the outermost loop is structural.
\<close>

section \<open>Control flow\<close>

record ir_cfg =
  cfg_insts :: "vid \<Rightarrow> vid list" \<comment> \<open>the instructions of a block\<close>
  cfg_parent :: "vid \<Rightarrow> vid" \<comment> \<open>the block of an instruction\<close>
  cfg_succs :: "vid \<Rightarrow> vid list" \<comment> \<open>the successors of the terminator of a block\<close>
  cfg_entry :: vid

record dom_tree =
  dt_reachable :: "vid \<Rightarrow> bool" \<comment> \<open>\<^verbatim>\<open>isReachableFromEntry\<close>\<close>
  dt_dominates :: "vid \<Rightarrow> vid \<Rightarrow> bool" \<comment> \<open>between blocks\<close>
  dt_dominates_inst :: "vid \<Rightarrow> vid \<Rightarrow> bool" \<comment> \<open>between instructions\<close>

datatype cfg_loop = Loop (loop_id: nat) (loop_exits: "vid list") (loop_outer: "cfg_loop option")

type_synonym loop_info = "vid \<Rightarrow> cfg_loop option" \<comment> \<open>\<^verbatim>\<open>getLoopFor\<close>\<close>

fun outermost :: "cfg_loop \<Rightarrow> cfg_loop" where
  "outermost (Loop i ex None) = Loop i ex None"
| "outermost (Loop i ex (Some p)) = outermost p"

definition getOutermostLoop :: "loop_info \<Rightarrow> vid \<Rightarrow> cfg_loop option" where
  "getOutermostLoop li b = map_option outermost (li b)"

fun successor_from :: "nat \<Rightarrow> vid list \<Rightarrow> vid \<Rightarrow> nat option" where
  "successor_from i [] s = None"
| "successor_from i (x # xs) s = (if x = s then Some i else successor_from (Suc i) xs s)"

definition GetSuccessorNumber :: "ir_cfg \<Rightarrow> vid \<Rightarrow> vid \<Rightarrow> nat option" where
  "GetSuccessorNumber G b s = successor_from 0 (cfg_succs G b) s"

section \<open>The worklist\<close>

text \<open>
  What a query fixes before its loop: the stop block, the exclusion set, the dominator tree if it may be
  used, the loops, and the loops with holes.
\<close>

record reach_query =
  rq_stop :: vid
  rq_excluded :: "vid set"
  rq_dom :: "dom_tree option"
  rq_loops :: "loop_info option"
  rq_holes :: "cfg_loop set"
  rq_stop_loop :: "cfg_loop option"

text \<open>The loop a visited block is skipped to the exits of, and whether it is the one of the stop block.\<close>

definition skip_loop :: "reach_query \<Rightarrow> vid \<Rightarrow> cfg_loop option" where
  "skip_loop Q b = (case rq_loops Q of None \<Rightarrow> None
     | Some li \<Rightarrow> (case getOutermostLoop li b of None \<Rightarrow> None
         | Some L \<Rightarrow> if L \<in> rq_holes Q then None else Some L))"

definition in_stop_loop :: "reach_query \<Rightarrow> vid \<Rightarrow> bool" where
  "in_stop_loop Q b = (rq_loops Q \<noteq> None \<and> rq_stop_loop Q \<noteq> None \<and> skip_loop Q b = rq_stop_loop Q)"

definition dominates_stop :: "reach_query \<Rightarrow> vid \<Rightarrow> bool" where
  "dominates_stop Q b = (case rq_dom Q of None \<Rightarrow> False | Some dt \<Rightarrow> dt_dominates dt b (rq_stop Q))"

text \<open>The head of the list is the back of the worklist.\<close>

fun reach_blocks :: "ir_cfg \<Rightarrow> reach_query \<Rightarrow> nat \<Rightarrow> vid set \<Rightarrow> vid list \<Rightarrow> bool" where
  "reach_blocks G Q limit visited [] = False"
| "reach_blocks G Q limit visited (b # wl) =
    (if b \<in> visited then reach_blocks G Q limit visited wl
     else if b = rq_stop Q then True
     else if b \<in> rq_excluded Q then reach_blocks G Q limit (insert b visited) wl
     else if dominates_stop Q b then True
     else if in_stop_loop Q b then True
     else if limit - 1 = 0 then True
     else reach_blocks G Q (limit - 1) (insert b visited)
       (rev (case skip_loop Q b of Some L \<Rightarrow> loop_exits L | None \<Rightarrow> cfg_succs G b) @ wl))"

definition start_query :: "vid \<Rightarrow> vid set option \<Rightarrow> dom_tree option \<Rightarrow> loop_info option \<Rightarrow> reach_query" where
  "start_query stop ex dt li =
     \<lparr>rq_stop = stop,
      rq_excluded = (case ex of None \<Rightarrow> {} | Some E \<Rightarrow> E),
      rq_dom = (case dt of None \<Rightarrow> None | Some d \<Rightarrow>
         if \<not> dt_reachable d stop then None
         else case ex of None \<Rightarrow> Some d | Some E \<Rightarrow> if E \<noteq> {} then None else Some d),
      rq_loops = li,
      rq_holes = (case (li, ex) of (Some l, Some E) \<Rightarrow> {L. \<exists>b\<in>E. getOutermostLoop l b = Some L} | _ \<Rightarrow> {}),
      rq_stop_loop = (case li of None \<Rightarrow> None | Some l \<Rightarrow> getOutermostLoop l stop)\<rparr>"

text \<open>The worklist is popped before it is tested for being empty.\<close>

definition isPotentiallyReachableFromMany ::
  "ir_cfg \<Rightarrow> vid list \<Rightarrow> vid \<Rightarrow> vid set option \<Rightarrow> dom_tree option \<Rightarrow> loop_info option \<Rightarrow> bool outcome" where
  "isPotentiallyReachableFromMany G wl stop ex dt li =
     (if wl = [] then Crash else Done (reach_blocks G (start_query stop ex dt li) 32 {} (rev wl)))"

definition isPotentiallyReachable_blocks ::
  "ir_cfg \<Rightarrow> vid \<Rightarrow> vid \<Rightarrow> dom_tree option \<Rightarrow> loop_info option \<Rightarrow> bool outcome" where
  "isPotentiallyReachable_blocks G a b dt li = isPotentiallyReachableFromMany G [a] b None dt li"

text \<open>The answers of the dominator tree, if they settle the query of two blocks.\<close>

definition dom_answer :: "ir_cfg \<Rightarrow> vid \<Rightarrow> vid \<Rightarrow> vid set option \<Rightarrow> dom_tree option \<Rightarrow> bool option" where
  "dom_answer G pa pb ex dt = (case dt of None \<Rightarrow> None
     | Some d \<Rightarrow>
        if dt_reachable d pa \<and> \<not> dt_reachable d pb then Some False
        else if ex = None \<or> ex = Some {} then
          (if pa = cfg_entry G \<and> dt_reachable d pb then Some True
           else if pb = cfg_entry G \<and> dt_reachable d pa then Some False
           else None)
        else None)"

definition isPotentiallyReachable ::
  "ir_cfg \<Rightarrow> vid \<Rightarrow> vid \<Rightarrow> vid set option \<Rightarrow> dom_tree option \<Rightarrow> loop_info option \<Rightarrow> bool outcome" where
  "isPotentiallyReachable G a b ex dt li =
     (let pa = cfg_parent G a; pb = cfg_parent G b;
          walk = (\<lambda>wl. case dom_answer G pa pb ex dt of Some r \<Rightarrow> Done r
                   | None \<Rightarrow> isPotentiallyReachableFromMany G wl pb ex dt li)
      in if pa = pb
         then if (case li of None \<Rightarrow> False | Some l \<Rightarrow> l pa \<noteq> None) then Done True
              else if b \<in> set (dropWhile (\<lambda>i. i \<noteq> a) (cfg_insts G pa)) then Done True
              else if pa = cfg_entry G then Done False
              else if cfg_succs G pa = [] then Done False
              else walk (cfg_succs G pa)
         else walk [pa])"

section \<open>Paths\<close>

text \<open>The edges that leave a block outside the exclusion set.\<close>

definition cfg_edges :: "ir_cfg \<Rightarrow> vid set \<Rightarrow> (vid \<times> vid) set" where
  "cfg_edges G E = {(a, b). a \<notin> E \<and> b \<in> set (cfg_succs G a)}"

text \<open>Execution can go from one instruction to the other, through no excluded block.\<close>

definition inst_reaches :: "ir_cfg \<Rightarrow> vid set \<Rightarrow> vid \<Rightarrow> vid \<Rightarrow> bool" where
  "inst_reaches G E a b = (cfg_parent G a = cfg_parent G b
       \<and> (a = b \<or> comes_before (cfg_insts G (cfg_parent G a)) a b)
     \<or> (cfg_parent G a, cfg_parent G b) \<in> (cfg_edges G E)\<^sup>+)"

text \<open>
  What the documentation of the two analyses promises: an edge out of an outermost loop goes to one of its
  exit blocks; the entry has no predecessor; the tree knows the blocks reachable from the entry.
\<close>

definition loops_ok :: "ir_cfg \<Rightarrow> loop_info \<Rightarrow> bool" where
  "loops_ok G li = (\<forall>a L. getOutermostLoop li a = Some L \<longrightarrow>
     (\<forall>b\<in>set (cfg_succs G a). getOutermostLoop li b = Some L \<or> b \<in> set (loop_exits L)))"

definition entry_ok :: "ir_cfg \<Rightarrow> bool" where
  "entry_ok G = (\<forall>b. cfg_entry G \<notin> set (cfg_succs G b))"

definition dom_ok :: "ir_cfg \<Rightarrow> dom_tree \<Rightarrow> bool" where
  "dom_ok G d = (\<forall>b. dt_reachable d b \<longleftrightarrow> (cfg_entry G, b) \<in> (cfg_edges G {})\<^sup>*)"

text \<open>A region that the worklist has closed: no edge leaves it, and the stop block is outside.\<close>

definition closed_region :: "ir_cfg \<Rightarrow> reach_query \<Rightarrow> vid set \<Rightarrow> bool" where
  "closed_region G Q R = (rq_stop Q \<notin> R \<and> (\<forall>(a, b)\<in>cfg_edges G (rq_excluded Q). a \<in> R \<longrightarrow> b \<in> R))"

definition region_inv :: "ir_cfg \<Rightarrow> reach_query \<Rightarrow> vid set \<Rightarrow> vid list \<Rightarrow> bool" where
  "region_inv G Q R wl = (rq_stop Q \<notin> R
     \<and> (\<forall>(a, b)\<in>cfg_edges G (rq_excluded Q). a \<in> R \<longrightarrow> b \<in> R \<or> b \<in> set wl))"

lemma skip_loop_outermost:
  "skip_loop Q b = Some L \<Longrightarrow> \<exists>li. rq_loops Q = Some li \<and> getOutermostLoop li b = Some L \<and> L \<notin> rq_holes Q"
  by (auto simp: skip_loop_def split: option.splits if_splits)

text \<open>Skipping a loop adds all its blocks to the region and its exits to the worklist.\<close>

lemma region_step:
  assumes inv: "region_inv G Q R (b # wl)" and stop: "b \<noteq> rq_stop Q" "\<not> in_stop_loop Q b"
    and loops: "\<And>li. rq_loops Q = Some li \<Longrightarrow> loops_ok G li \<and> rq_stop_loop Q = getOutermostLoop li (rq_stop Q)"
  shows "\<exists>R'. insert b R \<subseteq> R'
    \<and> region_inv G Q R' (rev (case skip_loop Q b of Some L \<Rightarrow> loop_exits L | None \<Rightarrow> cfg_succs G b) @ wl)"
proof (cases "skip_loop Q b")
  case None
  then have "region_inv G Q (insert b R) (rev (cfg_succs G b) @ wl)"
    using inv stop by (auto simp: region_inv_def cfg_edges_def)
  with None show ?thesis by (intro exI [of _ "insert b R"]) simp
next
  case (Some L)
  then obtain li where li: "rq_loops Q = Some li" "getOutermostLoop li b = Some L" "L \<notin> rq_holes Q"
    using skip_loop_outermost by blast
  have "getOutermostLoop li (rq_stop Q) \<noteq> Some L"
    using stop(2) loops [OF li(1)] Some li(1) by (auto simp: in_stop_loop_def)
  moreover have "c \<in> set (loop_exits L)"
    if "getOutermostLoop li a = Some L" "c \<in> set (cfg_succs G a)" "getOutermostLoop li c \<noteq> Some L" for a c
    using loops [OF li(1)] that unfolding loops_ok_def by blast
  ultimately have "region_inv G Q (insert b R \<union> {c. getOutermostLoop li c = Some L}) (rev (loop_exits L) @ wl)"
    using inv stop(1) li(2) by (auto simp: region_inv_def cfg_edges_def)
  with Some show ?thesis by (intro exI [of _ "insert b R \<union> {c. getOutermostLoop li c = Some L}"]) auto
qed

lemma reach_blocks_region:
  assumes "\<And>li. rq_loops Q = Some li \<Longrightarrow> loops_ok G li \<and> rq_stop_loop Q = getOutermostLoop li (rq_stop Q)"
    and "\<not> reach_blocks G Q limit visited wl" "visited \<subseteq> R" "region_inv G Q R wl"
  shows "\<exists>R'. R \<union> set wl \<subseteq> R' \<and> closed_region G Q R'"
  using assms
proof (induction G Q limit visited wl arbitrary: R rule: reach_blocks.induct)
  case (1 G Q limit visited)
  then show ?case by (intro exI [of _ R]) (auto simp: region_inv_def closed_region_def)
next
  case (2 G Q limit visited b wl)
  note no = \<open>\<not> reach_blocks G Q limit visited (b # wl)\<close>
  consider (seen) "b \<in> visited" | (excluded) "b \<notin> visited" "b \<noteq> rq_stop Q" "b \<in> rq_excluded Q"
    | (expanded) "b \<notin> visited" "b \<noteq> rq_stop Q" "b \<notin> rq_excluded Q" "\<not> dominates_stop Q b" "\<not> in_stop_loop Q b" "limit - 1 \<noteq> 0"
    using no by (auto split: if_splits)
  then show ?case
  proof cases
    case seen
    have "region_inv G Q R wl" using 2(7) seen 2(6) by (auto simp: region_inv_def)
    moreover have "\<not> reach_blocks G Q limit visited wl" using no seen by simp
    ultimately obtain R' where "R \<union> set wl \<subseteq> R'" "closed_region G Q R'"
      using 2(1) [OF seen 2(4) _ 2(6)] by blast
    then show ?thesis using seen 2(6) by (intro exI [of _ R']) auto
  next
    case excluded
    have "region_inv G Q (insert b R) wl" using 2(7) excluded by (auto simp: region_inv_def cfg_edges_def)
    moreover have "\<not> reach_blocks G Q limit (insert b visited) wl" using no excluded by simp
    moreover have "insert b visited \<subseteq> insert b R" using 2(6) by auto
    ultimately obtain R' where "insert b R \<union> set wl \<subseteq> R'" "closed_region G Q R'"
      using 2(2) [OF excluded 2(4)] by blast
    then show ?thesis by (intro exI [of _ R']) auto
  next
    case expanded
    let ?new = "rev (case skip_loop Q b of Some L \<Rightarrow> loop_exits L | None \<Rightarrow> cfg_succs G b) @ wl"
    obtain R1 where R1: "insert b R \<subseteq> R1" "region_inv G Q R1 ?new"
      using region_step [OF 2(7) expanded(2,5)] 2(4) by blast
    have "\<not> reach_blocks G Q (limit - 1) (insert b visited) ?new" using no expanded by simp
    moreover have "insert b visited \<subseteq> R1" using R1(1) 2(6) by auto
    ultimately obtain R' where "R1 \<union> set ?new \<subseteq> R'" "closed_region G Q R'"
      using 2(3) [OF expanded 2(4)] R1(2) by blast
    then show ?thesis using R1(1) by (intro exI [of _ R']) auto
  qed
qed

lemma closed_region_path:
  assumes "closed_region G Q R" "a \<in> R"
  shows "(a, rq_stop Q) \<notin> (cfg_edges G (rq_excluded Q))\<^sup>*"
proof
  assume "(a, rq_stop Q) \<in> (cfg_edges G (rq_excluded Q))\<^sup>*"
  then have "rq_stop Q \<in> R"
    using assms by (induction rule: rtrancl_induct) (auto simp: closed_region_def)
  with assms(1) show False by (simp add: closed_region_def)
qed

definition excluded_blocks :: "vid set option \<Rightarrow> vid set" where
  "excluded_blocks ex = (case ex of None \<Rightarrow> {} | Some E \<Rightarrow> E)"

lemma from_many_sound:
  assumes "\<And>l. li = Some l \<Longrightarrow> loops_ok G l" "wl \<noteq> []" "a \<in> set wl"
    and "(a, stop) \<in> (cfg_edges G (excluded_blocks ex))\<^sup>*"
  shows "isPotentiallyReachableFromMany G wl stop ex dt li = Done True"
proof -
  let ?Q = "start_query stop ex dt li"
  have Q: "rq_stop ?Q = stop" "rq_excluded ?Q = excluded_blocks ex"
    by (simp_all add: start_query_def excluded_blocks_def)
  have "loops_ok G l \<and> rq_stop_loop ?Q = getOutermostLoop l (rq_stop ?Q)" if "rq_loops ?Q = Some l" for l
    using that assms(1) by (simp add: start_query_def)
  then have "reach_blocks G ?Q 32 {} (rev wl)"
    using reach_blocks_region [of ?Q G 32 "{}" "rev wl" "{}"] closed_region_path [of G ?Q _ a] assms(3,4) Q
    by (fastforce simp: region_inv_def)
  with assms(2) show ?thesis by (simp add: isPotentiallyReachableFromMany_def)
qed

lemma no_path_to_entry: "entry_ok G \<Longrightarrow> (a, cfg_entry G) \<notin> (cfg_edges G E)\<^sup>+"
  by (auto simp: entry_ok_def cfg_edges_def elim: tranclE)

lemma dom_answer_sound:
  assumes "entry_ok G" "\<And>d. dt = Some d \<Longrightarrow> dom_ok G d" "dom_answer G pa pb ex dt = Some r"
    and "(pa, pb) \<in> (cfg_edges G E)\<^sup>+"
  shows r
proof (rule ccontr)
  assume "\<not> r"
  with assms(3) obtain d where d: "dt = Some d" "dt_reachable d pa" "\<not> dt_reachable d pb \<or> pb = cfg_entry G"
    by (auto simp: dom_answer_def split: option.splits if_splits)
  have "(pa, pb) \<in> (cfg_edges G {})\<^sup>+"
    using assms(4) by (rule trancl_mono) (auto simp: cfg_edges_def)
  with d assms(2) [OF d(1)] have "dt_reachable d pb"
    unfolding dom_ok_def by (meson rtrancl_trans trancl_into_rtrancl)
  with d(3) no_path_to_entry [OF assms(1)] assms(4) show False by auto
qed

lemma scan_finds:
  assumes "a \<in> set xs" "a = b \<or> comes_before xs a b"
  shows "b \<in> set (dropWhile (\<lambda>i. i \<noteq> a) xs)"
  using assms by (induction xs) (auto dest: comes_before_in)

lemma trancl_first_edge: "(a, c) \<in> (cfg_edges G E)\<^sup>+ \<Longrightarrow> \<exists>b\<in>set (cfg_succs G a). (b, c) \<in> (cfg_edges G E)\<^sup>*"
  by (drule tranclD) (auto simp: cfg_edges_def)

lemma isPotentiallyReachable_answers:
  assumes "entry_ok G" "\<And>d. dt = Some d \<Longrightarrow> dom_ok G d" "\<And>l. li = Some l \<Longrightarrow> loops_ok G l"
    and "a \<in> set (cfg_insts G (cfg_parent G a))"
  shows "\<exists>r. isPotentiallyReachable G a b ex dt li = Done r \<and> (inst_reaches G (excluded_blocks ex) a b \<longrightarrow> r)"
proof -
  let ?pa = "cfg_parent G a" and ?pb = "cfg_parent G b" and ?R = "cfg_edges G (excluded_blocks ex)"
  define walk where "walk wl = (case dom_answer G ?pa ?pb ex dt of Some r \<Rightarrow> Done r
    | None \<Rightarrow> isPotentiallyReachableFromMany G wl ?pb ex dt li)" for wl
  have walk_ok: "\<exists>r. walk wl = Done r \<and> ((?pa, ?pb) \<in> ?R\<^sup>+ \<longrightarrow> r)"
    if "wl \<noteq> []" "(?pa, ?pb) \<in> ?R\<^sup>+ \<Longrightarrow> \<exists>s\<in>set wl. (s, ?pb) \<in> ?R\<^sup>*" for wl
  proof (cases "dom_answer G ?pa ?pb ex dt")
    case None
    then have "walk wl = isPotentiallyReachableFromMany G wl ?pb ex dt li" by (simp add: walk_def)
    moreover have "\<exists>r. \<dots> = Done r" using that(1) by (simp add: isPotentiallyReachableFromMany_def)
    ultimately show ?thesis using that from_many_sound [OF assms(3) that(1)] by fastforce
  next
    case (Some r)
    then show ?thesis using dom_answer_sound [OF assms(1,2) Some] by (auto simp: walk_def)
  qed
  show ?thesis
  proof (cases "?pa = ?pb")
    case False
    then have "isPotentiallyReachable G a b ex dt li = walk [?pa]"
      by (simp add: isPotentiallyReachable_def walk_def Let_def)
    moreover have "inst_reaches G (excluded_blocks ex) a b \<longleftrightarrow> (?pa, ?pb) \<in> ?R\<^sup>+"
      using False by (auto simp: inst_reaches_def)
    ultimately show ?thesis using walk_ok [of "[?pa]"] by (auto dest: trancl_into_rtrancl)
  next
    case True
    have scan: "b \<in> set (dropWhile (\<lambda>i. i \<noteq> a) (cfg_insts G ?pa))"
      if "a = b \<or> comes_before (cfg_insts G ?pa) a b" using scan_finds [OF assms(4) that] .
    have entry: "(?pa, ?pb) \<notin> ?R\<^sup>+" if "?pa = cfg_entry G"
      using that no_path_to_entry [OF assms(1)] True by metis
    have leaf: "(?pa, ?pb) \<notin> ?R\<^sup>+" if "cfg_succs G ?pa = []"
      using that trancl_first_edge [of ?pa ?pb G] by fastforce
    let ?q = "isPotentiallyReachable G a b ex dt li"
    have q: "?q = (if (case li of None \<Rightarrow> False | Some l \<Rightarrow> l ?pa \<noteq> None) then Done True
        else if b \<in> set (dropWhile (\<lambda>i. i \<noteq> a) (cfg_insts G ?pa)) then Done True
        else if ?pa = cfg_entry G then Done False else if cfg_succs G ?pa = [] then Done False
        else walk (cfg_succs G ?pa))"
      by (simp only: isPotentiallyReachable_def Let_def walk_def if_P [OF True])
    consider (yes) "?q = Done True"
      | (none) "?q = Done False" "b \<notin> set (dropWhile (\<lambda>i. i \<noteq> a) (cfg_insts G ?pa))"
          "?pa = cfg_entry G \<or> cfg_succs G ?pa = []"
      | (walked) "?q = walk (cfg_succs G ?pa)" "b \<notin> set (dropWhile (\<lambda>i. i \<noteq> a) (cfg_insts G ?pa))"
          "cfg_succs G ?pa \<noteq> []"
      using q by (simp split: if_splits)
    then show ?thesis
    proof cases
      case yes then show ?thesis by blast
    next
      case none
      then have "\<not> inst_reaches G (excluded_blocks ex) a b"
        using scan entry leaf unfolding inst_reaches_def by blast
      with none(1) show ?thesis by blast
    next
      case walked
      with walk_ok [of "cfg_succs G ?pa"] trancl_first_edge [of ?pa ?pb G]
      obtain r where "walk (cfg_succs G ?pa) = Done r" "(?pa, ?pb) \<in> ?R\<^sup>+ \<longrightarrow> r" by blast
      with walked scan show ?thesis unfolding inst_reaches_def by auto
    qed
  qed
qed

section \<open>The query of two instructions\<close>

text \<open>
  C32: the query of two instructions always answers, and it answers true whenever execution can go from the
  first to the second through no excluded block. This holds whatever the limit on visited blocks cuts
  off and with or without a dominator tree and loops.
\<close>

theorem potentially_reachable_sound:
  assumes "entry_ok G" "\<And>d. dt = Some d \<Longrightarrow> dom_ok G d" "\<And>l. li = Some l \<Longrightarrow> loops_ok G l"
    and "a \<in> set (cfg_insts G (cfg_parent G a))"
  shows "\<exists>r. isPotentiallyReachable G a b ex dt li = Done r \<and> (inst_reaches G (excluded_blocks ex) a b \<longrightarrow> r)"
  using isPotentiallyReachable_answers [OF assms] .

text \<open>An entry block, a block that loops on itself and a block after it.\<close>

definition cfg_demo :: ir_cfg where
  "cfg_demo = \<lparr>cfg_insts = (\<lambda>b. if b = 0 then [10] else if b = 1 then [11, 12] else if b = 2 then [21] else []),
     cfg_parent = (\<lambda>i. if i = 10 then 0 else if i = 21 then 2 else 1),
     cfg_succs = (\<lambda>b. if b = 0 then [1] else if b = 1 then [1, 2] else []), cfg_entry = 0\<rparr>"

definition dom_demo :: dom_tree where
  "dom_demo = \<lparr>dt_reachable = (\<lambda>b. b = 0 \<or> b = 1 \<or> b = 2), dt_dominates = (\<lambda>a b. a \<le> b \<and> b \<le> 2),
     dt_dominates_inst = (\<lambda>a b. a \<le> b)\<rparr>"

definition loop_demo :: loop_info where
  "loop_demo b = (if b = 1 then Some (Loop 0 [2] None) else None)"

lemma cfg_demo_ok: "entry_ok cfg_demo" "loops_ok cfg_demo loop_demo" "dom_ok cfg_demo dom_demo"
proof -
  show "entry_ok cfg_demo" by (simp add: entry_ok_def cfg_demo_def)
  show "loops_ok cfg_demo loop_demo"
    by (simp add: loops_ok_def getOutermostLoop_def loop_demo_def cfg_demo_def)
  have e: "cfg_edges cfg_demo {} = {(0, 1), (1, 1), (1, 2)}"
    by (auto simp: cfg_edges_def cfg_demo_def split: if_splits)
  have "b = 0 \<or> b = 1 \<or> b = 2" if "(0, b) \<in> {(0, 1), (1, 1), (1, 2 :: nat)}\<^sup>*" for b
    using that by (induction rule: rtrancl_induct) auto
  moreover have "(0, 1) \<in> {(0, 1), (1, 1), (1, 2 :: nat)}\<^sup>*" "(1, 2) \<in> {(0, 1), (1, 1), (1, 2 :: nat)}\<^sup>*" by auto
  ultimately show "dom_ok cfg_demo dom_demo"
    unfolding dom_ok_def e by (auto simp: dom_demo_def cfg_demo_def intro: rtrancl_trans)
qed

theorem potentially_reachable_sound_witness:
  "isPotentiallyReachable cfg_demo 21 11 None (Some dom_demo) (Some loop_demo) = Done False
   \<and> \<not> inst_reaches cfg_demo {} 21 11"
proof -
  have "isPotentiallyReachable cfg_demo 21 11 None (Some dom_demo) (Some loop_demo) = Done False"
    by (simp add: isPotentiallyReachable_def Let_def dom_answer_def isPotentiallyReachableFromMany_def
        start_query_def dominates_stop_def in_stop_loop_def skip_loop_def getOutermostLoop_def
        cfg_demo_def dom_demo_def loop_demo_def)
  moreover have "21 \<in> set (cfg_insts cfg_demo (cfg_parent cfg_demo 21))" by (simp add: cfg_demo_def)
  ultimately show ?thesis
    using potentially_reachable_sound [of cfg_demo "Some dom_demo" "Some loop_demo" 21 11 None] cfg_demo_ok
    by (auto simp: excluded_blocks_def)
qed

end
