(* ===== verification/CaptureTracking.thy ===== *)
theory CaptureTracking
  imports CFLGraph StripCasts CFGReach
begin

text \<open>
  Whether a pointer may be captured (\<^verbatim>\<open>lib/Analysis/CaptureTracking.cpp\<close>): the walk over the uses of a value
  and of the values derived from it, driven by a tracker, and the two trackers of the file. A use is its
  user and operand number; the walk's vector and set of uses are the fields of its state.
\<close>

section \<open>Trackers\<close>

type_synonym ir_use = "vid \<times> nat"

record 's tracker =
  tr_tooManyUses :: "'s \<Rightarrow> 's"
  tr_shouldExplore :: "ir_use \<Rightarrow> ('s, bool) smon"
  tr_captured :: "ir_use \<Rightarrow> ('s, bool) smon" \<comment> \<open>true stops the walk\<close>

definition DefaultMaxUsesToExplore :: nat where
  "DefaultMaxUsesToExplore = 20"

record 's capture =
  cap_tracker :: 's
  cap_worklist :: "ir_use list" \<comment> \<open>the head is the back of the vector\<close>
  cap_visited :: "ir_use set"

definition spure :: "'a outcome \<Rightarrow> ('s, 'a) smon" where
  "spure r = (\<lambda>s. case r of Done x \<Rightarrow> Done (x, s) | Crash \<Rightarrow> Crash | OutOfFuel \<Rightarrow> OutOfFuel)"

definition on_tracker :: "('s, 'a) smon \<Rightarrow> ('s capture, 'a) smon" where
  "on_tracker m = (\<lambda>s. case m (cap_tracker s) of
     Done (x, t) \<Rightarrow> Done (x, s\<lparr>cap_tracker := t\<rparr>) | Crash \<Rightarrow> Crash | OutOfFuel \<Rightarrow> OutOfFuel)"

definition operand_or_crash :: "ir_module \<Rightarrow> vid \<Rightarrow> nat \<Rightarrow> vid outcome" where
  "operand_or_crash M i k = (case operand M i k of None \<Rightarrow> Crash | Some v \<Rightarrow> Done v)"

section \<open>The walk\<close>

text \<open>
  The lambda \<^verbatim>\<open>AddUses\<close>: too many uses end the lambda, not the walk. The count is compared before it is
  incremented, so it never passes the maximum.
\<close>

fun add_uses :: "'s tracker \<Rightarrow> nat \<Rightarrow> nat \<Rightarrow> ir_use list \<Rightarrow> ('s capture, unit) smon" where
  "add_uses T mx n [] s = Done ((), s)"
| "add_uses T mx n (u # us) s =
    (if mx \<le> n then Done ((), s\<lparr>cap_tracker := tr_tooManyUses T (cap_tracker s)\<rparr>)
     else if u \<in> cap_visited s then add_uses T mx (Suc n) us s
     else case on_tracker (tr_shouldExplore T u) (s\<lparr>cap_visited := insert u (cap_visited s)\<rparr>) of
       Crash \<Rightarrow> Crash | OutOfFuel \<Rightarrow> OutOfFuel
     | Done (b, t) \<Rightarrow> add_uses T mx (Suc n) us
         (if b then t\<lparr>cap_worklist := u # cap_worklist t\<rparr> else t))"

definition AddUses :: "cfl_env \<Rightarrow> 's tracker \<Rightarrow> nat \<Rightarrow> vid \<Rightarrow> ('s capture, bool) smon" where
  "AddUses E T mx v = sbind (add_uses T mx 0 (vuses (mval (cmod E) v))) (\<lambda>_. sret False)"

text \<open>\<^verbatim>\<open>if (condition) if (Tracker->captured(U)) return;\<close> the value says whether to return.\<close>

definition captured_when :: "'s tracker \<Rightarrow> bool \<Rightarrow> ir_use \<Rightarrow> ('s capture, bool) smon" where
  "captured_when T b u = (if b then on_tracker (tr_captured T u) else sret False)"

fun captured_operands ::
  "cfl_env \<Rightarrow> 's tracker \<Rightarrow> vid \<Rightarrow> vid \<Rightarrow> ir_use \<Rightarrow> nat \<Rightarrow> vid list \<Rightarrow> ('s capture, bool) smon" where
  "captured_operands E T c v u idx [] = sret False"
| "captured_operands E T c v u idx (a # as) =
    sbind (captured_when T (a = v \<and> \<not> doesNotCapture (cx E) c idx) u)
      (\<lambda>stop. if stop then sret True else captured_operands E T c v u (Suc idx) as)"

definition silent_call :: "cfl_env \<Rightarrow> vid \<Rightarrow> bool" where
  "silent_call E c = (callOnlyReadsMemory E c \<and> hasFnAttr E c ANoUnwind \<and> vtype (mval (cmod E) c) = VoidTy)"

definition volatile_mem_intrinsic :: "cfl_env \<Rightarrow> vid \<Rightarrow> bool" where
  "volatile_mem_intrinsic E c = (is_op (cmod E) OCall c
     \<and> getIntrinsicID (cx E) c \<in> {Some IMemcpy, Some IMemmove, Some IMemset} \<and> xvolatile (cx E) c)"

definition visit_call_use ::
  "cfl_env \<Rightarrow> 's tracker \<Rightarrow> nat \<Rightarrow> vid \<Rightarrow> vid \<Rightarrow> ir_use \<Rightarrow> ('s capture, bool) smon" where
  "visit_call_use E T mx c v u =
     (if silent_call E c then sret False
      else if isIntrinsicReturningPointerAliasingArgumentWithoutCapturing (cx E) c then AddUses E T mx c
      else sbind (captured_when T (volatile_mem_intrinsic E c) u)
        (\<lambda>stop. if stop then sret True else captured_operands E T c v u 0 (data_operands (cx E) c)))"

text \<open>
  The comparisons that do not capture: of a no-alias call with a null pointer of address space 0, and with
  a value loaded from a global variable.
\<close>

definition compares_global_load :: "cfl_env \<Rightarrow> vid \<Rightarrow> vid \<Rightarrow> bool outcome" where
  "compares_global_load E i v =
     (case operand_or_crash (cmod E) i 0 of Crash \<Rightarrow> Crash | OutOfFuel \<Rightarrow> OutOfFuel
      | Done a \<Rightarrow> (case operand_or_crash (cmod E) i (if a = v then 1 else 0) of
          Crash \<Rightarrow> Crash | OutOfFuel \<Rightarrow> OutOfFuel
        | Done li \<Rightarrow> if is_op (cmod E) OLoad li
            then (case load_pointer (cmod E) li of None \<Rightarrow> Crash
              | Some p \<Rightarrow> Done (is_global_variable (cmod E) p))
            else Done False))"

definition icmp_ignored :: "cfl_env \<Rightarrow> nat \<Rightarrow> vid \<Rightarrow> vid \<Rightarrow> bool outcome" where
  "icmp_ignored E n i v =
     (case operand_or_crash (cmod E) i 1 of Crash \<Rightarrow> Crash | OutOfFuel \<Rightarrow> OutOfFuel
      | Done b \<Rightarrow>
         if vkind (mval (cmod E) b) = KConstantPointerNull
            \<and> (case vtype (mval (cmod E) b) of PointerTy as _ \<Rightarrow> as = 0 | _ \<Rightarrow> False)
         then (case stripPointerCasts n (cx E) v of Crash \<Rightarrow> Crash | OutOfFuel \<Rightarrow> OutOfFuel
           | Done w \<Rightarrow> if isNoAliasCall (cx E) w then Done True else compares_global_load E i v)
         else compares_global_load E i v)"

definition visit_use ::
  "cfl_env \<Rightarrow> 's tracker \<Rightarrow> nat \<Rightarrow> nat \<Rightarrow> ir_use \<Rightarrow> ('s capture, bool) smon" where
  "visit_use E T n mx u = (let M = cmod E; i = fst u; vol = xvolatile (cx E) i in
     sbind (spure (operand_or_crash M i (snd u))) (\<lambda>v.
       case vkind (mval M i) of
         KInstruction op \<Rightarrow>
           (if op = OCall \<or> op = OInvoke then visit_call_use E T mx i v u
            else if op = OLoad then captured_when T vol u
            else if op = OVAArg then sret False
            else if op = OStore then
              sbind (spure (operand_or_crash M i 0)) (\<lambda>a. captured_when T (v = a \<or> vol) u)
            else if op = OAtomicRMW then
              sbind (spure (operand_or_crash M i 1)) (\<lambda>a. captured_when T (a = v \<or> vol) u)
            else if op = OAtomicCmpXchg then
              sbind (spure (operand_or_crash M i 1)) (\<lambda>a.
                sbind (spure (operand_or_crash M i 2)) (\<lambda>b. captured_when T (a = v \<or> b = v \<or> vol) u))
            else if op \<in> {OBitCast, OGetElementPtr, OPHI, OSelect, OAddrSpaceCast} then AddUses E T mx i
            else if op = OICmp then
              sbind (spure (icmp_ignored E n i v)) (\<lambda>ignored. captured_when T (\<not> ignored) u)
            else captured_when T True u)
       | _ \<Rightarrow> scrash))"

fun capture_loop :: "cfl_env \<Rightarrow> 's tracker \<Rightarrow> nat \<Rightarrow> nat \<Rightarrow> nat \<Rightarrow> ('s capture, unit) smon" where
  "capture_loop E T n mx 0 s = (if cap_worklist s = [] then Done ((), s) else OutOfFuel)"
| "capture_loop E T n mx (Suc k) s = (case cap_worklist s of
      [] \<Rightarrow> Done ((), s)
    | u # us \<Rightarrow> (case visit_use E T n mx u (s\<lparr>cap_worklist := us\<rparr>) of
        Crash \<Rightarrow> Crash | OutOfFuel \<Rightarrow> OutOfFuel
      | Done (stop, t) \<Rightarrow> if stop then Done ((), t) else capture_loop E T n mx k t))"

text \<open>The tracker after the walk. The fuel bounds the rounds of the loop and of stripping casts.\<close>

definition track_captures :: "cfl_env \<Rightarrow> 's tracker \<Rightarrow> nat \<Rightarrow> nat \<Rightarrow> vid \<Rightarrow> 's \<Rightarrow> 's outcome" where
  "track_captures E T n mx v s0 =
     (if \<not> has_pointer_type E v then Crash
      else case sbind (AddUses E T mx v) (\<lambda>_. capture_loop E T n mx n)
          \<lparr>cap_tracker = s0, cap_worklist = [], cap_visited = {}\<rparr> of
        Crash \<Rightarrow> Crash | OutOfFuel \<Rightarrow> OutOfFuel
      | Done (_, t) \<Rightarrow> Done (cap_tracker t))"

section \<open>The two trackers\<close>

definition simple_tracker :: "cfl_env \<Rightarrow> bool \<Rightarrow> bool tracker" where
  "simple_tracker E returnCaptures =
     \<lparr>tr_tooManyUses = (\<lambda>_. True),
      tr_shouldExplore = (\<lambda>_. sret True),
      tr_captured = (\<lambda>u s. if is_op (cmod E) ORet (fst u) \<and> \<not> returnCaptures then Done (False, s)
        else Done (True, True))\<rparr>"

definition PointerMayBeCaptured :: "cfl_env \<Rightarrow> nat \<Rightarrow> vid \<Rightarrow> bool \<Rightarrow> nat \<Rightarrow> bool outcome" where
  "PointerMayBeCaptured E n v returnCaptures mx =
     (if is_global_value (cmod E) v then Crash
      else track_captures E (simple_tracker E returnCaptures) n mx v False)"

record captures_before =
  cb_cfg :: ir_cfg
  cb_here :: vid \<comment> \<open>\<^verbatim>\<open>BeforeHere\<close>\<close>
  cb_dom :: dom_tree
  cb_return :: bool
  cb_include :: bool

text \<open>The members that change: the numbering of the block of \<^verbatim>\<open>BeforeHere\<close> and the answer.\<close>

record before_state =
  cb_order :: obb
  cb_captured :: bool

definition on_order :: "(obb, 'a) smon \<Rightarrow> (before_state, 'a) smon" where
  "on_order m = (\<lambda>s. case m (cb_order s) of
     Done (x, ord) \<Rightarrow> Done (x, s\<lparr>cb_order := ord\<rparr>) | Crash \<Rightarrow> Crash | OutOfFuel \<Rightarrow> OutOfFuel)"

definition negated :: "bool outcome \<Rightarrow> bool outcome" where
  "negated r = (case r of Done b \<Rightarrow> Done (\<not> b) | Crash \<Rightarrow> Crash | OutOfFuel \<Rightarrow> OutOfFuel)"

definition isSafeToPrune :: "cfl_env \<Rightarrow> captures_before \<Rightarrow> vid \<Rightarrow> (before_state, bool) smon" where
  "isSafeToPrune E B i = (let G = cb_cfg B; here = cb_here B; d = cb_dom B; bb = cfg_parent G i in
     if here \<noteq> i \<and> \<not> dt_reachable d bb then sret True
     else if bb = cfg_parent G here then
       (if is_op (cmod E) OInvoke here \<or> is_op (cmod E) OPHI i \<or> i = here then sret False
        else sbind (on_order (obb_dominates (cfg_insts G bb) here i)) (\<lambda>dominates.
          if \<not> dominates then sret False
          else if bb = cfg_entry G \<or> cfg_succs G bb = [] then sret True
          else spure (negated (isPotentiallyReachableFromMany G (cfg_succs G bb) bb None (Some d) None))))
     else if here \<noteq> i \<and> dt_dominates_inst d here i
     then spure (negated (isPotentiallyReachable G i here None (Some d) None))
     else sret False)"

definition shouldExplore_before :: "cfl_env \<Rightarrow> captures_before \<Rightarrow> ir_use \<Rightarrow> (before_state, bool) smon" where
  "shouldExplore_before E B u =
     (if \<not> is_inst (cmod E) (fst u) then scrash
      else if cb_here B = fst u \<and> \<not> cb_include B then sret False
      else sbind (isSafeToPrune E B (fst u)) (\<lambda>prune. sret (\<not> prune)))"

definition before_tracker :: "cfl_env \<Rightarrow> captures_before \<Rightarrow> before_state tracker" where
  "before_tracker E B =
     \<lparr>tr_tooManyUses = (\<lambda>s. s\<lparr>cb_captured := True\<rparr>),
      tr_shouldExplore = shouldExplore_before E B,
      tr_captured = (\<lambda>u. if is_op (cmod E) ORet (fst u) \<and> \<not> cb_return B then sret False
        else sbind (shouldExplore_before E B u) (\<lambda>explore.
          if explore then sbind (smodify (\<lambda>s. s\<lparr>cb_captured := True\<rparr>)) (\<lambda>_. sret True) else sret False))\<rparr>"

text \<open>A shared numbering is handed back updated; without one a fresh numbering is used.\<close>

definition PointerMayBeCapturedBefore ::
  "cfl_env \<Rightarrow> ir_cfg \<Rightarrow> nat \<Rightarrow> vid \<Rightarrow> bool \<Rightarrow> vid \<Rightarrow> dom_tree option \<Rightarrow> bool \<Rightarrow> obb option \<Rightarrow> nat
   \<Rightarrow> (bool \<times> obb option) outcome" where
  "PointerMayBeCapturedBefore E G n v ret i dt incl ord mx =
     (if is_global_value (cmod E) v then Crash
      else case dt of
        None \<Rightarrow> (case PointerMayBeCaptured E n v ret mx of
            Done c \<Rightarrow> Done (c, ord) | Crash \<Rightarrow> Crash | OutOfFuel \<Rightarrow> OutOfFuel)
      | Some d \<Rightarrow>
          (case track_captures E (before_tracker E \<lparr>cb_cfg = G, cb_here = i, cb_dom = d,
                cb_return = ret, cb_include = incl\<rparr>) n mx v
              \<lparr>cb_order = (case ord of None \<Rightarrow> obb_new | Some ob \<Rightarrow> ob), cb_captured = False\<rparr> of
            Done t \<Rightarrow> Done (cb_captured t, if ord = None then None else Some (cb_order t))
          | Crash \<Rightarrow> Crash | OutOfFuel \<Rightarrow> OutOfFuel))"

end
