(* ===== verification/CaptureSound.thy ===== *)
theory CaptureSound
  imports CaptureTracking
begin

text \<open>
  What the walk over uses computes, for any tracker that keeps the contract of \<open>capture_tracker\<close>: it ends, and
  the pointer is reported captured exactly when some value derived from it has too many uses or a
  capturing use that the tracker explores and counts.
\<close>

section \<open>Derived values and capturing uses\<close>

text \<open>The value a use passes the pointer on to.\<close>

definition use_next :: "cfl_env \<Rightarrow> ir_use \<Rightarrow> vid option" where
  "use_next E u = (case vkind (mval (cmod E) (fst u)) of
     KInstruction op \<Rightarrow>
       if op = OCall \<or> op = OInvoke
       then (if \<not> silent_call E (fst u)
               \<and> isIntrinsicReturningPointerAliasingArgumentWithoutCapturing (cx E) (fst u)
             then Some (fst u) else None)
       else if op \<in> {OBitCast, OGetElementPtr, OPHI, OSelect, OAddrSpaceCast} then Some (fst u) else None
   | _ \<Rightarrow> None)"

definition call_captures :: "cfl_env \<Rightarrow> vid \<Rightarrow> vid \<Rightarrow> bool" where
  "call_captures E c v = (\<not> silent_call E c
     \<and> \<not> isIntrinsicReturningPointerAliasingArgumentWithoutCapturing (cx E) c
     \<and> (volatile_mem_intrinsic E c
        \<or> (\<exists>k<length (data_operands (cx E) c). data_operands (cx E) c ! k = v \<and> \<not> doesNotCapture (cx E) c k)))"

definition use_captures :: "cfl_env \<Rightarrow> nat \<Rightarrow> ir_use \<Rightarrow> bool" where
  "use_captures E n u = (\<exists>v op. operand (cmod E) (fst u) (snd u) = Some v
     \<and> vkind (mval (cmod E) (fst u)) = KInstruction op
     \<and> (if op = OCall \<or> op = OInvoke then call_captures E (fst u) v
        else if op = OLoad then xvolatile (cx E) (fst u)
        else if op = OVAArg then False
        else if op = OStore then operand (cmod E) (fst u) 0 = Some v \<or> xvolatile (cx E) (fst u)
        else if op = OAtomicRMW then operand (cmod E) (fst u) 1 = Some v \<or> xvolatile (cx E) (fst u)
        else if op = OAtomicCmpXchg then operand (cmod E) (fst u) 1 = Some v
          \<or> operand (cmod E) (fst u) 2 = Some v \<or> xvolatile (cx E) (fst u)
        else if op = OICmp then icmp_ignored E n (fst u) v = Done False
        else op \<notin> {OBitCast, OGetElementPtr, OPHI, OSelect, OAddrSpaceCast}))"

text \<open>The operands the walk reads are there, as the verifier of the IR demands.\<close>

definition use_wf :: "cfl_env \<Rightarrow> nat \<Rightarrow> ir_use \<Rightarrow> bool" where
  "use_wf E n u = (\<exists>v op. operand (cmod E) (fst u) (snd u) = Some v
     \<and> vkind (mval (cmod E) (fst u)) = KInstruction op
     \<and> (op = OStore \<longrightarrow> operand (cmod E) (fst u) 0 \<noteq> None)
     \<and> (op \<in> {OAtomicRMW, OAtomicCmpXchg} \<longrightarrow> operand (cmod E) (fst u) 1 \<noteq> None)
     \<and> (op = OAtomicCmpXchg \<longrightarrow> operand (cmod E) (fst u) 2 \<noteq> None)
     \<and> (op = OICmp \<longrightarrow> (\<exists>b. icmp_ignored E n (fst u) v = Done b)))"

text \<open>The values derived from a pointer through explored uses.\<close>

inductive derived :: "cfl_env \<Rightarrow> (ir_use \<Rightarrow> bool) \<Rightarrow> vid \<Rightarrow> vid \<Rightarrow> bool" for E expl v where
  derived_self: "derived E expl v v"
| derived_use: "derived E expl v w \<Longrightarrow> u \<in> set (vuses (mval (cmod E) w)) \<Longrightarrow> expl u \<Longrightarrow> use_next E u = Some i
    \<Longrightarrow> derived E expl v i"

definition may_capture :: "cfl_env \<Rightarrow> nat \<Rightarrow> nat \<Rightarrow> (ir_use \<Rightarrow> bool) \<Rightarrow> (ir_use \<Rightarrow> bool) \<Rightarrow> vid \<Rightarrow> bool" where
  "may_capture E n mx expl counts v = (\<exists>w. derived E expl v w
     \<and> (mx < length (vuses (mval (cmod E) w))
        \<or> (\<exists>u\<in>set (vuses (mval (cmod E) w)). expl u \<and> use_captures E n u \<and> counts u)))"

definition derived_uses :: "cfl_env \<Rightarrow> (ir_use \<Rightarrow> bool) \<Rightarrow> vid \<Rightarrow> ir_use set" where
  "derived_uses E expl v = {u. \<exists>w. derived E expl v w \<and> u \<in> set (vuses (mval (cmod E) w))}"

lemma derived_mono: "derived E p v w \<Longrightarrow> (\<And>u. p u \<Longrightarrow> q u) \<Longrightarrow> derived E q v w"
  by (induction rule: derived.induct) (auto intro: derived.intros)

lemma may_capture_mono: "may_capture E n mx p counts v \<Longrightarrow> (\<And>u. p u \<Longrightarrow> q u) \<Longrightarrow> may_capture E n mx q counts v"
  unfolding may_capture_def using derived_mono [of E p v _ q] by blast

section \<open>The contract of a tracker\<close>

text \<open>
  \<open>keeps\<close> is an invariant of the tracker's state, \<open>noted\<close> whether it has noted a capture, \<open>fit\<close> the uses it may
  be asked about, \<open>expl\<close> and \<open>counts\<close> the uses it explores and those whose capture it notes.
\<close>

locale capture_tracker =
  fixes T :: "'s tracker" and keeps :: "'s \<Rightarrow> bool" and noted :: "'s \<Rightarrow> bool"
    and fit :: "ir_use \<Rightarrow> bool" and expl :: "ir_use \<Rightarrow> bool" and counts :: "ir_use \<Rightarrow> bool"
  assumes too_many: "keeps s \<Longrightarrow> keeps (tr_tooManyUses T s) \<and> noted (tr_tooManyUses T s)"
    and explore: "keeps s \<Longrightarrow> fit u
      \<Longrightarrow> \<exists>t. tr_shouldExplore T u s = Done (expl u, t) \<and> keeps t \<and> noted t = noted s"
    and capture: "keeps s \<Longrightarrow> fit u
      \<Longrightarrow> \<exists>t. tr_captured T u s = Done (counts u, t) \<and> keeps t \<and> (noted t \<longleftrightarrow> noted s \<or> counts u)"
begin

abbreviation sound_state :: "'s capture \<Rightarrow> bool" where
  "sound_state s \<equiv> keeps (cap_tracker s)"

abbreviation found :: "'s capture \<Rightarrow> bool" where
  "found s \<equiv> noted (cap_tracker s)"

text \<open>The tracker is told of a use, or not: nothing else changes.\<close>

definition told :: "ir_use \<Rightarrow> bool \<Rightarrow> ('s capture, bool) smon \<Rightarrow> bool" where
  "told u b m = (\<forall>s. sound_state s \<longrightarrow> fit u \<longrightarrow> (\<exists>t. m s = Done (b \<and> counts u, s\<lparr>cap_tracker := t\<rparr>)
     \<and> keeps t \<and> (noted t \<longleftrightarrow> found s \<or> b \<and> counts u)))"

lemma told_False: "told u False (sret False)"
  unfolding told_def
proof (intro allI impI)
  fix s :: "'s capture" assume "sound_state s"
  then show "\<exists>t. sret False s = Done (False \<and> counts u, s\<lparr>cap_tracker := t\<rparr>)
     \<and> keeps t \<and> (noted t \<longleftrightarrow> found s \<or> False \<and> counts u)"
    by (intro exI [of _ "cap_tracker s"]) (simp add: sret_def)
qed

lemma told_when: "told u b (captured_when T b u)"
proof (cases b)
  case True
  have "\<exists>t. on_tracker (tr_captured T u) s = Done (counts u, s\<lparr>cap_tracker := t\<rparr>)
      \<and> keeps t \<and> (noted t \<longleftrightarrow> found s \<or> counts u)" if "sound_state s" "fit u" for s
    using capture [OF that] by (auto simp: on_tracker_def)
  with True show ?thesis by (simp add: told_def captured_when_def)
next
  case False
  with told_False [of u] show ?thesis by (simp add: captured_when_def)
qed

lemma told_or:
  assumes "told u a m" "told u b k"
  shows "told u (a \<or> b) (sbind m (\<lambda>stop. if stop then sret True else k))"
  unfolding told_def
proof (intro allI impI)
  fix s assume s: "sound_state s" "fit u"
  obtain t where t: "m s = Done (a \<and> counts u, s\<lparr>cap_tracker := t\<rparr>)" "keeps t" "noted t \<longleftrightarrow> found s \<or> a \<and> counts u"
    using assms(1) s unfolding told_def by blast
  then obtain r where r: "k (s\<lparr>cap_tracker := t\<rparr>) = Done (b \<and> counts u, s\<lparr>cap_tracker := r\<rparr>)" "keeps r"
    "noted r \<longleftrightarrow> noted t \<or> b \<and> counts u"
    using assms(2) s(2) unfolding told_def by (metis capture.select_convs(1) capture.update_convs(1) capture.surjective)
  show "\<exists>t. sbind m (\<lambda>stop. if stop then sret True else k) s = Done ((a \<or> b) \<and> counts u, s\<lparr>cap_tracker := t\<rparr>)
     \<and> keeps t \<and> (noted t \<longleftrightarrow> found s \<or> (a \<or> b) \<and> counts u)"
    using t r by (cases "a \<and> counts u") (auto simp: sbind_def sret_def)
qed

lemma told_operands:
  "told u (\<exists>k<length ops. ops ! k = v \<and> \<not> doesNotCapture (cx E) c (idx + k)) (captured_operands E T c v u idx ops)"
proof (induction ops arbitrary: idx)
  case Nil then show ?case by (simp add: told_False)
next
  case (Cons a ops)
  have "(\<exists>k<length (a # ops). (a # ops) ! k = v \<and> \<not> doesNotCapture (cx E) c (idx + k))
    \<longleftrightarrow> (a = v \<and> \<not> doesNotCapture (cx E) c idx)
      \<or> (\<exists>k<length ops. ops ! k = v \<and> \<not> doesNotCapture (cx E) c (Suc idx + k))"
    by (simp add: Ex_less_Suc2)
  then show ?case using told_or [OF told_when Cons.IH [of "Suc idx"]] by simp
qed

lemma told_spure: "r = Done x \<Longrightarrow> told u b (f x) \<Longrightarrow> told u b (sbind (spure r) f)"
  by (simp add: told_def sbind_def spure_def)

lemma visit_next:
  assumes "use_wf E n u" "use_next E u = Some i"
  shows "visit_use E T n mx u = AddUses E T mx i" "\<not> use_captures E n u"
  using assms
  by (auto simp: use_wf_def use_next_def visit_use_def use_captures_def call_captures_def visit_call_use_def
      operand_or_crash_def spure_def sbind_def Let_def fun_eq_iff split: if_splits)

lemma told_call:
  assumes "\<not> (\<not> silent_call E c \<and> isIntrinsicReturningPointerAliasingArgumentWithoutCapturing (cx E) c)"
  shows "told u (call_captures E c v) (visit_call_use E T mx c v u)"
proof (cases "silent_call E c")
  case True
  with told_False [of u] show ?thesis by (simp add: visit_call_use_def call_captures_def)
next
  case False
  with assms told_or [OF told_when told_operands [of u "data_operands (cx E) c" v E c 0], of "volatile_mem_intrinsic E c"]
  show ?thesis by (simp add: visit_call_use_def call_captures_def)
qed

lemma visit_told:
  assumes "use_wf E n u" "use_next E u = None"
  shows "told u (use_captures E n u) (visit_use E T n mx u)"
proof -
  obtain v op where v: "operand (cmod E) (fst u) (snd u) = Some v" "vkind (mval (cmod E) (fst u)) = KInstruction op"
    using assms(1) by (auto simp: use_wf_def)
  note defs = visit_use_def use_captures_def v Let_def operand_or_crash_def
  consider "op = OCall \<or> op = OInvoke" | "op = OStore" | "op = OAtomicRMW" | "op = OAtomicCmpXchg" | "op = OICmp"
    | "op \<notin> {OCall, OInvoke, OStore, OAtomicRMW, OAtomicCmpXchg, OICmp}" by auto
  then show ?thesis
  proof cases
    case 1
    with assms(2) v told_call [of E "fst u" u v mx] show ?thesis
      by (auto simp: defs use_next_def intro!: told_spure split: if_splits)
  next
    case 2
    with assms(1) v obtain a where "operand (cmod E) (fst u) 0 = Some a" by (auto simp: use_wf_def)
    with 2 told_when [of u "v = a \<or> xvolatile (cx E) (fst u)"] show ?thesis
      by (auto simp: defs eq_commute [of a v] intro!: told_spure)
  next
    case 3
    with assms(1) v obtain a where "operand (cmod E) (fst u) 1 = Some a" by (auto simp: use_wf_def)
    with 3 told_when [of u "a = v \<or> xvolatile (cx E) (fst u)"] show ?thesis by (auto simp: defs intro!: told_spure)
  next
    case 4
    with assms(1) v obtain a b where "operand (cmod E) (fst u) 1 = Some a" "operand (cmod E) (fst u) 2 = Some b"
      by (auto simp: use_wf_def)
    with 4 told_when [of u "a = v \<or> b = v \<or> xvolatile (cx E) (fst u)"] show ?thesis
      by (auto simp: defs intro!: told_spure)
  next
    case 5
    with assms(1) v obtain b where "icmp_ignored E n (fst u) v = Done b" by (auto simp: use_wf_def)
    with 5 told_when [of u "\<not> b"] show ?thesis by (auto simp: defs intro!: told_spure)
  next
    case 6
    with assms(2) v told_when [of u "xvolatile (cx E) (fst u)"] told_when [of u True] told_False [of u]
    show ?thesis by (auto simp: defs use_next_def intro!: told_spure split: if_splits)
  qed
qed

text \<open>What adding the uses of a value does to the state, the counter at \<open>k\<close>.\<close>

definition added :: "nat \<Rightarrow> nat \<Rightarrow> ir_use list \<Rightarrow> 's capture \<Rightarrow> 's capture \<Rightarrow> bool" where
  "added mx k us s t = (sound_state t \<and> (found t \<longleftrightarrow> found s \<or> mx < k + length us)
     \<and> cap_visited s \<subseteq> cap_visited t \<and> cap_visited t \<subseteq> cap_visited s \<union> set us
     \<and> (k + length us \<le> mx \<longrightarrow> set us \<subseteq> cap_visited t)
     \<and> set (cap_worklist s) \<subseteq> set (cap_worklist t)
     \<and> set (cap_worklist t) \<subseteq> set (cap_worklist s) \<union> {u \<in> set us. expl u}
     \<and> (\<forall>u\<in>cap_visited t - cap_visited s. expl u \<longrightarrow> u \<in> set (cap_worklist t))
     \<and> (\<forall>U. finite U \<longrightarrow> set us \<subseteq> U \<longrightarrow> card (U - cap_visited t) + length (cap_worklist t)
           \<le> card (U - cap_visited s) + length (cap_worklist s)))"

lemma added_too_many:
  assumes "sound_state s" "mx \<le> k"
  shows "added mx k (u # us) s (s\<lparr>cap_tracker := tr_tooManyUses T (cap_tracker s)\<rparr>)"
  using assms too_many by (auto simp: added_def)

lemma added_seen:
  assumes "added mx (Suc k) us s t" "u \<in> cap_visited s"
  shows "added mx k (u # us) s t"
  using assms by (auto simp: added_def)

lemma added_new:
  assumes "added mx (Suc k) us (s\<lparr>cap_visited := insert u (cap_visited s), cap_tracker := r,
      cap_worklist := (if expl u then u # cap_worklist s else cap_worklist s)\<rparr>) t"
    and "u \<notin> cap_visited s" "noted r = found s"
  shows "added mx k (u # us) s t"
proof -
  have card: "card (U - cap_visited t) + length (cap_worklist t) \<le> card (U - cap_visited s) + length (cap_worklist s)"
    if U: "finite U" "set (u # us) \<subseteq> U" for U
  proof -
    have "card (U - cap_visited s) = Suc (card (U - insert u (cap_visited s)))"
      using U assms(2) by (subst card.remove [of _ u]) (auto intro!: arg_cong [of _ _ card])
    with assms(1) U show ?thesis by (fastforce simp: added_def split: if_splits)
  qed
  with assms show ?thesis unfolding added_def by (auto split: if_splits)
qed

lemma add_uses_added:
  assumes "sound_state s" "\<forall>u\<in>set us. fit u"
  shows "\<exists>t. add_uses T mx k us s = Done ((), t) \<and> (k \<le> mx \<longrightarrow> added mx k us s t)"
  using assms
proof (induction us arbitrary: k s)
  case Nil then show ?case by (simp add: added_def)
next
  case (Cons u us)
  consider "mx \<le> k" | "k < mx" "u \<in> cap_visited s" | "k < mx" "u \<notin> cap_visited s" by linarith
  then show ?case
  proof cases
    case 1
    with added_too_many Cons.prems(1) show ?thesis by simp
  next
    case 2
    with Cons.IH [of s "Suc k"] Cons.prems added_seen show ?thesis by fastforce
  next
    case 3
    obtain r where r: "tr_shouldExplore T u (cap_tracker s) = Done (expl u, r)" "keeps r" "noted r = found s"
      using explore [OF Cons.prems(1), of u] Cons.prems(2) by auto
    let ?s = "s\<lparr>cap_visited := insert u (cap_visited s), cap_tracker := r,
      cap_worklist := (if expl u then u # cap_worklist s else cap_worklist s)\<rparr>"
    obtain t where "add_uses T mx (Suc k) us ?s = Done ((), t)" "Suc k \<le> mx \<longrightarrow> added mx (Suc k) us ?s t"
      using Cons.IH [of ?s "Suc k"] Cons.prems(2) r(2) by auto
    moreover have "add_uses T mx k (u # us) s = add_uses T mx (Suc k) us ?s"
      using 3 r(1) by (simp add: on_tracker_def)
    ultimately show ?thesis using added_new [OF _ 3(2) r(3)] 3(1) by auto
  qed
qed

text \<open>
  The invariant of the loop. Without a capture noted, the values in \<open>D\<close> have all their uses seen, and a seen
  use is waiting or harmless, with the value it passes the pointer on to in \<open>D\<close>.
\<close>

abbreviation all_uses :: "cfl_env \<Rightarrow> vid \<Rightarrow> ir_use set" where
  "all_uses E v \<equiv> derived_uses E expl v"

definition handled :: "cfl_env \<Rightarrow> nat \<Rightarrow> vid set \<Rightarrow> ir_use \<Rightarrow> bool" where
  "handled E n D u = (\<not> (use_captures E n u \<and> counts u) \<and> (\<forall>i. use_next E u = Some i \<longrightarrow> i \<in> D))"

definition frontier :: "cfl_env \<Rightarrow> nat \<Rightarrow> nat \<Rightarrow> vid set \<Rightarrow> 's capture \<Rightarrow> bool" where
  "frontier E n mx D s = ((\<forall>w\<in>D. length (vuses (mval (cmod E) w)) \<le> mx \<and> set (vuses (mval (cmod E) w)) \<subseteq> cap_visited s)
     \<and> (\<forall>u\<in>cap_visited s. expl u \<longrightarrow> u \<in> set (cap_worklist s) \<or> handled E n D u))"

definition walk_inv :: "cfl_env \<Rightarrow> nat \<Rightarrow> nat \<Rightarrow> vid \<Rightarrow> 's capture \<Rightarrow> bool" where
  "walk_inv E n mx v s = (sound_state s \<and> cap_visited s \<subseteq> all_uses E v
     \<and> set (cap_worklist s) \<subseteq> {u \<in> all_uses E v. expl u}
     \<and> (found s \<longrightarrow> may_capture E n mx expl counts v)
     \<and> (\<not> found s \<longrightarrow> (\<exists>D. v \<in> D \<and> frontier E n mx D s)))"

lemma use_next_derived: "u \<in> all_uses E v \<Longrightarrow> expl u \<Longrightarrow> use_next E u = Some i \<Longrightarrow> derived E expl v i"
  unfolding derived_uses_def by (blast intro: derived_use)

lemma vuses_all_uses: "derived E expl v w \<Longrightarrow> set (vuses (mval (cmod E) w)) \<subseteq> all_uses E v"
  unfolding derived_uses_def by blast

lemma frontier_closed:
  assumes "frontier E n mx D s" "cap_worklist s = []" "v \<in> D"
  shows "\<not> may_capture E n mx expl counts v"
proof -
  have "w \<in> D" if "derived E expl v w" for w
    using that
  proof induction
    case derived_self with assms(3) show ?case .
  next
    case (derived_use w u i)
    then have "u \<in> cap_visited s" using assms(1) by (auto simp: frontier_def)
    with derived_use assms(1,2) show ?case by (auto simp: frontier_def handled_def)
  qed
  with assms(1,2) show ?thesis by (fastforce simp: may_capture_def frontier_def handled_def)
qed

lemma walk_inv_end: "walk_inv E n mx v s \<Longrightarrow> cap_worklist s = [] \<Longrightarrow> found s \<longleftrightarrow> may_capture E n mx expl counts v"
  using frontier_closed by (auto simp: walk_inv_def)

lemma walk_inv_told:
  assumes "walk_inv E n mx v s" "cap_worklist s = u # us" "use_next E u = None" "keeps t"
    and "noted t \<longleftrightarrow> found s \<or> use_captures E n u \<and> counts u"
  shows "walk_inv E n mx v (s\<lparr>cap_worklist := us, cap_tracker := t\<rparr>)"
proof -
  have u: "u \<in> all_uses E v" "expl u" using assms(1,2) by (auto simp: walk_inv_def)
  then have "may_capture E n mx expl counts v" if "use_captures E n u" "counts u"
    using that by (auto simp: may_capture_def derived_uses_def)
  moreover have "frontier E n mx D (s\<lparr>cap_worklist := us, cap_tracker := t\<rparr>)" if "frontier E n mx D s" "\<not> noted t" for D
    using that assms(2,3,5) by (auto simp: frontier_def handled_def)
  ultimately show ?thesis using assms(1,2,4,5) unfolding walk_inv_def by auto
qed

lemma walk_inv_added:
  assumes "walk_inv E n mx v s" "cap_worklist s = u # us" "use_next E u = Some i" "use_wf E n u"
    and a: "added mx 0 (vuses (mval (cmod E) i)) (s\<lparr>cap_worklist := us\<rparr>) t"
  shows "walk_inv E n mx v t"
proof -
  have u: "u \<in> all_uses E v" "expl u" using assms(1,2) by (auto simp: walk_inv_def)
  with assms(3) have i: "derived E expl v i" by (blast intro: use_next_derived)
  note in_all = vuses_all_uses [OF i]
  have "may_capture E n mx expl counts v" if "mx < length (vuses (mval (cmod E) i))"
    using that i by (auto simp: may_capture_def)
  moreover have "frontier E n mx (insert i D) t" if D: "frontier E n mx D s" and nf: "\<not> found t" for D
  proof -
    have len: "length (vuses (mval (cmod E) i)) \<le> mx" using a nf by (auto simp: added_def)
    have hu: "handled E n (insert i D) u"
      using visit_next(2) [OF assms(4,3)] assms(3) by (auto simp: handled_def)
    have mono: "handled E n (insert i D) x" if "handled E n D x" for x
      using that by (auto simp: handled_def)
    have seen: "cap_visited s \<subseteq> cap_visited t" "set us \<subseteq> set (cap_worklist t)"
      "set (vuses (mval (cmod E) i)) \<subseteq> cap_visited t"
      using a len unfolding added_def by simp_all
    have new: "x \<in> set (cap_worklist t)" if "x \<in> cap_visited t" "x \<notin> cap_visited s" "expl x" for x
      using a that unfolding added_def by simp
    have "x \<in> set (cap_worklist t) \<or> handled E n (insert i D) x" if "x \<in> cap_visited t" "expl x" for x
    proof (cases "x \<in> cap_visited s")
      case True
      with D that(2) have "x = u \<or> x \<in> set us \<or> handled E n D x" by (auto simp: frontier_def assms(2))
      with hu mono seen(2) show ?thesis by blast
    qed (use new that in blast)
    moreover have "length (vuses (mval (cmod E) w)) \<le> mx \<and> set (vuses (mval (cmod E) w)) \<subseteq> cap_visited t"
      if "w \<in> insert i D" for w
      using that D len seen(1,3) unfolding frontier_def by blast
    ultimately show ?thesis unfolding frontier_def by blast
  qed
  moreover have "cap_visited t \<subseteq> all_uses E v" "set (cap_worklist t) \<subseteq> {x \<in> all_uses E v. expl x}"
  proof -
    have "cap_visited t \<subseteq> cap_visited s \<union> all_uses E v"
      "set (cap_worklist t) \<subseteq> set us \<union> {x \<in> all_uses E v. expl x}"
      using a in_all unfolding added_def by auto
    moreover have "cap_visited s \<subseteq> all_uses E v" "set us \<subseteq> {x \<in> all_uses E v. expl x}"
      using assms(1,2) unfolding walk_inv_def by auto
    ultimately show "cap_visited t \<subseteq> all_uses E v" "set (cap_worklist t) \<subseteq> {x \<in> all_uses E v. expl x}"
      by blast+
  qed
  moreover have "sound_state t" "found t \<longleftrightarrow> found s \<or> mx < length (vuses (mval (cmod E) i))"
    using a by (simp_all add: added_def)
  moreover obtain D where "found s \<or> v \<in> D \<and> frontier E n mx D s" "found s \<longrightarrow> may_capture E n mx expl counts v"
    using assms(1) unfolding walk_inv_def by blast
  ultimately show ?thesis unfolding walk_inv_def by blast
qed

lemma capture_loop_exact:
  assumes "finite (all_uses E v)" "\<forall>u\<in>all_uses E v. use_wf E n u \<and> fit u" "walk_inv E n mx v s"
    and "card (all_uses E v - cap_visited s) + length (cap_worklist s) \<le> k"
  shows "\<exists>t. capture_loop E T n mx k s = Done ((), t) \<and> sound_state t
    \<and> (found t \<longleftrightarrow> may_capture E n mx expl counts v)"
  using assms(3,4)
proof (induction k arbitrary: s)
  case 0
  then have "length (cap_worklist s) = 0" by linarith
  then have "cap_worklist s = []" by simp
  with 0(1) walk_inv_end [OF 0(1)] show ?case by (simp add: walk_inv_def)
next
  case (Suc k)
  show ?case
  proof (cases "cap_worklist s")
    case Nil
    with Suc.prems(1) walk_inv_end [OF Suc.prems(1)] show ?thesis by (simp add: walk_inv_def)
  next
    case (Cons u us)
    let ?s = "s\<lparr>cap_worklist := us\<rparr>"
    have s: "sound_state ?s" using Suc.prems(1) by (simp add: walk_inv_def)
    have u: "u \<in> all_uses E v" "expl u" "use_wf E n u" "fit u"
      using Suc.prems(1) Cons assms(2) by (auto simp: walk_inv_def)
    show ?thesis
    proof (cases "use_next E u")
      case None
      from visit_told [OF u(3) None, of mx] s u(4)
      obtain t where t: "visit_use E T n mx u ?s = Done (use_captures E n u \<and> counts u, ?s\<lparr>cap_tracker := t\<rparr>)"
        "keeps t" "noted t \<longleftrightarrow> found s \<or> use_captures E n u \<and> counts u"
        unfolding told_def by fastforce
      have inv: "walk_inv E n mx v (?s\<lparr>cap_tracker := t\<rparr>)"
        using walk_inv_told [OF Suc.prems(1) Cons None t(2,3)] by simp
      show ?thesis
      proof (cases "use_captures E n u \<and> counts u")
        case True
        with inv t Cons show ?thesis by (auto simp: walk_inv_def)
      next
        case False
        with Suc.IH [OF inv] Suc.prems(2) Cons t(1) show ?thesis by auto
      qed
    next
      case (Some i)
      with u(1,2) have i: "derived E expl v i" by (blast intro: use_next_derived)
      note in_all = vuses_all_uses [OF i]
      obtain t where t: "add_uses T mx 0 (vuses (mval (cmod E) i)) ?s = Done ((), t)"
        "added mx 0 (vuses (mval (cmod E) i)) ?s t"
        using add_uses_added [OF s, of "vuses (mval (cmod E) i)" mx 0] in_all assms(2) by auto
      have "card (all_uses E v - cap_visited t) + length (cap_worklist t) \<le> k"
        using t(2) assms(1) in_all Suc.prems(2) Cons unfolding added_def by fastforce
      moreover have "visit_use E T n mx u ?s = Done (False, t)"
        using t(1) by (simp add: visit_next(1) [OF u(3) Some] AddUses_def sbind_def sret_def)
      ultimately show ?thesis
        using Suc.IH [OF walk_inv_added [OF Suc.prems(1) Cons Some u(3) t(2)]] Cons by simp
    qed
  qed
qed

lemma track_captures_exact:
  assumes "has_pointer_type E v" "finite (all_uses E v)" "\<forall>u\<in>all_uses E v. use_wf E n u \<and> fit u"
    and "card (all_uses E v) \<le> n" "keeps s0" "\<not> noted s0"
  shows "\<exists>t. track_captures E T n mx v s0 = Done t \<and> keeps t \<and> (noted t \<longleftrightarrow> may_capture E n mx expl counts v)"
proof -
  let ?s = "\<lparr>cap_tracker = s0, cap_worklist = [], cap_visited = {}\<rparr>" and ?us = "vuses (mval (cmod E) v)"
  note in_all = vuses_all_uses [OF derived_self, of E v]
  obtain s where s: "add_uses T mx 0 ?us ?s = Done ((), s)" "added mx 0 ?us ?s s"
    using add_uses_added [of ?s ?us mx 0] in_all assms(3,5) by auto
  have "frontier E n mx {v} s" if "\<not> found s"
    using that s(2) by (auto simp: frontier_def added_def)
  moreover have "may_capture E n mx expl counts v" if "found s"
    using that s(2) assms(6) derived_self [of E expl v] by (auto simp: added_def may_capture_def)
  ultimately have "walk_inv E n mx v s"
    using s(2) in_all unfolding walk_inv_def added_def by auto
  moreover have "card (all_uses E v - cap_visited s) + length (cap_worklist s) \<le> n"
    using s(2) assms(2,4) in_all unfolding added_def by fastforce
  ultimately obtain t where "capture_loop E T n mx n s = Done ((), t)" "sound_state t"
    "found t \<longleftrightarrow> may_capture E n mx expl counts v"
    using capture_loop_exact [OF assms(2,3)] by blast
  with assms(1) s(1) show ?thesis by (simp add: track_captures_def AddUses_def sbind_def sret_def)
qed

end

end
