(* ===== verification/CaptureProps.thy ===== *)
theory CaptureProps
  imports CaptureSound
begin

text \<open>
  The two trackers keep the contract of the walk, and what follows for the two entry points of the file.
\<close>

section \<open>The simple tracker\<close>

definition counts_use :: "cfl_env \<Rightarrow> bool \<Rightarrow> ir_use \<Rightarrow> bool" where
  "counts_use E returnCaptures u = (is_op (cmod E) ORet (fst u) \<longrightarrow> returnCaptures)"

interpretation simple: capture_tracker "simple_tracker E ret" "\<lambda>_. True" "\<lambda>s. s" "\<lambda>_. True" "\<lambda>_. True"
  "counts_use E ret" for E ret
  by unfold_locales (auto simp: simple_tracker_def sret_def counts_use_def)

section \<open>The tracker of captures before an instruction\<close>

text \<open>What \<open>isSafeToPrune\<close> answers, with the order of the block in place of its numbering.\<close>

definition prunable :: "cfl_env \<Rightarrow> captures_before \<Rightarrow> vid \<Rightarrow> bool" where
  "prunable E B i = (let G = cb_cfg B; here = cb_here B; d = cb_dom B; bb = cfg_parent G i in
     if here \<noteq> i \<and> \<not> dt_reachable d bb then True
     else if bb = cfg_parent G here then
       \<not> (is_op (cmod E) OInvoke here \<or> is_op (cmod E) OPHI i \<or> i = here)
       \<and> comes_before (cfg_insts G bb) here i
       \<and> (bb = cfg_entry G \<or> cfg_succs G bb = []
          \<or> isPotentiallyReachableFromMany G (cfg_succs G bb) bb None (Some d) None = Done False)
     else here \<noteq> i \<and> dt_dominates_inst d here i \<and> isPotentiallyReachable G i here None (Some d) None = Done False)"

definition explored_before :: "cfl_env \<Rightarrow> captures_before \<Rightarrow> ir_use \<Rightarrow> bool" where
  "explored_before E B u = ((cb_here B = fst u \<longrightarrow> cb_include B) \<and> \<not> prunable E B (fst u))"

definition before_keeps :: "captures_before \<Rightarrow> before_state \<Rightarrow> bool" where
  "before_keeps B s = obb_inv (cfg_insts (cb_cfg B) (cfg_parent (cb_cfg B) (cb_here B))) (cb_order s)"

text \<open>Instructions are in their blocks and the analyses keep what they promise.\<close>

definition before_ok :: "captures_before \<Rightarrow> bool" where
  "before_ok B = (let G = cb_cfg B in entry_ok G \<and> dom_ok G (cb_dom B)
     \<and> cb_here B \<in> set (cfg_insts G (cfg_parent G (cb_here B))))"

definition before_fit :: "cfl_env \<Rightarrow> captures_before \<Rightarrow> ir_use \<Rightarrow> bool" where
  "before_fit E B u = (before_ok B \<and> is_inst (cmod E) (fst u)
     \<and> fst u \<in> set (cfg_insts (cb_cfg B) (cfg_parent (cb_cfg B) (fst u))))"

lemma from_many_returns: "wl \<noteq> [] \<Longrightarrow> \<exists>r. isPotentiallyReachableFromMany G wl stop ex dt li = Done r"
  by (simp add: isPotentiallyReachableFromMany_def)

lemma order_before:
  assumes "before_keeps B s" "before_ok B" "i \<in> set (cfg_insts (cb_cfg B) (cfg_parent (cb_cfg B) (cb_here B)))"
  shows "\<exists>t. on_order (obb_dominates (cfg_insts (cb_cfg B) (cfg_parent (cb_cfg B) (cb_here B))) (cb_here B) i) s
      = Done (comes_before (cfg_insts (cb_cfg B) (cfg_parent (cb_cfg B) (cb_here B))) (cb_here B) i, t)
    \<and> before_keeps B t \<and> cb_captured t = cb_captured s"
proof -
  have "cb_here B \<in> set (cfg_insts (cb_cfg B) (cfg_parent (cb_cfg B) (cb_here B)))"
    using assms(2) by (simp add: before_ok_def Let_def)
  from obb.before_exact [OF assms(1) [unfolded before_keeps_def] this assms(3)]
  show ?thesis by (auto simp: on_order_def before_keeps_def)
qed

lemma isSafeToPrune_prunable:
  assumes "before_keeps B s" "before_fit E B u"
  shows "\<exists>t. isSafeToPrune E B (fst u) s = Done (prunable E B (fst u), t) \<and> before_keeps B t
    \<and> cb_captured t = cb_captured s"
proof -
  let ?G = "cb_cfg B" and ?h = "cb_here B" and ?d = "cb_dom B" and ?i = "fst u"
  let ?bb = "cfg_parent ?G ?i"
  have ok: "before_ok B" and i: "?i \<in> set (cfg_insts ?G ?bb)" using assms(2) by (simp_all add: before_fit_def)
  consider (unreachable) "?h \<noteq> ?i" "\<not> dt_reachable ?d ?bb"
    | (same) "?h = ?i \<or> dt_reachable ?d ?bb" "?bb = cfg_parent ?G ?h"
    | (other) "?h = ?i \<or> dt_reachable ?d ?bb" "?bb \<noteq> cfg_parent ?G ?h" by blast
  then show ?thesis
  proof cases
    case unreachable
    with assms(1) show ?thesis by (simp add: isSafeToPrune_def prunable_def sret_def)
  next
    case same
    obtain t where t: "on_order (obb_dominates (cfg_insts ?G ?bb) ?h ?i) s
        = Done (comes_before (cfg_insts ?G ?bb) ?h ?i, t)" "before_keeps B t" "cb_captured t = cb_captured s"
      using order_before [OF assms(1) ok, of ?i] i same(2) by auto
    obtain r where "cfg_succs ?G ?bb \<noteq> []
        \<longrightarrow> isPotentiallyReachableFromMany ?G (cfg_succs ?G ?bb) ?bb None (Some ?d) None = Done r"
      using from_many_returns by blast
    with same t assms(1) show ?thesis
      by (auto simp: isSafeToPrune_def prunable_def sret_def sbind_def spure_def negated_def Let_def)
  next
    case other
    obtain r where "isPotentiallyReachable ?G ?i ?h None (Some ?d) None = Done r"
      using isPotentiallyReachable_answers [of ?G "Some ?d" None ?i ?h None] ok i
      by (auto simp: before_ok_def Let_def)
    with other assms(1) show ?thesis
      by (auto simp: isSafeToPrune_def prunable_def sret_def spure_def negated_def Let_def)
  qed
qed

lemma shouldExplore_explored:
  assumes "before_keeps B s" "before_fit E B u"
  shows "\<exists>t. shouldExplore_before E B u s = Done (explored_before E B u, t) \<and> before_keeps B t
    \<and> cb_captured t = cb_captured s"
  using isSafeToPrune_prunable [OF assms] assms
  by (auto simp: shouldExplore_before_def explored_before_def before_fit_def sret_def sbind_def)

interpretation before: capture_tracker "before_tracker E B" "before_keeps B" cb_captured "before_fit E B"
  "explored_before E B" "\<lambda>u. counts_use E (cb_return B) u \<and> explored_before E B u" for E B
proof unfold_locales
  fix s u assume "before_keeps B s" "before_fit E B u"
  then show "\<exists>t. tr_shouldExplore (before_tracker E B) u s = Done (explored_before E B u, t)
      \<and> before_keeps B t \<and> cb_captured t = cb_captured s"
    using shouldExplore_explored by (simp add: before_tracker_def)
  from shouldExplore_explored [OF \<open>before_keeps B s\<close> \<open>before_fit E B u\<close>] \<open>before_keeps B s\<close>
  show "\<exists>t. tr_captured (before_tracker E B) u s = Done (counts_use E (cb_return B) u \<and> explored_before E B u, t)
      \<and> before_keeps B t \<and> (cb_captured t \<longleftrightarrow> cb_captured s \<or> counts_use E (cb_return B) u \<and> explored_before E B u)"
    by (auto simp: before_tracker_def counts_use_def sbind_def sret_def smodify_def before_keeps_def)
qed (simp add: before_tracker_def before_keeps_def)

text \<open>The uses whose user can be executed before the instruction, or is it when that counts.\<close>

definition precedes :: "ir_cfg \<Rightarrow> vid \<Rightarrow> bool \<Rightarrow> ir_use \<Rightarrow> bool" where
  "precedes G here incl u = (if fst u = here then incl
     else (cfg_entry G, cfg_parent G (fst u)) \<in> (cfg_edges G {})\<^sup>* \<and> inst_reaches G {} (fst u) here)"

lemma comes_before_asym: "distinct xs \<Longrightarrow> comes_before xs a b \<Longrightarrow> \<not> comes_before xs b a"
  by (induction xs) (auto dest: comes_before_in)

lemma prunable_not_reaching:
  assumes "before_ok B" "distinct (cfg_insts (cb_cfg B) (cfg_parent (cb_cfg B) (cb_here B)))"
    and "i \<in> set (cfg_insts (cb_cfg B) (cfg_parent (cb_cfg B) i))" "i \<noteq> cb_here B"
    and "(cfg_entry (cb_cfg B), cfg_parent (cb_cfg B) i) \<in> (cfg_edges (cb_cfg B) {})\<^sup>*"
    and "inst_reaches (cb_cfg B) {} i (cb_here B)"
  shows "\<not> prunable E B i"
proof
  let ?G = "cb_cfg B" and ?h = "cb_here B" and ?d = "cb_dom B"
  let ?bb = "cfg_parent ?G i"
  assume p: "prunable E B i"
  have ok: "entry_ok ?G" "dom_ok ?G ?d" using assms(1) by (simp_all add: before_ok_def Let_def)
  then have r: "dt_reachable ?d ?bb" using assms(5) by (simp add: dom_ok_def)
  show False
  proof (cases "?bb = cfg_parent ?G ?h")
    case True
    with p r assms(4) have "comes_before (cfg_insts ?G ?bb) ?h i" and
      c: "?bb = cfg_entry ?G \<or> cfg_succs ?G ?bb = []
          \<or> isPotentiallyReachableFromMany ?G (cfg_succs ?G ?bb) ?bb None (Some ?d) None = Done False"
      by (simp_all add: prunable_def Let_def)
    with True assms(2) have "\<not> comes_before (cfg_insts ?G ?bb) i ?h" using comes_before_asym by metis
    with assms(4,6) True have loop: "(?bb, ?bb) \<in> (cfg_edges ?G {})\<^sup>+" by (auto simp: inst_reaches_def)
    then obtain s where s: "s \<in> set (cfg_succs ?G ?bb)" "(s, ?bb) \<in> (cfg_edges ?G {})\<^sup>*"
      using trancl_first_edge by blast
    from loop no_path_to_entry [OF ok(1)] have "?bb \<noteq> cfg_entry ?G" by metis
    moreover have "cfg_succs ?G ?bb \<noteq> []" using s(1) by auto
    ultimately show False using c from_many_sound [of None ?G "cfg_succs ?G ?bb" s ?bb None "Some ?d"] s
      by (auto simp: excluded_blocks_def)
  next
    case False
    with p r assms(4) have "isPotentiallyReachable ?G i ?h None (Some ?d) None = Done False"
      by (auto simp: prunable_def Let_def)
    with isPotentiallyReachable_answers [of ?G "Some ?d" None i ?h None] ok assms(3,6)
    show False by (auto simp: excluded_blocks_def)
  qed
qed

lemma precedes_explored:
  assumes "before_ok B" "distinct (cfg_insts (cb_cfg B) (cfg_parent (cb_cfg B) (cb_here B)))"
    and "fst u \<in> set (cfg_insts (cb_cfg B) (cfg_parent (cb_cfg B) (fst u)))"
    and "precedes (cb_cfg B) (cb_here B) (cb_include B) u"
  shows "explored_before E B u"
proof (cases "fst u = cb_here B")
  case True
  with assms(4) show ?thesis by (simp add: precedes_def explored_before_def prunable_def Let_def)
next
  case False
  with assms prunable_not_reaching [OF assms(1-3) False] show ?thesis
    by (auto simp: precedes_def explored_before_def)
qed

section \<open>The entry points\<close>

text \<open>Only derived uses matter to what is derived.\<close>

lemma derived_within: "derived E p v w \<Longrightarrow> derived E (\<lambda>u. u \<in> derived_uses E (\<lambda>_. True) v \<and> p u) v w"
proof (induction rule: derived.induct)
  case derived_self show ?case by (rule derived.derived_self)
next
  case (derived_use w u i)
  have "derived E (\<lambda>_. True) v w" using derived_use.IH by (rule derived_mono) simp
  with derived_use show ?case unfolding derived_uses_def by (blast intro: derived.derived_use)
qed

lemma may_capture_within:
  assumes "may_capture E n mx p c v"
  shows "may_capture E n mx (\<lambda>u. u \<in> derived_uses E (\<lambda>_. True) v \<and> p u) c v"
proof -
  have "derived E (\<lambda>_. True) v w" if "derived E p v w" for w using that by (rule derived_mono) simp
  then show ?thesis
    using assms derived_within [of E p v] unfolding may_capture_def derived_uses_def by blast
qed

lemma may_capture_counts:
  assumes "may_capture E n mx p c v" "\<And>u. p u \<Longrightarrow> q u" "\<And>u. p u \<Longrightarrow> c u \<Longrightarrow> d u"
  shows "may_capture E n mx q d v"
  using assms derived_mono [of E p v _ q] unfolding may_capture_def by blast

text \<open>
  C22: without too little fuel the walk returns, and it answers that the pointer may be captured exactly when
  some value derived from it through casts, address computations, phis, selects and the invariant group
  intrinsics has more uses than are explored or a use that captures it, returns counting only if asked
  for. The order of the worklist and the visited set do not matter.
\<close>

theorem pointer_capture_exact:
  assumes "\<not> is_global_value (cmod E) v" "has_pointer_type E v"
    and "finite (derived_uses E (\<lambda>_. True) v)" "\<forall>u\<in>derived_uses E (\<lambda>_. True) v. use_wf E n u"
    and "card (derived_uses E (\<lambda>_. True) v) \<le> n"
  shows "PointerMayBeCaptured E n v ret mx = Done (may_capture E n mx (\<lambda>_. True) (counts_use E ret) v)"
  using simple.track_captures_exact [of E v n False E ret mx] assms by (auto simp: PointerMayBeCaptured_def)

text \<open>
  C16: captures before an instruction. The query returns, and it answers true when a capture can happen before
  the instruction: when some value derived from the pointer by instructions that can be executed before
  it has a capturing use that can be executed before it (or too many uses). Pruning by dominance,
  reachability and the order inside the block never loses such a capture.
\<close>

theorem captured_before_sound:
  assumes "\<not> is_global_value (cmod E) v" "has_pointer_type E v" "entry_ok G" "dom_ok G d"
    and "here \<in> set (cfg_insts G (cfg_parent G here))" "distinct (cfg_insts G (cfg_parent G here))"
    and "finite (derived_uses E (\<lambda>_. True) v)" "card (derived_uses E (\<lambda>_. True) v) \<le> n"
    and "\<forall>u\<in>derived_uses E (\<lambda>_. True) v. use_wf E n u \<and> fst u \<in> set (cfg_insts G (cfg_parent G (fst u)))"
  shows "\<exists>c. PointerMayBeCapturedBefore E G n v ret here (Some d) incl None mx = Done (c, None)
    \<and> (may_capture E n mx (precedes G here incl) (counts_use E ret) v \<longrightarrow> c)"
proof -
  let ?B = "\<lparr>cb_cfg = G, cb_here = here, cb_dom = d, cb_return = ret, cb_include = incl\<rparr>"
  let ?U = "derived_uses E (\<lambda>_. True) v"
  have ok: "before_ok ?B" using assms(3-5) by (simp add: before_ok_def Let_def)
  have sub: "derived_uses E (explored_before E ?B) v \<subseteq> ?U"
    using derived_mono [of E "explored_before E ?B" v _ "\<lambda>_. True"] unfolding derived_uses_def by blast
  have fit: "before_fit E ?B u" if "u \<in> ?U" for u
    using that assms(9) ok by (auto simp: before_fit_def use_wf_def is_inst_def)
  have "before_keeps ?B \<lparr>cb_order = obb_new, cb_captured = False\<rparr>"
    using obb.new_ordered [OF assms(6)] by (simp add: before_keeps_def)
  moreover have "\<forall>u\<in>derived_uses E (explored_before E ?B) v. use_wf E n u \<and> before_fit E ?B u"
    using sub fit assms(9) by blast
  moreover have "card (derived_uses E (explored_before E ?B) v) \<le> n"
    using card_mono [OF assms(7) sub] assms(8) by (rule le_trans)
  moreover have "\<not> cb_captured \<lparr>cb_order = obb_new, cb_captured = False\<rparr>" by simp
  ultimately obtain t where t: "track_captures E (before_tracker E ?B) n mx v \<lparr>cb_order = obb_new, cb_captured = False\<rparr> = Done t"
    "cb_captured t \<longleftrightarrow> may_capture E n mx (explored_before E ?B)
      (\<lambda>u. counts_use E (cb_return ?B) u \<and> explored_before E ?B u) v"
    using before.track_captures_exact [OF assms(2) finite_subset [OF sub assms(7)]] by blast
  have "may_capture E n mx (\<lambda>u. u \<in> ?U \<and> precedes G here incl u) (counts_use E ret) v"
    if "may_capture E n mx (precedes G here incl) (counts_use E ret) v"
    using that may_capture_within by blast
  moreover have "explored_before E ?B u" if "u \<in> ?U" "precedes G here incl u" for u
    using precedes_explored [OF ok, of u E] assms(6,9) that by simp
  ultimately have "cb_captured t" if "may_capture E n mx (precedes G here incl) (counts_use E ret) v"
    using that t(2) may_capture_counts
      [of E n mx "\<lambda>u. u \<in> ?U \<and> precedes G here incl u" "counts_use E ret" v "explored_before E ?B"
        "\<lambda>u. counts_use E (cb_return ?B) u \<and> explored_before E ?B u"] by simp
  with t(1) assms(1) show ?thesis by (simp add: PointerMayBeCapturedBefore_def)
qed

section \<open>Examples\<close>

text \<open>
  An allocation 10 in the entry block, cast by 11 in a block that loops on itself, the cast stored to the global
  4 by 12, and the allocation returned by 21.
\<close>

definition capture_mod :: ir_module where
  "capture_mod = \<lparr>mval = (\<lambda>v.
      if v = 4 then value0\<lparr>vkind := KGlobalVariable, vtype := PointerTy 0 (IntTy 8)\<rparr>
      else if v = 10 then value0\<lparr>vkind := KInstruction OAlloca, vtype := PointerTy 0 (IntTy 8),
        vuses := [(11, 0), (21, 0)]\<rparr>
      else if v = 11 then value0\<lparr>vkind := KInstruction OBitCast, vtype := PointerTy 0 (IntTy 8),
        voperands := [10], vuses := [(12, 0)]\<rparr>
      else if v = 12 then value0\<lparr>vkind := KInstruction OStore, voperands := [11, 4]\<rparr>
      else if v = 21 then value0\<lparr>vkind := KInstruction ORet, voperands := [10]\<rparr>
      else value0), mfun = (\<lambda>_. function0)\<rparr>"

definition capture_env :: cfl_env where
  "capture_env = \<lparr>cx = env0 capture_mod, cgep_offset = (\<lambda>_. None), cmalloc_free = (\<lambda>_. False),
     cexact = (\<lambda>_. False), cvararg = (\<lambda>_. False), cdisallowed = (\<lambda>_ _. False)\<rparr>"

lemmas capture_demo_defs = capture_env_def capture_mod_def env0_def value0_def

lemma capture_demo_next: "use_next capture_env u = (if fst u = 11 then Some 11 else None)"
  by (simp add: use_next_def capture_demo_defs)

lemma capture_demo_derived: "derived capture_env p 10 w \<Longrightarrow> w = 10 \<or> w = 11"
proof (induction rule: derived.induct)
  case (derived_use w u i)
  then show ?case by (auto simp: capture_demo_next split: if_splits)
qed simp

lemma capture_demo_uses: "derived_uses capture_env (\<lambda>_. True) 10 \<subseteq> {(11, 0), (21, 0), (12, 0)}"
  using capture_demo_derived [of "\<lambda>_. True"] by (fastforce simp: derived_uses_def capture_demo_defs)

lemma capture_demo_wf: "\<forall>u\<in>derived_uses capture_env (\<lambda>_. True) 10. use_wf capture_env n u"
proof -
  have "use_wf capture_env n u" if "u \<in> {(11, 0), (21, 0), (12, 0)}" for u
    using that by (auto simp: use_wf_def capture_demo_defs operand_def)
  then show ?thesis using capture_demo_uses by blast
qed

lemma capture_demo_card: "finite (derived_uses capture_env (\<lambda>_. True) 10)" "card (derived_uses capture_env (\<lambda>_. True) 10) \<le> 3"
  using finite_subset [OF capture_demo_uses] card_mono [OF _ capture_demo_uses] by auto

lemma capture_demo_pointer: "\<not> is_global_value (cmod capture_env) 10" "has_pointer_type capture_env 10"
  by (simp_all add: capture_demo_defs is_global_value_def has_pointer_type_def is_pointer_def)

theorem pointer_capture_exact_witness:
  "PointerMayBeCaptured capture_env 3 10 False 20 = Done True \<and> may_capture capture_env 3 20 (\<lambda>_. True) (counts_use capture_env False) 10"
proof -
  have "PointerMayBeCaptured capture_env 3 10 False 20 = Done True"
    by (simp add: PointerMayBeCaptured_def track_captures_def simple_tracker_def AddUses_def visit_use_def
        capture_demo_defs is_global_value_def has_pointer_type_def is_pointer_def sbind_def sret_def spure_def
        on_tracker_def operand_or_crash_def operand_def captured_when_def is_op_def Let_def numeral_3_eq_3)
  with pointer_capture_exact [OF capture_demo_pointer capture_demo_card(1) capture_demo_wf capture_demo_card(2), of False 20]
  show ?thesis by simp
qed

lemma capture_demo_before: "may_capture capture_env 3 20 (precedes cfg_demo 11 True) (counts_use capture_env True) 10"
proof -
  have e: "(0, 1) \<in> cfg_edges cfg_demo {}" "(1, 1) \<in> cfg_edges cfg_demo {}"
    by (simp_all add: cfg_edges_def cfg_demo_def)
  have u: "(11, 0) \<in> set (vuses (mval (cmod capture_env) 10))" "(12, 0) \<in> set (vuses (mval (cmod capture_env) 11))"
    by (simp_all add: capture_demo_defs)
  have "derived capture_env (precedes cfg_demo 11 True) 10 11"
    by (rule derived_use [OF derived_self u(1)]) (simp_all add: precedes_def capture_demo_next)
  moreover have "precedes cfg_demo 11 True (12, 0)"
    using e by (auto simp: precedes_def inst_reaches_def cfg_demo_def)
  moreover have "use_captures capture_env 3 (12, 0)"
    by (simp add: use_captures_def capture_demo_defs operand_def)
  ultimately show ?thesis
    using u(2) unfolding may_capture_def counts_use_def by blast
qed

theorem captured_before_sound_witness:
  "PointerMayBeCapturedBefore capture_env cfg_demo 3 10 True 11 (Some dom_demo) True None 20 = Done (True, None)"
proof -
  have "fst u \<in> set (cfg_insts cfg_demo (cfg_parent cfg_demo (fst u)))" if "u \<in> {(11, 0), (21, 0), (12, 0)}" for u
    using that by (auto simp: cfg_demo_def)
  then have "\<forall>u\<in>derived_uses capture_env (\<lambda>_. True) 10. use_wf capture_env 3 u
      \<and> fst u \<in> set (cfg_insts cfg_demo (cfg_parent cfg_demo (fst u)))"
    using capture_demo_uses capture_demo_wf by blast
  moreover have "11 \<in> set (cfg_insts cfg_demo (cfg_parent cfg_demo 11))" "distinct (cfg_insts cfg_demo (cfg_parent cfg_demo 11))"
    by (simp_all add: cfg_demo_def)
  ultimately obtain c where
    "PointerMayBeCapturedBefore capture_env cfg_demo 3 10 True 11 (Some dom_demo) True None 20 = Done (c, None)"
    "may_capture capture_env 3 20 (precedes cfg_demo 11 True) (counts_use capture_env True) 10 \<longrightarrow> c"
    using captured_before_sound [OF capture_demo_pointer cfg_demo_ok(1,3) _ _ capture_demo_card, of 11 True True 20]
    by blast
  with capture_demo_before show ?thesis by simp
qed

end
