(* ===== verification/Range.thy ===== *)
theory Range
  imports Prelude
begin

text \<open>
  Ranges of machine integers (\<^verbatim>\<open>lib/IR/ConstantRange.cpp\<close>): half open intervals \<open>[Lower, Upper)\<close> that may wrap
  around. An \<^verbatim>\<open>APInt\<close> is a word whose length is its bit width; \<open><\<close> is the unsigned order, the signed
  order compares \<open>sint\<close>. Here: the representation, membership and the extreme elements.
\<close>

section \<open>Values\<close>

definition smin_word :: "'a::len word" where
  "smin_word = push_bit (LENGTH('a) - 1) 1"

definition smax_word :: "'a::len word" where
  "smax_word = smin_word - 1"

definition isNegative :: "'a::len word \<Rightarrow> bool" where
  "isNegative x = bit x (LENGTH('a) - 1)"

definition isStrictlyPositive :: "'a::len word \<Rightarrow> bool" where
  "isStrictlyPositive x = (\<not> isNegative x \<and> x \<noteq> 0)"

lemma isNegative_sint: "isNegative x \<longleftrightarrow> sint x < 0"
  using bit_last_iff [of x] by (simp add: isNegative_def)

text \<open>The signed order is the unsigned one after a shift by the least signed value.\<close>

lemma uint_smin: "uint (smin_word :: 'a::len word) = 2 ^ (LENGTH('a) - 1)"
  by (simp only: smin_word_def unsigned_push_bit_eq unsigned_1 take_bit_push_bit)
    (simp add: push_bit_eq_mult)

lemma uint_bias: "uint (x + smin_word) = sint (x :: 'a::len word) + 2 ^ (LENGTH('a) - 1)"
proof -
  have "sint x = take_bit LENGTH('a) (uint x + 2 ^ (LENGTH('a) - 1)) - 2 ^ (LENGTH('a) - 1)"
    by (simp add: sint_uint signed_take_bit_eq_take_bit_shift)
  then show ?thesis by (simp add: uint_word_ariths uint_smin take_bit_eq_mod)
qed

lemma smin_twice [simp]: "smin_word + smin_word = (0 :: 'a::len word)"
proof -
  have "(2 :: 'a word) ^ LENGTH('a) = 0" by simp
  then show ?thesis by (simp add: smin_word_def push_bit_eq_mult flip: mult_2 power_Suc)
qed

lemma bias_less_iff: "x + smin_word < y + smin_word \<longleftrightarrow> sint x < sint y"
  and bias_le_iff: "x + smin_word \<le> y + smin_word \<longleftrightarrow> sint x \<le> sint (y :: 'a::len word)"
  by (simp_all add: word_less_def word_le_def uint_bias)

lemma bias_twice [simp]: "x + smin_word + smin_word = (x :: 'a::len word)"
  by (simp add: add.assoc)

lemma smax_bias: "smax_word + smin_word = (- 1 :: 'a::len word)"
  by (simp add: smax_word_def algebra_simps)

lemma sint_smin: "sint (smin_word :: 'a::len word) = - (2 ^ (LENGTH('a) - 1))"
  and sint_smax: "sint (smax_word :: 'a::len word) = 2 ^ (LENGTH('a) - 1) - 1"
proof -
  have "uint (smin_word + smin_word :: 'a word) = 0" by simp
  then show "sint (smin_word :: 'a word) = - (2 ^ (LENGTH('a) - 1))" by (simp only: uint_bias)
  have "uint (smax_word + smin_word :: 'a word) = 2 ^ LENGTH('a) - 1"
    by (simp add: smax_bias unsigned_minus_1_eq_mask mask_eq_exp_minus_1)
  moreover have "(2 :: int) ^ LENGTH('a) = 2 * 2 ^ (LENGTH('a) - 1)" by (simp flip: power_Suc)
  ultimately show "sint (smax_word :: 'a word) = 2 ^ (LENGTH('a) - 1) - 1" by (simp only: uint_bias)
qed

lemma sint_bounds: "sint (smin_word :: 'a::len word) \<le> sint x" "sint x \<le> sint (smax_word :: 'a::len word)"
  for x :: "'a::len word"
  using sint_greater_eq [of x] sint_less [of x] by (simp_all add: sint_smin sint_smax)

section \<open>Ranges\<close>

record 'b crange =
  cr_lower :: 'b
  cr_upper :: 'b

definition full_range :: "'a::len word crange" where
  "full_range = \<lparr>cr_lower = - 1, cr_upper = - 1\<rparr>"

definition empty_range :: "'a::len word crange" where
  "empty_range = \<lparr>cr_lower = 0, cr_upper = 0\<rparr>"

definition single_range :: "'a::len word \<Rightarrow> 'a word crange" where
  "single_range v = \<lparr>cr_lower = v, cr_upper = v + 1\<rparr>"

text \<open>The constructor from two bounds asserts that equal bounds are the greatest or least value.\<close>

definition make_range :: "'a::len word \<Rightarrow> 'a word \<Rightarrow> 'a word crange" where
  "make_range l u = \<lparr>cr_lower = l, cr_upper = u\<rparr>"

definition wf_range :: "'a::len word crange \<Rightarrow> bool" where
  "wf_range R = (cr_lower R \<noteq> cr_upper R \<or> cr_lower R = - 1 \<or> cr_lower R = 0)"

definition isFullSet :: "'a::len word crange \<Rightarrow> bool" where
  "isFullSet R = (cr_lower R = cr_upper R \<and> cr_lower R = - 1)"

definition isEmptySet :: "'a::len word crange \<Rightarrow> bool" where
  "isEmptySet R = (cr_lower R = cr_upper R \<and> cr_lower R = 0)"

definition isWrappedSet :: "'a::len word crange \<Rightarrow> bool" where
  "isWrappedSet R = (cr_lower R > cr_upper R \<and> cr_upper R \<noteq> 0)"

definition isUpperWrapped :: "'a::len word crange \<Rightarrow> bool" where
  "isUpperWrapped R = (cr_lower R > cr_upper R)"

definition isSignWrappedSet :: "'a::len word crange \<Rightarrow> bool" where
  "isSignWrappedSet R = (sint (cr_lower R) > sint (cr_upper R) \<and> cr_upper R \<noteq> smin_word)"

definition isUpperSignWrapped :: "'a::len word crange \<Rightarrow> bool" where
  "isUpperSignWrapped R = (sint (cr_lower R) > sint (cr_upper R))"

definition isSizeStrictlySmallerThan :: "'a::len word crange \<Rightarrow> 'a word crange \<Rightarrow> bool" where
  "isSizeStrictlySmallerThan R S =
     (if isFullSet R then False else if isFullSet S then True
      else cr_upper R - cr_lower R < cr_upper S - cr_lower S)"

text \<open>The size is compared as an unbounded number, as \<^verbatim>\<open>APInt::ugt(uint64_t)\<close> does for every width.\<close>

definition isSizeLargerThan :: "'a::len word crange \<Rightarrow> 64 word \<Rightarrow> bool outcome" where
  "isSizeLargerThan R n =
     (if n = 0 then Crash
      else Done (if isFullSet R then unat (- 1 :: 'a word) > unat (n - 1)
        else unat (cr_upper R - cr_lower R) > unat n))"

definition isAllNegative :: "'a::len word crange \<Rightarrow> bool" where
  "isAllNegative R = (if isEmptySet R then True else if isFullSet R then False
     else \<not> isUpperSignWrapped R \<and> \<not> isStrictlyPositive (cr_upper R))"

definition isAllNonNegative :: "'a::len word crange \<Rightarrow> bool" where
  "isAllNonNegative R = (\<not> isSignWrappedSet R \<and> \<not> isNegative (cr_lower R))"

definition getUnsignedMax :: "'a::len word crange \<Rightarrow> 'a word" where
  "getUnsignedMax R = (if isFullSet R \<or> isUpperWrapped R then - 1 else cr_upper R - 1)"

definition getUnsignedMin :: "'a::len word crange \<Rightarrow> 'a word" where
  "getUnsignedMin R = (if isFullSet R \<or> isWrappedSet R then 0 else cr_lower R)"

definition getSignedMax :: "'a::len word crange \<Rightarrow> 'a word" where
  "getSignedMax R = (if isFullSet R \<or> isUpperSignWrapped R then smax_word else cr_upper R - 1)"

definition getSignedMin :: "'a::len word crange \<Rightarrow> 'a word" where
  "getSignedMin R = (if isFullSet R \<or> isSignWrappedSet R then smin_word else cr_lower R)"

definition contains :: "'a::len word crange \<Rightarrow> 'a word \<Rightarrow> bool" where
  "contains R v =
     (if cr_lower R = cr_upper R then isFullSet R
      else if \<not> isUpperWrapped R then cr_lower R \<le> v \<and> v < cr_upper R
      else cr_lower R \<le> v \<or> v < cr_upper R)"

definition getSingleElement :: "'a::len word crange \<Rightarrow> 'a word option" where
  "getSingleElement R = (if cr_upper R = cr_lower R + 1 then Some (cr_lower R) else None)"

definition getSingleMissingElement :: "'a::len word crange \<Rightarrow> 'a word option" where
  "getSingleMissingElement R = (if cr_lower R = cr_upper R + 1 then Some (cr_upper R) else None)"

definition isSingleElement :: "'a::len word crange \<Rightarrow> bool" where
  "isSingleElement R = (getSingleElement R \<noteq> None)"

section \<open>Membership\<close>

lemma range_eqI: "cr_lower R = cr_lower S \<Longrightarrow> cr_upper R = cr_upper S \<Longrightarrow> R = (S :: 'a::len word crange)"
  by (rule crange.equality) simp_all

lemma make_range_sel [simp]: "cr_lower (make_range l u) = l" "cr_upper (make_range l u) = u"
  by (simp_all add: make_range_def)

lemma contains_full [simp]: "contains full_range v" "contains \<lparr>cr_lower = - 1, cr_upper = - 1\<rparr> v"
  by (simp_all add: contains_def full_range_def isFullSet_def)

lemma contains_empty [simp]: "\<not> contains empty_range v"
  by (simp add: contains_def empty_range_def isFullSet_def)

lemma full_iff: "isFullSet R \<longleftrightarrow> R = full_range"
  by (auto simp: isFullSet_def full_range_def intro!: range_eqI)

lemma empty_iff: "isEmptySet R \<longleftrightarrow> R = empty_range"
  by (auto simp: isEmptySet_def empty_range_def intro!: range_eqI)

lemma wf_consts [simp]: "wf_range full_range" "wf_range empty_range" "wf_range (single_range v)"
  by (simp_all add: wf_range_def full_range_def empty_range_def single_range_def)

lemma equal_bounds: "wf_range R \<Longrightarrow> cr_lower R = cr_upper R \<Longrightarrow> R = full_range \<or> R = empty_range"
  by (auto simp: wf_range_def full_range_def empty_range_def intro!: range_eqI)

text \<open>Membership as a distance from the lower bound: it does not depend on where the words wrap.\<close>

lemma contains_distance:
  assumes "cr_lower R \<noteq> cr_upper R"
  shows "contains R v \<longleftrightarrow> v - cr_lower R < cr_upper R - cr_lower (R :: 'a::len word crange)"
proof -
  have u: "unat (x - y) = (if unat y \<le> unat x then unat x - unat y else 2 ^ LENGTH('a) + unat x - unat y)"
    for x y :: "'a word" by (simp add: unat_sub_if_size word_size add.commute)
  have arith: "(if \<not> b < a then a \<le> x \<and> x < b else a \<le> x \<or> x < b)
      \<longleftrightarrow> (if a \<le> x then x - a else N + x - a) < (if a \<le> b then b - a else N + b - a)"
    if "a < N" "b < N" "x < N" "a \<noteq> b" for N a b x :: nat
    using that by auto
  have "unat (cr_lower R) \<noteq> unat (cr_upper R)" using assms by (simp add: word_unat_eq_iff)
  from arith [OF unsigned_less unsigned_less unsigned_less this, of v] assms show ?thesis
    unfolding contains_def isUpperWrapped_def word_less_nat_alt word_le_nat_alt u by simp
qed

section \<open>The extreme elements\<close>

lemma less_plus_1_iff: "u \<noteq> - 1 \<Longrightarrow> v < u + 1 \<longleftrightarrow> v \<le> (u :: 'a::len word)"
proof -
  assume "u \<noteq> - 1"
  then have "1 + u \<noteq> 0" by (metis add.commute add_eq_0_iff)
  then have "unat (u + 1) = Suc (unat u)" using unatSuc [of u] by (simp add: add.commute)
  then show ?thesis by (simp add: word_less_nat_alt word_le_nat_alt less_Suc_eq_le)
qed

lemma le_minus_1_iff: "u \<noteq> 0 \<Longrightarrow> v \<le> u - 1 \<longleftrightarrow> v < (u :: 'a::len word)"
  using less_plus_1_iff [of "u - 1" v] by auto

lemma unsigned_interval_iff:
  assumes "lo \<le> hi" "lo \<noteq> hi + 1"
  shows "contains \<lparr>cr_lower = lo, cr_upper = hi + 1\<rparr> v \<longleftrightarrow> lo \<le> v \<and> v \<le> (hi :: 'a::len word)"
proof (cases "hi = - 1")
  case True
  with assms show ?thesis by (auto simp: contains_def isUpperWrapped_def word_gt_0)
next
  case False
  then have "lo < hi + 1" using assms(1) by (simp add: less_plus_1_iff)
  then have "\<not> hi + 1 < lo" by simp
  with False assms show ?thesis by (auto simp: contains_def isUpperWrapped_def less_plus_1_iff)
qed

lemma unsigned_bounds:
  assumes "contains R v"
  shows "getUnsignedMin R \<le> v" "v \<le> getUnsignedMax (R :: 'a::len word crange)"
proof -
  show "getUnsignedMin R \<le> v"
    using assms by (auto simp: contains_def getUnsignedMin_def isWrappedSet_def isUpperWrapped_def split: if_splits)
  show "v \<le> getUnsignedMax R"
  proof (cases "isFullSet R \<or> isUpperWrapped R")
    case True then show ?thesis by (simp add: getUnsignedMax_def)
  next
    case False
    with assms have "v < cr_upper R" by (auto simp: contains_def split: if_splits)
    moreover from this have "cr_upper R \<noteq> 0" by auto
    ultimately have "v \<le> cr_upper R - 1" by (simp add: le_minus_1_iff)
    with False show ?thesis by (simp add: getUnsignedMax_def)
  qed
qed

lemma unsigned_attained:
  assumes "contains R v"
  shows "contains R (getUnsignedMin R)" "contains R (getUnsignedMax (R :: 'a::len word crange))"
proof -
  consider "isFullSet R" | "cr_lower R \<noteq> cr_upper R" "isUpperWrapped R"
    | "cr_lower R \<noteq> cr_upper R" "\<not> isUpperWrapped R" "cr_lower R < cr_upper R"
    using assms by (auto simp: contains_def isUpperWrapped_def split: if_splits)
  note cases = this
  from cases show "contains R (getUnsignedMin R)"
    by cases (auto simp: contains_def getUnsignedMin_def isWrappedSet_def isUpperWrapped_def isFullSet_def word_gt_0)
  from cases show "contains R (getUnsignedMax R)"
  proof cases
    case 3
    then have "cr_upper R \<noteq> 0" by auto
    with 3 have "cr_lower R \<le> cr_upper R - 1" "cr_upper R - 1 < cr_upper R"
      using le_minus_1_iff [of "cr_upper R"] by auto
    with 3 show ?thesis by (auto simp: contains_def getUnsignedMax_def isFullSet_def)
  qed (auto simp: contains_def getUnsignedMax_def isFullSet_def)
qed

text \<open>The signed facts follow from the unsigned ones of the shifted range.\<close>

definition bias_range :: "'a::len word crange \<Rightarrow> 'a word crange" where
  "bias_range R = \<lparr>cr_lower = cr_lower R + smin_word, cr_upper = cr_upper R + smin_word\<rparr>"

lemma bias_range_sel [simp]: "cr_lower (bias_range R) = cr_lower R + smin_word" "cr_upper (bias_range R) = cr_upper R + smin_word"
  by (simp_all add: bias_range_def)

lemma contains_bias: "cr_lower R \<noteq> cr_upper R \<Longrightarrow> contains (bias_range R) (v + smin_word) \<longleftrightarrow> contains R v"
  by (simp add: contains_distance)

lemma bias_upper_wrapped: "isUpperWrapped (bias_range R) \<longleftrightarrow> isUpperSignWrapped R"
  by (simp add: isUpperWrapped_def isUpperSignWrapped_def bias_less_iff)

lemma bias_zero_iff: "x + smin_word = 0 \<longleftrightarrow> x = (smin_word :: 'a::len word)"
  by (metis add_right_cancel smin_twice)

lemma bias_wrapped: "isWrappedSet (bias_range R) \<longleftrightarrow> isSignWrappedSet R"
  by (simp add: isWrappedSet_def isSignWrappedSet_def bias_less_iff bias_zero_iff)

lemma bias_not_full: "cr_lower R \<noteq> cr_upper R \<Longrightarrow> \<not> isFullSet (bias_range R) \<and> \<not> isFullSet R"
  by (simp add: isFullSet_def)

lemma bias_extremes:
  assumes "cr_lower R \<noteq> cr_upper (R :: 'a::len word crange)"
  shows "getUnsignedMax (bias_range R) = getSignedMax R + smin_word"
    and "getUnsignedMin (bias_range R) = getSignedMin R + smin_word"
  using bias_not_full [OF assms]
  by (simp_all add: getUnsignedMax_def getSignedMax_def getUnsignedMin_def getSignedMin_def bias_upper_wrapped
      bias_wrapped smax_bias algebra_simps)

lemma signed_bounds:
  assumes "contains R v"
  shows "sint (getSignedMin R) \<le> sint v" "sint v \<le> sint (getSignedMax (R :: 'a::len word crange))"
proof -
  have "sint (getSignedMin R) \<le> sint v \<and> sint v \<le> sint (getSignedMax R)"
  proof (cases "cr_lower R = cr_upper R")
    case True
    with assms show ?thesis
      using sint_bounds [of v] by (simp add: contains_def getSignedMin_def getSignedMax_def)
  next
    case False
    with assms have "contains (bias_range R) (v + smin_word)" by (simp add: contains_bias)
    from unsigned_bounds [OF this] show ?thesis by (simp add: bias_extremes [OF False] bias_le_iff)
  qed
  then show "sint (getSignedMin R) \<le> sint v" "sint v \<le> sint (getSignedMax R)" by simp_all
qed

lemma signed_attained:
  assumes "contains R v"
  shows "contains R (getSignedMin R)" "contains R (getSignedMax (R :: 'a::len word crange))"
proof -
  have "contains R (getSignedMin R) \<and> contains R (getSignedMax R)"
  proof (cases "cr_lower R = cr_upper R")
    case True with assms show ?thesis by (simp add: contains_def)
  next
    case False
    with assms have "contains (bias_range R) (v + smin_word)" by (simp add: contains_bias)
    from unsigned_attained [OF this] show ?thesis by (simp add: bias_extremes [OF False] contains_bias [OF False])
  qed
  then show "contains R (getSignedMin R)" "contains R (getSignedMax R)" by simp_all
qed

lemma signed_interval_iff:
  assumes "sint lo \<le> sint hi" "lo \<noteq> hi + 1"
  shows "contains \<lparr>cr_lower = lo, cr_upper = hi + 1\<rparr> v \<longleftrightarrow> sint lo \<le> sint v \<and> sint v \<le> sint (hi :: 'a::len word)"
proof -
  let ?R = "\<lparr>cr_lower = lo, cr_upper = hi + 1\<rparr>"
  have "contains ?R v \<longleftrightarrow> contains (bias_range ?R) (v + smin_word)" using assms(2) by (simp add: contains_bias)
  also have "bias_range ?R = \<lparr>cr_lower = lo + smin_word, cr_upper = (hi + smin_word) + 1\<rparr>"
    by (simp add: bias_range_def algebra_simps)
  also have "contains \<dots> (v + smin_word) \<longleftrightarrow> lo + smin_word \<le> v + smin_word \<and> v + smin_word \<le> hi + smin_word"
  proof (rule unsigned_interval_iff)
    show "lo + smin_word \<le> hi + smin_word" using assms(1) by (simp add: bias_le_iff)
    show "lo + smin_word \<noteq> hi + smin_word + 1" using assms(2) by (metis add.assoc add.commute add_right_cancel)
  qed
  finally show ?thesis by (simp add: bias_le_iff)
qed

end
