(* ===== verification/RangeSets.thy ===== *)
theory RangeSets
  imports Range
begin

text \<open>
  The set operations of ranges: containment, intersection, union, difference and complement, and the
  ranges known from comparisons and from known bits. A union or intersection of two ranges need not
  be a range; then one of the ranges that cover it is returned, by preference.
\<close>

section \<open>Operations\<close>

definition contains_range :: "'a::len word crange \<Rightarrow> 'a word crange \<Rightarrow> bool" where
  "contains_range R S =
     (if isFullSet R \<or> isEmptySet S then True
      else if isEmptySet R \<or> isFullSet S then False
      else if \<not> isUpperWrapped R then
        (if isUpperWrapped S then False
         else cr_lower R \<le> cr_lower S \<and> cr_upper S \<le> cr_upper R)
      else if \<not> isUpperWrapped S then cr_upper S \<le> cr_upper R \<or> cr_lower R \<le> cr_lower S
      else cr_upper S \<le> cr_upper R \<and> cr_lower R \<le> cr_lower S)"

definition range_subtract :: "'a::len word crange \<Rightarrow> 'a word \<Rightarrow> 'a word crange" where
  "range_subtract R v = (if cr_lower R = cr_upper R then R
     else make_range (cr_lower R - v) (cr_upper R - v))"

definition inverse_range :: "'a::len word crange \<Rightarrow> 'a word crange" where
  "inverse_range R = (if isFullSet R then empty_range else if isEmptySet R then full_range
     else make_range (cr_upper R) (cr_lower R))"

datatype PreferredRangeType = Smallest | Unsigned | Signed

definition getPreferredRange ::
  "'a::len word crange \<Rightarrow> 'a word crange \<Rightarrow> PreferredRangeType \<Rightarrow> 'a word crange" where
  "getPreferredRange R S t =
     (if t = Unsigned \<and> \<not> isWrappedSet R \<and> isWrappedSet S then R
      else if t = Unsigned \<and> isWrappedSet R \<and> \<not> isWrappedSet S then S
      else if t = Signed \<and> \<not> isSignWrappedSet R \<and> isSignWrappedSet S then R
      else if t = Signed \<and> isSignWrappedSet R \<and> \<not> isSignWrappedSet S then S
      else if isSizeStrictlySmallerThan R S then R else S)"

text \<open>The three ways two ranges lie that the code tells apart.\<close>

definition intersect_plain :: "'a::len word crange \<Rightarrow> 'a word crange \<Rightarrow> 'a word crange" where
  "intersect_plain R S =
     (if cr_lower R < cr_lower S then
        (if cr_upper R \<le> cr_lower S then empty_range
         else if cr_upper R < cr_upper S then make_range (cr_lower S) (cr_upper R)
         else S)
      else if cr_upper R < cr_upper S then R
      else if cr_lower R < cr_upper S then make_range (cr_lower R) (cr_upper S)
      else empty_range)"

definition intersect_wrapped ::
  "'a::len word crange \<Rightarrow> 'a word crange \<Rightarrow> PreferredRangeType \<Rightarrow> 'a word crange" where
  "intersect_wrapped R S t =
     (if cr_lower S < cr_upper R then
        (if cr_upper S < cr_upper R then S
         else if cr_upper S \<le> cr_lower R then make_range (cr_lower S) (cr_upper R)
         else getPreferredRange R S t)
      else if cr_lower S < cr_lower R then
        (if cr_upper S \<le> cr_lower R then empty_range
         else make_range (cr_lower R) (cr_upper S))
      else S)"

definition intersect_both ::
  "'a::len word crange \<Rightarrow> 'a word crange \<Rightarrow> PreferredRangeType \<Rightarrow> 'a word crange" where
  "intersect_both R S t =
     (if cr_upper S < cr_upper R then
        (if cr_lower S < cr_upper R then getPreferredRange R S t
         else if cr_lower S < cr_lower R then make_range (cr_lower R) (cr_upper S)
         else S)
      else if cr_upper S \<le> cr_lower R then
        (if cr_lower S < cr_lower R then R else make_range (cr_lower S) (cr_upper R))
      else getPreferredRange R S t)"

function intersectWith ::
  "'a::len word crange \<Rightarrow> 'a word crange \<Rightarrow> PreferredRangeType \<Rightarrow> 'a word crange" where
  "intersectWith R S t =
     (if isEmptySet R \<or> isFullSet S then R
      else if isEmptySet S \<or> isFullSet R then S
      else if \<not> isUpperWrapped R \<and> isUpperWrapped S then intersectWith S R t
      else if \<not> isUpperWrapped R \<and> \<not> isUpperWrapped S then intersect_plain R S
      else if isUpperWrapped R \<and> \<not> isUpperWrapped S then intersect_wrapped R S t
      else intersect_both R S t)"
  by pat_completeness auto
termination by (relation "measure (\<lambda>(R, S, t). if isUpperWrapped R then 0 else 1)") auto

definition union_plain ::
  "'a::len word crange \<Rightarrow> 'a word crange \<Rightarrow> PreferredRangeType \<Rightarrow> 'a word crange" where
  "union_plain R S t =
     (if cr_upper S < cr_lower R \<or> cr_upper R < cr_lower S
      then getPreferredRange (make_range (cr_lower R) (cr_upper S)) (make_range (cr_lower S) (cr_upper R)) t
      else let l = (if cr_lower S < cr_lower R then cr_lower S else cr_lower R);
               u = (if cr_upper S - 1 > cr_upper R - 1 then cr_upper S else cr_upper R)
           in if l = 0 \<and> u = 0 then full_range else make_range l u)"

text \<open>The last branch follows an assertion.\<close>

definition union_wrapped ::
  "'a::len word crange \<Rightarrow> 'a word crange \<Rightarrow> PreferredRangeType \<Rightarrow> 'a word crange outcome" where
  "union_wrapped R S t =
     (if cr_upper S \<le> cr_upper R \<or> cr_lower S \<ge> cr_lower R then Done R
      else if cr_lower S \<le> cr_upper R \<and> cr_lower R \<le> cr_upper S then Done full_range
      else if cr_upper R < cr_lower S \<and> cr_upper S < cr_lower R
      then Done (getPreferredRange (make_range (cr_lower R) (cr_upper S)) (make_range (cr_lower S) (cr_upper R)) t)
      else if cr_upper R < cr_lower S \<and> cr_lower R \<le> cr_upper S then Done (make_range (cr_lower S) (cr_upper R))
      else if cr_lower S \<le> cr_upper R \<and> cr_upper S < cr_lower R then Done (make_range (cr_lower R) (cr_upper S))
      else Crash)"

definition union_both :: "'a::len word crange \<Rightarrow> 'a word crange \<Rightarrow> 'a word crange" where
  "union_both R S =
     (if cr_lower S \<le> cr_upper R \<or> cr_lower R \<le> cr_upper S then full_range
      else make_range (if cr_lower S < cr_lower R then cr_lower S else cr_lower R)
        (if cr_upper S > cr_upper R then cr_upper S else cr_upper R))"

function unionWith_range ::
  "'a::len word crange \<Rightarrow> 'a word crange \<Rightarrow> PreferredRangeType \<Rightarrow> 'a word crange outcome" where
  "unionWith_range R S t =
     (if isFullSet R \<or> isEmptySet S then Done R
      else if isFullSet S \<or> isEmptySet R then Done S
      else if \<not> isUpperWrapped R \<and> isUpperWrapped S then unionWith_range S R t
      else if \<not> isUpperWrapped R \<and> \<not> isUpperWrapped S then Done (union_plain R S t)
      else if \<not> isUpperWrapped S then union_wrapped R S t
      else Done (union_both R S))"
  by pat_completeness auto
termination by (relation "measure (\<lambda>(R, S, t). if isUpperWrapped R then 0 else 1)") auto

definition difference_range :: "'a::len word crange \<Rightarrow> 'a word crange \<Rightarrow> 'a word crange" where
  "difference_range R S = intersectWith R (inverse_range S) Smallest"

declare intersectWith.simps [simp del] unionWith_range.simps [simp del]

section \<open>What they contain\<close>

lemma preferred_cases: "getPreferredRange R S t = R \<or> getPreferredRange R S t = S"
  by (simp add: getPreferredRange_def)

lemma inverse_contains: "wf_range R \<Longrightarrow> contains (inverse_range R) v \<longleftrightarrow> \<not> contains R v"
  by (auto simp: inverse_range_def contains_def isFullSet_def isEmptySet_def isUpperWrapped_def wf_range_def
      full_range_def empty_range_def make_range_def)

lemma inverse_wf: "wf_range R \<Longrightarrow> wf_range (inverse_range R)"
  by (auto simp: inverse_range_def isFullSet_def isEmptySet_def wf_range_def full_range_def empty_range_def make_range_def)

text \<open>A range with different bounds, plain or wrapped.\<close>

definition plain_range :: "'a::len word crange \<Rightarrow> bool" where
  "plain_range R = (cr_lower R < cr_upper R)"

definition wrapped_range :: "'a::len word crange \<Rightarrow> bool" where
  "wrapped_range R = (cr_upper R < cr_lower R)"

lemma range_kinds:
  assumes "wf_range R"
  obtains "isEmptySet R" | "isFullSet R" | "plain_range R" "\<not> isUpperWrapped R" | "wrapped_range R" "isUpperWrapped R"
  using assms that unfolding wf_range_def isEmptySet_def isFullSet_def plain_range_def wrapped_range_def isUpperWrapped_def
  by (metis linorder_neqE not_less_iff_gr_or_eq)

lemma plain_contains: "plain_range R \<Longrightarrow> contains R v \<longleftrightarrow> cr_lower R \<le> v \<and> v < cr_upper R"
  by (auto simp: plain_range_def contains_def isUpperWrapped_def)

lemma wrapped_contains: "wrapped_range R \<Longrightarrow> contains R v \<longleftrightarrow> cr_lower R \<le> v \<or> v < cr_upper R"
  by (auto simp: wrapped_range_def contains_def isUpperWrapped_def)

lemma make_contains:
  "l < u \<Longrightarrow> contains (make_range l u) v \<longleftrightarrow> l \<le> v \<and> v < u"
  "u < l \<Longrightarrow> contains (make_range l u) v \<longleftrightarrow> l \<le> v \<or> v < u"
  by (auto simp: make_range_def contains_def isUpperWrapped_def)

lemma intersect_plain_contains:
  assumes "plain_range R" "plain_range S"
  shows "contains (intersect_plain R S) v \<longleftrightarrow> contains R v \<and> contains S v"
  using assms
  by (auto simp: intersect_plain_def plain_contains plain_range_def make_contains)

text \<open>
  A range covers an intersection when it contains it, and is it or one of the two ranges.
\<close>

definition covers_both :: "'a::len word crange \<Rightarrow> 'a word crange \<Rightarrow> 'a word crange \<Rightarrow> bool" where
  "covers_both R S T = (wf_range T \<and> ((\<forall>v. contains T v \<longleftrightarrow> contains R v \<and> contains S v) \<or> T = R \<or> T = S))"

lemma wf_make: "l \<noteq> u \<Longrightarrow> wf_range (make_range l u)"
  by (simp add: wf_range_def make_range_def)

lemma wf_plain: "plain_range R \<Longrightarrow> wf_range R" and wf_wrapped: "wrapped_range R \<Longrightarrow> wf_range R"
  by (auto simp: plain_range_def wrapped_range_def wf_range_def)

lemma covers_commute: "covers_both S R T \<Longrightarrow> covers_both R S T"
  by (auto simp: covers_both_def)

lemma covers_left: "wf_range R \<Longrightarrow> covers_both R S R" and covers_right: "wf_range S \<Longrightarrow> covers_both R S S"
  by (simp_all add: covers_both_def)

lemma covers_preferred: "wf_range R \<Longrightarrow> wf_range S \<Longrightarrow> covers_both R S (getPreferredRange R S t)"
  using preferred_cases [of R S t] by (auto simp: covers_both_def)

lemma covers_make:
  "l \<noteq> u \<Longrightarrow> (\<And>v. contains (make_range l u) v \<longleftrightarrow> contains R v \<and> contains S v) \<Longrightarrow> covers_both R S (make_range l u)"
  by (simp add: covers_both_def wf_make)

lemma covers_empty: "(\<And>v. \<not> (contains R v \<and> contains S v)) \<Longrightarrow> covers_both R S empty_range"
  by (simp add: covers_both_def)

lemma covers_if: "(b \<Longrightarrow> covers_both R S x) \<Longrightarrow> (\<not> b \<Longrightarrow> covers_both R S y) \<Longrightarrow> covers_both R S (if b then x else y)"
  by simp

lemma covers_plain:
  assumes "plain_range R" "plain_range S"
  shows "covers_both R S (intersect_plain R S)"
proof -
  note wf = wf_plain [OF assms(1)] wf_plain [OF assms(2)]
  show ?thesis
    using assms unfolding intersect_plain_def
    by (intro covers_if covers_empty covers_make)
      (auto intro: covers_left [OF wf(1)] covers_right [OF wf(2)] covers_preferred [OF wf]
        simp: plain_contains plain_range_def make_contains)
qed

lemma covers_wrapped:
  assumes "wrapped_range R" "plain_range S"
  shows "covers_both R S (intersect_wrapped R S t)"
proof -
  note wf = wf_wrapped [OF assms(1)] wf_plain [OF assms(2)]
  show ?thesis
    using assms unfolding intersect_wrapped_def
    by (intro covers_if covers_empty covers_make)
      (auto intro: covers_left [OF wf(1)] covers_right [OF wf(2)] covers_preferred [OF wf]
        simp: plain_contains wrapped_contains plain_range_def wrapped_range_def make_contains)
qed

lemma covers_wrapped_both:
  assumes "wrapped_range R" "wrapped_range S"
  shows "covers_both R S (intersect_both R S t)"
proof -
  note wf = wf_wrapped [OF assms(1)] wf_wrapped [OF assms(2)]
  show ?thesis
    using assms unfolding intersect_both_def
    by (intro covers_if covers_empty covers_make)
      (auto intro: covers_left [OF wf(1)] covers_right [OF wf(2)] covers_preferred [OF wf]
        simp: wrapped_contains wrapped_range_def make_contains)
qed

lemma intersect_covers:
  assumes "wf_range R" "wf_range S"
  shows "covers_both R S (intersectWith R S t)"
proof -
  have empty: "covers_both A B A" if "isEmptySet A" for A B :: "'a word crange"
    using that by (simp add: covers_both_def empty_iff)
  have full: "covers_both A B B" if "isFullSet A" "wf_range B" for A B :: "'a word crange"
    using that by (simp add: covers_both_def)
  have direct: "covers_both A B (intersectWith A B t)"
    if wf: "wf_range A" "wf_range B" and w: "isUpperWrapped A \<or> \<not> isUpperWrapped B" for A B :: "'a word crange"
  proof (cases "isEmptySet A \<or> isFullSet B \<or> isEmptySet B \<or> isFullSet A")
    case True
    with wf empty [of A B] empty [of B A] full [of A B] full [of B A] show ?thesis
      by (subst intersectWith.simps) (auto intro: covers_commute)
  next
    case False
    with wf w show ?thesis
      by (elim range_kinds; simp add: intersectWith.simps [of A B] covers_plain covers_wrapped covers_wrapped_both)
  qed
  show ?thesis
  proof (cases "isUpperWrapped R \<or> \<not> isUpperWrapped S")
    case True with assms show ?thesis by (rule direct)
  next
    case False
    then have "isUpperWrapped S \<or> \<not> isUpperWrapped R" by simp
    from covers_commute [OF direct [OF assms(2,1) this]] False show ?thesis
      by (subst intersectWith.simps) (auto intro: covers_left [OF assms(1)] covers_right [OF assms(2)])
  qed
qed

text \<open>
  A range covers a union when it contains it, and is it or spans the gap between the two ranges on one
  side.
\<close>

definition covers_either :: "'a::len word crange \<Rightarrow> 'a word crange \<Rightarrow> 'a word crange \<Rightarrow> bool" where
  "covers_either R S T = (wf_range T \<and> (\<forall>v. contains R v \<or> contains S v \<longrightarrow> contains T v)
     \<and> ((\<forall>v. contains T v \<longrightarrow> contains R v \<or> contains S v)
        \<or> T = make_range (cr_lower R) (cr_upper S) \<or> T = make_range (cr_lower S) (cr_upper R)))"

lemma covers_either_commute: "covers_either S R T \<Longrightarrow> covers_either R S T"
  by (auto simp: covers_either_def)

lemma either_if: "(b \<Longrightarrow> covers_either R S x) \<Longrightarrow> (\<not> b \<Longrightarrow> covers_either R S y) \<Longrightarrow> covers_either R S (if b then x else y)"
  by simp

lemma either_exact:
  "l \<noteq> u \<Longrightarrow> (\<And>v. contains (make_range l u) v \<longleftrightarrow> contains R v \<or> contains S v) \<Longrightarrow> covers_either R S (make_range l u)"
  by (simp add: covers_either_def wf_make)

lemma either_left: "wf_range R \<Longrightarrow> (\<And>v. contains S v \<Longrightarrow> contains R v) \<Longrightarrow> covers_either R S R"
  by (auto simp: covers_either_def)

lemma either_right: "wf_range S \<Longrightarrow> (\<And>v. contains R v \<Longrightarrow> contains S v) \<Longrightarrow> covers_either R S S"
  by (auto simp: covers_either_def)

lemma either_full: "(\<And>v. contains R v \<or> contains S v) \<Longrightarrow> covers_either R S full_range"
  by (auto simp: covers_either_def)

lemma either_preferred:
  assumes "\<And>v. contains R v \<or> contains S v \<Longrightarrow> contains (make_range (cr_lower R) (cr_upper S)) v"
    and "\<And>v. contains R v \<or> contains S v \<Longrightarrow> contains (make_range (cr_lower S) (cr_upper R)) v"
    and "cr_lower R \<noteq> cr_upper S" "cr_lower S \<noteq> cr_upper R"
  shows "covers_either R S (getPreferredRange (make_range (cr_lower R) (cr_upper S)) (make_range (cr_lower S) (cr_upper R)) t)"
  using preferred_cases [of "make_range (cr_lower R) (cr_upper S)" "make_range (cr_lower S) (cr_upper R)" t] assms
  by (auto simp: covers_either_def wf_make)

lemma minus_1_less_iff:
  assumes "u \<noteq> 0" "w \<noteq> (0 :: 'a::len word)"
  shows "u - 1 < w - 1 \<longleftrightarrow> u < w"
proof -
  have "unat u \<noteq> 0" "unat w \<noteq> 0" using assms by (simp_all add: unat_eq_0)
  then show ?thesis by (simp add: word_less_nat_alt unat_minus_one assms) linarith
qed

lemma union_plain_covers:
  assumes "plain_range R" "plain_range S"
  shows "covers_either R S (union_plain R S t)"
proof -
  have "cr_upper R \<noteq> 0" "cr_upper S \<noteq> 0" using assms by (auto simp: plain_range_def)
  note top = minus_1_less_iff [OF this]
  show ?thesis
    using assms unfolding union_plain_def Let_def top
    by (intro either_if either_preferred either_exact)
      (auto simp: plain_contains plain_range_def make_contains word_gt_0 split: if_splits)
qed

lemma union_wrapped_covers:
  assumes "wrapped_range R" "plain_range S"
  shows "\<exists>T. union_wrapped R S t = Done T \<and> covers_either R S T"
proof -
  consider (inside) "cr_upper S \<le> cr_upper R \<or> cr_lower S \<ge> cr_lower R"
    | (all) "\<not> (cr_upper S \<le> cr_upper R \<or> cr_lower S \<ge> cr_lower R)" "cr_lower S \<le> cr_upper R" "cr_lower R \<le> cr_upper S"
    | (gaps) "\<not> (cr_upper S \<le> cr_upper R \<or> cr_lower S \<ge> cr_lower R)" "cr_upper R < cr_lower S" "cr_upper S < cr_lower R"
    | (below) "\<not> (cr_upper S \<le> cr_upper R \<or> cr_lower S \<ge> cr_lower R)" "cr_upper R < cr_lower S" "cr_lower R \<le> cr_upper S"
    | (above) "\<not> (cr_upper S \<le> cr_upper R \<or> cr_lower S \<ge> cr_lower R)" "cr_lower S \<le> cr_upper R" "cr_upper S < cr_lower R"
    by (meson linorder_not_le)
  then show ?thesis
  proof cases
    case inside
    then have "covers_either R S R"
      using assms by (intro either_left wf_wrapped) (auto simp: wrapped_contains plain_contains wrapped_range_def)
    with inside show ?thesis by (auto simp: union_wrapped_def)
  next
    case all
    then have "covers_either R S full_range"
      using assms by (intro either_full) (auto simp: wrapped_contains plain_contains wrapped_range_def)
    with all show ?thesis by (auto simp: union_wrapped_def)
  next
    case gaps
    then have "covers_either R S
        (getPreferredRange (make_range (cr_lower R) (cr_upper S)) (make_range (cr_lower S) (cr_upper R)) t)"
      using assms by (intro either_preferred)
        (auto simp: wrapped_contains plain_contains wrapped_range_def plain_range_def make_contains)
    with gaps show ?thesis by (auto simp: union_wrapped_def)
  next
    case below
    then have "covers_either R S (make_range (cr_lower S) (cr_upper R))"
      using assms by (intro either_exact)
        (auto simp: wrapped_contains plain_contains wrapped_range_def plain_range_def make_contains)
    with below show ?thesis by (auto simp: union_wrapped_def)
  next
    case above
    then have "covers_either R S (make_range (cr_lower R) (cr_upper S))"
      using assms by (intro either_exact)
        (auto simp: wrapped_contains plain_contains wrapped_range_def plain_range_def make_contains)
    with above show ?thesis by (auto simp: union_wrapped_def)
  qed
qed

lemma union_both_covers:
  assumes "wrapped_range R" "wrapped_range S"
  shows "covers_either R S (union_both R S)"
  using assms unfolding union_both_def
  by (intro either_if either_full either_exact) (auto simp: wrapped_contains wrapped_range_def make_contains split: if_splits)

lemma union_covers:
  assumes "wf_range R" "wf_range S"
  shows "\<exists>T. unionWith_range R S t = Done T \<and> covers_either R S T"
proof -
  have full: "covers_either A B A" if "isFullSet A" for A B :: "'a word crange"
    using that by (simp add: covers_either_def full_iff)
  have empty: "covers_either A B B" if "isEmptySet A" "wf_range B" for A B :: "'a word crange"
    using that by (simp add: covers_either_def empty_iff)
  note trivial = full [of R S] full [of S R] empty [of R S] empty [of S R]
  have direct: "\<exists>T. unionWith_range A B t = Done T \<and> covers_either A B T"
    if wf: "wf_range A" "wf_range B" and w: "isUpperWrapped A \<or> \<not> isUpperWrapped B" for A B :: "'a word crange"
  proof (cases "isFullSet A \<or> isEmptySet B \<or> isFullSet B \<or> isEmptySet A")
    case True
    with wf full [of A B] full [of B A] empty [of A B] empty [of B A] show ?thesis
      by (subst unionWith_range.simps) (auto intro: covers_either_commute)
  next
    case False
    with wf w show ?thesis
      by (elim range_kinds;
          simp add: unionWith_range.simps [of A B] union_plain_covers union_wrapped_covers union_both_covers)
  qed
  show ?thesis
  proof (cases "isUpperWrapped R \<or> \<not> isUpperWrapped S")
    case True with assms show ?thesis by (rule direct)
  next
    case False
    then have w: "isUpperWrapped S \<or> \<not> isUpperWrapped R" by simp
    obtain T where "unionWith_range S R t = Done T" "covers_either R S T"
      using direct [OF assms(2,1) w] covers_either_commute by blast
    with False trivial assms show ?thesis
      by (subst unionWith_range.simps) (auto intro: covers_either_commute)
  qed
qed

section \<open>Containment and canonical form\<close>

lemma minus_1_less: "u \<noteq> 0 \<Longrightarrow> u - 1 < w \<longleftrightarrow> u \<le> (w :: 'a::len word)"
  using le_minus_1_iff [of u w] by (metis linorder_not_le)

lemma kind_facts:
  "plain_range R \<Longrightarrow> cr_lower R \<noteq> cr_upper R \<and> \<not> isFullSet R \<and> \<not> isEmptySet R \<and> \<not> isUpperWrapped R"
  "wrapped_range R \<Longrightarrow> cr_lower R \<noteq> cr_upper R \<and> \<not> isFullSet R \<and> \<not> isEmptySet R \<and> isUpperWrapped R"
  by (auto simp: plain_range_def wrapped_range_def isFullSet_def isEmptySet_def isUpperWrapped_def)

lemma full_not_empty [simp]: "full_range \<noteq> empty_range" "\<not> isEmptySet full_range" "\<not> isFullSet empty_range"
  "isFullSet full_range" "isEmptySet empty_range"
  by (auto simp: full_range_def empty_range_def isFullSet_def isEmptySet_def)

lemma contains_range_kinds:
  "plain_range R \<Longrightarrow> plain_range S \<Longrightarrow> contains_range R S \<longleftrightarrow> cr_lower R \<le> cr_lower S \<and> cr_upper S \<le> cr_upper R"
  "plain_range R \<Longrightarrow> wrapped_range S \<Longrightarrow> \<not> contains_range R S"
  "wrapped_range R \<Longrightarrow> plain_range S \<Longrightarrow> contains_range R S \<longleftrightarrow> cr_upper S \<le> cr_upper R \<or> cr_lower R \<le> cr_lower S"
  "wrapped_range R \<Longrightarrow> wrapped_range S \<Longrightarrow> contains_range R S \<longleftrightarrow> cr_upper S \<le> cr_upper R \<and> cr_lower R \<le> cr_lower S"
  "contains_range S full_range \<longleftrightarrow> isFullSet S" "contains_range empty_range S \<longleftrightarrow> isEmptySet S"
  by (simp_all add: contains_range_def kind_facts)

lemma word_max: "v \<le> (- 1 :: 'a::len word)" "\<not> (- 1 :: 'a word) < v"
  by (simp_all add: not_less)

lemma contains_range_exact:
  assumes "wf_range R" "wf_range S"
  shows "contains_range R S \<longleftrightarrow> (\<forall>v. contains S v \<longrightarrow> contains R v)"
proof (cases "isFullSet R \<or> isEmptySet S \<or> isEmptySet R \<or> isFullSet S")
  case True
  have "\<exists>v. contains S v" if "\<not> isEmptySet S"
    using assms(2) that by (elim range_kinds) (auto simp: full_iff plain_contains plain_range_def wrapped_contains intro: exI [of _ "cr_lower S"])
  moreover have "\<exists>v. \<not> contains R v" if "\<not> isFullSet R"
    using assms(1) that inverse_contains [OF assms(1)]
    by (elim range_kinds) (auto simp: empty_iff plain_contains wrapped_contains plain_range_def wrapped_range_def intro: exI [of _ "cr_upper R"])
  ultimately show ?thesis using True by (auto simp: contains_range_def full_iff empty_iff)
next
  case False
  let ?sub = "\<forall>v. contains S v \<longrightarrow> contains R v"
  have at: "contains S v \<Longrightarrow> contains R v" if ?sub for v using that by blast
  consider (pp) "plain_range R" "plain_range S" | (pw) "plain_range R" "wrapped_range S"
    | (wp) "wrapped_range R" "plain_range S" | (ww) "wrapped_range R" "wrapped_range S"
    using assms False by (auto elim!: range_kinds)
  then show ?thesis
  proof cases
    case pp
    then have "cr_upper S \<noteq> 0" by (auto simp: plain_range_def)
    then have "contains S (cr_upper S - 1)" and last: "cr_upper S - 1 < cr_upper R \<longleftrightarrow> cr_upper S \<le> cr_upper R"
      using pp by (auto simp: plain_contains plain_range_def le_minus_1_iff minus_1_less)
    with pp at [of "cr_lower S"] at [of "cr_upper S - 1"] have "contains_range R S" if ?sub
      using that pp by (auto simp: contains_range_kinds plain_contains plain_range_def)
    moreover have ?sub if "contains_range R S"
      using that pp by (auto simp: contains_range_kinds plain_contains plain_range_def)
    ultimately show ?thesis by blast
  next
    case pw
    then have "contains S (- 1)" "\<not> contains R (- 1)" by (auto simp: wrapped_contains plain_contains word_max)
    moreover have "\<not> contains_range R S"
      using pw by (simp add: contains_range_kinds)
    ultimately show ?thesis by blast
  next
    case wp
    have "contains_range R S" if sub: ?sub
    proof (rule ccontr)
      assume "\<not> contains_range R S"
      then have lt: "cr_upper R < cr_upper S" "cr_lower S < cr_lower R" using wp by (auto simp: contains_range_kinds)
      have "contains S (cr_lower S)" using wp by (simp add: plain_contains plain_range_def)
      with sub have "contains R (cr_lower S)" by blast
      with lt wp have "contains S (cr_upper R)" by (auto simp: wrapped_contains plain_contains)
      with sub have "contains R (cr_upper R)" by blast
      with wp show False by (simp add: wrapped_contains wrapped_range_def)
    qed
    moreover have ?sub if "contains_range R S"
      using that wp by (auto simp: contains_range_kinds wrapped_contains plain_contains plain_range_def wrapped_range_def)
    ultimately show ?thesis by blast
  next
    case ww
    have "contains_range R S" if sub: ?sub
    proof -
      have "\<not> contains R (cr_upper R)" using ww by (simp add: wrapped_contains wrapped_range_def)
      with sub have "\<not> contains S (cr_upper R)" by blast
      then have lt: "cr_upper S \<le> cr_upper R" "cr_upper R < cr_lower S" using ww by (auto simp: wrapped_contains)
      have "contains S (cr_lower S)" using ww by (simp add: wrapped_contains)
      with sub have "contains R (cr_lower S)" by blast
      with lt ww show ?thesis by (auto simp: wrapped_contains contains_range_kinds)
    qed
    moreover have ?sub if "contains_range R S"
      using that ww by (auto simp: contains_range_kinds wrapped_contains wrapped_range_def)
    ultimately show ?thesis by blast
  qed
qed

text \<open>Two well-formed ranges with the same elements are the same.\<close>

lemma contains_range_antisym:
  assumes "wf_range R" "wf_range S" "contains_range R S" "contains_range S R"
  shows "R = S"
  using assms
  by (elim range_kinds)
    (auto simp: full_iff empty_iff contains_range_kinds dest: kind_facts intro!: range_eqI antisym)

lemma range_unique:
  assumes "wf_range R" "wf_range S" "\<And>v. contains R v \<longleftrightarrow> contains S v"
  shows "R = S"
  using assms contains_range_antisym [OF assms(1,2)] by (simp add: contains_range_exact)

end
