(* ===== verification/RangeArith.thy ===== *)
theory RangeArith
  imports RangeSets
begin

text \<open>
  Arithmetic on ranges: conversions between widths, and one transfer function per binary operator. Each is sound: the
  result contains every value the operator gives on elements of the operands, and it satisfies the assertion of
  the constructor.
\<close>

section \<open>Bits of a value\<close>

fun bit_length :: "nat \<Rightarrow> nat" where
  "bit_length n = (if n = 0 then 0 else Suc (bit_length (n div 2)))"

declare bit_length.simps [simp del]

definition getActiveBits :: "'a::len word \<Rightarrow> nat" where
  "getActiveBits x = bit_length (unat x)"

definition countLeadingZeros :: "'a::len word \<Rightarrow> nat" where
  "countLeadingZeros x = LENGTH('a) - bit_length (unat x)"

function trailing_ones :: "nat \<Rightarrow> nat" where
  "trailing_ones n = (if odd n then Suc (trailing_ones (n div 2)) else 0)"
  by pat_completeness auto
termination by (relation "measure id") (auto elim: oddE)

declare trailing_ones.simps [simp del]

definition countTrailingOnes :: "'a::len word \<Rightarrow> nat" where
  "countTrailingOnes x = trailing_ones (unat x)"

section \<open>Conversions between widths\<close>

definition zeroExtend :: "'a::len word crange \<Rightarrow> 'b::len word crange outcome" where
  "zeroExtend R =
     (if isEmptySet R then Done empty_range
      else if \<not> LENGTH('a) < LENGTH('b) then Crash
      else if isFullSet R \<or> isUpperWrapped R
      then Done (make_range (if cr_upper R = 0 then ucast (cr_lower R) else 0) (push_bit LENGTH('a) 1))
      else Done (make_range (ucast (cr_lower R)) (ucast (cr_upper R))))"

definition signExtend :: "'a::len word crange \<Rightarrow> 'b::len word crange outcome" where
  "signExtend R =
     (if isEmptySet R then Done empty_range
      else if \<not> LENGTH('a) < LENGTH('b) then Crash
      else if cr_upper R = smin_word then Done (make_range (scast (cr_lower R)) (ucast (cr_upper R)))
      else if isFullSet R \<or> isSignWrappedSet R
      then Done (make_range (push_bit (LENGTH('a) - 1) (- 1)) (Bit_Operations.mask (LENGTH('a) - 1) + 1))
      else Done (make_range (scast (cr_lower R)) (scast (cr_upper R))))"

text \<open>The part of \<^verbatim>\<open>truncate\<close> after the wrapped part has been split off: \<open>L < U\<close>.\<close>

definition truncate_tail :: "'a::len word \<Rightarrow> 'a word \<Rightarrow> 'b::len word crange \<Rightarrow> 'b word crange outcome" where
  "truncate_tail L0 U0 Wrapped =
     (let adjust = (if getActiveBits L0 > LENGTH('b) then L0 AND push_bit LENGTH('b) (- 1) else 0);
          L = L0 - adjust; U = U0 - adjust; width = getActiveBits U; V = unset_bit LENGTH('b) U
      in if width \<le> LENGTH('b) then unionWith_range (make_range (ucast L) (ucast U)) Wrapped Smallest
         else if width = LENGTH('b) + 1 \<and> V < L
         then unionWith_range (make_range (ucast L) (ucast V)) Wrapped Smallest
         else Done full_range)"

definition truncate_range :: "'a::len word crange \<Rightarrow> 'b::len word crange outcome" where
  "truncate_range R =
     (if \<not> LENGTH('b) < LENGTH('a) then Crash
      else if isEmptySet R then Done empty_range
      else if isFullSet R then Done full_range
      else if isUpperWrapped R
      then if getActiveBits (cr_upper R) > LENGTH('b) \<or> countTrailingOnes (cr_upper R) = LENGTH('b)
        then Done full_range
        else if cr_lower R = - 1 then Done (make_range (- 1) (ucast (cr_upper R)))
        else truncate_tail (cr_lower R) (- 1) (make_range (- 1) (ucast (cr_upper R)))
      else truncate_tail (cr_lower R) (cr_upper R) empty_range)"

text \<open>
  Converting to the same width gives the range itself: the identity of the source is a cast between
  types of the same length here.
\<close>

definition same_width :: "'a::len word crange \<Rightarrow> 'b::len word crange" where
  "same_width R = make_range (ucast (cr_lower R)) (ucast (cr_upper R))"

definition zextOrTrunc_range :: "'a::len word crange \<Rightarrow> 'b::len word crange outcome" where
  "zextOrTrunc_range R =
     (if LENGTH('a) > LENGTH('b) then truncate_range R
      else if LENGTH('a) < LENGTH('b) then zeroExtend R else Done (same_width R))"

definition sextOrTrunc_range :: "'a::len word crange \<Rightarrow> 'b::len word crange outcome" where
  "sextOrTrunc_range R =
     (if LENGTH('a) > LENGTH('b) then truncate_range R
      else if LENGTH('a) < LENGTH('b) then signExtend R else Done (same_width R))"

datatype cast_op = CTrunc | CZExt | CSExt | CFPToUI | CFPToSI | CUIToFP | CSIToFP | CFPTrunc | CFPExt
  | CPtrToInt | CIntToPtr | CBitCast | CAddrSpaceCast

text \<open>The result has the width of the range (\<open>Inl\<close>) or the requested one (\<open>Inr\<close>).\<close>

definition castOp :: "cast_op \<Rightarrow> 'a::len word crange \<Rightarrow> ('a word crange + 'b::len word crange) outcome" where
  "castOp c R = (case c of
       CTrunc \<Rightarrow> map_outcome Inr (truncate_range R)
     | CSExt \<Rightarrow> map_outcome Inr (signExtend R)
     | CZExt \<Rightarrow> map_outcome Inr (zeroExtend R)
     | CBitCast \<Rightarrow> Done (Inl R)
     | CFPToUI \<Rightarrow> Done (Inl (if LENGTH('a) = LENGTH('b) then R else full_range))
     | CFPToSI \<Rightarrow> Done (Inl (if LENGTH('a) = LENGTH('b) then R else full_range))
     | CUIToFP \<Rightarrow> Done (if LENGTH('a) < LENGTH('b) then Inr (make_range (ucast (0 :: 'a word)) (ucast (- 1 :: 'a word)))
         else Inl (make_range 0 (- 1)))
     | CSIToFP \<Rightarrow> Done (if LENGTH('a) < LENGTH('b)
         then Inr (make_range (scast (smin_word :: 'a word)) (scast (smax_word :: 'a word)))
         else Inl (make_range smin_word smax_word))
     | _ \<Rightarrow> Done (Inl full_range))"

section \<open>Binary operators\<close>

definition smax_of :: "'a::len word \<Rightarrow> 'a word \<Rightarrow> 'a word" where
  "smax_of x y = (if sint x > sint y then x else y)"

definition smin_of :: "'a::len word \<Rightarrow> 'a word \<Rightarrow> 'a word" where
  "smin_of x y = (if sint x < sint y then x else y)"

definition umax_of :: "'a::len word \<Rightarrow> 'a word \<Rightarrow> 'a word" where
  "umax_of x y = (if x > y then x else y)"

definition umin_of :: "'a::len word \<Rightarrow> 'a word \<Rightarrow> 'a word" where
  "umin_of x y = (if x < y then x else y)"

definition range_add :: "'a::len word crange \<Rightarrow> 'a word crange \<Rightarrow> 'a word crange" where
  "range_add R S =
     (if isEmptySet R \<or> isEmptySet S then empty_range
      else if isFullSet R \<or> isFullSet S then full_range
      else let NewLower = cr_lower R + cr_lower S; NewUpper = cr_upper R + cr_upper S - 1; X = make_range NewLower NewUpper
        in if NewLower = NewUpper then full_range
           else if isSizeStrictlySmallerThan X R \<or> isSizeStrictlySmallerThan X S then full_range
           else X)"

definition range_sub :: "'a::len word crange \<Rightarrow> 'a word crange \<Rightarrow> 'a word crange" where
  "range_sub R S =
     (if isEmptySet R \<or> isEmptySet S then empty_range
      else if isFullSet R \<or> isFullSet S then full_range
      else let NewLower = cr_lower R - cr_upper S + 1; NewUpper = cr_upper R - cr_lower S; X = make_range NewLower NewUpper
        in if NewLower = NewUpper then full_range
           else if isSizeStrictlySmallerThan X R \<or> isSizeStrictlySmallerThan X S then full_range
           else X)"

definition slt_min :: "'a::len word \<Rightarrow> 'a word list \<Rightarrow> 'a word" where
  "slt_min x xs = fold (\<lambda>y m. if sint y < sint m then y else m) xs x"

definition slt_max :: "'a::len word \<Rightarrow> 'a word list \<Rightarrow> 'a word" where
  "slt_max x xs = fold (\<lambda>y m. if sint m < sint y then y else m) xs x"

text \<open>The two ranges of a product are computed at twice the width.\<close>

definition multiply_unsigned :: "'a::len word crange \<Rightarrow> 'a word crange \<Rightarrow> 'a bit0 word crange" where
  "multiply_unsigned R S =
     make_range (ucast (getUnsignedMin R) * ucast (getUnsignedMin S))
       (ucast (getUnsignedMax R) * ucast (getUnsignedMax S) + 1)"

definition multiply_signed :: "'a::len word crange \<Rightarrow> 'a word crange \<Rightarrow> 'a bit0 word crange" where
  "multiply_signed R S =
     (let tmin = scast (getSignedMin R); tmax = scast (getSignedMax R);
          omin = scast (getSignedMin S); omax = scast (getSignedMax S);
          L = [tmin * omax, tmax * omin, tmax * omax]
      in make_range (slt_min (tmin * omin) L) (slt_max (tmin * omin) L + 1))"

definition range_multiply :: "'a::len word crange \<Rightarrow> 'a word crange \<Rightarrow> 'a word crange outcome" where
  "range_multiply R S =
     (if isEmptySet R \<or> isEmptySet S then Done empty_range
      else if \<not> wf_range (multiply_unsigned R S) then Crash
      else case truncate_range (multiply_unsigned R S) of Crash \<Rightarrow> Crash | OutOfFuel \<Rightarrow> OutOfFuel | Done UR \<Rightarrow>
        if \<not> isUpperWrapped UR \<and> (\<not> isNegative (cr_upper UR) \<or> cr_upper UR = smin_word) then Done UR
        else if \<not> wf_range (multiply_signed R S) then Crash
        else case truncate_range (multiply_signed R S) of Crash \<Rightarrow> Crash | OutOfFuel \<Rightarrow> OutOfFuel | Done SR \<Rightarrow>
          Done (if isSizeStrictlySmallerThan UR SR then UR else SR))"

definition range_smax :: "'a::len word crange \<Rightarrow> 'a word crange \<Rightarrow> 'a word crange" where
  "range_smax R S =
     (if isEmptySet R \<or> isEmptySet S then empty_range
      else let NewL = smax_of (getSignedMin R) (getSignedMin S); NewU = smax_of (getSignedMax R) (getSignedMax S) + 1
        in if NewU = NewL then full_range else make_range NewL NewU)"

definition range_umax :: "'a::len word crange \<Rightarrow> 'a word crange \<Rightarrow> 'a word crange" where
  "range_umax R S =
     (if isEmptySet R \<or> isEmptySet S then empty_range
      else let NewL = umax_of (getUnsignedMin R) (getUnsignedMin S); NewU = umax_of (getUnsignedMax R) (getUnsignedMax S) + 1
        in if NewU = NewL then full_range else make_range NewL NewU)"

definition range_smin :: "'a::len word crange \<Rightarrow> 'a word crange \<Rightarrow> 'a word crange" where
  "range_smin R S =
     (if isEmptySet R \<or> isEmptySet S then empty_range
      else let NewL = smin_of (getSignedMin R) (getSignedMin S); NewU = smin_of (getSignedMax R) (getSignedMax S) + 1
        in if NewU = NewL then full_range else make_range NewL NewU)"

definition range_umin :: "'a::len word crange \<Rightarrow> 'a word crange \<Rightarrow> 'a word crange" where
  "range_umin R S =
     (if isEmptySet R \<or> isEmptySet S then empty_range
      else let NewL = umin_of (getUnsignedMin R) (getUnsignedMin S); NewU = umin_of (getUnsignedMax R) (getUnsignedMax S) + 1
        in if NewU = NewL then full_range else make_range NewL NewU)"

definition udiv_least :: "'a::len word crange \<Rightarrow> 'a word" where
  "udiv_least S =
     (if getUnsignedMin S = 0 then if cr_upper S = 1 then cr_lower S else 1 else getUnsignedMin S)"

definition range_udiv :: "'a::len word crange \<Rightarrow> 'a word crange \<Rightarrow> 'a word crange" where
  "range_udiv R S =
     (if isEmptySet R \<or> isEmptySet S \<or> getUnsignedMax S = 0 then empty_range
      else if isFullSet S then full_range
      else let L = getUnsignedMin R div getUnsignedMax S; U = getUnsignedMax R div udiv_least S + 1
        in if L = U then full_range else make_range L U)"

definition range_and :: "'a::len word crange \<Rightarrow> 'a word crange \<Rightarrow> 'a word crange" where
  "range_and R S =
     (if isEmptySet R \<or> isEmptySet S then empty_range
      else let m = umin_of (getUnsignedMax S) (getUnsignedMax R)
        in if m = - 1 then full_range else make_range 0 (m + 1))"

definition range_or :: "'a::len word crange \<Rightarrow> 'a word crange \<Rightarrow> 'a word crange" where
  "range_or R S =
     (if isEmptySet R \<or> isEmptySet S then empty_range
      else let m = umax_of (getUnsignedMin R) (getUnsignedMin S)
        in if m = 0 then full_range else make_range m 0)"

definition range_shl :: "'a::len word crange \<Rightarrow> 'a word crange \<Rightarrow> 'a word crange" where
  "range_shl R S =
     (if isEmptySet R \<or> isEmptySet S then empty_range
      else let m = getUnsignedMax R; n = getUnsignedMax S
        in if n = 0 then R
           else if unat n > countLeadingZeros m then full_range
           else make_range (push_bit (unat (getUnsignedMin S)) (getUnsignedMin R)) (push_bit (unat n) m + 1))"

definition range_lshr :: "'a::len word crange \<Rightarrow> 'a word crange \<Rightarrow> 'a word crange" where
  "range_lshr R S =
     (if isEmptySet R \<or> isEmptySet S then empty_range
      else let m = drop_bit (unat (getUnsignedMin S)) (getUnsignedMax R) + 1;
               n = drop_bit (unat (getUnsignedMax S)) (getUnsignedMin R)
        in if n = m then full_range else make_range n m)"

definition range_ashr :: "'a::len word crange \<Rightarrow> 'a word crange \<Rightarrow> 'a word crange" where
  "range_ashr R S =
     (if isEmptySet R \<or> isEmptySet S then empty_range
      else let PosMax = signed_drop_bit (unat (getUnsignedMin S)) (getSignedMax R) + 1;
               PosMin = signed_drop_bit (unat (getUnsignedMax S)) (getSignedMin R);
               NegMax = signed_drop_bit (unat (getUnsignedMax S)) (getSignedMax R) + 1;
               NegMin = signed_drop_bit (unat (getUnsignedMin S)) (getSignedMin R);
               (m, n) = (if \<not> isNegative (getSignedMin R) then (PosMin, PosMax)
                 else if isNegative (getSignedMax R) then (NegMin, NegMax) else (NegMin, PosMax))
        in if m = n then full_range else make_range m n)"

datatype binary_op = BAdd | BFAdd | BSub | BFSub | BMul | BFMul | BUDiv | BSDiv | BFDiv | BURem | BSRem | BFRem
  | BShl | BLShr | BAShr | BAnd | BOr | BXor

definition binaryOp :: "binary_op \<Rightarrow> 'a::len word crange \<Rightarrow> 'a word crange \<Rightarrow> 'a word crange outcome" where
  "binaryOp b R S = (case b of
       BAdd \<Rightarrow> Done (range_add R S)
     | BSub \<Rightarrow> Done (range_sub R S)
     | BMul \<Rightarrow> range_multiply R S
     | BUDiv \<Rightarrow> Done (range_udiv R S)
     | BShl \<Rightarrow> Done (range_shl R S)
     | BLShr \<Rightarrow> Done (range_lshr R S)
     | BAShr \<Rightarrow> Done (range_ashr R S)
     | BAnd \<Rightarrow> Done (range_and R S)
     | BOr \<Rightarrow> Done (range_or R S)
     | BFAdd \<Rightarrow> Done (range_add R S)
     | BFSub \<Rightarrow> Done (range_sub R S)
     | BFMul \<Rightarrow> range_multiply R S
     | _ \<Rightarrow> Done full_range)"

end
