(* ===== verification/RangeICmp.thy ===== *)
theory RangeICmp
  imports RangeSets
begin

text \<open>
  Ranges and comparisons: the values for which an integer comparison can hold or must hold against a range,
  the comparison a range stands for, and the ranges given by known bits and by metadata.
\<close>

section \<open>Integer comparisons\<close>

datatype icmp_predicate = ICMP_EQ | ICMP_NE | ICMP_UGT | ICMP_UGE | ICMP_ULT | ICMP_ULE
  | ICMP_SGT | ICMP_SGE | ICMP_SLT | ICMP_SLE

definition getInversePredicate :: "icmp_predicate \<Rightarrow> icmp_predicate" where
  "getInversePredicate p = (case p of ICMP_EQ \<Rightarrow> ICMP_NE | ICMP_NE \<Rightarrow> ICMP_EQ
     | ICMP_UGT \<Rightarrow> ICMP_ULE | ICMP_ULT \<Rightarrow> ICMP_UGE | ICMP_UGE \<Rightarrow> ICMP_ULT | ICMP_ULE \<Rightarrow> ICMP_UGT
     | ICMP_SGT \<Rightarrow> ICMP_SLE | ICMP_SLT \<Rightarrow> ICMP_SGE | ICMP_SGE \<Rightarrow> ICMP_SLT | ICMP_SLE \<Rightarrow> ICMP_SGT)"

text \<open>What the predicates mean.\<close>

definition icmp_holds :: "icmp_predicate \<Rightarrow> 'a::len word \<Rightarrow> 'a word \<Rightarrow> bool" where
  "icmp_holds p x y = (case p of ICMP_EQ \<Rightarrow> x = y | ICMP_NE \<Rightarrow> x \<noteq> y
     | ICMP_UGT \<Rightarrow> x > y | ICMP_UGE \<Rightarrow> x \<ge> y | ICMP_ULT \<Rightarrow> x < y | ICMP_ULE \<Rightarrow> x \<le> y
     | ICMP_SGT \<Rightarrow> sint x > sint y | ICMP_SGE \<Rightarrow> sint x \<ge> sint y
     | ICMP_SLT \<Rightarrow> sint x < sint y | ICMP_SLE \<Rightarrow> sint x \<le> sint y)"

definition makeAllowedICmpRegion :: "icmp_predicate \<Rightarrow> 'a::len word crange \<Rightarrow> 'a word crange" where
  "makeAllowedICmpRegion p R =
     (if isEmptySet R then R
      else case p of
        ICMP_EQ \<Rightarrow> R
      | ICMP_NE \<Rightarrow> if isSingleElement R then make_range (cr_upper R) (cr_lower R) else full_range
      | ICMP_ULT \<Rightarrow> let m = getUnsignedMax R in if m = 0 then empty_range else make_range 0 m
      | ICMP_SLT \<Rightarrow> let m = getSignedMax R in if m = smin_word then empty_range else make_range smin_word m
      | ICMP_ULE \<Rightarrow> let m = getUnsignedMax R in if m = - 1 then full_range else make_range 0 (m + 1)
      | ICMP_SLE \<Rightarrow> let m = getSignedMax R in if m = smax_word then full_range else make_range smin_word (m + 1)
      | ICMP_UGT \<Rightarrow> let m = getUnsignedMin R in if m = - 1 then empty_range else make_range (m + 1) 0
      | ICMP_SGT \<Rightarrow> let m = getSignedMin R in if m = smax_word then empty_range else make_range (m + 1) smin_word
      | ICMP_UGE \<Rightarrow> let m = getUnsignedMin R in if m = 0 then full_range else make_range m 0
      | ICMP_SGE \<Rightarrow> let m = getSignedMin R in if m = smin_word then full_range else make_range m smin_word)"

definition makeSatisfyingICmpRegion :: "icmp_predicate \<Rightarrow> 'a::len word crange \<Rightarrow> 'a word crange" where
  "makeSatisfyingICmpRegion p R = inverse_range (makeAllowedICmpRegion (getInversePredicate p) R)"

definition makeExactICmpRegion :: "icmp_predicate \<Rightarrow> 'a::len word \<Rightarrow> 'a word crange outcome" where
  "makeExactICmpRegion p c =
     (if makeAllowedICmpRegion p (single_range c) = makeSatisfyingICmpRegion p (single_range c)
      then Done (makeAllowedICmpRegion p (single_range c)) else Crash)"

definition getEquivalentICmp :: "'a::len word crange \<Rightarrow> (icmp_predicate \<times> 'a word) option" where
  "getEquivalentICmp R =
     (if isFullSet R \<or> isEmptySet R then Some (if isEmptySet R then ICMP_ULT else ICMP_UGE, 0)
      else case getSingleElement R of
        Some x \<Rightarrow> Some (ICMP_EQ, x)
      | None \<Rightarrow> (case getSingleMissingElement R of
          Some x \<Rightarrow> Some (ICMP_NE, x)
        | None \<Rightarrow>
           if cr_lower R = smin_word \<or> cr_lower R = 0
           then Some (if cr_lower R = smin_word then ICMP_SLT else ICMP_ULT, cr_upper R)
           else if cr_upper R = smin_word \<or> cr_upper R = 0
           then Some (if cr_upper R = smin_word then ICMP_SGE else ICMP_UGE, cr_lower R)
           else None))"

section \<open>Known bits and metadata\<close>

record 'b known_bits =
  kb_zero :: 'b
  kb_one :: 'b

definition fromKnownBits :: "'a::len word known_bits \<Rightarrow> bool \<Rightarrow> 'a word crange outcome" where
  "fromKnownBits k isSigned =
     (if kb_zero k AND kb_one k \<noteq> 0 then Crash
      else if kb_zero k = 0 \<and> kb_one k = 0 then Done full_range
      else if \<not> isSigned \<or> isNegative (kb_one k) \<or> isNegative (kb_zero k)
      then Done (make_range (kb_one k) (NOT (kb_zero k) + 1))
      else Done (make_range (kb_one k OR smin_word) ((NOT (kb_zero k) AND NOT smin_word) + 1)))"

fun union_ranges :: "'a::len word crange \<Rightarrow> ('a word \<times> 'a word) list \<Rightarrow> 'a word crange outcome" where
  "union_ranges R [] = Done R"
| "union_ranges R ((l, u) # ps) =
     (if \<not> wf_range (make_range l u) then Crash
      else case unionWith_range R (make_range l u) Smallest of
        Crash \<Rightarrow> Crash | OutOfFuel \<Rightarrow> OutOfFuel | Done T \<Rightarrow> union_ranges T ps)"

definition getConstantRangeFromMetadata :: "('a::len word \<times> 'a word) list \<Rightarrow> 'a word crange outcome" where
  "getConstantRangeFromMetadata ps = (case ps of
       [] \<Rightarrow> Crash
     | (l, u) # qs \<Rightarrow> if \<not> wf_range (make_range l u) then Crash else union_ranges (make_range l u) qs)"

section \<open>The regions are exact\<close>

lemma nonempty_range: "wf_range R \<Longrightarrow> \<not> isEmptySet R \<Longrightarrow> \<exists>v. contains R v"
  by (elim range_kinds) (auto simp: full_iff plain_contains plain_range_def wrapped_contains intro: exI [of _ "cr_lower R"])

lemma getInverse_holds: "icmp_holds (getInversePredicate p) x y \<longleftrightarrow> \<not> icmp_holds p x y"
  by (cases p) (auto simp: icmp_holds_def getInversePredicate_def)

lemma contains_make_bias:
  "l \<noteq> u \<Longrightarrow> contains (make_range l u) v \<longleftrightarrow> contains (make_range (l + smin_word) (u + smin_word)) (v + smin_word)"
  using contains_bias [of "make_range l u" v] by (simp add: bias_range_def make_range_def)

lemma below_region:
  assumes "m \<noteq> (0 :: 'a::len word)"
  shows "contains (make_range 0 m) v \<longleftrightarrow> v < m"
proof -
  have "0 < m" using assms by (simp only: word_gt_0 not_False_eq_True)
  from make_contains(1) [OF this, of v] show ?thesis by simp
qed

lemma above_region:
  assumes "m \<noteq> (0 :: 'a::len word)"
  shows "contains (make_range m 0) v \<longleftrightarrow> m \<le> v"
proof -
  have "0 < m" using assms by (simp only: word_gt_0 not_False_eq_True)
  from make_contains(2) [OF this, of v] show ?thesis by simp
qed

lemma signed_below_region: "m \<noteq> smin_word \<Longrightarrow> contains (make_range smin_word m) v \<longleftrightarrow> sint v < sint m"
  using below_region [of "m + smin_word" "v + smin_word"] contains_make_bias [of smin_word m v]
  by (simp add: bias_zero_iff bias_less_iff eq_commute [of smin_word])

lemma signed_above_region: "m \<noteq> smin_word \<Longrightarrow> contains (make_range m smin_word) v \<longleftrightarrow> sint m \<le> sint v"
  using above_region [of "m + smin_word" "v + smin_word"] contains_make_bias [of m smin_word v]
  by (simp add: bias_zero_iff bias_le_iff)

lemma plus_1_zero: "m + 1 = 0 \<longleftrightarrow> m = (- 1 :: 'a::len word)"
  by (simp add: eq_neg_iff_add_eq_0)

lemma plus_1_smin: "m + 1 = smin_word \<longleftrightarrow> m = (smax_word :: 'a::len word)"
  by (simp add: smax_word_def eq_diff_eq)

lemma plus_1_le: "m \<noteq> - 1 \<Longrightarrow> m + 1 \<le> v \<longleftrightarrow> m < (v :: 'a::len word)"
  using less_plus_1_iff [of m v] by (metis linorder_not_le)

lemma signed_plus_1:
  fixes m v :: "'a::len word"
  assumes "m \<noteq> smax_word"
  shows "sint v < sint (m + 1) \<longleftrightarrow> sint v \<le> sint m" "sint (m + 1) \<le> sint v \<longleftrightarrow> sint m < sint v"
proof -
  have "m + smin_word \<noteq> - 1" using assms by (metis add_right_cancel smax_bias)
  from less_plus_1_iff [OF this, of "v + smin_word"] plus_1_le [OF this, of "v + smin_word"]
  have "v + smin_word < (m + 1) + smin_word \<longleftrightarrow> v + smin_word \<le> m + smin_word"
    "(m + 1) + smin_word \<le> v + smin_word \<longleftrightarrow> m + smin_word < v + smin_word"
    by (simp_all add: algebra_simps)
  then show "sint v < sint (m + 1) \<longleftrightarrow> sint v \<le> sint m" "sint (m + 1) \<le> sint v \<longleftrightarrow> sint m < sint v"
    by (simp_all only: bias_less_iff bias_le_iff)
qed

lemma signed_bounds_distinct: "sint l \<le> sint h \<Longrightarrow> l \<noteq> smin_word \<Longrightarrow> l \<noteq> h + (1 :: 'a::len word)"
  using signed_plus_1(1) [of h l] plus_1_smin [of h] by fastforce

lemma single_contains: "isSingleElement R \<Longrightarrow> contains R v \<longleftrightarrow> v = cr_lower R"
proof -
  assume "isSingleElement R"
  then have u: "cr_upper R = cr_lower R + 1" by (simp add: isSingleElement_def getSingleElement_def split: if_splits)
  then have "contains R v \<longleftrightarrow> v - cr_lower R < 1" by (simp add: contains_distance)
  then show ?thesis by (simp add: word_less_1)
qed

lemma two_elements:
  assumes "wf_range R" "\<not> isEmptySet R" "\<not> isSingleElement R"
  shows "\<exists>y. contains R y \<and> x \<noteq> y"
proof (cases "isFullSet R")
  case True
  then show ?thesis by (intro exI [of _ "x + 1"]) (simp add: full_iff)
next
  case False
  with assms equal_bounds [of R] have ne: "cr_lower R \<noteq> cr_upper R" by (auto simp: full_iff empty_iff)
  define d where "d = cr_upper R - cr_lower R"
  have "d \<noteq> 0" "d \<noteq> 1"
    using ne assms(3) by (auto simp: d_def isSingleElement_def getSingleElement_def algebra_simps split: if_splits)
  then have "0 < d" "1 < d" using word_gt_0 [of d] word_less_1 [of d] linorder_cases [of 1 d] by blast+
  then have "contains R (cr_lower R)" "contains R (cr_lower R + 1)"
    using ne by (simp_all add: contains_distance d_def)
  moreover have "cr_lower R \<noteq> cr_lower R + 1" by simp
  ultimately show ?thesis by metis
qed

text \<open>Each region holds exactly the values that compare so with some element.\<close>

lemma allowed_unsigned:
  assumes "contains R w"
  shows "contains (makeAllowedICmpRegion ICMP_ULT R) x \<longleftrightarrow> x < getUnsignedMax R"
    and "contains (makeAllowedICmpRegion ICMP_ULE R) x \<longleftrightarrow> x \<le> getUnsignedMax R"
    and "contains (makeAllowedICmpRegion ICMP_UGT R) x \<longleftrightarrow> getUnsignedMin R < x"
    and "contains (makeAllowedICmpRegion ICMP_UGE R) x \<longleftrightarrow> getUnsignedMin R \<le> x"
proof -
  have ne: "\<not> isEmptySet R" using assms by (auto simp: empty_iff)
  show "contains (makeAllowedICmpRegion ICMP_ULT R) x \<longleftrightarrow> x < getUnsignedMax R"
    by (simp add: makeAllowedICmpRegion_def ne Let_def below_region)
  show "contains (makeAllowedICmpRegion ICMP_ULE R) x \<longleftrightarrow> x \<le> getUnsignedMax R"
    by (simp add: makeAllowedICmpRegion_def ne Let_def below_region plus_1_zero less_plus_1_iff)
  show "contains (makeAllowedICmpRegion ICMP_UGT R) x \<longleftrightarrow> getUnsignedMin R < x"
    by (simp add: makeAllowedICmpRegion_def ne Let_def above_region plus_1_zero plus_1_le word_max)
  show "contains (makeAllowedICmpRegion ICMP_UGE R) x \<longleftrightarrow> getUnsignedMin R \<le> x"
    by (simp add: makeAllowedICmpRegion_def ne Let_def above_region)
qed

lemma sint_extremes: "\<not> sint x < sint (smin_word :: 'a::len word)" "\<not> sint (smax_word :: 'a word) < sint x"
  for x :: "'a::len word"
  using sint_bounds [of x] by (simp_all add: not_less)

lemma allowed_signed:
  assumes "contains R w"
  shows "contains (makeAllowedICmpRegion ICMP_SLT R) x \<longleftrightarrow> sint x < sint (getSignedMax R)"
    and "contains (makeAllowedICmpRegion ICMP_SLE R) x \<longleftrightarrow> sint x \<le> sint (getSignedMax R)"
    and "contains (makeAllowedICmpRegion ICMP_SGT R) x \<longleftrightarrow> sint (getSignedMin R) < sint x"
    and "contains (makeAllowedICmpRegion ICMP_SGE R) x \<longleftrightarrow> sint (getSignedMin R) \<le> sint x"
proof -
  have ne: "\<not> isEmptySet R" using assms by (auto simp: empty_iff)
  show "contains (makeAllowedICmpRegion ICMP_SLT R) x \<longleftrightarrow> sint x < sint (getSignedMax R)"
    by (simp add: makeAllowedICmpRegion_def ne Let_def signed_below_region sint_extremes)
  show "contains (makeAllowedICmpRegion ICMP_SLE R) x \<longleftrightarrow> sint x \<le> sint (getSignedMax R)"
    by (simp add: makeAllowedICmpRegion_def ne Let_def signed_below_region plus_1_smin signed_plus_1 sint_bounds)
  show "contains (makeAllowedICmpRegion ICMP_SGT R) x \<longleftrightarrow> sint (getSignedMin R) < sint x"
    by (simp add: makeAllowedICmpRegion_def ne Let_def signed_above_region plus_1_smin signed_plus_1 sint_extremes)
  show "contains (makeAllowedICmpRegion ICMP_SGE R) x \<longleftrightarrow> sint (getSignedMin R) \<le> sint x"
    by (simp add: makeAllowedICmpRegion_def ne Let_def signed_above_region sint_bounds)
qed

lemma allowed_equal:
  assumes "wf_range R" "contains R w"
  shows "contains (makeAllowedICmpRegion ICMP_EQ R) x \<longleftrightarrow> contains R x"
    and "contains (makeAllowedICmpRegion ICMP_NE R) x \<longleftrightarrow> (\<exists>y. contains R y \<and> x \<noteq> y)"
proof -
  have ne: "\<not> isEmptySet R" using assms(2) by (auto simp: empty_iff)
  show "contains (makeAllowedICmpRegion ICMP_EQ R) x \<longleftrightarrow> contains R x"
    by (simp add: makeAllowedICmpRegion_def ne)
  show "contains (makeAllowedICmpRegion ICMP_NE R) x \<longleftrightarrow> (\<exists>y. contains R y \<and> x \<noteq> y)"
  proof (cases "isSingleElement R")
    case True
    then have "\<not> isFullSet R" by (auto simp: isFullSet_def isSingleElement_def getSingleElement_def split: if_splits)
    with ne inverse_contains [OF assms(1), of x] True show ?thesis
      by (simp add: makeAllowedICmpRegion_def inverse_range_def single_contains [OF True])
  next
    case False
    with two_elements [OF assms(1) ne False] ne show ?thesis by (simp add: makeAllowedICmpRegion_def)
  qed
qed

lemma allowed_exact:
  assumes "wf_range R"
  shows "contains (makeAllowedICmpRegion p R) x \<longleftrightarrow> (\<exists>y. contains R y \<and> icmp_holds p x y)"
proof (cases "\<exists>w. contains R w")
  case False
  then have "isEmptySet R" using nonempty_range [OF assms] by blast
  with False show ?thesis by (simp add: makeAllowedICmpRegion_def)
next
  case True
  then obtain w where w: "contains R w" by blast
  note un = unsigned_attained [OF w] and sg = signed_attained [OF w]
  show ?thesis
  proof (cases p)
    case ICMP_EQ with allowed_equal(1) [OF assms w] show ?thesis by (auto simp: icmp_holds_def)
  next
    case ICMP_NE with allowed_equal(2) [OF assms w] show ?thesis by (simp add: icmp_holds_def)
  next
    case ICMP_UGT
    have "(\<exists>y. contains R y \<and> icmp_holds p x y) \<longleftrightarrow> contains (makeAllowedICmpRegion p R) x"
      unfolding ICMP_UGT icmp_holds_def icmp_predicate.case allowed_unsigned(3) [OF w] using un(1) unsigned_bounds(1) by (meson le_less_trans)
    then show ?thesis by simp
  next
    case ICMP_UGE
    have "(\<exists>y. contains R y \<and> icmp_holds p x y) \<longleftrightarrow> contains (makeAllowedICmpRegion p R) x"
      unfolding ICMP_UGE icmp_holds_def icmp_predicate.case allowed_unsigned(4) [OF w] using un(1) unsigned_bounds(1) by (meson order_trans)
    then show ?thesis by simp
  next
    case ICMP_ULT
    have "(\<exists>y. contains R y \<and> icmp_holds p x y) \<longleftrightarrow> contains (makeAllowedICmpRegion p R) x"
      unfolding ICMP_ULT icmp_holds_def icmp_predicate.case allowed_unsigned(1) [OF w] using un(2) unsigned_bounds(2) by (meson less_le_trans)
    then show ?thesis by simp
  next
    case ICMP_ULE
    have "(\<exists>y. contains R y \<and> icmp_holds p x y) \<longleftrightarrow> contains (makeAllowedICmpRegion p R) x"
      unfolding ICMP_ULE icmp_holds_def icmp_predicate.case allowed_unsigned(2) [OF w] using un(2) unsigned_bounds(2) by (meson order_trans)
    then show ?thesis by simp
  next
    case ICMP_SGT
    have "(\<exists>y. contains R y \<and> icmp_holds p x y) \<longleftrightarrow> contains (makeAllowedICmpRegion p R) x"
      unfolding ICMP_SGT icmp_holds_def icmp_predicate.case allowed_signed(3) [OF w] using sg(1) signed_bounds(1) by (meson le_less_trans)
    then show ?thesis by simp
  next
    case ICMP_SGE
    have "(\<exists>y. contains R y \<and> icmp_holds p x y) \<longleftrightarrow> contains (makeAllowedICmpRegion p R) x"
      unfolding ICMP_SGE icmp_holds_def icmp_predicate.case allowed_signed(4) [OF w] using sg(1) signed_bounds(1) by (meson order_trans)
    then show ?thesis by simp
  next
    case ICMP_SLT
    have "(\<exists>y. contains R y \<and> icmp_holds p x y) \<longleftrightarrow> contains (makeAllowedICmpRegion p R) x"
      unfolding ICMP_SLT icmp_holds_def icmp_predicate.case allowed_signed(1) [OF w] using sg(2) signed_bounds(2) by (meson less_le_trans)
    then show ?thesis by simp
  next
    case ICMP_SLE
    have "(\<exists>y. contains R y \<and> icmp_holds p x y) \<longleftrightarrow> contains (makeAllowedICmpRegion p R) x"
      unfolding ICMP_SLE icmp_holds_def icmp_predicate.case allowed_signed(2) [OF w] using sg(2) signed_bounds(2) by (meson order_trans)
    then show ?thesis by simp
  qed
qed

lemma smin_neq_plus: "m \<noteq> smax_word \<Longrightarrow> smin_word \<noteq> m + (1 :: 'a::len word)"
  using plus_1_smin [of m] by auto

lemma zero_neq_plus: "m \<noteq> - 1 \<Longrightarrow> 0 \<noteq> m + (1 :: 'a::len word)"
  using plus_1_zero [of m] by auto

lemma allowed_wf:
  assumes "wf_range R"
  shows "wf_range (makeAllowedICmpRegion p R)"
proof -
  have "cr_upper R \<noteq> cr_lower R" if "isSingleElement R"
    using that by (auto simp: isSingleElement_def getSingleElement_def split: if_splits)
  with assms show ?thesis
    by (cases p) (auto simp: makeAllowedICmpRegion_def Let_def wf_make smin_neq_plus zero_neq_plus
        not_sym [OF smin_neq_plus] not_sym [OF zero_neq_plus])
qed

lemma satisfying_exact:
  assumes "wf_range R"
  shows "contains (makeSatisfyingICmpRegion p R) x \<longleftrightarrow> (\<forall>y. contains R y \<longrightarrow> icmp_holds p x y)"
  using assms
  by (simp add: makeSatisfyingICmpRegion_def inverse_contains [OF allowed_wf] allowed_exact getInverse_holds)

lemma satisfying_wf: "wf_range R \<Longrightarrow> wf_range (makeSatisfyingICmpRegion p R)"
  by (simp add: makeSatisfyingICmpRegion_def inverse_wf allowed_wf)

lemma single_element: "contains (single_range c) y \<longleftrightarrow> y = c"
proof -
  have "isSingleElement (single_range c)"
    by (simp add: isSingleElement_def getSingleElement_def single_range_def)
  from single_contains [OF this, of y] show ?thesis by (simp add: single_range_def)
qed

text \<open>The assertion of \<^verbatim>\<open>makeExactICmpRegion\<close> holds: for a single value both regions are the same.\<close>

lemma exact_region: "\<exists>T. makeExactICmpRegion p c = Done T \<and> wf_range T \<and> (\<forall>x. contains T x \<longleftrightarrow> icmp_holds p x c)"
proof -
  let ?S = "single_range c"
  have "makeAllowedICmpRegion p ?S = makeSatisfyingICmpRegion p ?S"
    by (rule range_unique) (simp_all add: allowed_wf satisfying_wf allowed_exact satisfying_exact single_element)
  then show ?thesis
    by (simp add: makeExactICmpRegion_def satisfying_wf satisfying_exact single_element)
qed

lemma equivalent_exact:
  assumes "wf_range R" "getEquivalentICmp R = Some (p, c)"
  shows "contains R x \<longleftrightarrow> icmp_holds p x c"
proof (cases "isFullSet R \<or> isEmptySet R")
  case True
  with assms(2) show ?thesis by (auto simp: getEquivalentICmp_def icmp_holds_def full_iff empty_iff)
next
  case False
  with assms(1) have ne: "cr_lower R \<noteq> cr_upper R" using equal_bounds by (auto simp: full_iff empty_iff)
  have R: "R = make_range (cr_lower R) (cr_upper R)" by (simp add: make_range_def)
  note eq = assms(2) [unfolded getEquivalentICmp_def if_not_P [OF False]]
  show ?thesis
  proof (cases "getSingleElement R")
    case (Some y)
    then have "isSingleElement R" "y = cr_lower R"
      by (simp_all only: isSingleElement_def getSingleElement_def option.distinct option.inject split: if_splits) simp_all
    with eq Some show ?thesis by (simp add: icmp_holds_def single_contains)
  next
    case noSingle: None
    show ?thesis
    proof (cases "getSingleMissingElement R")
      case (Some y)
      then have "y = cr_upper R" "cr_lower R = cr_upper R + 1"
        by (simp_all only: getSingleMissingElement_def option.distinct option.inject split: if_splits)
      then have "inverse_range R = single_range y"
        using False by (simp add: inverse_range_def single_range_def make_range_def)
      with inverse_contains [OF assms(1), of x] eq Some noSingle show ?thesis by (simp add: icmp_holds_def single_element)
    next
      case None
      note eq' = eq [unfolded noSingle None option.case]
      consider (slt) "cr_lower R = smin_word" "p = ICMP_SLT" "c = cr_upper R"
        | (ult) "cr_lower R = 0" "p = ICMP_ULT" "c = cr_upper R"
        | (sge) "cr_upper R = smin_word" "p = ICMP_SGE" "c = cr_lower R"
        | (uge) "cr_upper R = 0" "p = ICMP_UGE" "c = cr_lower R"
        using eq' by (simp split: if_splits)
      then show ?thesis
      proof cases
        case slt with ne show ?thesis by (subst R) (simp add: icmp_holds_def signed_below_region)
      next
        case ult with ne show ?thesis by (subst R) (simp add: icmp_holds_def below_region)
      next
        case sge with ne show ?thesis by (subst R) (simp add: icmp_holds_def signed_above_region)
      next
        case uge with ne show ?thesis by (subst R) (simp add: icmp_holds_def above_region)
      qed
    qed
  qed
qed

section \<open>Known bits and metadata\<close>

definition known_matches :: "'a::len word known_bits \<Rightarrow> 'a word \<Rightarrow> bool" where
  "known_matches k x = (x AND kb_zero k = 0 \<and> x AND kb_one k = kb_one k)"

lemma bit_smin: "bit (smin_word :: 'a::len word) i \<longleftrightarrow> i = LENGTH('a) - 1"
  by (auto simp: smin_word_def bit_simps)

lemma plus_smin: "x + smin_word = (if isNegative x then x AND NOT smin_word else x OR (smin_word :: 'a::len word))"
proof (cases "isNegative x")
  case True
  have "(x AND NOT smin_word) AND smin_word = 0" by (simp add: bit_eq_iff bit_simps)
  then have "(x AND NOT smin_word) + smin_word = (x AND NOT smin_word) OR smin_word" by (rule disjunctive_add_eq_or)
  also have "\<dots> = x" using True by (intro bit_word_eqI) (auto simp: bit_simps bit_smin isNegative_def)
  finally have "x + smin_word = (x AND NOT smin_word) + smin_word + smin_word" by simp
  with True show ?thesis by simp
next
  case False
  then have "x AND smin_word = 0" by (intro bit_word_eqI) (auto simp: bit_simps bit_smin isNegative_def)
  with False show ?thesis by (simp add: disjunctive_add_eq_or)
qed

lemma known_matches_bits: "known_matches k x \<longleftrightarrow> (\<forall>i. (bit (kb_zero k) i \<longrightarrow> \<not> bit x i) \<and> (bit (kb_one k) i \<longrightarrow> bit x i))"
  by (auto simp: known_matches_def bit_eq_iff bit_simps dest: bit_imp_le_length)

lemma known_unsigned:
  assumes k: "known_matches k x" "\<not> (kb_zero k = 0 \<and> kb_one k = (0 :: 'a::len word))"
  shows "contains (make_range (kb_one k) (NOT (kb_zero k) + 1)) x" "kb_one k \<noteq> NOT (kb_zero k) + 1"
proof -
  have "kb_one k \<le> x" using k(1) word_and_le2 [of x "kb_one k"] by (simp add: known_matches_def)
  moreover have "x AND NOT (kb_zero k) = x" using k(1) by (auto simp: known_matches_def bit_eq_iff bit_simps)
  then have "x \<le> NOT (kb_zero k)" using word_and_le1 [of x "NOT (kb_zero k)"] by simp
  moreover have "kb_one k \<noteq> NOT (kb_zero k) + 1"
  proof (cases "kb_zero k = 0")
    case True with k(2) show ?thesis by simp
  next
    case False
    then have "NOT (kb_zero k) \<noteq> - 1" by (metis bit.double_compl bit.compl_one)
    with calculation have "kb_one k < NOT (kb_zero k) + 1" by (simp add: less_plus_1_iff)
    then show ?thesis by simp
  qed
  ultimately show "contains (make_range (kb_one k) (NOT (kb_zero k) + 1)) x" "kb_one k \<noteq> NOT (kb_zero k) + 1"
    using unsigned_interval_iff [of "kb_one k" "NOT (kb_zero k)" x] by (simp_all add: make_range_def)
qed

text \<open>With an unknown sign the signed range is the unsigned one of the values shifted by the least signed value.\<close>

lemma known_shifted:
  assumes "known_matches k x" "\<not> isNegative (kb_one k)" "\<not> isNegative (kb_zero k)"
  shows "known_matches k (x + smin_word)"
  using assms by (auto simp: known_matches_bits plus_smin bit_simps bit_smin isNegative_def dest: bit_imp_le_length)

lemma known_bits_signed:
  fixes k :: "'a::len word known_bits"
  assumes "\<not> isNegative (kb_one k)" "\<not> isNegative (kb_zero k)"
  shows "kb_one k OR smin_word = kb_one k + smin_word"
    "(NOT (kb_zero k) AND NOT smin_word) + 1 = (NOT (kb_zero k) + 1) + smin_word"
proof -
  have "isNegative (NOT (kb_zero k))" using assms(2) by (simp add: isNegative_def bit_simps)
  then have "NOT (kb_zero k) AND NOT smin_word = NOT (kb_zero k) + smin_word" by (simp only: plus_smin if_True)
  then show "(NOT (kb_zero k) AND NOT smin_word) + 1 = (NOT (kb_zero k) + 1) + smin_word" by (simp only: ac_simps)
  show "kb_one k OR smin_word = kb_one k + smin_word" using assms(1) by (simp add: plus_smin)
qed

lemma known_bits_sound:
  fixes k :: "'a::len word known_bits"
  assumes k: "kb_zero k AND kb_one k = 0"
  shows "\<exists>T. fromKnownBits k isSigned = Done T \<and> wf_range T \<and> (\<forall>x. known_matches k x \<longrightarrow> contains T x)"
proof -
  have m: "known_matches k (kb_one k)" using k by (simp add: known_matches_def and.commute)
  consider (unknown) "kb_zero k = 0 \<and> kb_one k = 0"
    | (unsigned) "\<not> (kb_zero k = 0 \<and> kb_one k = 0)" "\<not> isSigned \<or> isNegative (kb_one k) \<or> isNegative (kb_zero k)"
    | (signed) "\<not> (kb_zero k = 0 \<and> kb_one k = 0)" "isSigned" "\<not> isNegative (kb_one k)" "\<not> isNegative (kb_zero k)" by blast
  then show ?thesis
  proof cases
    case unknown with k show ?thesis by (simp add: fromKnownBits_def)
  next
    case unsigned
    with wf_make [OF known_unsigned(2) [OF m unsigned(1)]] known_unsigned(1) [OF _ unsigned(1)] k show ?thesis
      by (simp add: fromKnownBits_def)
  next
    case signed
    let ?T = "make_range (kb_one k) (NOT (kb_zero k) + 1)"
    have ne: "kb_one k + smin_word \<noteq> (NOT (kb_zero k) + 1) + smin_word"
      using known_unsigned(2) [OF m signed(1)] by (simp only: add_right_cancel simp_thms)
    have "contains (make_range (kb_one k + smin_word) ((NOT (kb_zero k) + 1) + smin_word)) x" if "known_matches k x" for x
      using contains_make_bias [OF ne, of x] known_unsigned(1) [OF known_shifted [OF that signed(3,4)] signed(1)] by simp
    then show ?thesis
      unfolding fromKnownBits_def known_bits_signed [OF signed(3,4)] using signed k wf_make [OF ne] by simp
  qed
qed

lemma union_ranges_sound:
  assumes "wf_range R" "\<forall>(l, u)\<in>set ps. wf_range (make_range l u)"
  shows "\<exists>T. union_ranges R ps = Done T \<and> wf_range T
    \<and> (\<forall>v. contains R v \<or> (\<exists>(l, u)\<in>set ps. contains (make_range l u) v) \<longrightarrow> contains T v)"
  using assms
proof (induction ps arbitrary: R)
  case Nil then show ?case by simp
next
  case (Cons q ps)
  obtain l u where q: "q = (l, u)" by (cases q)
  then have w: "wf_range (make_range l u)" using Cons.prems(2) by auto
  obtain U where U: "unionWith_range R (make_range l u) Smallest = Done U" "covers_either R (make_range l u) U"
    using union_covers [OF Cons.prems(1) w] by blast
  then have "wf_range U" by (simp add: covers_either_def)
  with Cons.IH [of U] Cons.prems(2) obtain T where T: "union_ranges U ps = Done T" "wf_range T"
    "\<forall>v. contains U v \<or> (\<exists>(l, u)\<in>set ps. contains (make_range l u) v) \<longrightarrow> contains T v" by auto
  with U w show ?case by (fastforce simp: q covers_either_def)
qed

lemma metadata_sound:
  assumes "ps \<noteq> []" "\<forall>(l, u)\<in>set ps. wf_range (make_range l u)"
  shows "\<exists>T. getConstantRangeFromMetadata ps = Done T \<and> wf_range T
    \<and> (\<forall>v. (\<exists>(l, u)\<in>set ps. contains (make_range l u) v) \<longrightarrow> contains T v)"
proof (cases ps)
  case Nil with assms(1) show ?thesis by simp
next
  case (Cons q qs)
  obtain l u where q: "q = (l, u)" by (cases q)
  from union_ranges_sound [of "make_range l u" qs] assms(2) Cons q
  show ?thesis by (auto simp: getConstantRangeFromMetadata_def)
qed

end
