(* ===== verification/RangeTransfer.thy ===== *)
theory RangeTransfer
  imports RangeArith RangeICmp
begin

text \<open>
  Soundness of the binary operators on ranges. The contract is the locale \<open>range_transfer\<close>; every operator of the
  source is an interpretation of it, and what the clients need of any operator is proved once from the contract.
\<close>

section \<open>The contract of an operator on ranges\<close>

locale range_transfer =
  fixes opr :: "'a::len word crange \<Rightarrow> 'a word crange \<Rightarrow> 'a word crange"
    and f :: "'a word \<Rightarrow> 'a word \<Rightarrow> 'a word"
    and defined :: "'a word \<Rightarrow> bool"
  assumes wf: "wf_range R \<Longrightarrow> wf_range S \<Longrightarrow> wf_range (opr R S)"
    and sound: "wf_range R \<Longrightarrow> wf_range S \<Longrightarrow> contains R a \<Longrightarrow> contains S b \<Longrightarrow> defined b \<Longrightarrow> contains (opr R S) (f a b)"
begin

lemma covers:
  "wf_range R \<Longrightarrow> wf_range S \<Longrightarrow> wf_range (opr R S)
    \<and> (\<forall>a b. contains R a \<and> contains S b \<and> defined b \<longrightarrow> contains (opr R S) (f a b))"
  using wf sound by blast

lemma nonempty: "wf_range R \<Longrightarrow> wf_range S \<Longrightarrow> contains R a \<Longrightarrow> contains S b \<Longrightarrow> defined b \<Longrightarrow> \<not> isEmptySet (opr R S)"
  using sound [of R S a b] by (auto simp: empty_iff)

lemma iterate:
  "wf_range R \<Longrightarrow> contains R a \<Longrightarrow> list_all2 (\<lambda>S b. wf_range S \<and> contains S b \<and> defined b) Ss bs
    \<Longrightarrow> contains (foldl opr R Ss) (foldl f a bs) \<and> wf_range (foldl opr R Ss)"
proof (induction Ss arbitrary: R a bs)
  case (Cons S Ss)
  then obtain b bs' where "bs = b # bs'" "wf_range S" "contains S b" "defined b"
    "list_all2 (\<lambda>S b. wf_range S \<and> contains S b \<and> defined b) Ss bs'"
    by (auto simp: list_all2_Cons1)
  with Cons.IH [of "opr R S" "f a b" bs'] Cons.prems(1,2) show ?case by (simp add: wf sound)
qed simp

end

section \<open>Results given by their least and greatest element\<close>

lemma not_empty [simp]: "contains R v \<Longrightarrow> \<not> isEmptySet R"
  by (auto simp: empty_iff)

lemma unsigned_result:
  assumes "l \<le> v" "v \<le> (h :: 'a::len word)"
  shows "contains (if l = h + 1 then full_range else make_range l (h + 1)) v"
  using assms unsigned_interval_iff [of l h v] by (auto simp: make_range_def)

lemma signed_result:
  assumes "sint l \<le> sint v" "sint v \<le> sint (h :: 'a::len word)"
  shows "contains (if l = h + 1 then full_range else make_range l (h + 1)) v"
  using assms signed_interval_iff [of l h v] by (auto simp: make_range_def)

lemma result_wf: "wf_range (if l = h then full_range else make_range l h)"
  by (simp add: wf_range_def full_range_def)

lemma wf_if: "wf_range R \<Longrightarrow> wf_range S \<Longrightarrow> wf_range (if c then R else S)"
  by simp

section \<open>Addition and subtraction\<close>

text \<open>
  Both results have the lengths of the operands added up, less one. Where that sum wraps around, the result would be
  shorter than an operand.
\<close>

lemma below_minus_1:
  assumes "q < (y :: 'a::len word)"
  shows "y \<noteq> 0" "q \<le> y - 1" "y - 1 < y"
proof -
  show y: "y \<noteq> 0" using assms by auto
  show "q \<le> y - 1" "y - 1 < y" using assms le_minus_1_iff [OF y, of q] le_minus_1_iff [OF y, of "y - 1"] by simp_all
qed

lemma lengths_add:
  fixes x y p q :: "'a::len word"
  assumes "p < x" "q < y" "\<not> x + y - 1 < x"
  shows "p + q < x + y - 1"
proof -
  note y = below_minus_1(2,3) [OF assms(2)]
  have "x \<le> x + (y - 1)" using assms(3) by (simp add: add_diff_eq)
  then have s: "unat (x + (y - 1)) = unat x + unat (y - 1)" by (simp add: unat_plus_simple)
  have le: "unat p < unat x" "unat q \<le> unat (y - 1)" using assms(1) y by (simp_all add: word_less_nat_alt word_le_nat_alt)
  with s have "unat p + unat q < unat (x + (y - 1))" by simp
  then have "unat p + unat q < 2 ^ LENGTH('a)" using unsigned_less [of "x + (y - 1)"] by (meson less_trans)
  then have "unat (p + q) = unat p + unat q" by (simp add: unat_word_ariths)
  with le s show ?thesis by (simp add: word_less_nat_alt add_diff_eq)
qed

lemma minus_1_minus_less: "q < y \<Longrightarrow> y - 1 - q < (y :: 'a::len word)"
proof -
  assume a: "q < y"
  from below_minus_1 [OF this] have "q \<le> y - 1" "y \<noteq> 0" by simp_all
  then have "y - 1 - q \<le> y - 1" by (simp add: word_sub_le)
  with \<open>y \<noteq> 0\<close> show ?thesis by (simp add: le_minus_1_iff)
qed

lemma distinct_bounds: "contains R a \<Longrightarrow> \<not> isFullSet R \<Longrightarrow> cr_lower R \<noteq> cr_upper R"
  by (auto simp: contains_def)

lemma size_smaller: "\<not> isFullSet R \<Longrightarrow> \<not> isFullSet S
    \<Longrightarrow> isSizeStrictlySmallerThan R S \<longleftrightarrow> cr_upper R - cr_lower R < cr_upper S - cr_lower S"
  by (simp add: isSizeStrictlySmallerThan_def)

text \<open>The last two tests of both operators.\<close>

lemma sum_of_lengths:
  assumes R: "contains R a" "\<not> isFullSet R" and S: "contains S b" "\<not> isFullSet S"
    and X: "cr_upper X - cr_lower X = (cr_upper R - cr_lower R) + (cr_upper S - cr_lower S) - 1"
    and c: "c - cr_lower X = (a - cr_lower R) + q" "q < cr_upper S - cr_lower S"
  shows "contains (if cr_lower X = cr_upper X then full_range
     else if isSizeStrictlySmallerThan X R \<or> isSizeStrictlySmallerThan X S then full_range else X) c"
proof (cases "cr_lower X = cr_upper X \<or> isSizeStrictlySmallerThan X R")
  case True
  then show ?thesis by auto
next
  case False
  then have "cr_lower X \<noteq> cr_upper X" "\<not> isFullSet X" "\<not> isSizeStrictlySmallerThan X R" by (simp_all add: isFullSet_def)
  moreover have "a - cr_lower R < cr_upper R - cr_lower R"
    using R contains_distance [OF distinct_bounds [OF R]] by simp
  ultimately have "contains X c"
    using lengths_add [of "a - cr_lower R" "cr_upper R - cr_lower R" q] c R(2) X
    by (simp add: contains_distance size_smaller)
  then show ?thesis by simp
qed

lemma add_sound:
  assumes "contains R a" "contains S b"
  shows "contains (range_add R S) (a + b)"
proof (cases "isFullSet R \<or> isFullSet S")
  case True
  with assms show ?thesis by (simp add: range_add_def)
next
  case False
  let ?X = "make_range (cr_lower R + cr_lower S) (cr_upper R + cr_upper S - 1)"
  have "b - cr_lower S < cr_upper S - cr_lower S"
    using assms(2) False contains_distance [OF distinct_bounds [OF assms(2)]] by simp
  then have "contains (if cr_lower ?X = cr_upper ?X then full_range
     else if isSizeStrictlySmallerThan ?X R \<or> isSizeStrictlySmallerThan ?X S then full_range else ?X) (a + b)"
    using False assms
    by (intro sum_of_lengths [where a = a and b = b and q = "b - cr_lower S"]) (simp_all add: algebra_simps)
  with False assms show ?thesis by (simp add: range_add_def Let_def)
qed

lemma sub_sound:
  assumes "contains R a" "contains S b"
  shows "contains (range_sub R S) (a - b)"
proof (cases "isFullSet R \<or> isFullSet S")
  case True
  with assms show ?thesis by (simp add: range_sub_def)
next
  case False
  let ?X = "make_range (cr_lower R - cr_upper S + 1) (cr_upper R - cr_lower S)"
  have "b - cr_lower S < cr_upper S - cr_lower S"
    using assms(2) False contains_distance [OF distinct_bounds [OF assms(2)]] by simp
  then have "cr_upper S - cr_lower S - 1 - (b - cr_lower S) < cr_upper S - cr_lower S" by (rule minus_1_minus_less)
  then have "contains (if cr_lower ?X = cr_upper ?X then full_range
     else if isSizeStrictlySmallerThan ?X R \<or> isSizeStrictlySmallerThan ?X S then full_range else ?X) (a - b)"
    using False assms
    by (intro sum_of_lengths [where a = a and b = b and q = "cr_upper S - cr_lower S - 1 - (b - cr_lower S)"])
      (simp_all add: algebra_simps)
  with False assms show ?thesis by (simp add: range_sub_def Let_def)
qed

interpretation t_add: range_transfer range_add "(+)" "\<lambda>_. True"
  by unfold_locales (simp_all add: add_sound, simp add: range_add_def Let_def wf_range_def full_range_def empty_range_def)

interpretation t_sub: range_transfer range_sub "(-)" "\<lambda>_. True"
  by unfold_locales (simp_all add: sub_sound, simp add: range_sub_def Let_def wf_range_def full_range_def empty_range_def)

section \<open>Maximum and minimum\<close>

lemma smax_of_sint: "sint (smax_of x y) = max (sint x) (sint y)" and smin_of_sint: "sint (smin_of x y) = min (sint x) (sint y)"
  by (simp_all add: smax_of_def smin_of_def)

lemma umax_of_eq: "umax_of x y = max x y" and umin_of_eq: "umin_of x y = min x y"
  by (auto simp: umax_of_def umin_of_def max_def min_def linorder_not_less)

lemma smax_sound:
  assumes "contains R a" "contains S b"
  shows "contains (range_smax R S) (smax_of a b)"
  using assms signed_bounds [OF assms(1)] signed_bounds [OF assms(2)]
  by (simp only: range_smax_def not_empty Let_def if_False disj_not1 simp_thms eq_commute [of "_ + 1"])
    (rule signed_result; simp add: smax_of_sint max.coboundedI1 max.coboundedI2)

lemma smin_sound:
  assumes "contains R a" "contains S b"
  shows "contains (range_smin R S) (smin_of a b)"
  using assms signed_bounds [OF assms(1)] signed_bounds [OF assms(2)]
  by (simp only: range_smin_def not_empty Let_def if_False disj_not1 simp_thms eq_commute [of "_ + 1"])
    (rule signed_result; simp add: smin_of_sint min.coboundedI1 min.coboundedI2)

lemma umax_sound:
  assumes "contains R a" "contains S b"
  shows "contains (range_umax R S) (umax_of a b)"
  using assms unsigned_bounds [OF assms(1)] unsigned_bounds [OF assms(2)]
  by (simp only: range_umax_def not_empty Let_def if_False disj_not1 simp_thms eq_commute [of "_ + 1"])
    (rule unsigned_result; simp add: umax_of_eq max.coboundedI1 max.coboundedI2)

lemma umin_sound:
  assumes "contains R a" "contains S b"
  shows "contains (range_umin R S) (umin_of a b)"
  using assms unsigned_bounds [OF assms(1)] unsigned_bounds [OF assms(2)]
  by (simp only: range_umin_def not_empty Let_def if_False disj_not1 simp_thms eq_commute [of "_ + 1"])
    (rule unsigned_result; simp add: umin_of_eq min.coboundedI1 min.coboundedI2)

lemma result_wf': "wf_range (if h = l then full_range else make_range l h)"
  by (simp add: wf_range_def full_range_def)

interpretation t_smax: range_transfer range_smax smax_of "\<lambda>_. True"
  by unfold_locales (simp_all add: smax_sound, simp add: range_smax_def Let_def wf_if result_wf')

interpretation t_smin: range_transfer range_smin smin_of "\<lambda>_. True"
  by unfold_locales (simp_all add: smin_sound, simp add: range_smin_def Let_def wf_if result_wf')

interpretation t_umax: range_transfer range_umax umax_of "\<lambda>_. True"
  by unfold_locales (simp_all add: umax_sound, simp add: range_umax_def Let_def wf_if result_wf')

interpretation t_umin: range_transfer range_umin umin_of "\<lambda>_. True"
  by unfold_locales (simp_all add: umin_sound, simp add: range_umin_def Let_def wf_if result_wf')

section \<open>Division\<close>

lemma udiv_least:
  assumes "contains S b" "b \<noteq> 0" "\<not> isFullSet S"
  shows "udiv_least S \<le> b" "udiv_least S \<noteq> 0"
proof -
  have one: "1 \<le> b" using assms(2) word_less_1 [of b] by (metis linorder_not_le)
  have lower: "cr_lower S \<le> b" "cr_lower S \<noteq> 0" if "cr_upper S = 1"
    using assms that one
    by (auto simp: contains_def isUpperWrapped_def word_less_1 split: if_splits)
  show "udiv_least S \<le> b" "udiv_least S \<noteq> 0"
    using unsigned_bounds(1) [OF assms(1)] one lower by (auto simp: udiv_least_def)
qed

lemma word_div_mono:
  fixes a a' b b' :: "'a::len word"
  assumes "a \<le> a'" "b' \<le> b" "b' \<noteq> 0"
  shows "a div b \<le> a' div b'"
proof -
  have "unat a div unat b \<le> unat a' div unat b" using assms(1) by (simp add: word_le_nat_alt div_le_mono)
  also have "\<dots> \<le> unat a' div unat b'"
    using assms(2,3) by (intro div_le_mono2) (simp_all add: word_le_nat_alt unat_gt_0)
  finally show ?thesis by (simp add: word_le_nat_alt unat_div)
qed

lemma udiv_sound:
  assumes "contains R a" "contains S b" "b \<noteq> 0"
  shows "contains (range_udiv R S) (a div b)"
proof (cases "isFullSet S")
  case True
  with assms show ?thesis
    by (simp add: range_udiv_def) (simp add: getUnsignedMax_def full_iff)
next
  case False
  have max: "getUnsignedMax S \<noteq> 0" using unsigned_bounds(2) [OF assms(2)] assms(3) by auto
  have "getUnsignedMin R div getUnsignedMax S \<le> a div b" "a div b \<le> getUnsignedMax R div udiv_least S"
    using unsigned_bounds [OF assms(1)] unsigned_bounds [OF assms(2)] udiv_least [OF assms(2,3) False] assms(3)
    by (simp_all add: word_div_mono)
  from unsigned_result [OF this] False max assms show ?thesis by (simp add: range_udiv_def Let_def)
qed

interpretation t_udiv: range_transfer range_udiv "(div)" "\<lambda>b. b \<noteq> 0"
  by unfold_locales (simp_all add: udiv_sound, simp add: range_udiv_def Let_def wf_if result_wf)

section \<open>Bitwise operators and shifts\<close>

lemma and_sound:
  assumes "contains R a" "contains S b"
  shows "contains (range_and R S) (and a b)"
proof -
  have "and a b \<le> umin_of (getUnsignedMax S) (getUnsignedMax R)"
    using unsigned_bounds(2) [OF assms(1)] unsigned_bounds(2) [OF assms(2)] word_and_le1 [of a b] word_and_le2 [of a b]
    by (auto simp: umin_of_eq min_def)
  from unsigned_result [OF word_zero_le this] assms show ?thesis
    by (auto simp: range_and_def Let_def eq_neg_iff_add_eq_0 split: if_splits)
qed

lemma or_sound:
  assumes "contains R a" "contains S b"
  shows "contains (range_or R S) (or a b)"
proof -
  have "umax_of (getUnsignedMin R) (getUnsignedMin S) \<le> or a b"
    using unsigned_bounds(1) [OF assms(1)] unsigned_bounds(1) [OF assms(2)] le_word_or2 [of a b] le_word_or2 [of b a]
    by (auto simp: umax_of_eq max_def or.commute [of b a] intro: order_trans)
  then show ?thesis using assms word_gt_0 [of "umax_of (getUnsignedMin R) (getUnsignedMin S)"]
    by (simp add: range_or_def Let_def make_contains(2))
qed

interpretation t_and: range_transfer range_and "and" "\<lambda>_. True"
  by unfold_locales (simp_all add: and_sound, simp add: range_and_def Let_def wf_range_def full_range_def empty_range_def)

interpretation t_or: range_transfer range_or "or" "\<lambda>_. True"
  by unfold_locales (simp_all add: or_sound, simp add: range_or_def Let_def wf_range_def full_range_def empty_range_def)

lemma bit_length_le: "bit_length n \<le> d \<longleftrightarrow> n < 2 ^ d"
proof (induction n arbitrary: d rule: bit_length.induct)
  case (1 n)
  show ?case
  proof (cases "n = 0")
    case True then show ?thesis by (simp add: bit_length.simps [of 0])
  next
    case False
    show ?thesis
    proof (cases d)
      case 0 with False show ?thesis by (simp add: bit_length.simps [of n])
    next
      case (Suc e)
      have "n div 2 < 2 ^ e \<longleftrightarrow> n < 2 ^ Suc e" by (simp add: div_less_iff_less_mult mult.commute)
      with False Suc 1 [OF False, of e] show ?thesis by (simp add: bit_length.simps [of n])
    qed
  qed
qed

lemma getActiveBits_le: "getActiveBits x \<le> d \<longleftrightarrow> unat x < 2 ^ d"
  by (simp add: getActiveBits_def bit_length_le)

lemma shift_fits:
  fixes m :: "'a::len word"
  assumes "n \<le> countLeadingZeros m"
  shows "unat m * 2 ^ n < 2 ^ LENGTH('a)"
proof -
  have "bit_length (unat m) \<le> LENGTH('a)" by (simp add: bit_length_le)
  with assms have "bit_length (unat m) \<le> LENGTH('a) - n" "n \<le> LENGTH('a)" by (simp_all add: countLeadingZeros_def)
  then have "unat m < 2 ^ (LENGTH('a) - n)" "(2::nat) ^ LENGTH('a) = 2 ^ (LENGTH('a) - n) * 2 ^ n"
    by (simp_all add: bit_length_le flip: power_add)
  then show ?thesis by simp
qed

lemma unat_push_bit_fits: "unat a * 2 ^ k < 2 ^ LENGTH('a) \<Longrightarrow> unat (push_bit k a) = unat a * 2 ^ k" for a :: "'a::len word"
  unfolding unsigned_push_bit_eq by (simp add: push_bit_eq_mult take_bit_nat_eq_self)

lemma unat_drop_bit: "unat (drop_bit k a) = unat a div 2 ^ k" for a :: "'a::len word"
  unfolding unsigned_drop_bit_eq by (simp add: drop_bit_eq_div take_bit_nat_eq_self)

lemma shl_bounds:
  fixes R S :: "'a::len word crange"
  assumes ab: "contains R a" "contains S b"
    and fits: "getUnsignedMax S \<noteq> 0" "unat (getUnsignedMax S) \<le> countLeadingZeros (getUnsignedMax R)"
  shows "push_bit (unat (getUnsignedMin S)) (getUnsignedMin R) \<le> push_bit (unat b) a"
    and "push_bit (unat b) a \<le> push_bit (unat (getUnsignedMax S)) (getUnsignedMax R)"
    and "push_bit (unat (getUnsignedMin S)) (getUnsignedMin R) \<noteq> push_bit (unat (getUnsignedMax S)) (getUnsignedMax R) + 1"
proof -
  let ?m = "getUnsignedMax R" and ?n = "getUnsignedMax S"
  note ab = unsigned_bounds [OF ab(1)] unsigned_bounds [OF ab(2)]
  have big: "unat ?m * 2 ^ unat ?n < 2 ^ LENGTH('a)" by (rule shift_fits [OF fits(2)])
  have le: "unat x * 2 ^ unat i \<le> unat y * 2 ^ unat j" if "x \<le> y" "i \<le> j" for x y i j :: "'a word"
    using that by (intro mult_le_mono power_increasing) (simp_all add: word_le_nat_alt)
  have fit: "unat (push_bit (unat i) x) = unat x * 2 ^ unat i" if "x \<le> ?m" "i \<le> ?n" for x i :: "'a word"
    using le [OF that] big by (intro unat_push_bit_fits) simp
  have mono: "push_bit (unat i) x \<le> push_bit (unat j) y" if "x \<le> y" "i \<le> j" "y \<le> ?m" "j \<le> ?n"
    for x y i j :: "'a word"
    using le [OF that(1,2)] fit [OF order_trans [OF that(1,3)] order_trans [OF that(2,4)]] fit [OF that(3,4)]
    by (simp only: word_le_nat_alt)
  show lo: "push_bit (unat (getUnsignedMin S)) (getUnsignedMin R) \<le> push_bit (unat b) a"
    and hi: "push_bit (unat b) a \<le> push_bit (unat ?n) ?m"
    using mono [OF ab(1,3,2,4)] mono [OF ab(2,4) order_refl order_refl] .
  have "0 < unat ?n" using fits(1) by (simp add: unat_gt_0)
  then have "\<not> bit (push_bit (unat ?n) ?m) 0" by (simp add: bit_push_bit_iff)
  moreover have "bit (- 1 :: 'a word) 0" by simp
  ultimately have "push_bit (unat ?n) ?m \<noteq> - 1" by metis
  from less_plus_1_iff [OF this] order_trans [OF lo hi]
  have "push_bit (unat (getUnsignedMin S)) (getUnsignedMin R) < push_bit (unat ?n) ?m + 1" by blast
  then show "push_bit (unat (getUnsignedMin S)) (getUnsignedMin R) \<noteq> push_bit (unat ?n) ?m + 1" by (rule less_imp_neq)
qed

lemma shl_sound:
  assumes ab: "contains R a" "contains S b"
  shows "contains (range_shl R S) (push_bit (unat b) a)"
proof -
  consider "getUnsignedMax S = 0" | "getUnsignedMax S \<noteq> 0" "unat (getUnsignedMax S) > countLeadingZeros (getUnsignedMax R)"
    | (fits) "getUnsignedMax S \<noteq> 0" "unat (getUnsignedMax S) \<le> countLeadingZeros (getUnsignedMax R)"
    by linarith
  then show ?thesis
  proof cases
    case fits
    from unsigned_result [OF shl_bounds(1,2) [OF ab fits]] shl_bounds(3) [OF ab fits] ab fits
    show ?thesis by (simp add: range_shl_def Let_def)
  next
    case 1
    with unsigned_bounds(2) [OF ab(2)] have "b = 0" by simp
    with ab 1 show ?thesis by (simp add: range_shl_def)
  qed (use ab in \<open>simp add: range_shl_def Let_def\<close>)
qed

lemma shl_wf:
  assumes "wf_range R" "wf_range S"
  shows "wf_range (range_shl R S)"
proof (cases "isEmptySet R \<or> isEmptySet S")
  case False
  with assms obtain a b where "contains R a" "contains S b" using nonempty_range by blast
  from shl_bounds(3) [OF this] assms(1) show ?thesis by (auto simp: range_shl_def Let_def wf_make)
qed (auto simp: range_shl_def)

lemma lshr_sound:
  assumes "contains R a" "contains S b"
  shows "contains (range_lshr R S) (drop_bit (unat b) a)"
proof -
  have le: "drop_bit (unat i) x \<le> drop_bit (unat j) y" if "x \<le> y" "j \<le> i" for x y i j :: "'a::len word"
  proof -
    have "unat x div 2 ^ unat i \<le> unat y div 2 ^ unat i" using that(1) by (simp add: word_le_nat_alt div_le_mono)
    also have "\<dots> \<le> unat y div 2 ^ unat j"
      using that(2) by (intro div_le_mono2 power_increasing) (simp_all add: word_le_nat_alt)
    finally show ?thesis by (simp add: word_le_nat_alt unat_drop_bit)
  qed
  from unsigned_result [OF le le, of "getUnsignedMin R" a b "getUnsignedMax S" "getUnsignedMax R" "getUnsignedMin S"]
    unsigned_bounds [OF assms(1)] unsigned_bounds [OF assms(2)] assms
  show ?thesis by (simp add: range_lshr_def Let_def)
qed

lemma ashr_mono:
  fixes x y :: "'a::len word"
  shows "sint x \<le> sint y \<Longrightarrow> sint (signed_drop_bit k x) \<le> sint (signed_drop_bit k y)"
    and "\<not> isNegative x \<Longrightarrow> j \<le> k \<Longrightarrow> sint (signed_drop_bit k x) \<le> sint (signed_drop_bit j x)"
    and "isNegative x \<Longrightarrow> j \<le> k \<Longrightarrow> sint (signed_drop_bit j x) \<le> sint (signed_drop_bit k x)"
    and "isNegative (signed_drop_bit k x) \<longleftrightarrow> isNegative x"
proof -
  have split: "i div 2 ^ k = (i div 2 ^ j) div 2 ^ (k - j)" if "j \<le> k" for i :: int
  proof -
    have "(2 :: int) ^ k = 2 ^ j * 2 ^ (k - j)" using that by (simp flip: power_add)
    then show ?thesis by (simp only: zdiv_zmult2_eq zero_le_power zero_le_numeral)
  qed
  show "sint x \<le> sint y \<Longrightarrow> sint (signed_drop_bit k x) \<le> sint (signed_drop_bit k y)"
    by (simp add: sint_signed_drop_bit_eq drop_bit_eq_div zdiv_mono1)
  show "sint (signed_drop_bit k x) \<le> sint (signed_drop_bit j x)" if "\<not> isNegative x" "j \<le> k"
  proof -
    have "0 \<le> sint x div 2 ^ j" using that by (simp add: isNegative_sint pos_imp_zdiv_nonneg_iff)
    then have "sint x div 2 ^ j div 2 ^ (k - j) \<le> sint x div 2 ^ j" using zdiv_mono2 [of "sint x div 2 ^ j" 1 "2 ^ (k - j)"] by simp
    then show ?thesis by (simp add: sint_signed_drop_bit_eq drop_bit_eq_div split [OF that(2)])
  qed
  show "sint (signed_drop_bit j x) \<le> sint (signed_drop_bit k x)" if "isNegative x" "j \<le> k"
  proof -
    have "sint x div 2 ^ j < 0" using that(1) drop_bit_negative_int_iff [of j "sint x"] by (simp add: isNegative_sint drop_bit_eq_div)
    then have "sint x div 2 ^ j \<le> sint x div 2 ^ j div 2 ^ (k - j)" using zdiv_mono2_neg [of "sint x div 2 ^ j" 1 "2 ^ (k - j)"] by simp
    then show ?thesis by (simp add: sint_signed_drop_bit_eq drop_bit_eq_div split [OF that(2)])
  qed
  show "isNegative (signed_drop_bit k x) \<longleftrightarrow> isNegative x"
    by (simp add: isNegative_sint sint_signed_drop_bit_eq)
qed

lemma ashr_sound:
  assumes "contains R a" "contains S b"
  shows "contains (range_ashr R S) (signed_drop_bit (unat b) a)"
proof -
  let ?x = "getSignedMin R" and ?y = "getSignedMax R" and ?i = "unat (getUnsignedMin S)" and ?j = "unat (getUnsignedMax S)"
  note sb = signed_bounds [OF assms(1)]
  have k: "?i \<le> unat b" "unat b \<le> ?j" using unsigned_bounds [OF assms(2)] by (simp_all add: word_le_nat_alt)
  note mono = ashr_mono(1) [OF sb(1), of "unat b"] ashr_mono(1) [OF sb(2), of "unat b"]
  note neg = isNegative_sint ashr_mono(4)
  consider (pos) "\<not> isNegative ?x" | (neg) "isNegative ?x" "isNegative ?y" | (mixed) "isNegative ?x" "\<not> isNegative ?y" by blast
  then show ?thesis
  proof cases
    case pos
    then have "\<not> isNegative ?y" using sb by (simp add: isNegative_sint)
    from signed_result [OF order_trans [OF ashr_mono(2) [OF pos k(2)] mono(1)] order_trans [OF mono(2) ashr_mono(2) [OF this k(1)]]]
    show ?thesis using assms pos by (simp add: range_ashr_def Let_def)
  next
    case neg
    from signed_result [OF order_trans [OF ashr_mono(3) [OF neg(1) k(1)] mono(1)] order_trans [OF mono(2) ashr_mono(3) [OF neg(2) k(2)]]]
    show ?thesis using assms neg by (simp add: range_ashr_def Let_def)
  next
    case mixed
    from signed_result [OF order_trans [OF ashr_mono(3) [OF mixed(1) k(1)] mono(1)] order_trans [OF mono(2) ashr_mono(2) [OF mixed(2) k(1)]]]
    show ?thesis using assms mixed by (simp add: range_ashr_def Let_def)
  qed
qed

interpretation t_shl: range_transfer range_shl "\<lambda>a b. push_bit (unat b) a" "\<lambda>_. True"
  by unfold_locales (simp_all add: shl_sound shl_wf)

interpretation t_lshr: range_transfer range_lshr "\<lambda>a b. drop_bit (unat b) a" "\<lambda>_. True"
  by unfold_locales (simp_all add: lshr_sound, simp add: range_lshr_def Let_def wf_if result_wf)

interpretation t_ashr: range_transfer range_ashr "\<lambda>a b. signed_drop_bit (unat b) a" "\<lambda>_. True"
  by unfold_locales (simp_all add: ashr_sound, simp add: range_ashr_def Let_def wf_if result_wf split: prod.splits)

end
