(* ===== verification/RangeCast.thy ===== *)
theory RangeCast
  imports RangeTransfer
begin

text \<open>
  Soundness of the conversions between widths, and with it of the multiplication, which works at twice the width and
  truncates; then of every binary operator the source dispatches to.
\<close>

section \<open>Extensions\<close>

lemma unat_ucast_up: "LENGTH('a) \<le> LENGTH('b) \<Longrightarrow> unat (ucast (v :: 'a::len word) :: 'b::len word) = unat v"
  by (simp add: unsigned_ucast_eq take_bit_nat_eq_self order_less_le_trans [OF unsigned_less])

lemma unat_ucast_down: "unat (ucast (v :: 'a::len word) :: 'b::len word) = unat v mod 2 ^ LENGTH('b)"
  by (simp add: unsigned_ucast_eq take_bit_eq_mod)

lemma sint_scast_up:
  assumes "LENGTH('a) \<le> LENGTH('b)"
  shows "sint (scast (v :: 'a::len word) :: 'b::len word) = sint v"
proof -
  have "(2::int) ^ (LENGTH('a) - 1) \<le> 2 ^ (LENGTH('b) - 1)" using assms by (intro power_increasing) auto
  then have "- (2 ^ (LENGTH('b) - 1)) \<le> sint v" "sint v < 2 ^ (LENGTH('b) - 1)"
    using sint_greater_eq [of v] sint_less [of v] by (simp_all only: One_nat_def)
  then show ?thesis by (simp add: signed_scast_eq signed_take_bit_int_eq_self)
qed

lemma ucast_order:
  assumes "LENGTH('a) \<le> LENGTH('b)"
  shows "(ucast (x :: 'a::len word) :: 'b::len word) \<le> ucast y \<longleftrightarrow> x \<le> y"
    and "(ucast x :: 'b::len word) < ucast y \<longleftrightarrow> x < y"
  using assms by (simp_all add: word_le_nat_alt word_less_nat_alt unat_ucast_up)

lemma unat_one_set: "n < LENGTH('b) \<Longrightarrow> unat (push_bit n 1 :: 'b::len word) = 2 ^ n"
  by (subst unat_push_bit_fits) simp_all

lemma unat_exp: "n < LENGTH('b) \<Longrightarrow> unat (2 ^ n :: 'b::len word) = 2 ^ n"
  using unat_one_set [of n, where 'b = 'b] by (simp add: push_bit_eq_mult)

lemma zeroExtend_sound:
  assumes "wf_range (R :: 'a::len word crange)" "LENGTH('a) < LENGTH('b)"
  shows "\<exists>T :: 'b::len word crange. zeroExtend R = Done T \<and> wf_range T \<and> (\<forall>v. contains R v \<longrightarrow> contains T (ucast v))"
proof -
  have less: "(ucast v :: 'b word) < push_bit LENGTH('a) 1" for v :: "'a word"
    using assms(2) by (simp only: word_less_nat_alt unat_one_set unat_ucast_up less_imp_le) simp
  have mono: "(ucast (x :: 'a word) :: 'b word) \<le> ucast y \<longleftrightarrow> x \<le> y"
    "(ucast x :: 'b word) < ucast y \<longleftrightarrow> x < y" for x y :: "'a word"
    using assms(2) by (simp_all add: ucast_order)
  consider "isEmptySet R" | (wrapped) "\<not> isEmptySet R" "isFullSet R \<or> isUpperWrapped R"
    | (plain) "\<not> isEmptySet R" "\<not> isFullSet R" "\<not> isUpperWrapped R" by blast
  then show ?thesis
  proof cases
    case wrapped
    let ?l = "if cr_upper R = 0 then ucast (cr_lower R) else 0 :: 'b word"
    have l: "?l < push_bit LENGTH('a) 1" using less [of "cr_lower R"] less [of 0] by simp
    have "?l \<le> ucast v" if "contains R v" for v
      using that wrapped by (auto simp: mono contains_def split: if_splits)
    with l less make_contains(1) [OF l] show ?thesis
      using wrapped assms(2) by (auto simp: zeroExtend_def wf_make less_imp_neq)
  next
    case plain
    with assms(1) have "cr_lower R < cr_upper R"
      using equal_bounds [OF assms(1)] by (metis full_iff empty_iff isUpperWrapped_def linorder_less_linear)
    then have l: "(ucast (cr_lower R) :: 'b word) < ucast (cr_upper R)" by (simp add: mono)
    have "cr_lower R \<le> v \<and> v < cr_upper R" if "contains R v" for v
      using that plain by (simp add: contains_def split: if_splits)
    with make_contains(1) [OF l] plain assms(2) less_imp_neq [OF l] show ?thesis
      by (simp add: zeroExtend_def wf_make mono)
  qed (simp add: zeroExtend_def empty_iff)
qed

lemma signed_make_contains:
  assumes "sint l < sint u"
  shows "contains (make_range l u) v \<longleftrightarrow> sint l \<le> sint v \<and> sint v < sint u" "wf_range (make_range l u)"
proof -
  have "l \<noteq> u" using assms by auto
  then show "wf_range (make_range l u)" by (rule wf_make)
  have "l + smin_word < u + smin_word" using assms by (simp only: bias_less_iff)
  from make_contains(1) [OF this, of "v + smin_word"] contains_make_bias [OF \<open>l \<noteq> u\<close>, of v]
  show "contains (make_range l u) v \<longleftrightarrow> sint l \<le> sint v \<and> sint v < sint u"
    by (simp only: bias_less_iff bias_le_iff)
qed

lemma sext_limits:
  assumes "LENGTH('a) < LENGTH('b)"
  shows "sint (ucast (smin_word :: 'a::len word) :: 'b::len word) = 2 ^ (LENGTH('a) - 1)"
    and "sint (push_bit (LENGTH('a) - 1) (- 1) :: 'b word) = - (2 ^ (LENGTH('a) - 1))"
    and "sint (Bit_Operations.mask (LENGTH('a) - 1) + 1 :: 'b word) = 2 ^ (LENGTH('a) - 1)"
proof -
  let ?n = "LENGTH('a) - 1"
  have n: "?n < LENGTH('b) - 1" using assms len_gt_0 [where 'a = 'a] by linarith
  then have n2: "(2::int) ^ ?n < 2 ^ (LENGTH('b) - 1)" by (intro power_strict_increasing) simp_all
  have small: "sint (x :: 'b word) = i" if "uint x = i" "i < 2 ^ (LENGTH('b) - 1)" for x i
  proof -
    have "0 \<le> i" "(0::int) \<le> 2 ^ (LENGTH('b) - 1)" using that(1) [symmetric] by simp_all
    then have "- (2 ^ (LENGTH('b) - 1)) \<le> i" by linarith
    with that show ?thesis by (simp add: sint_uint signed_take_bit_int_eq_self)
  qed
  have p: "uint (2 ^ ?n :: 'b word) = 2 ^ ?n" using n by (intro uint_2p) (simp add: word_gt_0)
  have "uint (ucast (smin_word :: 'a word) :: 'b word) = uint (smin_word :: 'a word)"
    using assms by (simp add: unsigned_ucast_eq take_bit_int_eq_self order_less_le_trans [OF unsigned_less])
  with n2 show "sint (ucast (smin_word :: 'a word) :: 'b word) = 2 ^ ?n" by (intro small) (simp_all add: uint_smin)
  have "Bit_Operations.mask ?n + 1 = (2 ^ ?n :: 'b word)" by (simp add: mask_eq_exp_minus_1)
  with p n2 show "sint (Bit_Operations.mask ?n + 1 :: 'b word) = 2 ^ ?n" by (intro small) simp_all
  have w: "push_bit ?n (- 1 :: 'b word) = word_of_int (- (2 ^ ?n))" by (simp add: push_bit_eq_mult)
  have "(0::int) < 2 ^ (LENGTH('b) - 1)" "(0::int) < 2 ^ ?n" by simp_all
  with n2 have "signed_take_bit (LENGTH('b) - 1) (- (2 ^ ?n)) = - (2 ^ ?n :: int)"
    by (intro signed_take_bit_int_eq_self) linarith+
  then show "sint (push_bit ?n (- 1) :: 'b word) = - (2 ^ ?n)" unfolding w sint_sbintrunc' by simp
qed

lemma signExtend_sound:
  assumes "wf_range (R :: 'a::len word crange)" "LENGTH('a) < LENGTH('b)"
  shows "\<exists>T :: 'b::len word crange. signExtend R = Done T \<and> wf_range T \<and> (\<forall>v. contains R v \<longrightarrow> contains T (scast v))"
proof -
  note up = sint_scast_up [where 'a = 'a and 'b = 'b, OF less_imp_le [OF assms(2)]]
  note lim = sext_limits [OF assms(2)]
  have bounds: "- (2 ^ (LENGTH('a) - 1)) \<le> sint v" "sint v < 2 ^ (LENGTH('a) - 1)" for v :: "'a word"
    using sint_greater_eq [of v] sint_less [of v] by simp_all
  consider "isEmptySet R" | (smin) "\<not> isEmptySet R" "cr_upper R = smin_word"
    | (wrapped) "\<not> isEmptySet R" "cr_upper R \<noteq> smin_word" "isFullSet R \<or> isSignWrappedSet R"
    | (plain) "\<not> isEmptySet R" "cr_upper R \<noteq> smin_word" "\<not> isFullSet R" "\<not> isSignWrappedSet R" by blast
  then show ?thesis
  proof cases
    case smin
    then have "getSignedMin R = cr_lower R" by (auto simp: getSignedMin_def isFullSet_def isSignWrappedSet_def)
    then have low: "sint (cr_lower R) \<le> sint v" if "contains R v" for v using signed_bounds(1) [OF that] by simp
    have "sint (scast (cr_lower R) :: 'b word) < sint (ucast (smin_word :: 'a word) :: 'b word)"
      using bounds by (simp only: up lim)
    from signed_make_contains [OF this] low bounds smin assms(2) show ?thesis by (simp add: signExtend_def up lim)
  next
    case wrapped
    have "sint (push_bit (LENGTH('a) - 1) (- 1) :: 'b word) < sint (Bit_Operations.mask (LENGTH('a) - 1) + 1 :: 'b word)"
      unfolding lim by (simp add: less_le_trans [of _ 0])
    note c = signed_make_contains [OF this]
    have "contains (make_range (push_bit (LENGTH('a) - 1) (- 1)) (Bit_Operations.mask (LENGTH('a) - 1) + 1)) (scast v :: 'b word)"
      for v :: "'a word" unfolding c lim up using bounds by blast
    with c(2) wrapped assms(2) show ?thesis by (simp only: signExtend_def if_False if_True not_True_eq_False) blast
  next
    case plain
    then have "sint (cr_lower R) \<le> sint (cr_upper R)" by (auto simp: isSignWrappedSet_def)
    moreover have "cr_lower R \<noteq> cr_upper R" using plain equal_bounds [OF assms(1)] by (auto simp: full_iff empty_iff)
    then have "sint (cr_lower R) \<noteq> sint (cr_upper R)" by (metis signed_word_eqI)
    ultimately have l: "sint (cr_lower R) < sint (cr_upper R)" by (rule order.not_eq_order_implies_strict [rotated])
    have "R = make_range (cr_lower R) (cr_upper R)" by (simp add: make_range_def)
    with signed_make_contains(1) [OF l] have c: "sint (cr_lower R) \<le> sint v \<and> sint v < sint (cr_upper R)" if "contains R v" for v
      using that by simp
    from l have "sint (scast (cr_lower R) :: 'b word) < sint (scast (cr_upper R) :: 'b word)" by (simp only: up)
    from signed_make_contains [OF this] c plain assms(2) show ?thesis by (simp add: signExtend_def up)
  qed (simp add: signExtend_def empty_iff)
qed

section \<open>Truncation\<close>

lemma trailing_ones_upper:
  "n < 2 ^ d \<Longrightarrow> trailing_ones n \<noteq> d \<Longrightarrow> n < 2 ^ d - 1"
proof (induction d arbitrary: n)
  case 0 then show ?case by (simp add: trailing_ones.simps [of 0])
next
  case (Suc d)
  show ?case
  proof (cases "odd n")
    case True
    then obtain m where m: "n = 2 * m + 1" by (rule oddE)
    then have "m < 2 ^ d" "trailing_ones m \<noteq> d" using Suc.prems True by (auto simp: trailing_ones.simps [of "Suc (2 * m)"] m)
    from Suc.IH [OF this] m show ?thesis by simp
  next
    case False
    then have "n \<noteq> 2 ^ Suc d - 1" by auto
    with Suc.prems(1) show ?thesis by linarith
  qed
qed

text \<open>The remaining part after the adjustment, on natural numbers.\<close>

lemma truncate_residue:
  fixes L U :: "'a::len word"
  assumes d: "LENGTH('b::len) < LENGTH('a)" and LU: "L < U"
  defines "adjust \<equiv> if getActiveBits L > LENGTH('b) then L AND push_bit LENGTH('b) (- 1) else 0"
  shows "unat adjust = unat L - unat L mod 2 ^ LENGTH('b)" "unat (L - adjust) = unat L mod 2 ^ LENGTH('b)"
    and "unat (U - adjust) = unat U - unat adjust" "adjust \<le> L"
proof -
  have "L AND push_bit LENGTH('b) (- 1) = push_bit LENGTH('b) (drop_bit LENGTH('b) L)"
    by (rule bit_eqI) (auto simp: bit_simps)
  then have "(L AND push_bit LENGTH('b) (- 1)) + take_bit LENGTH('b) L = L" by (simp only: bits_ident)
  then have masked: "L AND push_bit LENGTH('b) (- 1) = L - take_bit LENGTH('b) L" by (simp only: eq_diff_eq)
  have low: "unat (take_bit LENGTH('b) L) = unat L mod 2 ^ LENGTH('b)" unfolding unsigned_take_bit_eq by (simp add: take_bit_eq_mod)
  then have "take_bit LENGTH('b) L \<le> L" by (simp add: word_le_nat_alt)
  from unat_sub [OF this] have "unat (L - take_bit LENGTH('b) L) = unat L - unat L mod 2 ^ LENGTH('b)" by (simp only: low)
  then show a: "unat adjust = unat L - unat L mod 2 ^ LENGTH('b)"
    unfolding adjust_def masked by (simp add: getActiveBits_le linorder_not_less)
  then show le: "adjust \<le> L" by (simp add: word_le_nat_alt)
  show "unat (L - adjust) = unat L mod 2 ^ LENGTH('b)"
    using a le by (simp add: unat_sub)
  show "unat (U - adjust) = unat U - unat adjust" using le LU by (simp add: unat_sub)
qed

lemma truncate_tail_sound:
  fixes L U :: "'a::len word" and W :: "'b::len word crange"
  assumes d: "LENGTH('b) < LENGTH('a)" and LU: "L < U" and W: "wf_range W"
  shows "\<exists>T. truncate_tail L U W = Done T \<and> wf_range T
    \<and> (\<forall>v. L \<le> v \<and> v < U \<longrightarrow> contains T (ucast v)) \<and> (\<forall>u. contains W u \<longrightarrow> contains T u)"
proof -
  define adjust where "adjust = (if getActiveBits L > LENGTH('b) then L AND push_bit LENGTH('b) (- 1) else 0)"
  define L' U' V where "L' = L - adjust" and "U' = U - adjust" and "V = unset_bit LENGTH('b) U'"
  note def = truncate_tail_def [of L U W, folded adjust_def, unfolded Let_def, folded L'_def U'_def, folded V_def]
  let ?D = "2 ^ LENGTH('b) :: nat"
  note res = truncate_residue [OF d LU, folded adjust_def, folded L'_def U'_def]
  have l: "unat L' < ?D" "unat L' < unat U'" using res LU by (simp_all add: word_less_nat_alt) 
  have v: "unat (ucast v :: 'b word) = (unat v - unat adjust) mod ?D" "unat L' \<le> unat v - unat adjust" "unat v - unat adjust < unat U'"
    if "L \<le> v" "v < U" for v
  proof -
    have a: "unat adjust = ?D * (unat L div ?D)" using res(1) by (simp add: minus_mod_eq_mult_div)
    have le: "unat adjust \<le> unat L" "unat L \<le> unat v" "unat v < unat U"
      using that res(4) by (simp_all add: word_le_nat_alt word_less_nat_alt)
    then have "unat v = (unat v - unat adjust) + ?D * (unat L div ?D)" using a by linarith
    then have "unat v mod ?D = (unat v - unat adjust) mod ?D" by (metis mod_mult_self2)
    then show "unat (ucast v :: 'b word) = (unat v - unat adjust) mod ?D" by (simp add: unat_ucast_down)
    show "unat L' \<le> unat v - unat adjust" "unat v - unat adjust < unat U'"
      using res le by simp_all
  qed
  have union: ?thesis if X: "truncate_tail L U W = unionWith_range X W Smallest" "wf_range X"
      "\<And>v. L \<le> v \<Longrightarrow> v < U \<Longrightarrow> contains X (ucast v)" for X
    using union_covers [OF X(2) W, of Smallest] X by (auto simp: covers_either_def)
  consider (small) "getActiveBits U' \<le> LENGTH('b)" | (wraps) "\<not> getActiveBits U' \<le> LENGTH('b)" "getActiveBits U' = LENGTH('b) + 1" "V < L'"
    | "\<not> getActiveBits U' \<le> LENGTH('b)" "\<not> (getActiveBits U' = LENGTH('b) + 1 \<and> V < L')" by blast
  then show ?thesis
  proof cases
    case small
    then have u: "unat U' < ?D" by (simp add: getActiveBits_le)
    have X: "(ucast L' :: 'b word) < ucast U'" using l u by (simp add: word_less_nat_alt unat_ucast_down)
    have "contains (make_range (ucast L' :: 'b word) (ucast U')) (ucast v)" if "L \<le> v" "v < U" for v
      using v [OF that] l u by (simp add: make_contains(1) [OF X] word_less_nat_alt word_le_nat_alt unat_ucast_down)
    with small show ?thesis by (intro union [OF _ wf_make [OF less_imp_neq [OF X]]]) (simp_all add: def)
  next
    case wraps
    have u: "?D \<le> unat U'" "unat U' < 2 * ?D"
      using wraps(1,2) getActiveBits_le [of U' "LENGTH('b)"] getActiveBits_le [of U' "LENGTH('b) + 1"] by simp_all
    have V: "unat V = unat U' - ?D"
    proof -
      have "unat U' div ?D = 1" using u by (intro div_nat_eqI) simp_all
      then have "bit (unat U') LENGTH('b)" by (simp add: bit_iff_odd)
      then have "bit U' LENGTH('b)" by (simp add: bit_unsigned_iff)
      then have "V = U' - 2 ^ LENGTH('b)" by (simp add: V_def unset_bit_eq)
      with u(1) d unat_sub [of "2 ^ LENGTH('b)" U'] show ?thesis by (simp add: word_le_nat_alt unat_exp)
    qed
    have X: "(ucast V :: 'b word) < ucast L'" using wraps(3) l u V by (simp add: word_less_nat_alt unat_ucast_down)
    have "contains (make_range (ucast L' :: 'b word) (ucast V)) (ucast v)" if "L \<le> v" "v < U" for v
    proof -
      have "(unat v - unat adjust) mod ?D = (if unat v - unat adjust < ?D then unat v - unat adjust else unat v - unat adjust - ?D)"
        using v [OF that] u by (auto simp: mod_if)
      with v [OF that] l u V show ?thesis
        by (auto simp: make_contains(2) [OF X] word_less_nat_alt word_le_nat_alt unat_ucast_down split: if_splits)
    qed
    with wraps show ?thesis by (intro union [OF _ wf_make [OF not_sym [OF less_imp_neq [OF X]]]]) (simp_all add: def)
  next
    case 3
    then have "truncate_tail L U W = Done full_range" by (simp only: def if_False)
    then show ?thesis by simp
  qed
qed

lemma ucast_minus_1_down: "LENGTH('b) \<le> LENGTH('a) \<Longrightarrow> (ucast (- 1 :: 'a::len word) :: 'b::len word) = - 1"
  by (rule bit_eqI) (simp add: bit_unsigned_iff)

text \<open>The part of a wrapped range below its upper bound, together with the greatest value.\<close>

lemma truncate_low_part:
  fixes U :: "'a::len word"
  defines "W \<equiv> make_range (- 1) (ucast U :: 'b::len word)"
  assumes d: "LENGTH('b) < LENGTH('a)"
    and U: "\<not> getActiveBits U > LENGTH('b)" "countTrailingOnes U \<noteq> LENGTH('b)"
  shows "wf_range W" "v < U \<Longrightarrow> contains W (ucast v)" "contains W (ucast (- 1 :: 'a word))"
proof -
  have "unat U < 2 ^ LENGTH('b)" using U(1) getActiveBits_le [of U "LENGTH('b)"] by simp
  moreover from this have "unat U < 2 ^ LENGTH('b) - 1" using U(2) by (intro trailing_ones_upper) (simp_all add: countTrailingOnes_def)
  ultimately have u: "(ucast U :: 'b word) < - 1" "unat (ucast U :: 'b word) = unat U" "unat U < 2 ^ LENGTH('b)"
    by (simp_all add: word_less_nat_alt unat_ucast_down unsigned_minus_1_eq_mask mask_eq_exp_minus_1)
  show "wf_range W" unfolding W_def using less_imp_neq [OF u(1)] by (intro wf_make) simp
  show "contains W (ucast v)" if "v < U"
  proof -
    have "(ucast v :: 'b word) < ucast U" using that u(2,3) by (simp add: word_less_nat_alt unat_ucast_down)
    then show ?thesis by (simp add: W_def make_contains(2) [OF u(1)])
  qed
  show "contains W (ucast (- 1 :: 'a word))"
    using d by (simp add: W_def make_contains(2) [OF u(1)] ucast_minus_1_down)
qed

lemma truncate_sound:
  assumes wf: "wf_range (R :: 'a::len word crange)" and d: "LENGTH('b) < LENGTH('a)"
  shows "\<exists>T :: 'b::len word crange. truncate_range R = Done T \<and> wf_range T \<and> (\<forall>v. contains R v \<longrightarrow> contains T (ucast v))"
proof -
  let ?W = "make_range (- 1) (ucast (cr_upper R)) :: 'b word crange"
  note in_R = contains_def [of R]
  consider (empty) "isEmptySet R" | (full) "\<not> isEmptySet R" "isFullSet R" | (plain) "\<not> isEmptySet R" "\<not> isFullSet R" "\<not> isUpperWrapped R"
    | (all) "\<not> isEmptySet R" "\<not> isFullSet R" "isUpperWrapped R"
        "getActiveBits (cr_upper R) > LENGTH('b) \<or> countTrailingOnes (cr_upper R) = LENGTH('b)"
    | (wrapped) "\<not> isEmptySet R" "\<not> isFullSet R" "isUpperWrapped R"
        "\<not> getActiveBits (cr_upper R) > LENGTH('b)" "countTrailingOnes (cr_upper R) \<noteq> LENGTH('b)" by blast
  then show ?thesis
  proof cases
    case empty with d show ?thesis by (simp add: truncate_range_def) (simp add: empty_iff)
  next
    case full with d show ?thesis by (simp add: truncate_range_def)
  next
    case plain
    then have LU: "cr_lower R < cr_upper R"
      using equal_bounds [OF wf] by (metis full_iff empty_iff isUpperWrapped_def linorder_less_linear)
    have "cr_lower R \<le> v \<and> v < cr_upper R" if "contains R v" for v using that plain in_R [of v] by (simp split: if_splits)
    with truncate_tail_sound [OF d LU, of empty_range] plain d show ?thesis by (auto simp: truncate_range_def)
  next
    case all with d show ?thesis by (simp add: truncate_range_def)
  next
    case wrapped
    note low = truncate_low_part [OF d wrapped(4,5)]
    have v: "cr_lower R \<le> v \<or> v < cr_upper R" if "contains R v" for v using that wrapped in_R [of v] by (simp split: if_splits)
    show ?thesis
    proof (cases "cr_lower R = - 1")
      case True
      have "contains ?W (ucast v)" if "contains R v" for v
        using v [OF that] low(2,3) True by (auto simp: word_order.extremum_unique)
      with True low(1) wrapped d show ?thesis by (simp add: truncate_range_def)
    next
      case False
      then have LU: "cr_lower R < - 1" using word_max(1) [of "cr_lower R"] by (simp add: order.strict_iff_order)
      from truncate_tail_sound [OF d LU low(1)] obtain T where T: "truncate_tail (cr_lower R) (- 1) ?W = Done T" "wf_range T"
        "\<And>v. cr_lower R \<le> v \<and> v < - 1 \<Longrightarrow> contains T (ucast v)" "\<And>u. contains ?W u \<Longrightarrow> contains T u" by blast
      have "contains T (ucast v)" if "contains R v" for v
        using v [OF that] T(3) [of v] T(4) [OF low(2), of v] T(4) [OF low(3)] word_max(1) [of v]
        by (cases "v = - 1") (auto simp: order.strict_iff_order)
      with T(1,2) False wrapped d show ?thesis by (simp add: truncate_range_def)
    qed
  qed
qed

section \<open>Multiplication\<close>

lemma ucast_mult_down:
  assumes "LENGTH('a) \<le> LENGTH('b)"
  shows "(ucast (x * y :: 'b::len word) :: 'a::len word) = ucast x * ucast y"
proof -
  have "(2::nat) ^ LENGTH('a) dvd 2 ^ LENGTH('b)" using assms by (rule le_imp_power_dvd)
  then have "unat (ucast (x * y) :: 'a word) = unat (ucast x * ucast y :: 'a word)"
    by (simp add: unat_ucast_down unat_word_ariths mod_mod_cancel mod_mult_eq)
  then show ?thesis by (simp only: word_unat_eq_iff)
qed

lemma ucast_down_up: "(ucast (ucast a :: 'a::len bit0 word) :: 'a word) = a"
  "(ucast (scast a :: 'a bit0 word) :: 'a word) = a"
  by (rule bit_eqI; simp add: bit_simps)+

lemma unat_double_product: "unat (ucast a * ucast b :: 'a bit0 word) = unat a * unat b" for a b :: "'a::len word"
proof -
  have "unat a * unat b < 2 ^ LENGTH('a) * 2 ^ LENGTH('a)" by (intro mult_strict_mono') simp_all
  also have "\<dots> = 2 ^ LENGTH('a bit0)" by (simp add: mult_2 flip: power_add)
  finally show ?thesis by (simp add: unat_word_ariths unat_ucast_up)
qed

lemma product_between:
  fixes x y :: int
  assumes "x1 \<le> x" "x \<le> x2" "y1 \<le> y" "y \<le> y2"
  shows "min (min (min (x1 * y1) (x1 * y2)) (x2 * y1)) (x2 * y2) \<le> x * y"
    and "x * y \<le> max (max (max (x1 * y1) (x1 * y2)) (x2 * y1)) (x2 * y2)"
proof -
  have line: "min (l * c) (h * c) \<le> z * c \<and> z * c \<le> max (l * c) (h * c)" if "l \<le> z" "z \<le> h" for l z h c :: int
    using that by (cases "0 \<le> c") (auto simp: mult_right_mono mult_right_mono_neg min_le_iff_disj le_max_iff_disj)
  from line [OF assms(1,2), of y] line [OF assms(3,4), of x1] line [OF assms(3,4), of x2]
  show "min (min (min (x1 * y1) (x1 * y2)) (x2 * y1)) (x2 * y2) \<le> x * y"
    "x * y \<le> max (max (max (x1 * y1) (x1 * y2)) (x2 * y1)) (x2 * y2)"
    by (simp_all only: mult.commute [of _ x1] mult.commute [of _ x2]) linarith+
qed

lemma sint_double_product:
  fixes a b :: "'a::len word"
  shows "sint (scast a * scast b :: 'a bit0 word) = sint a * sint b" "- (2 ^ (LENGTH('a bit0) - 1)) < sint a * sint b"
proof -
  let ?h = "2 ^ (LENGTH('a) - 1) :: int"
  have "\<bar>sint x\<bar> \<le> ?h" for x :: "'a word" using sint_greater_eq [of x] sint_less [of x] by simp
  then have "\<bar>sint a * sint b\<bar> \<le> ?h * ?h" unfolding abs_mult by (intro mult_mono) simp_all
  also have "?h * ?h = 2 ^ (LENGTH('a) - 1 + (LENGTH('a) - 1))" by (simp only: power_add)
  also have "\<dots> < 2 ^ (LENGTH('a bit0) - 1)"
  proof (rule power_strict_increasing)
    show "LENGTH('a) - 1 + (LENGTH('a) - 1) < LENGTH('a bit0) - 1"
      using len_gt_0 [where 'a = 'a] by (simp only: len_bit0)
  qed simp
  finally have small: "\<bar>sint a * sint b\<bar> < 2 ^ (LENGTH('a bit0) - 1)" .
  then show "- (2 ^ (LENGTH('a bit0) - 1)) < sint a * sint b" by linarith
  have "scast a * scast b = (word_of_int (sint a * sint b) :: 'a bit0 word)" by simp
  then have "sint (scast a * scast b :: 'a bit0 word) = signed_take_bit (LENGTH('a bit0) - 1) (sint a * sint b)"
    by (simp only: sint_sbintrunc')
  also have "\<dots> = sint a * sint b" using small by (intro signed_take_bit_int_eq_self) linarith+
  finally show "sint (scast a * scast b :: 'a bit0 word) = sint a * sint b" .
qed

lemma multiply_unsigned_sound:
  fixes R S :: "'a::len word crange"
  assumes ab: "contains R a" "contains S b"
  shows "wf_range (multiply_unsigned R S)" "contains (multiply_unsigned R S) (ucast a * ucast b)"
proof -
  let ?l = "ucast (getUnsignedMin R) * ucast (getUnsignedMin S) :: 'a bit0 word"
    and ?h = "ucast (getUnsignedMax R) * ucast (getUnsignedMax S) :: 'a bit0 word"
  note bounds = unsigned_bounds [OF ab(1)] unsigned_bounds [OF ab(2)]
  have mono: "(ucast x * ucast y :: 'a bit0 word) \<le> ucast x' * ucast y'" if "x \<le> x'" "y \<le> y'" for x y x' y' :: "'a word"
    using that by (simp add: word_le_nat_alt unat_double_product mult_le_mono)
  have lo: "?l \<le> ucast a * ucast b" and hi: "ucast a * ucast b \<le> ?h" using bounds by (simp_all add: mono)
  have "unat ?h \<le> (2 ^ LENGTH('a) - 1) * (2 ^ LENGTH('a) - 1)"
    unfolding unat_double_product using unsigned_less by (intro mult_le_mono) (simp_all add: le_diff_conv2 Suc_leI)
  also have "\<dots> < 2 ^ LENGTH('a bit0) - 1"
  proof -
    have "(n - 1) * (n - 1) < n * n - 1" if "2 \<le> n" for n :: nat
      using that by (cases n) (simp_all add: algebra_simps)
    moreover have "(2::nat) \<le> 2 ^ LENGTH('a)" by (rule self_le_power) simp_all
    moreover have "(2::nat) ^ LENGTH('a bit0) = 2 ^ LENGTH('a) * 2 ^ LENGTH('a)" by (simp add: mult_2 flip: power_add)
    ultimately show ?thesis by simp
  qed
  finally have "?h \<noteq> - 1" by (auto simp: unsigned_minus_1_eq_mask mask_eq_exp_minus_1)
  from less_plus_1_iff [OF this, of ?l] order_trans [OF lo hi] have l: "?l < ?h + 1" by blast
  show "wf_range (multiply_unsigned R S)" unfolding multiply_unsigned_def by (rule wf_make [OF less_imp_neq [OF l]])
  from unsigned_result [OF lo hi] less_imp_neq [OF l]
  show "contains (multiply_unsigned R S) (ucast a * ucast b)" by (simp add: multiply_unsigned_def)
qed

lemma slt_extremes:
  "sint (slt_min p [q, r, s]) = min (min (min (sint p) (sint q)) (sint r)) (sint s)"
  "sint (slt_max p [q, r, s]) = max (max (max (sint p) (sint q)) (sint r)) (sint s)"
  by (auto simp: slt_min_def slt_max_def min_def max_def)

lemma multiply_signed_sound:
  fixes R S :: "'a::len word crange"
  assumes ab: "contains R a" "contains S b"
  shows "wf_range (multiply_signed R S)" "contains (multiply_signed R S) (scast a * scast b)"
proof -
  define tmin tmax omin omax :: "'a bit0 word"
    where "tmin = scast (getSignedMin R)" and "tmax = scast (getSignedMax R)"
      and "omin = scast (getSignedMin S)" and "omax = scast (getSignedMax S)"
  note defs = tmin_def tmax_def omin_def omax_def
  define lo hi where "lo = slt_min (tmin * omin) [tmin * omax, tmax * omin, tmax * omax]"
    and "hi = slt_max (tmin * omin) [tmin * omax, tmax * omin, tmax * omax]"
  have M: "multiply_signed R S = make_range lo (hi + 1)"
    by (simp add: multiply_signed_def Let_def lo_def hi_def defs)
  have sint_lo_hi: "sint lo \<le> sint (scast a * scast b :: 'a bit0 word)" "sint (scast a * scast b :: 'a bit0 word) \<le> sint hi"
    using product_between [OF signed_bounds [OF ab(1)] signed_bounds [OF ab(2)]]
    by (simp_all only: lo_def hi_def slt_extremes defs sint_double_product(1))
  have "sint (smin_word :: 'a bit0 word) < sint lo"
    by (simp only: lo_def slt_extremes defs sint_double_product sint_smin min_less_iff_conj simp_thms)
  then have "lo \<noteq> smin_word" by auto
  with sint_lo_hi have ne: "lo \<noteq> hi + 1" by (intro signed_bounds_distinct) simp_all
  show "wf_range (multiply_signed R S)" unfolding M by (rule wf_make [OF ne])
  from signed_result [OF sint_lo_hi] ne show "contains (multiply_signed R S) (scast a * scast b)" by (simp add: M)
qed

lemma multiply_sound:
  assumes wf: "wf_range (R :: 'a::len word crange)" "wf_range S"
  shows "\<exists>T. range_multiply R S = Done T \<and> wf_range T \<and> (\<forall>a b. contains R a \<and> contains S b \<longrightarrow> contains T (a * b))"
proof (cases "isEmptySet R \<or> isEmptySet S")
  case True
  then show ?thesis by (auto simp: range_multiply_def empty_iff)
next
  case False
  with wf obtain a0 b0 where ab: "contains R a0" "contains S b0" using nonempty_range by blast
  have d: "LENGTH('a) < LENGTH('a bit0)" using len_gt_0 [where 'a = 'a] by simp
  obtain UR :: "'a word crange" where UR: "truncate_range (multiply_unsigned R S) = Done UR" "wf_range UR"
    "\<And>v. contains (multiply_unsigned R S) v \<Longrightarrow> contains UR (ucast v)"
    using truncate_sound [OF multiply_unsigned_sound(1) [OF ab] d] by blast
  obtain SR :: "'a word crange" where SR: "truncate_range (multiply_signed R S) = Done SR" "wf_range SR"
    "\<And>v. contains (multiply_signed R S) v \<Longrightarrow> contains SR (ucast v)"
    using truncate_sound [OF multiply_signed_sound(1) [OF ab] d] by blast
  have "contains UR (a * b)" "contains SR (a * b)" if "contains R a" "contains S b" for a b
    using UR(3) [OF multiply_unsigned_sound(2) [OF that]] SR(3) [OF multiply_signed_sound(2) [OF that]] d
    by (simp_all add: ucast_mult_down ucast_down_up)
  with False UR(1,2) SR(1,2) multiply_unsigned_sound(1) [OF ab] multiply_signed_sound(1) [OF ab]
  show ?thesis by (simp add: range_multiply_def)
qed

end
