(* ===== verification/RangeOverflow.thy ===== *)
theory RangeOverflow
  imports RangeCast
begin

text \<open>
  Overflow on ranges: whether an operation on elements of two ranges always, may or never overflows, and the
  values for which it cannot overflow. The rounding divisions and the overflow test of the unsigned product
  are those of \<^verbatim>\<open>lib/Support/APInt.cpp\<close>.
\<close>

section \<open>Operations of the values\<close>

definition umul_ov :: "'a::len word \<Rightarrow> 'a word \<Rightarrow> 'a word \<times> bool" where
  "umul_ov x y =
     (if countLeadingZeros x + countLeadingZeros y + 2 \<le> LENGTH('a) then (x * y, True)
      else let Res = drop_bit 1 x * y; Overflow = isNegative Res; Res = push_bit 1 Res
        in if bit x 0 then (Res + y, if Res + y < y then True else Overflow) else (Res, Overflow))"

definition sdivrem :: "'a::len word \<Rightarrow> 'a word \<Rightarrow> 'a word \<times> 'a word" where
  "sdivrem x y =
     (if isNegative x
      then if isNegative y then ((- x) div (- y), - ((- x) mod (- y)))
        else (- ((- x) div y), - ((- x) mod y))
      else if isNegative y then (- (x div (- y)), x mod (- y))
      else (x div y, x mod y))"

datatype rounding = DOWN | TOWARD_ZERO | UP

definition RoundingUDiv :: "'a::len word \<Rightarrow> 'a word \<Rightarrow> rounding \<Rightarrow> 'a word" where
  "RoundingUDiv x y m = (case m of
       DOWN \<Rightarrow> x div y
     | TOWARD_ZERO \<Rightarrow> x div y
     | UP \<Rightarrow> if x mod y = 0 then x div y else x div y + 1)"

definition RoundingSDiv :: "'a::len word \<Rightarrow> 'a word \<Rightarrow> rounding \<Rightarrow> 'a word" where
  "RoundingSDiv x y m =
     (let (quo, rem) = sdivrem x y in case m of
       TOWARD_ZERO \<Rightarrow> quo
     | DOWN \<Rightarrow> if rem = 0 then quo else if isNegative rem \<noteq> isNegative y then quo - 1 else quo
     | UP \<Rightarrow> if rem = 0 then quo else if isNegative rem \<noteq> isNegative y then quo else quo + 1)"

section \<open>Overflow of an operation on two ranges\<close>

datatype overflow_result = AlwaysOverflows | MayOverflow | NeverOverflows

definition unsignedAddMayOverflow :: "'a::len word crange \<Rightarrow> 'a word crange \<Rightarrow> overflow_result" where
  "unsignedAddMayOverflow R S =
     (if isEmptySet R \<or> isEmptySet S then MayOverflow
      else if getUnsignedMin R > NOT (getUnsignedMin S) then AlwaysOverflows
      else if getUnsignedMax R > NOT (getUnsignedMax S) then MayOverflow
      else NeverOverflows)"

definition signedAddMayOverflow :: "'a::len word crange \<Rightarrow> 'a word crange \<Rightarrow> overflow_result" where
  "signedAddMayOverflow R S =
     (if isEmptySet R \<or> isEmptySet S then MayOverflow
      else let Min = getSignedMin R; Max = getSignedMax R; OtherMin = getSignedMin S; OtherMax = getSignedMax S in
       if \<not> isNegative Min \<and> \<not> isNegative OtherMin \<and> sint Min > sint (smax_word - OtherMin) then AlwaysOverflows
       else if isNegative Max \<and> isNegative OtherMax \<and> sint Max < sint (smin_word - OtherMax) then AlwaysOverflows
       else if \<not> isNegative Max \<and> \<not> isNegative OtherMax \<and> sint Max > sint (smax_word - OtherMax) then MayOverflow
       else if isNegative Min \<and> isNegative OtherMin \<and> sint Min < sint (smin_word - OtherMin) then MayOverflow
       else NeverOverflows)"

definition unsignedSubMayOverflow :: "'a::len word crange \<Rightarrow> 'a word crange \<Rightarrow> overflow_result" where
  "unsignedSubMayOverflow R S =
     (if isEmptySet R \<or> isEmptySet S then MayOverflow
      else if getUnsignedMax R < getUnsignedMin S then AlwaysOverflows
      else if getUnsignedMin R < getUnsignedMax S then MayOverflow
      else NeverOverflows)"

definition signedSubMayOverflow :: "'a::len word crange \<Rightarrow> 'a word crange \<Rightarrow> overflow_result" where
  "signedSubMayOverflow R S =
     (if isEmptySet R \<or> isEmptySet S then MayOverflow
      else let Min = getSignedMin R; Max = getSignedMax R; OtherMin = getSignedMin S; OtherMax = getSignedMax S in
       if \<not> isNegative Min \<and> isNegative OtherMax \<and> sint Min > sint (smax_word + OtherMax) then AlwaysOverflows
       else if isNegative Max \<and> \<not> isNegative OtherMin \<and> sint Max < sint (smin_word + OtherMin) then AlwaysOverflows
       else if \<not> isNegative Max \<and> isNegative OtherMin \<and> sint Max > sint (smax_word + OtherMin) then MayOverflow
       else if isNegative Min \<and> \<not> isNegative OtherMax \<and> sint Min < sint (smin_word + OtherMax) then MayOverflow
       else NeverOverflows)"

definition unsignedMulMayOverflow :: "'a::len word crange \<Rightarrow> 'a word crange \<Rightarrow> overflow_result" where
  "unsignedMulMayOverflow R S =
     (if isEmptySet R \<or> isEmptySet S then MayOverflow
      else if snd (umul_ov (getUnsignedMin R) (getUnsignedMin S)) then AlwaysOverflows
      else if snd (umul_ov (getUnsignedMax R) (getUnsignedMax S)) then MayOverflow
      else NeverOverflows)"

section \<open>The test of the unsigned product\<close>

lemma bit_length_bounds: "n < 2 ^ bit_length n" "n \<noteq> 0 \<Longrightarrow> 2 ^ (bit_length n - 1) \<le> n"
proof -
  show "n < 2 ^ bit_length n" using bit_length_le [of n "bit_length n"] by simp
  assume "n \<noteq> 0"
  then have "\<not> bit_length n \<le> bit_length n - 1" by (simp add: bit_length.simps [of n])
  then show "2 ^ (bit_length n - 1) \<le> n" by (simp only: bit_length_le linorder_not_less)
qed

lemma bit_length_eq_0: "bit_length n = 0 \<longleftrightarrow> n = 0"
  by (simp add: bit_length.simps [of n])

lemma isNegative_unat: "isNegative (x :: 'a::len word) \<longleftrightarrow> 2 ^ (LENGTH('a) - 1) \<le> unat x"
proof -
  have "isNegative x \<longleftrightarrow> odd (unat x div 2 ^ (LENGTH('a) - 1))"
    using bit_unsigned_iff [of x "LENGTH('a) - 1", where 'a = nat] by (simp add: isNegative_def bit_iff_odd)
  also have "unat x < 2 * 2 ^ (LENGTH('a) - 1)" using unsigned_less [of x, where 'a = nat] by (simp flip: power_Suc)
  then have "unat x div 2 ^ (LENGTH('a) - 1) < 2" by (simp add: div_less_iff_less_mult)
  then have "odd (unat x div 2 ^ (LENGTH('a) - 1)) \<longleftrightarrow> unat x div 2 ^ (LENGTH('a) - 1) \<noteq> 0"
    by (auto simp: less_2_cases_iff)
  also have "\<dots> \<longleftrightarrow> 2 ^ (LENGTH('a) - 1) \<le> unat x" by (simp add: div_eq_0_iff linorder_not_less)
  finally show ?thesis .
qed

lemma bit_length_word: "bit_length (unat (x :: 'a::len word)) \<le> LENGTH('a)"
  by (simp add: bit_length_le)

lemma large_product:
  fixes x y :: "'a::len word"
  assumes "countLeadingZeros x + countLeadingZeros y + 2 \<le> LENGTH('a)"
  shows "2 ^ LENGTH('a) \<le> unat x * unat y"
proof -
  let ?i = "bit_length (unat x)" and ?j = "bit_length (unat y)"
  have ij: "LENGTH('a) \<le> (?i - 1) + (?j - 1)" "?i \<noteq> 0" "?j \<noteq> 0"
    using assms bit_length_word [of x] bit_length_word [of y] by (simp_all add: countLeadingZeros_def)
  then have "(2::nat) ^ LENGTH('a) \<le> 2 ^ ((?i - 1) + (?j - 1))" by (intro power_increasing) simp_all
  also have "\<dots> \<le> unat x * unat y"
    unfolding power_add using ij(2,3) by (intro mult_le_mono bit_length_bounds(2)) (simp_all only: bit_length_eq_0 not_False_eq_True)
  finally show ?thesis .
qed

lemma half_product_fits:
  fixes x y :: "'a::len word"
  assumes "\<not> countLeadingZeros x + countLeadingZeros y + 2 \<le> LENGTH('a)"
  shows "unat (drop_bit 1 x * y) = unat x div 2 * unat y"
proof -
  let ?i = "bit_length (unat x)" and ?j = "bit_length (unat y)"
  have ij: "?i + ?j \<le> LENGTH('a) + 1"
    using assms bit_length_word [of x] bit_length_word [of y] by (simp add: countLeadingZeros_def)
  have "unat x div 2 * unat y < 2 ^ LENGTH('a)"
  proof (cases "?i = 0")
    case True
    then have "unat x = 0" using bit_length_bounds(1) [of "unat x"] by simp
    then show ?thesis by simp
  next
    case False
    then have "(2::nat) ^ ?i = 2 * 2 ^ (?i - 1)" by (simp flip: power_Suc)
    then have "unat x div 2 < 2 ^ (?i - 1)" using bit_length_bounds(1) [of "unat x"] by (simp add: div_less_iff_less_mult)
    then have "unat x div 2 * unat y < 2 ^ (?i - 1) * 2 ^ ?j"
      using bit_length_bounds(1) [of "unat y"] by (intro mult_strict_mono') simp_all
    also have "\<dots> \<le> 2 ^ LENGTH('a)" unfolding power_add [symmetric] using ij False by (intro power_increasing) simp_all
    finally show ?thesis .
  qed
  then show ?thesis by (simp add: unat_word_ariths unat_drop_bit)
qed

lemma umul_ov_correct: "umul_ov x y = (x * y, 2 ^ LENGTH('a) \<le> unat x * unat (y :: 'a::len word))"
proof (cases "countLeadingZeros x + countLeadingZeros y + 2 \<le> LENGTH('a)")
  case True
  with large_product [OF True] show ?thesis by (simp add: umul_ov_def)
next
  case False
  define H where "H = drop_bit 1 x * y"
  let ?p = "unat x div 2 * unat y"
  have H: "unat H = ?p" unfolding H_def by (rule half_product_fits [OF False])
  have pow: "(2::nat) ^ LENGTH('a) = 2 * 2 ^ (LENGTH('a) - 1)" by (simp flip: power_Suc)
  have neg: "isNegative H \<longleftrightarrow> 2 ^ LENGTH('a) \<le> 2 * ?p" unfolding isNegative_unat H pow by simp
  have fits: "unat (push_bit 1 H) = 2 * ?p" if "\<not> isNegative H"
    using that H by (subst unat_push_bit_fits) (simp_all add: neg)
  have word: "x * y = (if bit x 0 then push_bit 1 H + y else push_bit 1 H)"
  proof -
    have "take_bit 1 x = of_bool (bit x 0)" by (simp add: take_bit_Suc bit_0 mod_2_eq_odd)
    then have "x = push_bit 1 (drop_bit 1 x) + of_bool (bit x 0)" using bits_ident [of 1 x] by simp
    then have "x * y = (push_bit 1 (drop_bit 1 x) + of_bool (bit x 0)) * y" by simp
    then show ?thesis by (simp add: H_def push_bit_eq_mult algebra_simps)
  qed
  have nat: "unat x * unat y = 2 * ?p + (if bit x 0 then unat y else 0)"
  proof -
    have "unat x = 2 * (unat x div 2) + of_bool (odd (unat x))" by simp
    moreover have "odd (unat x) \<longleftrightarrow> bit x 0" using bit_unsigned_iff [of x 0, where 'a = nat] by (simp add: bit_0)
    ultimately have "unat x * unat y = (2 * (unat x div 2) + of_bool (bit x 0)) * unat y" by simp
    then show ?thesis by (simp add: algebra_simps)
  qed
  have carry: "push_bit 1 H + y < y \<longleftrightarrow> 2 ^ LENGTH('a) \<le> 2 * ?p + unat y" if "\<not> isNegative H"
    using no_olen_add_nat [of y "push_bit 1 H"] fits [OF that] by (auto simp: add.commute linorder_not_le [symmetric])
  show ?thesis
  proof (cases "bit x 0")
    case True
    then show ?thesis using False carry neg nat word
      unfolding umul_ov_def Let_def H_def [symmetric] by (cases "isNegative H") auto
  next
    case notodd: False
    show ?thesis
      unfolding umul_ov_def Let_def H_def [symmetric] if_not_P [OF False] word nat if_not_P [OF notodd] neg by simp
  qed
qed

section \<open>The answers are exact\<close>

text \<open>An answer is exact when it tells apart pairs that all overflow, some of which do, and none of which do.\<close>

definition overflow_exact ::
  "('a::len word \<Rightarrow> 'a word \<Rightarrow> bool) \<Rightarrow> 'a word crange \<Rightarrow> 'a word crange \<Rightarrow> overflow_result \<Rightarrow> bool" where
  "overflow_exact ov R S r =
     (if isEmptySet R \<or> isEmptySet S then r = MayOverflow
      else (r = AlwaysOverflows \<longleftrightarrow> (\<forall>a b. contains R a \<and> contains S b \<longrightarrow> ov a b))
        \<and> (r = NeverOverflows \<longleftrightarrow> (\<forall>a b. contains R a \<and> contains S b \<longrightarrow> \<not> ov a b)))"

text \<open>
  The interface of the five tests: overflow in one direction is decided at two pairs of extreme elements, the pair
  least likely to overflow and the pair most likely to. Signed operations overflow in two directions, whose extreme
  pairs are each other's, and a pair of mixed signs never overflows.
\<close>

locale extreme_pairs =
  fixes high low :: "'a::len word \<Rightarrow> 'a word \<Rightarrow> bool"
    and l l' h h' m m' :: "'a word crange \<Rightarrow> 'a word"
  assumes pairs: "contains R v \<Longrightarrow> contains R (l R) \<and> contains R (l' R) \<and> contains R (h R) \<and> contains R (h' R)
      \<and> contains R (m R) \<and> contains R (m' R)"
    and high: "contains R a \<Longrightarrow> contains S b \<Longrightarrow> (high (l R) (l' S) \<longrightarrow> high a b) \<and> (high a b \<longrightarrow> high (h R) (h' S))"
    and low: "contains R a \<Longrightarrow> contains S b \<Longrightarrow> (low (h R) (h' S) \<longrightarrow> low a b) \<and> (low a b \<longrightarrow> low (l R) (l' S))"
    and mixed: "low (l R) (l' S) \<Longrightarrow> high (h R) (h' S) \<Longrightarrow> \<not> high (m R) (m' S) \<and> \<not> low (m R) (m' S)"
begin

lemma exact:
  assumes wf: "wf_range R" "wf_range S"
  shows "overflow_exact (\<lambda>a b. high a b \<or> low a b) R S
     (if isEmptySet R \<or> isEmptySet S then MayOverflow
      else if high (l R) (l' S) then AlwaysOverflows else if low (h R) (h' S) then AlwaysOverflows
      else if high (h R) (h' S) then MayOverflow else if low (l R) (l' S) then MayOverflow else NeverOverflows)"
proof (cases "isEmptySet R \<or> isEmptySet S")
  case True then show ?thesis by (simp add: overflow_exact_def)
next
  case False
  with wf obtain a0 b0 where ab: "contains R a0" "contains S b0" using nonempty_range by blast
  note R = pairs [OF ab(1)] and S = pairs [OF ab(2)]
  have "(\<forall>a b. contains R a \<and> contains S b \<longrightarrow> high a b \<or> low a b) \<longleftrightarrow> high (l R) (l' S) \<or> low (h R) (h' S)"
    using high [of R _ S] low [of R _ S] R S mixed [of R S] by blast
  moreover have "(\<forall>a b. contains R a \<and> contains S b \<longrightarrow> \<not> (high a b \<or> low a b))
      \<longleftrightarrow> \<not> high (h R) (h' S) \<and> \<not> low (l R) (l' S)"
    using high [of R _ S] low [of R _ S] R S by blast
  moreover have "high (l R) (l' S) \<Longrightarrow> high (h R) (h' S)" "low (h R) (h' S) \<Longrightarrow> low (l R) (l' S)"
    using high [of R _ S] low [of R _ S] R S by blast+
  ultimately show ?thesis using False by (simp add: overflow_exact_def)
qed

end

section \<open>Signed overflow\<close>

definition sadd_high :: "'a::len word \<Rightarrow> 'a word \<Rightarrow> bool" where
  "sadd_high a b = (sint a + sint b > sint (smax_word :: 'a word))"

definition sadd_low :: "'a::len word \<Rightarrow> 'a word \<Rightarrow> bool" where
  "sadd_low a b = (sint a + sint b < sint (smin_word :: 'a word))"

definition ssub_high :: "'a::len word \<Rightarrow> 'a word \<Rightarrow> bool" where
  "ssub_high a b = (sint a - sint b > sint (smax_word :: 'a word))"

definition ssub_low :: "'a::len word \<Rightarrow> 'a word \<Rightarrow> bool" where
  "ssub_low a b = (sint a - sint b < sint (smin_word :: 'a word))"

lemma sint_of_small:
  fixes x y :: "'a::len word"
  shows "sint (smin_word :: 'a word) \<le> sint x + sint y \<Longrightarrow> sint x + sint y \<le> sint (smax_word :: 'a word) \<Longrightarrow> sint (x + y) = sint x + sint y"
    and "sint (smin_word :: 'a word) \<le> sint x - sint y \<Longrightarrow> sint x - sint y \<le> sint (smax_word :: 'a word) \<Longrightarrow> sint (x - y) = sint x - sint y"
  by (simp_all add: sint_smin sint_smax sint_word_ariths signed_take_bit_int_eq_self)

lemma overflow_tests:
  fixes a b :: "'a::len word"
  shows "\<not> isNegative a \<and> \<not> isNegative b \<and> sint a > sint (smax_word - b) \<longleftrightarrow> sadd_high a b"
    and "isNegative a \<and> isNegative b \<and> sint a < sint (smin_word - b) \<longleftrightarrow> sadd_low a b"
    and "\<not> isNegative a \<and> isNegative b \<and> sint a > sint (smax_word + b) \<longleftrightarrow> ssub_high a b"
    and "isNegative a \<and> \<not> isNegative b \<and> sint a < sint (smin_word + b) \<longleftrightarrow> ssub_low a b"
proof -
  note bounds = sint_bounds [of a] sint_bounds [of b]
  have small: "sint (smin_word :: 'a word) < 0" "0 \<le> sint (smax_word :: 'a word)"
    "sint (smin_word :: 'a word) + sint (smax_word :: 'a word) = - 1" by (simp_all add: sint_smin sint_smax)
  show "\<not> isNegative a \<and> \<not> isNegative b \<and> sint a > sint (smax_word - b) \<longleftrightarrow> sadd_high a b"
    using bounds small sint_of_small(2) [of smax_word b] unfolding isNegative_sint sadd_high_def by linarith
  show "isNegative a \<and> isNegative b \<and> sint a < sint (smin_word - b) \<longleftrightarrow> sadd_low a b"
    using bounds small sint_of_small(2) [of smin_word b] unfolding isNegative_sint sadd_low_def by linarith
  show "\<not> isNegative a \<and> isNegative b \<and> sint a > sint (smax_word + b) \<longleftrightarrow> ssub_high a b"
    using bounds small sint_of_small(1) [of smax_word b] unfolding isNegative_sint ssub_high_def by linarith
  show "isNegative a \<and> \<not> isNegative b \<and> sint a < sint (smin_word + b) \<longleftrightarrow> ssub_low a b"
    using bounds small sint_of_small(1) [of smin_word b] unfolding isNegative_sint ssub_low_def by linarith
qed

definition unsigned_add_overflows :: "'a::len word \<Rightarrow> 'a word \<Rightarrow> bool" where
  "unsigned_add_overflows a b = (unat a + unat b \<ge> 2 ^ LENGTH('a))"

definition unsigned_mul_overflows :: "'a::len word \<Rightarrow> 'a word \<Rightarrow> bool" where
  "unsigned_mul_overflows a b = (unat a * unat b \<ge> 2 ^ LENGTH('a))"

lemma unsigned_add_test: "a > NOT b \<longleftrightarrow> unsigned_add_overflows a (b :: 'a::len word)"
proof -
  have "unat (NOT b) = 2 ^ LENGTH('a) - 1 - unat b"
    using unat_sub [of b "- 1"] word_max(1) [of b]
    by (simp only: minus_diff_commute [symmetric] not_eq_complement)
      (simp add: unsigned_minus_1_eq_mask mask_eq_exp_minus_1 algebra_simps)
  moreover have "unat b < 2 ^ LENGTH('a)" by simp
  ultimately show ?thesis unfolding word_less_nat_alt unsigned_add_overflows_def by linarith
qed

lemmas extremes = unsigned_attained signed_attained

lemma unat_bounds:
  assumes "contains R v"
  shows "unat (getUnsignedMin R) \<le> unat v" "unat v \<le> unat (getUnsignedMax R)"
  using unsigned_bounds [OF assms] by (simp_all add: word_le_nat_alt)

interpretation uadd: extreme_pairs unsigned_add_overflows "\<lambda>_ _. False"
  getUnsignedMin getUnsignedMin getUnsignedMax getUnsignedMax getUnsignedMin getUnsignedMin
proof unfold_locales
  fix R S :: "'a::len word crange" and a b :: "'a word"
  assume "contains R a" "contains S b"
  from unat_bounds [OF this(1)] unat_bounds [OF this(2)]
  show "(unsigned_add_overflows (getUnsignedMin R) (getUnsignedMin S) \<longrightarrow> unsigned_add_overflows a b) \<and>
     (unsigned_add_overflows a b \<longrightarrow> unsigned_add_overflows (getUnsignedMax R) (getUnsignedMax S))"
    unfolding unsigned_add_overflows_def by linarith
qed (auto intro: extremes)

interpretation usub: extreme_pairs "(<)" "\<lambda>_ _. False"
  getUnsignedMax getUnsignedMin getUnsignedMin getUnsignedMax getUnsignedMin getUnsignedMin
proof unfold_locales
  fix R S :: "'a::len word crange" and a b :: "'a word"
  assume "contains R a" "contains S b"
  from unsigned_bounds [OF this(1)] unsigned_bounds [OF this(2)]
  show "(getUnsignedMax R < getUnsignedMin S \<longrightarrow> a < b) \<and> (a < b \<longrightarrow> getUnsignedMin R < getUnsignedMax S)"
    by (meson le_less_trans less_le_trans)
qed (auto intro: extremes)

interpretation umul: extreme_pairs unsigned_mul_overflows "\<lambda>_ _. False"
  getUnsignedMin getUnsignedMin getUnsignedMax getUnsignedMax getUnsignedMin getUnsignedMin
proof unfold_locales
  fix R S :: "'a::len word crange" and a b :: "'a word"
  assume "contains R a" "contains S b"
  note le = mult_le_mono [OF unat_bounds(1) [OF this(1)] unat_bounds(1) [OF this(2)]]
    mult_le_mono [OF unat_bounds(2) [OF this(1)] unat_bounds(2) [OF this(2)]]
  then show "(unsigned_mul_overflows (getUnsignedMin R) (getUnsignedMin S) \<longrightarrow> unsigned_mul_overflows a b) \<and>
     (unsigned_mul_overflows a b \<longrightarrow> unsigned_mul_overflows (getUnsignedMax R) (getUnsignedMax S))"
    unfolding unsigned_mul_overflows_def by linarith
qed (auto intro: extremes)

interpretation sadd: extreme_pairs sadd_high sadd_low getSignedMin getSignedMin getSignedMax getSignedMax getSignedMin getSignedMax
proof unfold_locales
  fix R S :: "'a::len word crange" and a b :: "'a word"
  assume "contains R a" "contains S b"
  note le = signed_bounds [OF this(1)] signed_bounds [OF this(2)]
  show "(sadd_high (getSignedMin R) (getSignedMin S) \<longrightarrow> sadd_high a b) \<and> (sadd_high a b \<longrightarrow> sadd_high (getSignedMax R) (getSignedMax S))"
    using le unfolding sadd_high_def by linarith
  show "(sadd_low (getSignedMax R) (getSignedMax S) \<longrightarrow> sadd_low a b) \<and> (sadd_low a b \<longrightarrow> sadd_low (getSignedMin R) (getSignedMin S))"
    using le unfolding sadd_low_def by linarith
next
  fix R S :: "'a::len word crange"
  assume "sadd_low (getSignedMin R) (getSignedMin S)" "sadd_high (getSignedMax R) (getSignedMax S)"
  then have "isNegative (getSignedMin R)" "\<not> isNegative (getSignedMax S)"
    by (simp_all add: overflow_tests(1,2) [symmetric])
  then show "\<not> sadd_high (getSignedMin R) (getSignedMax S) \<and> \<not> sadd_low (getSignedMin R) (getSignedMax S)"
    by (simp add: overflow_tests(1,2) [symmetric])
qed (auto intro: extremes)

interpretation ssub: extreme_pairs ssub_high ssub_low getSignedMin getSignedMax getSignedMax getSignedMin getSignedMin getSignedMin
proof unfold_locales
  fix R S :: "'a::len word crange" and a b :: "'a word"
  assume "contains R a" "contains S b"
  note le = signed_bounds [OF this(1)] signed_bounds [OF this(2)]
  show "(ssub_high (getSignedMin R) (getSignedMax S) \<longrightarrow> ssub_high a b) \<and> (ssub_high a b \<longrightarrow> ssub_high (getSignedMax R) (getSignedMin S))"
    using le unfolding ssub_high_def by linarith
  show "(ssub_low (getSignedMax R) (getSignedMin S) \<longrightarrow> ssub_low a b) \<and> (ssub_low a b \<longrightarrow> ssub_low (getSignedMin R) (getSignedMax S))"
    using le unfolding ssub_low_def by linarith
next
  fix R S :: "'a::len word crange"
  assume "ssub_low (getSignedMin R) (getSignedMax S)" "ssub_high (getSignedMax R) (getSignedMin S)"
  then have "isNegative (getSignedMin R)" "isNegative (getSignedMin S)"
    by (simp_all add: overflow_tests(3,4) [symmetric])
  then show "\<not> ssub_high (getSignedMin R) (getSignedMin S) \<and> \<not> ssub_low (getSignedMin R) (getSignedMin S)"
    by (simp add: overflow_tests(3,4) [symmetric])
qed (auto intro: extremes)

lemma may_overflow_exact:
  assumes "wf_range R" "wf_range S"
  shows "overflow_exact unsigned_add_overflows R S (unsignedAddMayOverflow R S)"
    and "overflow_exact (<) R S (unsignedSubMayOverflow R S)"
    and "overflow_exact unsigned_mul_overflows R S (unsignedMulMayOverflow R S)"
    and "overflow_exact (\<lambda>a b. sadd_high a b \<or> sadd_low a b) R S (signedAddMayOverflow R S)"
    and "overflow_exact (\<lambda>a b. ssub_high a b \<or> ssub_low a b) R S (signedSubMayOverflow R S)"
  using uadd.exact [OF assms] usub.exact [OF assms] umul.exact [OF assms] sadd.exact [OF assms] ssub.exact [OF assms]
  by (simp_all only: unsignedAddMayOverflow_def unsigned_add_test unsignedSubMayOverflow_def unsignedMulMayOverflow_def
      umul_ov_correct snd_conv unsigned_mul_overflows_def [symmetric] signedAddMayOverflow_def signedSubMayOverflow_def
      Let_def overflow_tests if_False simp_thms)

end
