(* ===== verification/RangeNoWrap.thy ===== *)
theory RangeNoWrap
  imports RangeOverflow
begin

text \<open>
  The values for which an addition, subtraction or multiplication by any element of a range cannot wrap around
  (\<^verbatim>\<open>makeGuaranteedNoWrapRegion\<close>), and the addition of a constant that does not.
\<close>

section \<open>The regions\<close>

datatype no_wrap_kind = NoUnsignedWrap | NoSignedWrap

definition bind_outcome :: "'a outcome \<Rightarrow> ('a \<Rightarrow> 'b outcome) \<Rightarrow> 'b outcome" where
  "bind_outcome m f = (case m of Done x \<Rightarrow> f x | Crash \<Rightarrow> Crash | OutOfFuel \<Rightarrow> OutOfFuel)"

definition SubsetIntersect :: "'a::len word crange \<Rightarrow> 'a word crange \<Rightarrow> 'a word crange outcome" where
  "SubsetIntersect R S = map_outcome inverse_range (unionWith_range (inverse_range R) (inverse_range S) Smallest)"

definition nsw_add_region :: "'a::len word crange \<Rightarrow> 'a word crange outcome" where
  "nsw_add_region S =
     bind_outcome
      (if isStrictlyPositive (getSignedMax S)
       then SubsetIntersect full_range (make_range smin_word (smin_word - getSignedMax S)) else Done full_range)
      (\<lambda>Result. if isNegative (getSignedMin S)
       then SubsetIntersect Result (make_range (smin_word - getSignedMin S) smin_word) else Done Result)"

definition nsw_sub_region :: "'a::len word crange \<Rightarrow> 'a word crange outcome" where
  "nsw_sub_region S =
     bind_outcome
      (if isStrictlyPositive (getSignedMax S)
       then SubsetIntersect full_range (make_range (smin_word + getSignedMax S) smin_word) else Done full_range)
      (\<lambda>Result. if isNegative (getSignedMin S)
       then SubsetIntersect Result (make_range smin_word (smin_word + getSignedMin S)) else Done Result)"

definition makeSingleValueRegion :: "no_wrap_kind \<Rightarrow> 'a::len word \<Rightarrow> 'a word crange" where
  "makeSingleValueRegion k V =
     (if V = 0 \<or> V = 1 then full_range
      else if k = NoSignedWrap \<and> V = - 1 then make_range (- smax_word) smin_word
      else if k = NoSignedWrap \<and> isNegative V
      then make_range (RoundingSDiv smax_word V UP) (RoundingSDiv smin_word V DOWN + 1)
      else if k = NoUnsignedWrap then make_range (RoundingUDiv 0 V UP) (RoundingUDiv (- 1) V DOWN + 1)
      else make_range (RoundingSDiv smin_word V UP) (RoundingSDiv smax_word V DOWN + 1))"

definition makeGuaranteedNoWrapRegion :: "binary_op \<Rightarrow> 'a::len word crange \<Rightarrow> no_wrap_kind \<Rightarrow> 'a word crange outcome" where
  "makeGuaranteedNoWrapRegion b S k = (case b of
       BAdd \<Rightarrow> if getSingleElement S = Some 0 then Done full_range
         else if k = NoUnsignedWrap then Done (make_range 0 (- getUnsignedMax S))
         else nsw_add_region S
     | BSub \<Rightarrow> if getSingleElement S = Some 0 then Done full_range
         else if k = NoUnsignedWrap then Done (make_range (getUnsignedMax S) 0)
         else nsw_sub_region S
     | BMul \<Rightarrow> if k = NoUnsignedWrap then Done (makeSingleValueRegion k (getUnsignedMax S))
         else SubsetIntersect (makeSingleValueRegion k (getSignedMin S)) (makeSingleValueRegion k (getSignedMax S))
     | _ \<Rightarrow> Done empty_range)"

definition addWithNoSignedWrap :: "'a::len word crange \<Rightarrow> 'a word \<Rightarrow> 'a word crange outcome" where
  "addWithNoSignedWrap R c =
     bind_outcome (makeGuaranteedNoWrapRegion BAdd (single_range c) NoSignedWrap)
      (\<lambda>N. Done (range_add (intersectWith R N Smallest) (single_range c)))"

section \<open>What wraps\<close>

definition smul_overflows :: "'a::len word \<Rightarrow> 'a word \<Rightarrow> bool" where
  "smul_overflows a b = (sint a * sint b < sint (smin_word :: 'a word) \<or> sint a * sint b > sint (smax_word :: 'a word))"

definition wraps :: "binary_op \<Rightarrow> no_wrap_kind \<Rightarrow> 'a::len word \<Rightarrow> 'a word \<Rightarrow> bool" where
  "wraps b k x y = (case (b, k) of
       (BAdd, NoUnsignedWrap) \<Rightarrow> unsigned_add_overflows x y
     | (BAdd, NoSignedWrap) \<Rightarrow> sadd_high x y \<or> sadd_low x y
     | (BSub, NoUnsignedWrap) \<Rightarrow> x < y
     | (BSub, NoSignedWrap) \<Rightarrow> ssub_high x y \<or> ssub_low x y
     | (BMul, NoUnsignedWrap) \<Rightarrow> unsigned_mul_overflows x y
     | (BMul, NoSignedWrap) \<Rightarrow> smul_overflows x y
     | _ \<Rightarrow> True)"

section \<open>Addition and subtraction\<close>

lemma SubsetIntersect_sound:
  assumes "wf_range R" "wf_range S"
  shows "\<exists>T. SubsetIntersect R S = Done T \<and> wf_range T \<and> (\<forall>v. contains T v \<longrightarrow> contains R v \<and> contains S v)"
proof -
  obtain U where U: "unionWith_range (inverse_range R) (inverse_range S) Smallest = Done U"
    "covers_either (inverse_range R) (inverse_range S) U"
    using union_covers [OF inverse_wf [OF assms(1)] inverse_wf [OF assms(2)]] by blast
  then have "wf_range U" "\<And>v. contains (inverse_range R) v \<or> contains (inverse_range S) v \<Longrightarrow> contains U v"
    by (auto simp: covers_either_def)
  with U(1) show ?thesis
    by (auto simp: SubsetIntersect_def inverse_wf inverse_contains assms)
qed

lemma inverse_twice: "wf_range S \<Longrightarrow> inverse_range (inverse_range S) = S"
  by (rule range_unique) (simp_all add: inverse_wf inverse_contains)

lemma SubsetIntersect_full:
  assumes S: "wf_range (S :: 'a::len word crange)"
  shows "SubsetIntersect full_range S = Done S"
proof -
  have "inverse_range full_range = (empty_range :: 'a word crange)" by (simp add: inverse_range_def full_iff)
  moreover have "unionWith_range empty_range T Smallest = Done T" for T :: "'a word crange"
    by (subst unionWith_range.simps) (simp add: empty_iff full_iff full_not_empty(1) [THEN not_sym])
  ultimately show ?thesis by (simp add: SubsetIntersect_def inverse_twice [OF S])
qed

text \<open>The signed limits, one above and one below zero.\<close>

lemma signed_limits:
  fixes m :: "'a::len word"
  shows "isStrictlyPositive m \<Longrightarrow> contains (make_range smin_word (smin_word - m)) x \<longleftrightarrow> \<not> sadd_high x m"
    and "isNegative m \<Longrightarrow> contains (make_range (smin_word - m) smin_word) x \<longleftrightarrow> \<not> sadd_low x m"
    and "isStrictlyPositive m \<Longrightarrow> contains (make_range (smin_word + m) smin_word) x \<longleftrightarrow> \<not> ssub_low x m"
    and "isNegative m \<Longrightarrow> contains (make_range smin_word (smin_word + m)) x \<longleftrightarrow> \<not> ssub_high x m"
proof -
  note m = sint_bounds [of m]
  have lim: "sint (smin_word :: 'a word) < 0" "0 \<le> sint (smax_word :: 'a word)"
    "sint (smin_word :: 'a word) + sint (smax_word :: 'a word) = - 1" by (simp_all add: sint_smin sint_smax)
  have up: "contains (make_range smin_word (h + 1)) x \<longleftrightarrow> sint x \<le> sint h" if "h \<noteq> smax_word" for h :: "'a word"
    using signed_below_region [of "h + 1" x] signed_plus_1(1) [OF that] plus_1_smin [of h] that by simp
  have down: "contains (make_range l smin_word) x \<longleftrightarrow> sint l \<le> sint x" if "l \<noteq> smin_word" for l :: "'a word"
    by (rule signed_above_region [OF that])
  have ne: "m \<noteq> 0" if "isStrictlyPositive m \<or> isNegative m" using that by (auto simp: isStrictlyPositive_def isNegative_sint)
  have pos: "0 < sint m" if "isStrictlyPositive m"
  proof -
    have "sint m \<noteq> sint (0 :: 'a word)" using that ne by (metis signed_word_eqI)
    then have "sint m \<noteq> 0" by simp
    with that show ?thesis unfolding isStrictlyPositive_def isNegative_sint by linarith
  qed
  show "contains (make_range smin_word (smin_word - m)) x \<longleftrightarrow> \<not> sadd_high x m" if "isStrictlyPositive m"
  proof -
    have e: "smin_word - m = (smax_word - m) + 1" by (simp add: smax_word_def)
    have v: "sint (smax_word - m) = sint (smax_word :: 'a word) - sint m"
      using m lim pos [OF that] by (intro sint_of_small(2)) linarith+
    have n: "smax_word - m \<noteq> smax_word" using ne that by simp
    show ?thesis unfolding e up [OF n] sadd_high_def v by linarith
  qed
  show "contains (make_range smin_word (smin_word + m)) x \<longleftrightarrow> \<not> ssub_high x m" if "isNegative m"
  proof -
    have e: "smin_word + m = (smax_word + m) + 1" by (simp add: smax_word_def)
    have v: "sint (smax_word + m) = sint (smax_word :: 'a word) + sint m"
      using m lim that by (intro sint_of_small(1)) (unfold isNegative_sint, linarith+)
    have n: "smax_word + m \<noteq> smax_word" using ne that by simp
    show ?thesis unfolding e up [OF n] ssub_high_def v by linarith
  qed
  show "contains (make_range (smin_word - m) smin_word) x \<longleftrightarrow> \<not> sadd_low x m" if "isNegative m"
  proof -
    have v: "sint (smin_word - m) = sint (smin_word :: 'a word) - sint m"
      using m lim that by (intro sint_of_small(2)) (unfold isNegative_sint, linarith+)
    have n: "smin_word - m \<noteq> smin_word" using ne that by simp
    show ?thesis unfolding down [OF n] sadd_low_def v by linarith
  qed
  show "contains (make_range (smin_word + m) smin_word) x \<longleftrightarrow> \<not> ssub_low x m" if "isStrictlyPositive m"
  proof -
    have v: "sint (smin_word + m) = sint (smin_word :: 'a word) + sint m"
      using m lim pos [OF that] by (intro sint_of_small(1)) linarith+
    have n: "smin_word + m \<noteq> smin_word" using ne that by simp
    show ?thesis unfolding down [OF n] ssub_low_def v by linarith
  qed
qed

lemma limits_wf:
  fixes m :: "'a::len word"
  assumes "isStrictlyPositive m \<or> isNegative m"
  shows "wf_range (make_range smin_word (smin_word - m))" "wf_range (make_range (smin_word - m) smin_word)"
    "wf_range (make_range smin_word (smin_word + m))" "wf_range (make_range (smin_word + m) smin_word)"
proof -
  have "m \<noteq> 0" using assms by (auto simp: isStrictlyPositive_def isNegative_sint)
  then show "wf_range (make_range smin_word (smin_word - m))" "wf_range (make_range (smin_word - m) smin_word)"
    "wf_range (make_range smin_word (smin_word + m))" "wf_range (make_range (smin_word + m) smin_word)"
    by (auto intro!: wf_make)
qed

text \<open>
  Both regions have this shape: a limit that counts when the greatest element is positive, met by one that counts when
  the least element is negative.
\<close>

lemma two_limits:
  assumes wf: "P \<Longrightarrow> wf_range A" "N \<Longrightarrow> wf_range B"
  shows "\<exists>T. bind_outcome (if P then SubsetIntersect full_range A else Done full_range)
       (\<lambda>Result. if N then SubsetIntersect Result B else Done Result) = Done T
     \<and> wf_range T \<and> (\<forall>v. contains T v \<longrightarrow> (P \<longrightarrow> contains A v) \<and> (N \<longrightarrow> contains B v))
     \<and> (\<not> (P \<and> N) \<longrightarrow> (\<forall>v. (P \<longrightarrow> contains A v) \<and> (N \<longrightarrow> contains B v) \<longrightarrow> contains T v))"
proof (cases P)
  case True
  with SubsetIntersect_full [OF wf(1)] SubsetIntersect_sound [OF wf(1) wf(2)] wf show ?thesis
    by (cases N) (auto simp: bind_outcome_def)
next
  case False
  with SubsetIntersect_full [OF wf(2)] wf(2) show ?thesis by (cases N) (auto simp: bind_outcome_def)
qed

lemma not_positive_or_negative:
  assumes "contains S y"
  shows "\<not> isStrictlyPositive (getSignedMax S) \<Longrightarrow> sint y \<le> 0" "\<not> isNegative (getSignedMin S) \<Longrightarrow> 0 \<le> sint y"
  using signed_bounds [OF assms] by (auto simp: isStrictlyPositive_def isNegative_sint)

lemma nsw_add_sound:
  shows "\<exists>T. nsw_add_region S = Done T \<and> wf_range T \<and> (\<forall>x y. contains T x \<and> contains S y \<longrightarrow> \<not> sadd_high x y \<and> \<not> sadd_low x y)"
proof -
  let ?P = "isStrictlyPositive (getSignedMax S)" and ?N = "isNegative (getSignedMin S)"
  obtain T where T: "nsw_add_region S = Done T" "wf_range T"
    "\<And>v. contains T v \<Longrightarrow> (?P \<longrightarrow> \<not> sadd_high v (getSignedMax S)) \<and> (?N \<longrightarrow> \<not> sadd_low v (getSignedMin S))"
    using two_limits [OF limits_wf(1) [OF disjI1] limits_wf(2) [OF disjI2], of ?P "getSignedMax S" ?N "getSignedMin S"]
    by (auto simp: nsw_add_region_def signed_limits)
  have "\<not> sadd_high x y \<and> \<not> sadd_low x y" if "contains T x" "contains S y" for x y
    using T(3) [OF that(1)] signed_bounds [OF that(2)] not_positive_or_negative [OF that(2)] sint_bounds [of x]
    unfolding sadd_high_def sadd_low_def by linarith
  with T(1,2) show ?thesis by blast
qed

lemma nsw_sub_sound:
  shows "\<exists>T. nsw_sub_region S = Done T \<and> wf_range T \<and> (\<forall>x y. contains T x \<and> contains S y \<longrightarrow> \<not> ssub_high x y \<and> \<not> ssub_low x y)"
proof -
  let ?P = "isStrictlyPositive (getSignedMax S)" and ?N = "isNegative (getSignedMin S)"
  obtain T where T: "nsw_sub_region S = Done T" "wf_range T"
    "\<And>v. contains T v \<Longrightarrow> (?P \<longrightarrow> \<not> ssub_low v (getSignedMax S)) \<and> (?N \<longrightarrow> \<not> ssub_high v (getSignedMin S))"
    using two_limits [OF limits_wf(4) [OF disjI1] limits_wf(3) [OF disjI2], of ?P "getSignedMax S" ?N "getSignedMin S"]
    by (auto simp: nsw_sub_region_def signed_limits)
  have "\<not> ssub_high x y \<and> \<not> ssub_low x y" if "contains T x" "contains S y" for x y
    using T(3) [OF that(1)] signed_bounds [OF that(2)] not_positive_or_negative [OF that(2)] sint_bounds [of x]
    unfolding ssub_high_def ssub_low_def by linarith
  with T(1,2) show ?thesis by blast
qed

text \<open>Against a single value the region of the addition is exact.\<close>

lemma nsw_add_single:
  "\<exists>T. nsw_add_region (single_range c) = Done T \<and> wf_range T
     \<and> (\<forall>x. contains T x \<longleftrightarrow> \<not> sadd_high x c \<and> \<not> sadd_low x (c :: 'a::len word))"
proof -
  have c: "contains (single_range c) c" by (simp add: single_element)
  have "contains (single_range c) (getSignedMax (single_range c))" "contains (single_range c) (getSignedMin (single_range c))"
    by (rule signed_attained(2) [OF c], rule signed_attained(1) [OF c])
  then have ext: "getSignedMax (single_range c) = c" "getSignedMin (single_range c) = c" by (simp_all add: single_element)
  have one: "\<not> (isStrictlyPositive c \<and> isNegative c)" by (auto simp: isStrictlyPositive_def)
  obtain T where T: "nsw_add_region (single_range c) = Done T" "wf_range T"
    "\<And>v. contains T v \<longleftrightarrow> (isStrictlyPositive c \<longrightarrow> \<not> sadd_high v c) \<and> (isNegative c \<longrightarrow> \<not> sadd_low v c)"
    using two_limits [OF limits_wf(1) [OF disjI1] limits_wf(2) [OF disjI2], of "isStrictlyPositive c" c "isNegative c" c] one
    unfolding nsw_add_region_def ext by (metis signed_limits(1,2))
  have "(isStrictlyPositive c \<longrightarrow> \<not> sadd_high x c) \<and> (isNegative c \<longrightarrow> \<not> sadd_low x c) \<longleftrightarrow> \<not> sadd_high x c \<and> \<not> sadd_low x c" for x
    using not_positive_or_negative [OF c] sint_bounds [of x] unfolding ext sadd_high_def sadd_low_def by linarith
  with T show ?thesis by blast
qed

section \<open>Rounding division\<close>

text \<open>\<open>sdivrem\<close> divides the magnitudes; only the least value by \<open>- 1\<close> has no quotient of the same width.\<close>

definition magnitude :: "'a::len word \<Rightarrow> 'a word" where
  "magnitude x = (if isNegative x then - x else x)"

lemma isNegative_uint: "isNegative (x :: 'a::len word) \<longleftrightarrow> 2 ^ (LENGTH('a) - 1) \<le> uint x"
proof -
  have "2 ^ (LENGTH('a) - 1) \<le> unat x \<longleftrightarrow> int (2 ^ (LENGTH('a) - 1)) \<le> int (unat x)" by (simp only: of_nat_le_iff)
  then show ?thesis by (simp add: isNegative_unat)
qed

lemma two_halves: "(2::int) ^ LENGTH('a::len) = 2 * 2 ^ (LENGTH('a) - 1)"
  by (simp flip: power_Suc)

lemma sint_of_uint:
  fixes q :: "'a::len word"
  shows "uint q < 2 ^ (LENGTH('a) - 1) \<Longrightarrow> sint q = uint q"
    and "isNegative q \<Longrightarrow> sint q = uint q - 2 ^ LENGTH('a)"
proof -
  have b: "sint q = uint (q + smin_word) - 2 ^ (LENGTH('a) - 1)" using uint_bias [of q] by simp
  have "uint (q + smin_word) = (uint q + 2 ^ (LENGTH('a) - 1)) mod 2 ^ LENGTH('a)" by (simp add: uint_word_ariths uint_smin)
  note b = b [unfolded this]
  show "sint q = uint q" if "uint q < 2 ^ (LENGTH('a) - 1)"
  proof -
    have "(uint q + 2 ^ (LENGTH('a) - 1)) mod 2 ^ LENGTH('a) = uint q + 2 ^ (LENGTH('a) - 1)"
      using that uint_nonnegative [of q] by (intro mod_pos_pos_trivial) (simp_all add: two_halves)
    then show ?thesis unfolding b by simp
  qed
  show "sint q = uint q - 2 ^ LENGTH('a)" if "isNegative q"
  proof -
    have "uint q < 2 ^ LENGTH('a)" "2 ^ (LENGTH('a) - 1) \<le> uint q" using that by (simp_all add: isNegative_uint)
    then have "(uint q - 2 ^ (LENGTH('a) - 1)) mod 2 ^ LENGTH('a) = uint q - 2 ^ (LENGTH('a) - 1)"
      by (intro mod_pos_pos_trivial) (simp_all add: two_halves)
    moreover have "uint q + 2 ^ (LENGTH('a) - 1) = (uint q - 2 ^ (LENGTH('a) - 1)) + 2 ^ LENGTH('a)" by (simp add: two_halves)
    ultimately have "(uint q + 2 ^ (LENGTH('a) - 1)) mod 2 ^ LENGTH('a) = uint q - 2 ^ (LENGTH('a) - 1)"
      by (simp only: mod_add_self2)
    then show ?thesis unfolding b two_halves by linarith
  qed
qed

lemma uint_uminus: "q \<noteq> 0 \<Longrightarrow> uint (- q) = 2 ^ LENGTH('a) - uint (q :: 'a::len word)"
proof -
  assume "q \<noteq> 0"
  then have "uint q \<noteq> 0" using uint_0_iff [of q] by blast
  then have "(- uint q) mod 2 ^ LENGTH('a) = 2 ^ LENGTH('a) - uint q" by (simp add: zmod_zminus1_eq_if)
  then show ?thesis by (simp add: uint_word_ariths)
qed

lemma sint_uminus_uint:
  fixes q :: "'a::len word"
  assumes "uint q \<le> 2 ^ (LENGTH('a) - 1)"
  shows "sint (- q) = - uint q"
proof (cases "q = 0")
  case False
  then have "isNegative (- q)" using assms by (simp add: isNegative_uint uint_uminus two_halves)
  with False show ?thesis by (simp add: sint_of_uint(2) uint_uminus)
qed simp

lemma uint_magnitude: "uint (magnitude x) = \<bar>sint (x :: 'a::len word)\<bar>"
proof (cases "isNegative x")
  case True
  then have "x \<noteq> 0" "sint x < 0" by (auto simp: isNegative_sint)
  with True sint_of_uint(2) [OF True] show ?thesis by (simp add: magnitude_def uint_uminus abs_if)
next
  case False
  with sint_of_uint(1) [of x] show ?thesis by (simp add: magnitude_def isNegative_uint)
qed

lemma sdivrem_magnitude:
  "sdivrem x y = (if isNegative x = isNegative y then magnitude x div magnitude y else - (magnitude x div magnitude y),
     if isNegative x then - (magnitude x mod magnitude y) else magnitude x mod magnitude y)"
  by (simp add: sdivrem_def magnitude_def)

lemma sint_eq_0: "sint x = 0 \<longleftrightarrow> x = 0"
  by (metis signed_0 signed_word_eqI)

lemma sdivrem_correct:
  fixes x y :: "'a::len word"
  assumes "y \<noteq> 0" "\<not> (x = smin_word \<and> y = - 1)"
  defines "Q \<equiv> \<bar>sint x\<bar> div \<bar>sint y\<bar>" and "R \<equiv> \<bar>sint x\<bar> mod \<bar>sint y\<bar>"
  shows "sint (fst (sdivrem x y)) = (if isNegative x = isNegative y then Q else - Q)"
    and "sint (snd (sdivrem x y)) = (if isNegative x then - R else R)"
proof -
  let ?h = "2 ^ (LENGTH('a) - 1) :: int"
  have y: "0 < \<bar>sint y\<bar>" using assms(1) by (simp add: sint_eq_0)
  have bound: "\<bar>sint v\<bar> \<le> ?h" for v :: "'a word" using sint_greater_eq [of v] sint_less [of v] by simp
  have q: "uint (magnitude x div magnitude y) = Q" and r: "uint (magnitude x mod magnitude y) = R"
    by (simp_all add: uint_div uint_mod uint_magnitude Q_def R_def)
  have "R < \<bar>sint y\<bar>" unfolding R_def using y by simp
  with bound [of y] have "R < ?h" by linarith
  then show "sint (snd (sdivrem x y)) = (if isNegative x then - R else R)"
    by (simp add: sdivrem_magnitude r sint_of_uint(1) sint_uminus_uint)
  have Qx: "Q \<le> \<bar>sint x\<bar>" unfolding Q_def using y zdiv_mono2 [of "\<bar>sint x\<bar>" 1 "\<bar>sint y\<bar>"] by simp
  with bound [of x] have le: "Q \<le> ?h" by linarith
  have less: "Q < ?h" if same: "isNegative x = isNegative y"
  proof (rule ccontr)
    assume "\<not> Q < ?h"
    then have x: "\<bar>sint x\<bar> = ?h" "Q = \<bar>sint x\<bar>" using le Qx bound [of x] by linarith+
    then have "isNegative x" using sint_less [of x] by (simp add: isNegative_sint abs_if split: if_splits)
    then have "sint x = sint (smin_word :: 'a word)" "sint y < 0" using x same by (simp_all add: isNegative_sint sint_smin)
    then have min: "x = smin_word" by (metis signed_word_eqI)
    have "\<bar>sint y\<bar> = 1"
    proof (rule ccontr)
      assume "\<bar>sint y\<bar> \<noteq> 1"
      then have "Q < \<bar>sint x\<bar>" unfolding Q_def using y x(1) by (intro int_div_less_self) simp_all
      with x show False by simp
    qed
    with \<open>sint y < 0\<close> have "sint y = sint (- 1 :: 'a word)" by simp
    then have "y = - 1" by (metis signed_word_eqI)
    with min assms(2) show False by simp
  qed
  from le less show "sint (fst (sdivrem x y)) = (if isNegative x = isNegative y then Q else - Q)"
    by (simp add: sdivrem_magnitude q sint_of_uint(1) sint_uminus_uint)
qed

lemma div_by_magnitude:
  fixes X Y :: int
  assumes "Y \<noteq> 0"
  shows "X div Y = (if (X < 0) = (Y < 0) then \<bar>X\<bar> div \<bar>Y\<bar>
    else if \<bar>X\<bar> mod \<bar>Y\<bar> = 0 then - (\<bar>X\<bar> div \<bar>Y\<bar>) else - (\<bar>X\<bar> div \<bar>Y\<bar>) - 1)"
proof (cases "X < 0")
  case True
  then show ?thesis using zdiv_zminus1_eq_if [of Y "- X"] assms by (cases "Y < 0") simp_all
next
  case False
  then show ?thesis using zdiv_zminus2_eq_if [of "- Y" X] assms by (cases "Y < 0") simp_all
qed

lemma RoundingSDiv_correct:
  fixes x y :: "'a::len word"
  assumes n: "1 < LENGTH('a)" and y: "y \<noteq> 0" "\<not> (x = smin_word \<and> y = - 1)"
  shows "sint (RoundingSDiv x y DOWN) = sint x div sint y" "sint (RoundingSDiv x y UP) = - ((- sint x) div sint y)"
proof -
  define Q R where "Q = \<bar>sint x\<bar> div \<bar>sint y\<bar>" and "R = \<bar>sint x\<bar> mod \<bar>sint y\<bar>"
  obtain q r where qr: "sdivrem x y = (q, r)" by (cases "sdivrem x y")
  have sq: "sint q = (if isNegative x = isNegative y then Q else - Q)" and sr: "sint r = (if isNegative x then - R else R)"
    using sdivrem_correct [OF y] by (simp_all add: qr Q_def R_def)
  have Y: "sint y \<noteq> 0" "0 < \<bar>sint y\<bar>" using y(1) by (simp_all add: sint_eq_0)
  then have R: "0 \<le> R" "R < \<bar>sint y\<bar>" "0 \<le> Q" and X: "\<bar>sint x\<bar> = Q * \<bar>sint y\<bar> + R"
    by (simp_all add: R_def Q_def pos_imp_zdiv_nonneg_iff)
  have r: "r = 0 \<longleftrightarrow> R = 0" "R \<noteq> 0 \<Longrightarrow> isNegative r \<longleftrightarrow> isNegative x"
    using sr R(1) sint_eq_0 [of r] by (auto simp: isNegative_sint split: if_splits)
  define k where "k = (2 :: int) ^ (LENGTH('a) - 2)"
  have "LENGTH('a) - 1 = Suc (LENGTH('a) - 2)" using n by simp
  then have h: "sint (smin_word :: 'a word) = - (2 * k)" "sint (smax_word :: 'a word) = 2 * k - 1" "0 < k"
    by (simp_all add: sint_smin sint_smax k_def)
  have one: "sint (1 :: 'a word) = 1" using n by simp
  have small: "2 * Q + 1 \<le> \<bar>sint x\<bar>" if "R \<noteq> 0"
  proof -
    have "2 \<le> \<bar>sint y\<bar>" using that R by linarith
    then have "Q * 2 \<le> Q * \<bar>sint y\<bar>" using R(3) by (rule mult_left_mono)
    then show ?thesis using X that R(1) by linarith
  qed
  then have range: "Q + 1 \<le> k" if "R \<noteq> 0" using that sint_bounds [of x] h by fastforce
  have step: "sint (q - 1) = sint q - 1" if "R \<noteq> 0"
    using sint_of_small(2) [of q 1, unfolded one] range [OF that] sq h R(3) by (simp split: if_splits)
  have step': "sint (q + 1) = sint q + 1" if "R \<noteq> 0"
    using sint_of_small(1) [of q 1, unfolded one] range [OF that] sq h R(3) by (simp split: if_splits)
  note Qs = Q_def [symmetric] R_def [symmetric] isNegative_sint
  show "sint (RoundingSDiv x y DOWN) = sint x div sint y"
    using r step sq by (simp add: RoundingSDiv_def qr div_by_magnitude [OF Y(1), of "sint x"] Qs)
  have d: "(- sint x) div sint y = (if (- sint x < 0) = (sint y < 0) then Q else if R = 0 then - Q else - Q - 1)"
    using div_by_magnitude [OF Y(1), of "- sint x"] by (simp only: abs_minus_cancel Q_def R_def)
  have "Q = 0" "R = 0" if "sint x = 0" using that by (simp_all add: Q_def R_def)
  then show "sint (RoundingSDiv x y UP) = - ((- sint x) div sint y)"
    using r step' sq by (auto simp: RoundingSDiv_def qr d isNegative_sint)
qed

section \<open>Multiplication\<close>

lemma quotient_limits:
  fixes X M V :: int
  shows "0 < V \<Longrightarrow> X \<le> M div V \<longleftrightarrow> X * V \<le> M" "0 < V \<Longrightarrow> - ((- M) div V) \<le> X \<longleftrightarrow> M \<le> X * V"
    and "V < 0 \<Longrightarrow> X \<le> M div V \<longleftrightarrow> M \<le> X * V" "V < 0 \<Longrightarrow> - ((- M) div V) \<le> X \<longleftrightarrow> X * V \<le> M"
proof -
  have pos: "Z \<le> N div W \<longleftrightarrow> Z * W \<le> N" if "0 < W" for Z N W :: int
  proof -
    have "Z * W \<le> N" if "Z \<le> N div W"
    proof -
      have "Z * W \<le> N div W * W" using that \<open>0 < W\<close> by (intro mult_right_mono) simp_all
      also have "\<dots> \<le> N" using div_mult_mod_eq [of N W] pos_mod_sign [OF \<open>0 < W\<close>, of N] by linarith
      finally show ?thesis .
    qed
    moreover have "Z \<le> N div W" if "Z * W \<le> N" using zdiv_mono1 [OF that \<open>0 < W\<close>] \<open>0 < W\<close> by simp
    ultimately show ?thesis by blast
  qed
  show "0 < V \<Longrightarrow> X \<le> M div V \<longleftrightarrow> X * V \<le> M" by (rule pos)
  show "0 < V \<Longrightarrow> - ((- M) div V) \<le> X \<longleftrightarrow> M \<le> X * V"
    using pos [of V "- X" "- M"] by simp linarith
  show "V < 0 \<Longrightarrow> X \<le> M div V \<longleftrightarrow> M \<le> X * V"
    using pos [of "- V" X "- M"] by simp
  show "V < 0 \<Longrightarrow> - ((- M) div V) \<le> X \<longleftrightarrow> X * V \<le> M"
    using pos [of "- V" "- X" M] div_minus_minus [of M "- V"] by simp linarith
qed

lemma signed_interval_make:
  assumes "sint l \<le> sint h" "l \<noteq> smin_word"
  shows "contains (make_range l (h + 1)) v \<longleftrightarrow> sint l \<le> sint v \<and> sint v \<le> sint h" "wf_range (make_range l (h + 1))"
  using signed_interval_iff [OF assms(1) signed_bounds_distinct [OF assms], of v] wf_make [OF signed_bounds_distinct [OF assms]]
  by (simp_all add: make_range_def)

text \<open>The region of a single factor is exact. A single bit has no signed one: there \<open>1\<close> is \<open>- 1\<close>.\<close>

lemma single_unsigned:
  fixes V :: "'a::len word"
  shows "wf_range (makeSingleValueRegion NoUnsignedWrap V)
    \<and> (contains (makeSingleValueRegion NoUnsignedWrap V) x \<longleftrightarrow> \<not> unsigned_mul_overflows x V)"
proof (cases "V = 0 \<or> V = 1")
  case True
  then show ?thesis by (auto simp: makeSingleValueRegion_def unsigned_mul_overflows_def linorder_not_le)
next
  case False
  define U where "U = - 1 div V"
  have m1: "unat (- 1 :: 'a word) = 2 ^ LENGTH('a) - 1" by (simp add: unsigned_minus_1_eq_mask mask_eq_exp_minus_1)
  have V: "1 < unat V" using False by (metis less_one linorder_neqE_nat unat_1 unat_0 word_unat_eq_iff)
  have "(1::nat) < 2 ^ LENGTH('a)" by (rule one_less_power) simp_all
  then have "unat U < unat (- 1 :: 'a word)" unfolding U_def unat_div m1 using V by (intro div_less_dividend) simp_all
  then have U: "U \<noteq> - 1" by auto
  then have wf: "wf_range (make_range 0 (U + 1))" by (intro wf_make zero_neq_plus)
  have "contains (make_range 0 (U + 1)) x \<longleftrightarrow> x \<le> U"
    using below_region [of "U + 1" x] less_plus_1_iff [OF U, of x] zero_neq_plus [OF U] by auto
  also have "\<dots> \<longleftrightarrow> unat x * unat V \<le> 2 ^ LENGTH('a) - 1"
    using V by (simp add: U_def word_le_nat_alt unat_div m1 less_eq_div_iff_mult_less_eq)
  also have "\<dots> \<longleftrightarrow> \<not> unsigned_mul_overflows x V"
    using \<open>1 < 2 ^ LENGTH('a)\<close> by (auto simp: unsigned_mul_overflows_def)
  finally show ?thesis using wf False by (simp add: makeSingleValueRegion_def RoundingUDiv_def U_def)
qed

lemma single_signed:
  fixes V :: "'a::len word"
  assumes n: "1 < LENGTH('a)"
  shows "wf_range (makeSingleValueRegion NoSignedWrap V)
    \<and> (contains (makeSingleValueRegion NoSignedWrap V) x \<longleftrightarrow> \<not> smul_overflows x V)"
proof -
  have one: "sint (1 :: 'a word) = 1" using n by simp
  have k: "sint (smin_word :: 'a word) \<le> - 2" "sint (smax_word :: 'a word) = - sint (smin_word :: 'a word) - 1"
    using n self_le_power [of "2::int" "LENGTH('a) - 1"] by (simp_all add: sint_smin sint_smax)
  note x = sint_bounds [of x]
  consider (unit) "V = 0 \<or> V = 1" | (minus) "\<not> (V = 0 \<or> V = 1)" "V = - 1"
    | (neg) "\<not> (V = 0 \<or> V = 1)" "V \<noteq> - 1" "isNegative V" | (pos) "\<not> (V = 0 \<or> V = 1)" "V \<noteq> - 1" "\<not> isNegative V" by blast
  then show ?thesis
  proof cases
    case unit
    then have "sint V = 0 \<or> sint V = 1" using one by auto
    with unit x k show ?thesis by (auto simp: makeSingleValueRegion_def smul_overflows_def)
  next
    case minus
    have s: "sint (- smax_word :: 'a word) = - sint (smax_word :: 'a word)"
      using sint_of_small(2) [of 0 "smax_word :: 'a word"] k by simp
    then have ne: "- smax_word \<noteq> (smin_word :: 'a word)" using k by auto
    have "contains (make_range (- smax_word) smin_word) x \<longleftrightarrow> \<not> smul_overflows x V"
      unfolding signed_above_region [OF ne] smul_overflows_def minus(2) s using x k by auto
    with wf_make [OF ne] minus show ?thesis by (simp add: makeSingleValueRegion_def)
  next
    case neg
    have V: "sint V < - 1"
    proof -
      have "sint V \<noteq> sint (- 1 :: 'a word)" using neg(2) by (metis signed_word_eqI)
      then show ?thesis using neg(3) by (simp add: isNegative_sint)
    qed
    let ?l = "RoundingSDiv smax_word V UP" and ?h = "RoundingSDiv smin_word V DOWN"
    have "\<not> (smax_word = (smin_word :: 'a word) \<and> V = - 1)" "\<not> (smin_word = (smin_word :: 'a word) \<and> V = - 1)" using neg(2) by auto
    then have lh: "sint ?l = - ((- sint (smax_word :: 'a word)) div sint V)" "sint ?h = sint (smin_word :: 'a word) div sint V"
      using RoundingSDiv_correct [OF n, of V] neg(1) by simp_all
    have V0: "sint V < 0" using V by simp
    have zero: "sint ?l \<le> 0" "0 \<le> sint ?h" unfolding lh quotient_limits(3,4) [OF V0] using k by simp_all
    have "sint (smin_word :: 'a word) * - 2 \<le> sint (smin_word :: 'a word) * sint V"
      using V k by (intro mult_left_mono_neg) simp_all
    then have "\<not> sint ?l \<le> sint (smin_word :: 'a word)" unfolding lh quotient_limits(4) [OF V0] using k by linarith
    then have "?l \<noteq> smin_word" by auto
    note r = signed_interval_make [OF order_trans [OF zero] this]
    have "contains (make_range ?l (?h + 1)) x \<longleftrightarrow> \<not> smul_overflows x V"
      unfolding r(1) lh quotient_limits(3,4) [OF V0] smul_overflows_def by auto
    with neg r(2) show ?thesis by (simp add: makeSingleValueRegion_def)
  next
    case pos
    have V: "1 < sint V"
    proof -
      have "sint V \<noteq> 0" "sint V \<noteq> sint (1 :: 'a word)" using pos(1) by (metis sint_eq_0, metis signed_word_eqI)
      then show ?thesis using pos(3) one by (simp add: isNegative_sint)
    qed
    let ?l = "RoundingSDiv smin_word V UP" and ?h = "RoundingSDiv smax_word V DOWN"
    have "\<not> (smin_word = (smin_word :: 'a word) \<and> V = - 1)" "\<not> (smax_word = (smin_word :: 'a word) \<and> V = - 1)" using pos(2) by auto
    then have lh: "sint ?l = - ((- sint (smin_word :: 'a word)) div sint V)" "sint ?h = sint (smax_word :: 'a word) div sint V"
      using RoundingSDiv_correct [OF n, of V] pos(1) by simp_all
    have V0: "0 < sint V" using V by simp
    have zero: "sint ?l \<le> 0" "0 \<le> sint ?h" unfolding lh quotient_limits(1,2) [OF V0] using k by simp_all
    have "sint (smin_word :: 'a word) * sint V \<le> sint (smin_word :: 'a word) * 2"
      using V k by (intro mult_left_mono_neg) simp_all
    then have "\<not> sint ?l \<le> sint (smin_word :: 'a word)" unfolding lh quotient_limits(2) [OF V0] using k by linarith
    then have "?l \<noteq> smin_word" by auto
    note r = signed_interval_make [OF order_trans [OF zero] this]
    have "contains (make_range ?l (?h + 1)) x \<longleftrightarrow> \<not> smul_overflows x V"
      unfolding r(1) lh quotient_limits(1,2) [OF V0] smul_overflows_def by auto
    with pos r(2) show ?thesis by (simp add: makeSingleValueRegion_def)
  qed
qed

section \<open>No element of the region wraps\<close>

lemma single_zero: "getSingleElement S = Some 0 \<Longrightarrow> contains S y \<Longrightarrow> y = 0"
  using single_contains [of S y] by (auto simp: isSingleElement_def getSingleElement_def split: if_splits)

text \<open>The products by the elements of a range lie between those by its extremes.\<close>

lemma smul_between:
  assumes "contains S y" "\<not> smul_overflows x (getSignedMin S)" "\<not> smul_overflows x (getSignedMax S)"
  shows "\<not> smul_overflows x y"
  using assms(2,3) product_between [OF order_refl order_refl signed_bounds [OF assms(1)], of "sint x"]
  unfolding smul_overflows_def by linarith

lemma umul_below: "unsigned_mul_overflows x y \<Longrightarrow> y \<le> z \<Longrightarrow> unsigned_mul_overflows x z"
proof -
  assume a: "unsigned_mul_overflows x y" "y \<le> z"
  then have "unat x * unat y \<le> unat x * unat z" by (simp add: word_le_nat_alt)
  with a(1) show ?thesis unfolding unsigned_mul_overflows_def by linarith
qed

lemma uadd_region:
  fixes m :: "'a::len word"
  assumes "m \<noteq> 0"
  shows "contains (make_range 0 (- m)) x \<longleftrightarrow> \<not> unsigned_add_overflows x m"
proof -
  have "contains (make_range 0 (- m)) x \<longleftrightarrow> x < - m" using assms by (intro below_region) simp
  also have "\<dots> \<longleftrightarrow> unat x < 2 ^ LENGTH('a) - unat m" 
  proof -
    have "int (unat (- m)) = int (2 ^ LENGTH('a) - unat m)" using uint_uminus [OF assms] by (simp add: of_nat_diff less_imp_le)
    then show ?thesis by (simp only: word_less_nat_alt of_nat_eq_iff)
  qed
  also have "\<dots> \<longleftrightarrow> \<not> unsigned_add_overflows x m"
    using unsigned_less [of m, where 'a = nat] by (auto simp: unsigned_add_overflows_def)
  finally show ?thesis .
qed

lemma zero_does_not_wrap:
  fixes x :: "'a::len word"
  assumes "b \<in> {BAdd, BSub}"
  shows "\<not> wraps b k x 0"
proof -
  have "\<not> 2 ^ LENGTH('a) \<le> unat x" by (simp add: linorder_not_le)
  with assms sint_bounds [of x] show ?thesis
    by (cases k) (auto simp: wraps_def unsigned_add_overflows_def sadd_high_def sadd_low_def ssub_high_def ssub_low_def)
qed

lemma max_zero:
  assumes "wf_range S" "getUnsignedMax S = 0"
  shows "getSingleElement S = Some 0"
proof -
  have S: "\<not> isFullSet S" "\<not> isUpperWrapped S" "cr_upper S = 1"
    using assms(2) by (simp_all add: getUnsignedMax_def split: if_splits)
  then have "cr_lower S \<le> 1" by (simp add: isUpperWrapped_def)
  moreover have "cr_lower S \<noteq> 1" using S(1,3) assms(1) by (auto simp: isFullSet_def wf_range_def)
  ultimately have "cr_lower S = 0" by (metis order.strict_iff_order word_less_1)
  with S(3) show ?thesis by (simp add: getSingleElement_def)
qed

lemma no_wrap_region_sound:
  fixes S :: "'a::len word crange"
  assumes S: "wf_range S" and b: "b \<in> {BAdd, BSub, BMul}" and n: "b = BMul \<Longrightarrow> k = NoSignedWrap \<Longrightarrow> 1 < LENGTH('a)"
  shows "\<exists>T. makeGuaranteedNoWrapRegion b S k = Done T \<and> wf_range T
    \<and> (\<forall>x y. contains T x \<and> contains S y \<longrightarrow> \<not> wraps b k x y)"
proof -
  note def = makeGuaranteedNoWrapRegion_def
  have max: "getUnsignedMax S \<noteq> 0" if "getSingleElement S \<noteq> Some 0"
    using that max_zero [OF S] by blast
  consider (zero) "b \<noteq> BMul" "getSingleElement S = Some 0" | (uadd) "b = BAdd" "getSingleElement S \<noteq> Some 0" "k = NoUnsignedWrap"
    | (sadd) "b = BAdd" "getSingleElement S \<noteq> Some 0" "k = NoSignedWrap"
    | (usub) "b = BSub" "getSingleElement S \<noteq> Some 0" "k = NoUnsignedWrap"
    | (ssub) "b = BSub" "getSingleElement S \<noteq> Some 0" "k = NoSignedWrap"
    | (umul) "b = BMul" "k = NoUnsignedWrap" | (smul) "b = BMul" "k = NoSignedWrap"
    using b by (cases k) auto
  then show ?thesis
  proof cases
    case zero
    with b have "\<not> wraps b k x y" if "contains S y" for x y
      using single_zero [OF zero(2) that] zero_does_not_wrap [of b k x] by auto
    with zero b show ?thesis by (auto simp: def)
  next
    case uadd
    have "\<not> unsigned_add_overflows x y" if "contains (make_range 0 (- getUnsignedMax S)) x" "contains S y" for x y
      using that(1) unat_bounds(2) [OF that(2)] unfolding uadd_region [OF max [OF uadd(2)]] unsigned_add_overflows_def by linarith
    with uadd max show ?thesis by (simp add: def wraps_def wf_make)
  next
    case usub
    have "\<not> x < y" if "contains (make_range (getUnsignedMax S) 0) x" "contains S y" for x y
      using that(1) unsigned_bounds(2) [OF that(2)] above_region [OF max [OF usub(2)], of x] by auto
    with usub max show ?thesis by (simp add: def wraps_def wf_make)
  next
    case sadd with nsw_add_sound [of S] show ?thesis by (simp add: def wraps_def)
  next
    case ssub with nsw_sub_sound [of S] show ?thesis by (simp add: def wraps_def)
  next
    case umul
    then show ?thesis using umul_below [OF _ unsigned_bounds(2)] by (auto simp: def wraps_def single_unsigned)
  next
    case smul
    note one = single_signed [OF n [OF smul]]
    from SubsetIntersect_sound [of "makeSingleValueRegion k (getSignedMin S)" "makeSingleValueRegion k (getSignedMax S)"] smul
    show ?thesis by (simp add: def wraps_def one) (metis smul_between)
  qed
qed

lemma add_no_wrap_sound:
  assumes R: "wf_range R"
  shows "\<exists>T. addWithNoSignedWrap R c = Done T \<and> wf_range T
    \<and> (\<forall>x. contains R x \<and> \<not> wraps BAdd NoSignedWrap x c \<longrightarrow> contains T (x + c))"
proof -
  obtain N where N: "makeGuaranteedNoWrapRegion BAdd (single_range c) NoSignedWrap = Done N" "wf_range N"
    "\<And>x. \<not> wraps BAdd NoSignedWrap x c \<Longrightarrow> contains N x"
  proof (cases "c = 0")
    case True
    then have "getSingleElement (single_range c) = Some 0" by (simp add: getSingleElement_def single_range_def)
    then show thesis using that [of full_range] by (simp add: makeGuaranteedNoWrapRegion_def)
  next
    case False
    then have "getSingleElement (single_range c) \<noteq> Some 0" by (simp add: getSingleElement_def single_range_def)
    with nsw_add_single [of c] that show thesis by (auto simp: makeGuaranteedNoWrapRegion_def wraps_def)
  qed
  have I: "covers_both R N (intersectWith R N Smallest)" by (rule intersect_covers [OF R N(2)])
  have "contains (range_add (intersectWith R N Smallest) (single_range c)) (x + c)"
    if "contains R x" "\<not> wraps BAdd NoSignedWrap x c" for x
    using that N(3) I by (intro add_sound) (auto simp: covers_both_def single_element)
  moreover have "wf_range (range_add (intersectWith R N Smallest) (single_range c))"
    using I by (intro t_add.wf) (simp_all add: covers_both_def)
  ultimately show ?thesis using N(1) by (simp add: addWithNoSignedWrap_def bind_outcome_def)
qed

text \<open>The excluded case: for a single bit the code takes \<open>- 1\<close> for the neutral factor.\<close>

lemma one_bit_mul_region:
  "makeGuaranteedNoWrapRegion BMul (single_range (1 :: 1 word)) NoSignedWrap = Done full_range"
  "wraps BMul NoSignedWrap (1 :: 1 word) 1"
  by code_simp+

end
