(* ===== verification/RangeProps.thy ===== *)
theory RangeProps
  imports RangeNoWrap "HOL-Library.Signed_Division"
begin

text \<open>
  What the operations on ranges promise, over the values: sets of values, comparisons, arithmetic and
  conversions, overflow.
\<close>

section \<open>Sets of values\<close>

text \<open> C26: The operations on ranges implement those on the sets of values they stand for. Containment and
  the complement are exact; an intersection covers the values in both ranges and is exact or one of the two; a
  union never fails its assertion, covers both ranges, and is exact or spans one of the gaps between them. Every
  result satisfies the constructor's assertion. \<close>

theorem range_sets_refine:
  assumes "wf_range (R :: 'a::len word crange)" "wf_range S"
  shows "(contains_range R S \<longleftrightarrow> {v. contains S v} \<subseteq> {v. contains R v})
    \<and> wf_range (inverse_range R) \<and> {v. contains (inverse_range R) v} = - {v. contains R v}
    \<and> wf_range (intersectWith R S t)
    \<and> {v. contains R v} \<inter> {v. contains S v} \<subseteq> {v. contains (intersectWith R S t) v}
    \<and> ({v. contains (intersectWith R S t) v} = {v. contains R v} \<inter> {v. contains S v} \<or> intersectWith R S t \<in> {R, S})
    \<and> (\<exists>T. unionWith_range R S t = Done T \<and> wf_range T \<and> {v. contains R v} \<union> {v. contains S v} \<subseteq> {v. contains T v}
        \<and> ({v. contains T v} = {v. contains R v} \<union> {v. contains S v}
           \<or> T \<in> {make_range (cr_lower R) (cr_upper S), make_range (cr_lower S) (cr_upper R)}))"
proof -
  have I: "covers_both R S (intersectWith R S t)" by (rule intersect_covers [OF assms])
  obtain T where T: "unionWith_range R S t = Done T" "covers_either R S T" using union_covers [OF assms] by blast
  have "contains_range R S \<longleftrightarrow> {v. contains S v} \<subseteq> {v. contains R v}"
    using contains_range_exact [OF assms] by blast
  moreover have "wf_range (inverse_range R)" "{v. contains (inverse_range R) v} = - {v. contains R v}"
    using inverse_wf [OF assms(1)] inverse_contains [OF assms(1)] by auto
  moreover have "wf_range (intersectWith R S t)"
    "{v. contains R v} \<inter> {v. contains S v} \<subseteq> {v. contains (intersectWith R S t) v}"
    "{v. contains (intersectWith R S t) v} = {v. contains R v} \<inter> {v. contains S v} \<or> intersectWith R S t \<in> {R, S}"
    using I by (auto simp: covers_both_def)
  moreover have "wf_range T" "{v. contains R v} \<union> {v. contains S v} \<subseteq> {v. contains T v}"
    "{v. contains T v} = {v. contains R v} \<union> {v. contains S v}
       \<or> T \<in> {make_range (cr_lower R) (cr_upper S), make_range (cr_lower S) (cr_upper R)}"
    using T(2) by (auto simp: covers_either_def)
  ultimately show ?thesis using T(1) by blast
qed

theorem range_sets_refine_witness:
  "contains_range (make_range 250 (20 :: 8 word)) (make_range 5 9)
    \<longleftrightarrow> {v. contains (make_range 5 (9 :: 8 word)) v} \<subseteq> {v. contains (make_range 250 20) v}"
proof -
  have "wf_range (make_range 250 (20 :: 8 word))" "wf_range (make_range 5 (9 :: 8 word))"
    by (simp_all add: wf_range_def)
  from range_sets_refine [OF this] show ?thesis by blast
qed

section \<open>Comparisons\<close>

text \<open> C27: The regions of the comparisons are exact. The allowed region of a predicate and a range holds the values
  that compare so with some element, the satisfying region those that compare so with every one; for a single value
  both are the same range, so the assertion of \<^verbatim>\<open>makeExactICmpRegion\<close> never fails; and the comparison
  \<^verbatim>\<open>getEquivalentICmp\<close> finds holds for the elements of the range and no other value. \<close>

theorem icmp_regions_exact:
  assumes "wf_range (R :: 'a::len word crange)"
  shows "(contains (makeAllowedICmpRegion p R) x \<longleftrightarrow> (\<exists>y. contains R y \<and> icmp_holds p x y))
    \<and> (contains (makeSatisfyingICmpRegion p R) x \<longleftrightarrow> (\<forall>y. contains R y \<longrightarrow> icmp_holds p x y))
    \<and> (\<exists>T. makeExactICmpRegion p c = Done T \<and> (\<forall>x. contains T x \<longleftrightarrow> icmp_holds p x c))
    \<and> (getEquivalentICmp R = Some (p, c) \<longrightarrow> (\<forall>x. contains R x \<longleftrightarrow> icmp_holds p x c))"
  using allowed_exact [OF assms] satisfying_exact [OF assms] exact_region [of p c] equivalent_exact [OF assms, of p c]
  by blast

theorem icmp_regions_exact_witness:
  "contains (makeAllowedICmpRegion ICMP_SLT (make_range 250 (20 :: 8 word))) 10
    \<longleftrightarrow> (\<exists>y. contains (make_range 250 (20 :: 8 word)) y \<and> icmp_holds ICMP_SLT 10 y)"
proof -
  have "wf_range (make_range 250 (20 :: 8 word))" by (simp add: wf_range_def)
  from icmp_regions_exact [OF this] show ?thesis by blast
qed

section \<open>Arithmetic\<close>

text \<open>What an operator gives on values; \<open>None\<close> where the result is not defined.\<close>

definition binary_value :: "binary_op \<Rightarrow> 'a::len word \<Rightarrow> 'a word \<Rightarrow> 'a word option" where
  "binary_value b x y = (case b of
       BAdd \<Rightarrow> Some (x + y) | BSub \<Rightarrow> Some (x - y) | BMul \<Rightarrow> Some (x * y)
     | BUDiv \<Rightarrow> if y = 0 then None else Some (x div y)
     | BURem \<Rightarrow> if y = 0 then None else Some (x mod y)
     | BSDiv \<Rightarrow> if y = 0 \<or> x = smin_word \<and> y = - 1 then None else Some (word_of_int (sint x sdiv sint y))
     | BSRem \<Rightarrow> if y = 0 \<or> x = smin_word \<and> y = - 1 then None else Some (word_of_int (sint x smod sint y))
     | BShl \<Rightarrow> if unat y < LENGTH('a) then Some (push_bit (unat y) x) else None
     | BLShr \<Rightarrow> if unat y < LENGTH('a) then Some (drop_bit (unat y) x) else None
     | BAShr \<Rightarrow> if unat y < LENGTH('a) then Some (signed_drop_bit (unat y) x) else None
     | BAnd \<Rightarrow> Some (and x y) | BOr \<Rightarrow> Some (or x y) | BXor \<Rightarrow> Some (xor x y)
     | _ \<Rightarrow> None)"

text \<open> C23: Every binary operator on two ranges returns a range that satisfies the constructor's assertion and contains the
  result of the operator on every pair of elements: additions and products that wrap around, shifts and divisions
  included. No assertion fails on the way, in particular not those of the products at twice the width. \<close>

theorem binaryOp_sound:
  assumes R: "wf_range (R :: 'a::len word crange)" and S: "wf_range S"
  shows "\<exists>T. binaryOp b R S = Done T \<and> wf_range T
    \<and> (\<forall>x y v. contains R x \<and> contains S y \<and> binary_value b x y = Some v \<longrightarrow> contains T v)"
  using t_add.covers [OF R S] t_sub.covers [OF R S] multiply_sound [OF R S] t_udiv.covers [OF R S] t_shl.covers [OF R S]
    t_lshr.covers [OF R S] t_ashr.covers [OF R S] t_and.covers [OF R S] t_or.covers [OF R S]
  by (cases b) (fastforce simp: binaryOp_def binary_value_def split: if_splits)+

theorem binaryOp_sound_witness:
  "\<exists>T. binaryOp BMul (make_range 250 (20 :: 8 word)) (make_range 5 9) = Done T \<and> contains T (255 * 7)"
proof -
  have "wf_range (make_range 250 (20 :: 8 word))" "wf_range (make_range 5 (9 :: 8 word))"
    by (simp_all add: wf_range_def)
  moreover have "contains (make_range 250 (20 :: 8 word)) 255" "contains (make_range 5 (9 :: 8 word)) 7"
    by (simp_all add: contains_def isUpperWrapped_def)
  moreover have "binary_value BMul (255 :: 8 word) 7 = Some (255 * 7)" by (simp only: binary_value_def binary_op.case)
  ultimately show ?thesis using binaryOp_sound [of "make_range 250 (20 :: 8 word)" "make_range 5 9" BMul] by metis
qed

section \<open>Conversions\<close>

definition cast_value :: "cast_op \<Rightarrow> 'a::len word \<Rightarrow> 'b::len word" where
  "cast_value c x = (if c = CSExt then scast x else ucast x)"

text \<open> C28: A truncation to fewer bits and an extension to more of them give a range of the requested width, which
  satisfies the constructor's assertion and contains the converted elements; each other conversion but those from
  integers to floating point answers a range of the width it had. \<close>

theorem castOp_width:
  assumes "wf_range (R :: 'a::len word crange)"
    and "(c = CTrunc \<longrightarrow> LENGTH('b::len) < LENGTH('a)) \<and> (c \<in> {CZExt, CSExt} \<longrightarrow> LENGTH('a) < LENGTH('b))"
    and "c \<notin> {CUIToFP, CSIToFP}"
  shows "\<exists>T. (castOp c R :: ('a word crange + 'b word crange) outcome) = Done T
    \<and> (case T of Inl T \<Rightarrow> c \<notin> {CTrunc, CZExt, CSExt} \<and> (T = R \<or> T = full_range)
       | Inr T \<Rightarrow> c \<in> {CTrunc, CZExt, CSExt} \<and> wf_range T \<and> (\<forall>x. contains R x \<longrightarrow> contains T (cast_value c x)))"
proof -
  consider "c = CTrunc" | "c = CZExt" | "c = CSExt" | "c \<notin> {CTrunc, CZExt, CSExt}" by blast
  then show ?thesis
  proof cases
    case 1
    with truncate_sound [OF assms(1), where 'b = 'b] assms(2) show ?thesis by (auto simp: castOp_def cast_value_def)
  next
    case 2
    with zeroExtend_sound [OF assms(1), where 'b = 'b] assms(2) show ?thesis by (auto simp: castOp_def cast_value_def)
  next
    case 3
    with signExtend_sound [OF assms(1), where 'b = 'b] assms(2) show ?thesis by (auto simp: castOp_def cast_value_def)
  next
    case 4
    with assms(3) show ?thesis by (cases c) (auto simp: castOp_def)
  qed
qed

theorem castOp_width_witness:
  "\<exists>T. castOp CTrunc (make_range 250 (260 :: 16 word)) = Done (Inr T) \<and> wf_range T
    \<and> (\<forall>x. contains (make_range 250 (260 :: 16 word)) x \<longrightarrow> contains T (cast_value CTrunc x :: 8 word))"
proof -
  have wf: "wf_range (make_range 250 (260 :: 16 word))" by (simp add: wf_range_def)
  have "(CTrunc = CTrunc \<longrightarrow> LENGTH(8) < LENGTH(16)) \<and> (CTrunc \<in> {CZExt, CSExt} \<longrightarrow> LENGTH(16) < LENGTH(8))"
    "CTrunc \<notin> {CUIToFP, CSIToFP}" by simp_all
  from castOp_width [OF wf this] obtain T :: "16 word crange + 8 word crange" where
    T: "castOp CTrunc (make_range 250 260) = Done T"
    "case T of Inl T \<Rightarrow> CTrunc \<notin> {CTrunc, CZExt, CSExt} \<and> (T = make_range 250 260 \<or> T = full_range)
       | Inr T \<Rightarrow> CTrunc \<in> {CTrunc, CZExt, CSExt} \<and> wf_range T
          \<and> (\<forall>x. contains (make_range 250 (260 :: 16 word)) x \<longrightarrow> contains T (cast_value CTrunc x))" by (elim exE conjE) (rule that)
  show ?thesis
  proof (cases T)
    case (Inl U) with T(2) show ?thesis by simp
  next
    case (Inr U) with T show ?thesis by (intro exI [of _ U]) (simp only: sum.case, blast)
  qed
qed

text \<open>
  Two answers of the conversions from and to floating point: a conversion to a different width answers a range of the
  old width, and the range for converted integers leaves out the greatest of them.
\<close>

lemma castOp_fp_width:
  "LENGTH('a::len) \<noteq> LENGTH('b::len) \<Longrightarrow>
     (castOp CFPToUI (R :: 'a word crange) :: ('a word crange + 'b word crange) outcome) = Done (Inl full_range)"
  by (simp add: castOp_def)

lemma castOp_uitofp_excludes_max:
  assumes "LENGTH('a::len) < LENGTH('b::len)"
  shows "\<exists>T. (castOp CUIToFP (R :: 'a word crange) :: ('a word crange + 'b word crange) outcome) = Done (Inr T)
    \<and> \<not> contains T (ucast (- 1 :: 'a word))"
proof -
  have "\<not> contains (make_range 0 m) m" for m :: "'b word" by (simp add: contains_def isFullSet_def isUpperWrapped_def)
  with assms show ?thesis by (simp add: castOp_def)
qed

section \<open>Overflow\<close>

text \<open> C24: The five overflow tests are exact: on non-empty ranges they answer that an operation always overflows
  if and only if it does for every pair of elements, and that it never does if and only if it does for none; an
  empty range gives no information. Overflow is that of the unbounded sum, difference or product. \<close>

theorem overflow_tests_exact:
  assumes "wf_range (R :: 'a::len word crange)" "wf_range S"
  shows "overflow_exact (\<lambda>a b. unat a + unat b \<ge> 2 ^ LENGTH('a)) R S (unsignedAddMayOverflow R S)
    \<and> overflow_exact (\<lambda>a b. unat a < unat b) R S (unsignedSubMayOverflow R S)
    \<and> overflow_exact (\<lambda>a b. unat a * unat b \<ge> 2 ^ LENGTH('a)) R S (unsignedMulMayOverflow R S)
    \<and> overflow_exact (\<lambda>a b. sint a + sint b > sint (smax_word :: 'a word) \<or> sint a + sint b < sint (smin_word :: 'a word))
        R S (signedAddMayOverflow R S)
    \<and> overflow_exact (\<lambda>a b. sint a - sint b > sint (smax_word :: 'a word) \<or> sint a - sint b < sint (smin_word :: 'a word))
        R S (signedSubMayOverflow R S)"
proof -
  have "unsigned_add_overflows = (\<lambda>a b :: 'a word. unat a + unat b \<ge> 2 ^ LENGTH('a))"
    "unsigned_mul_overflows = (\<lambda>a b :: 'a word. unat a * unat b \<ge> 2 ^ LENGTH('a))"
    "(<) = (\<lambda>a b :: 'a word. unat a < unat b)"
    by (simp_all add: fun_eq_iff unsigned_add_overflows_def unsigned_mul_overflows_def word_less_nat_alt)
  from may_overflow_exact [OF assms, unfolded this sadd_high_def sadd_low_def ssub_high_def ssub_low_def]
  show ?thesis by blast
qed

theorem overflow_tests_exact_witness:
  "overflow_exact (\<lambda>a b. unat a * unat b \<ge> 2 ^ LENGTH(8)) (make_range 30 (40 :: 8 word)) (make_range 9 12)
     (unsignedMulMayOverflow (make_range 30 (40 :: 8 word)) (make_range 9 12))"
proof -
  have "wf_range (make_range 30 (40 :: 8 word))" "wf_range (make_range 9 (12 :: 8 word))" by (simp_all add: wf_range_def)
  from overflow_tests_exact [OF this] show ?thesis by (elim conjE) assumption
qed

text \<open> C25: The region \<^verbatim>\<open>makeGuaranteedNoWrapRegion\<close> computes for an addition, subtraction or multiplication and a range
  satisfies the constructor's assertion, and none of its elements wraps around with any element of the range; for
  signed products the values must have more than one bit. \<close>

theorem no_wrap_region:
  assumes "wf_range (S :: 'a::len word crange)" "b \<in> {BAdd, BSub, BMul}"
    and "b = BMul \<and> k = NoSignedWrap \<longrightarrow> 1 < LENGTH('a)"
  shows "\<exists>T. makeGuaranteedNoWrapRegion b S k = Done T \<and> wf_range T
    \<and> (\<forall>x y. contains T x \<and> contains S y \<longrightarrow> \<not> wraps b k x y)"
  using no_wrap_region_sound [of S b k] assms by blast

theorem no_wrap_region_witness:
  "\<exists>T. makeGuaranteedNoWrapRegion BMul (make_range 253 (4 :: 8 word)) NoSignedWrap = Done T \<and> wf_range T
    \<and> (\<forall>x y. contains T x \<and> contains (make_range 253 (4 :: 8 word)) y \<longrightarrow> \<not> wraps BMul NoSignedWrap x y)"
proof -
  have "wf_range (make_range 253 (4 :: 8 word))" by (simp add: wf_range_def)
  from no_wrap_region [OF this, of BMul NoSignedWrap] show ?thesis by simp
qed

section \<open>Ranges from facts\<close>

text \<open> C29: The ranges made from facts about a value are sound and their assertions hold: known bits without conflict
  give a range of every value that has them, signed or not; the pairs of range metadata give one that covers them all;
  adding a constant without signed wrap gives one of every sum that does not wrap. \<close>

theorem facts_ranges_sound:
  assumes "kb_zero k AND kb_one k = (0 :: 'a::len word)" "ps \<noteq> []" "\<forall>(l, u)\<in>set ps. wf_range (make_range l (u :: 'a word))"
    and "wf_range (R :: 'a word crange)"
  shows "(\<exists>T. fromKnownBits k isSigned = Done T \<and> wf_range T \<and> (\<forall>x. known_matches k x \<longrightarrow> contains T x))
    \<and> (\<exists>T. getConstantRangeFromMetadata ps = Done T \<and> wf_range T
         \<and> (\<forall>v. (\<exists>(l, u)\<in>set ps. contains (make_range l u) v) \<longrightarrow> contains T v))
    \<and> (\<exists>T. addWithNoSignedWrap R c = Done T \<and> wf_range T
         \<and> (\<forall>x. contains R x \<and> sint x + sint c \<le> sint (smax_word :: 'a word) \<and> sint (smin_word :: 'a word) \<le> sint x + sint c
              \<longrightarrow> contains T (x + c)))"
  using known_bits_sound [OF assms(1)] metadata_sound [OF assms(2,3)] add_no_wrap_sound [OF assms(4), of c]
  by (simp only: wraps_def prod.case binary_op.case no_wrap_kind.case sadd_high_def sadd_low_def de_Morgan_disj linorder_not_less)

theorem facts_ranges_sound_witness:
  "\<exists>T. fromKnownBits \<lparr>kb_zero = 1, kb_one = (6 :: 8 word)\<rparr> True = Done T \<and> contains T 134"
proof -
  let ?k = "\<lparr>kb_zero = 1, kb_one = (6 :: 8 word)\<rparr>"
  have "kb_zero ?k AND kb_one ?k = 0" "\<forall>(l, u)\<in>set [(1, 2)]. wf_range (make_range l (u :: 8 word))" "wf_range (full_range :: 8 word crange)"
    by (simp_all add: wf_range_def full_range_def)
  moreover have "known_matches ?k 134" by (simp add: known_matches_def)
  ultimately show ?thesis using facts_ranges_sound [of ?k "[(1, 2)]" full_range True] by blast
qed

end
