(* ===== verification/ModuleEnv.thy ===== *)
theory ModuleEnv
  imports CFLGraph
begin

text \<open>
  What the whole-module analyses read of a module: its functions and global variables in order, their
  linkage (\<^verbatim>\<open>include/llvm/IR/GlobalValue.h\<close>), the attributes of functions, and which instructions may access
  memory (\<^verbatim>\<open>lib/IR/Instruction.cpp\<close>). Library knowledge (allocation functions, \<^verbatim>\<open>GetUnderlyingObject\<close>,
  initialisers, type sizes) is a field of the environment.
\<close>

section \<open>Linkage\<close>

datatype linkage = ExternalLinkage | AvailableExternallyLinkage | LinkOnceAnyLinkage
  | LinkOnceODRLinkage | WeakAnyLinkage | WeakODRLinkage | AppendingLinkage | InternalLinkage
  | PrivateLinkage | ExternalWeakLinkage | CommonLinkage

definition isLocalLinkage :: "linkage \<Rightarrow> bool" where
  "isLocalLinkage l = (l = InternalLinkage \<or> l = PrivateLinkage)"

definition isInterposableLinkage :: "linkage \<Rightarrow> bool" where
  "isInterposableLinkage l = (case l of
     WeakAnyLinkage \<Rightarrow> True | LinkOnceAnyLinkage \<Rightarrow> True | CommonLinkage \<Rightarrow> True
   | ExternalWeakLinkage \<Rightarrow> True | _ \<Rightarrow> False)"

definition linkageMayBeDerefined :: "linkage \<Rightarrow> bool" where
  "linkageMayBeDerefined l = (case l of
     WeakODRLinkage \<Rightarrow> True | LinkOnceODRLinkage \<Rightarrow> True | AvailableExternallyLinkage \<Rightarrow> True
   | _ \<Rightarrow> isInterposableLinkage l)"

section \<open>The environment\<close>

record module_env =
  mcfl :: cfl_env
  mfunctions :: "vid list"
  mglobals :: "vid list"
  mlinkage :: "vid \<Rightarrow> linkage"
  mconstant :: "vid \<Rightarrow> bool" \<comment> \<open>\<^verbatim>\<open>GlobalVariable::isConstant\<close>\<close>
  minitializer :: "vid \<Rightarrow> vid option"
  mnull :: "vid \<Rightarrow> bool" \<comment> \<open>\<^verbatim>\<open>Constant::isNullValue\<close>\<close>
  mblockaddress :: "vid \<Rightarrow> bool"
  moptnone :: "vid \<Rightarrow> bool" \<comment> \<open>\<^verbatim>\<open>Function::hasOptNone\<close>\<close>
  mintrinsic :: "vid \<Rightarrow> bool" \<comment> \<open>\<^verbatim>\<open>Function::isIntrinsic\<close>\<close>
  mleaf :: "vid \<Rightarrow> bool" \<comment> \<open>\<^verbatim>\<open>Intrinsic::isLeaf\<close> of the intrinsic number\<close>
  mdbg :: "vid \<Rightarrow> bool" \<comment> \<open>\<^verbatim>\<open>isa<DbgInfoIntrinsic>\<close>\<close>
  mfree :: "vid \<Rightarrow> bool" \<comment> \<open>\<^verbatim>\<open>isFreeCall\<close>\<close>
  malloc_fn :: "vid \<Rightarrow> bool" \<comment> \<open>\<^verbatim>\<open>isAllocationFn\<close>\<close>
  malloc_like :: "vid \<Rightarrow> bool" \<comment> \<open>\<^verbatim>\<open>isAllocLikeFn\<close>\<close>
  munder :: "vid \<Rightarrow> vid" \<comment> \<open>\<^verbatim>\<open>GetUnderlyingObject\<close>\<close>
  munders :: "vid \<Rightarrow> vid list" \<comment> \<open>\<^verbatim>\<open>GetUnderlyingObjects\<close>\<close>
  mallocsize :: "ir_type \<Rightarrow> 64 word option" \<comment> \<open>\<^verbatim>\<open>getTypeAllocSize\<close>, none when not sized\<close>
  munsafe :: bool \<comment> \<open>\<^verbatim>\<open>EnableUnsafeGlobalsModRefAliasResults\<close>\<close>

abbreviation menv :: "module_env \<Rightarrow> ir_env" where
  "menv E \<equiv> cx (mcfl E)"

abbreviation mmod :: "module_env \<Rightarrow> ir_module" where
  "mmod E \<equiv> cmod (mcfl E)"

definition module_env0 :: "cfl_env \<Rightarrow> module_env" where
  "module_env0 C = \<lparr>mcfl = C, mfunctions = [], mglobals = [], mlinkage = (\<lambda>_. ExternalLinkage),
     mconstant = (\<lambda>_. False), minitializer = (\<lambda>_. None), mnull = (\<lambda>_. False),
     mblockaddress = (\<lambda>_. False), moptnone = (\<lambda>_. False), mintrinsic = (\<lambda>_. False),
     mleaf = (\<lambda>_. True), mdbg = (\<lambda>_. False), mfree = (\<lambda>_. False), malloc_fn = (\<lambda>_. False),
     malloc_like = (\<lambda>_. False), munder = (\<lambda>v. v), munders = (\<lambda>v. [v]), mallocsize = (\<lambda>_. None),
     munsafe = False\<rparr>"

section \<open>Global values\<close>

definition hasLocalLinkage :: "module_env \<Rightarrow> vid \<Rightarrow> bool" where
  "hasLocalLinkage E g = isLocalLinkage (mlinkage E g)"

definition isDefinitionExact :: "module_env \<Rightarrow> vid \<Rightarrow> bool" where
  "isDefinitionExact E g = (\<not> linkageMayBeDerefined (mlinkage E g))"

definition fn_insts :: "module_env \<Rightarrow> vid \<Rightarrow> vid list" where
  "fn_insts E f = concat (fblocks (mfun (mmod E) f))"

definition isDeclaration :: "module_env \<Rightarrow> vid \<Rightarrow> bool" where
  "isDeclaration E f = fdecl (mfun (mmod E) f)"

definition fn_doesNotAccessMemory :: "module_env \<Rightarrow> vid \<Rightarrow> bool" where
  "fn_doesNotAccessMemory E f = (AReadNone \<in> xfnattr (menv E) f)"

definition fn_onlyReadsMemory :: "module_env \<Rightarrow> vid \<Rightarrow> bool" where
  "fn_onlyReadsMemory E f = (fn_doesNotAccessMemory E f \<or> AReadOnly \<in> xfnattr (menv E) f)"

definition fn_onlyAccessesArgMemory :: "module_env \<Rightarrow> vid \<Rightarrow> bool" where
  "fn_onlyAccessesArgMemory E f = (AArgMemOnly \<in> xfnattr (menv E) f)"

text \<open>The use of an operand as the callee; data and argument operands come before it.\<close>

definition is_callee_use :: "module_env \<Rightarrow> vid \<Rightarrow> nat \<Rightarrow> bool" where
  "is_callee_use E c i = (Suc i = length (voperands (mval (mmod E) c)))"

definition isDataOperand :: "module_env \<Rightarrow> vid \<Rightarrow> nat \<Rightarrow> bool" where
  "isDataOperand E c i = (i < length (data_operands (menv E) c))"

definition isArgOperand :: "module_env \<Rightarrow> vid \<Rightarrow> nat \<Rightarrow> bool" where
  "isArgOperand E c i = (i < length (call_args (menv E) c))"

text \<open>A use that is neither a call of the function nor the address of one of its blocks.\<close>

definition hasAddressTaken :: "module_env \<Rightarrow> vid \<Rightarrow> bool" where
  "hasAddressTaken E f = list_ex (\<lambda>(u, i).
     \<not> mblockaddress E u \<and> (\<not> is_call_base (mmod E) u \<or> \<not> is_callee_use E u i)) (vuses (mval (mmod E) f))"

text \<open>A constant all of whose users are constants that are not used themselves is not used.\<close>

fun isConstantUsed :: "nat \<Rightarrow> module_env \<Rightarrow> vid \<Rightarrow> bool outcome" and
  constant_used_by :: "nat \<Rightarrow> module_env \<Rightarrow> vid list \<Rightarrow> bool outcome" where
  "isConstantUsed 0 E c = OutOfFuel"
| "isConstantUsed (Suc k) E c = constant_used_by k E (users (mmod E) c)"
| "constant_used_by k E [] = Done False"
| "constant_used_by k E (u # us) =
    (if \<not> is_constant (mmod E) u \<or> is_global_value (mmod E) u then Done True
     else case isConstantUsed k E u of
       Crash \<Rightarrow> Crash | OutOfFuel \<Rightarrow> OutOfFuel
     | Done b \<Rightarrow> if b then Done True else constant_used_by k E us)"

section \<open>Accesses of instructions\<close>

definition mem_unordered :: "ir_env \<Rightarrow> vid \<Rightarrow> bool" where
  "mem_unordered X i = ((xordering X i = NotAtomic \<or> xordering X i = Unordered) \<and> \<not> xvolatile X i)"

definition callDoesNotAccessMemory :: "cfl_env \<Rightarrow> vid \<Rightarrow> bool" where
  "callDoesNotAccessMemory C c = hasFnAttr C c AReadNone"

definition mayReadFromMemory :: "cfl_env \<Rightarrow> vid \<Rightarrow> bool" where
  "mayReadFromMemory C i = (case vkind (mval (cmod C) i) of
     KInstruction opc \<Rightarrow>
       (if opc \<in> {OVAArg, OLoad, OFence, OAtomicCmpXchg, OAtomicRMW, OCatchPad, OCatchRet} then True
        else if opc \<in> {OCall, OInvoke, OCallBr} then \<not> callDoesNotAccessMemory C i
        else if opc = OStore then \<not> mem_unordered (cx C) i
        else False)
   | _ \<Rightarrow> False)"

definition mayWriteToMemory :: "cfl_env \<Rightarrow> vid \<Rightarrow> bool" where
  "mayWriteToMemory C i = (case vkind (mval (cmod C) i) of
     KInstruction opc \<Rightarrow>
       (if opc \<in> {OFence, OStore, OVAArg, OAtomicCmpXchg, OAtomicRMW, OCatchPad, OCatchRet} then True
        else if opc \<in> {OCall, OInvoke, OCallBr} then \<not> callOnlyReadsMemory C i
        else if opc = OLoad then \<not> mem_unordered (cx C) i
        else False)
   | _ \<Rightarrow> False)"

lemma isConstantUsed_no_crash:
  "isConstantUsed k E c \<noteq> Crash" "constant_used_by k E us \<noteq> Crash"
  by (induction k E c and k E us rule: isConstantUsed_constant_used_by.induct)
    (auto split: outcome.split)

text \<open>What the recursion computes.\<close>

inductive constant_live :: "module_env \<Rightarrow> vid \<Rightarrow> bool" for E where
  used: "u \<in> set (users (mmod E) c) \<Longrightarrow> \<not> is_constant (mmod E) u \<or> is_global_value (mmod E) u
    \<Longrightarrow> constant_live E c"
| through: "u \<in> set (users (mmod E) c) \<Longrightarrow> constant_live E u \<Longrightarrow> constant_live E c"

lemma isConstantUsed_live:
  "isConstantUsed k E c = Done b \<Longrightarrow> b = constant_live E c"
  "constant_used_by k E us = Done b \<Longrightarrow>
     b = (\<exists>u\<in>set us. \<not> is_constant (mmod E) u \<or> is_global_value (mmod E) u \<or> constant_live E u)"
proof (induction k E c and k E us arbitrary: b and b rule: isConstantUsed_constant_used_by.induct)
  case (2 k E c)
  then show ?case by (auto elim: constant_live.cases intro: constant_live.intros)
next
  case (4 k E u us)
  then show ?case by (auto split: if_splits outcome.splits)
qed auto

end
