(* ===== verification/SCCIterator.thy ===== *)
theory SCCIterator
  imports Prelude
begin

text \<open>
  The enumeration of the strongly connected components of a directed graph
  (\<^verbatim>\<open>include/llvm/ADT/SCCIterator.h\<close>): Tarjan's search with an explicit stack, which is suspended each
  time a component is complete. The graph is its function of successor lists (\<^verbatim>\<open>GraphTraits\<close>); an iterator
  into a list of children is the list of the children that are left. Visit numbers are \<^verbatim>\<open>unsigned\<close>, and the
  number of a node whose component was returned is \<^verbatim>\<open>~0U\<close>.
\<close>

section \<open>The iterator\<close>

record 'n stack_element =
  se_Node :: 'n
  se_NextChild :: "'n list"
  se_MinVisited :: "32 word"

record 'n scc_iterator =
  visitNum :: "32 word"
  nodeVisitNumbers :: "'n \<rightharpoonup> 32 word"
  SCCNodeStack :: "'n list" \<comment> \<open>the head is the back of the vector\<close>
  CurrentSCC :: "'n list"
  VisitStack :: "'n stack_element list" \<comment> \<open>the head is the back of the vector\<close>

definition scc_empty :: "'n scc_iterator" where
  "scc_empty = \<lparr>visitNum = 0, nodeVisitNumbers = Map.empty, SCCNodeStack = [], CurrentSCC = [],
     VisitStack = []\<rparr>"

definition DFSVisitOne :: "('n \<Rightarrow> 'n list) \<Rightarrow> 'n \<Rightarrow> 'n scc_iterator \<Rightarrow> 'n scc_iterator" where
  "DFSVisitOne succs n s =
     (let num = visitNum s + 1 in
      s\<lparr>visitNum := num, nodeVisitNumbers := (nodeVisitNumbers s)(n \<mapsto> num),
        SCCNodeStack := n # SCCNodeStack s,
        VisitStack := \<lparr>se_Node = n, se_NextChild = succs n, se_MinVisited = num\<rparr> # VisitStack s\<rparr>)"

text \<open>One turn of the loop over the children of the node on top; the list of the others is \<open>cs\<close>.\<close>

definition visit_child ::
  "('n \<Rightarrow> 'n list) \<Rightarrow> 'n stack_element \<Rightarrow> 'n \<Rightarrow> 'n list \<Rightarrow> 'n stack_element list \<Rightarrow> 'n scc_iterator \<Rightarrow> 'n scc_iterator"
where
  "visit_child succs f childN cs fs s =
     (let f' = f\<lparr>se_NextChild := cs\<rparr> in
      case nodeVisitNumbers s childN of
        None \<Rightarrow> DFSVisitOne succs childN (s\<lparr>VisitStack := f' # fs\<rparr>)
      | Some childNum \<Rightarrow> s\<lparr>VisitStack := f'\<lparr>se_MinVisited :=
            (if childNum < se_MinVisited f' then childNum else se_MinVisited f')\<rparr> # fs\<rparr>)"

fun DFSVisitChildren :: "nat \<Rightarrow> ('n \<Rightarrow> 'n list) \<Rightarrow> 'n scc_iterator \<Rightarrow> 'n scc_iterator outcome" where
  "DFSVisitChildren 0 succs s = OutOfFuel"
| "DFSVisitChildren (Suc k) succs s = (case VisitStack s of
     [] \<Rightarrow> Crash
   | f # fs \<Rightarrow> (case se_NextChild f of
       [] \<Rightarrow> Done s
     | childN # cs \<Rightarrow> DFSVisitChildren k succs (visit_child succs f childN cs fs s)))"

text \<open>The loop that moves the nodes of a component from the stack; an empty stack is read out of range.\<close>

fun pop_component :: "'n \<Rightarrow> 'n list \<Rightarrow> 'n scc_iterator \<Rightarrow> 'n scc_iterator outcome" where
  "pop_component v [] s = Crash"
| "pop_component v (n # ns) s =
     (let s' = s\<lparr>CurrentSCC := CurrentSCC s @ [n], SCCNodeStack := ns,
                 nodeVisitNumbers := (nodeVisitNumbers s)(n \<mapsto> - 1)\<rparr>
      in if n \<noteq> v then pop_component v ns s' else Done s')"

definition lower_min :: "32 word \<Rightarrow> 'n stack_element list \<Rightarrow> 'n stack_element list" where
  "lower_min m fs = (case fs of [] \<Rightarrow> []
     | p # ps \<Rightarrow> (if m < se_MinVisited p then p\<lparr>se_MinVisited := m\<rparr> else p) # ps)"

fun next_scc_loop :: "nat \<Rightarrow> ('n \<Rightarrow> 'n list) \<Rightarrow> 'n scc_iterator \<Rightarrow> 'n scc_iterator outcome" where
  "next_scc_loop 0 succs s = OutOfFuel"
| "next_scc_loop (Suc k) succs s =
    (if VisitStack s = [] then Done s
     else case DFSVisitChildren k succs s of
       Crash \<Rightarrow> Crash | OutOfFuel \<Rightarrow> OutOfFuel
     | Done t \<Rightarrow> (case VisitStack t of
         [] \<Rightarrow> Crash
       | f # fs \<Rightarrow>
          (let visitingN = se_Node f;
               minVisitNum = se_MinVisited f;
               u = t\<lparr>VisitStack := lower_min minVisitNum fs\<rparr>
           in if nodeVisitNumbers u visitingN \<noteq> Some minVisitNum then next_scc_loop k succs u
              else pop_component visitingN (SCCNodeStack u) u)))"

definition GetNextSCC :: "nat \<Rightarrow> ('n \<Rightarrow> 'n list) \<Rightarrow> 'n scc_iterator \<Rightarrow> 'n scc_iterator outcome" where
  "GetNextSCC k succs s = next_scc_loop k succs (s\<lparr>CurrentSCC := []\<rparr>)"

definition scc_begin :: "nat \<Rightarrow> ('n \<Rightarrow> 'n list) \<Rightarrow> 'n \<Rightarrow> 'n scc_iterator outcome" where
  "scc_begin k succs entry = GetNextSCC k succs (DFSVisitOne succs entry scc_empty)"

definition isAtEnd :: "'n scc_iterator \<Rightarrow> bool" where
  "isAtEnd s = (CurrentSCC s = [])"

definition hasLoop :: "('n \<Rightarrow> 'n list) \<Rightarrow> 'n scc_iterator \<Rightarrow> bool outcome" where
  "hasLoop succs s = (case CurrentSCC s of
     [] \<Rightarrow> Crash
   | n # ns \<Rightarrow> Done (if 1 < length (n # ns) then True else n \<in> set (succs n)))"

text \<open>A node is exchanged for another one; the old one must have been seen.\<close>

definition ReplaceNode :: "'n \<Rightarrow> 'n \<Rightarrow> 'n scc_iterator \<Rightarrow> 'n scc_iterator outcome" where
  "ReplaceNode old new s = (case nodeVisitNumbers s old of
     None \<Rightarrow> Crash
   | Some n \<Rightarrow> Done (s\<lparr>nodeVisitNumbers := ((nodeVisitNumbers s)(new \<mapsto> n))(old := None)\<rparr>))"

text \<open>The components a loop \<^verbatim>\<open>for (I = scc_begin(&G); !I.isAtEnd(); ++I)\<close> sees, in order.\<close>

fun scc_rest :: "nat \<Rightarrow> ('n \<Rightarrow> 'n list) \<Rightarrow> 'n scc_iterator \<Rightarrow> 'n list list outcome" where
  "scc_rest 0 succs s = OutOfFuel"
| "scc_rest (Suc k) succs s =
    (if isAtEnd s then Done []
     else case GetNextSCC k succs s of
       Crash \<Rightarrow> Crash | OutOfFuel \<Rightarrow> OutOfFuel
     | Done t \<Rightarrow> (case scc_rest k succs t of
         Done cs \<Rightarrow> Done (CurrentSCC s # cs) | Crash \<Rightarrow> Crash | OutOfFuel \<Rightarrow> OutOfFuel))"

definition all_sccs :: "nat \<Rightarrow> ('n \<Rightarrow> 'n list) \<Rightarrow> 'n \<Rightarrow> 'n list list outcome" where
  "all_sccs k succs entry = (case scc_begin k succs entry of
     Done s \<Rightarrow> scc_rest k succs s | Crash \<Rightarrow> Crash | OutOfFuel \<Rightarrow> OutOfFuel)"


section \<open>The graph\<close>

definition edges :: "('n \<Rightarrow> 'n list) \<Rightarrow> ('n \<times> 'n) set" where
  "edges succs = {(x, y). y \<in> set (succs x)}"

definition reach :: "('n \<Rightarrow> 'n list) \<Rightarrow> 'n \<Rightarrow> 'n set" where
  "reach succs x = {y. (x, y) \<in> (edges succs)\<^sup>*}"

definition emitted :: "'n scc_iterator \<Rightarrow> 'n set" where
  "emitted s = {x. nodeVisitNumbers s x = Some (- 1)}"

section \<open>The invariant of the search\<close>

text \<open>
  The successors \<open>ys\<close> have been looked at: each has a number, not less than the minimum \<open>m\<close>. Nodes whose
  component was returned have the greatest number, so this says nothing more about them.
\<close>

definition explored :: "('n \<rightharpoonup> 32 word) \<Rightarrow> 32 word \<Rightarrow> 'n list \<Rightarrow> bool" where
  "explored nums m ys \<longleftrightarrow> (\<forall>y\<in>set ys. \<exists>n. nums y = Some n \<and> m \<le> n)"

text \<open>
  The nodes a frame of the visit stack stands for: those on the node stack numbered from its node on and
  below \<open>hi\<close>, the number of the frame above. They and the node reach each other, and the minimum of the
  frame is a lower bound of all that they lead to, and the number of a node that is reached.
\<close>

definition frame_ok ::
  "('n \<Rightarrow> 'n list) \<Rightarrow> ('n \<rightharpoonup> 32 word) \<Rightarrow> 'n set \<Rightarrow> 32 word \<Rightarrow> 'n stack_element \<Rightarrow> bool" where
  "frame_ok succs nums st hi f \<longleftrightarrow>
     (let v = se_Node f; num = the (nums v) in
       v \<in> st \<and> num < hi \<and> se_MinVisited f \<le> num
     \<and> (\<exists>y\<in>st. nums y = Some (se_MinVisited f) \<and> (v, y) \<in> (edges succs)\<^sup>*)
     \<and> (\<exists>d. succs v = d @ se_NextChild f \<and> explored nums (se_MinVisited f) d)
     \<and> (\<forall>x\<in>st. x \<noteq> v \<longrightarrow> num \<le> the (nums x) \<longrightarrow> the (nums x) < hi \<longrightarrow>
          explored nums (se_MinVisited f) (succs x))
     \<and> (\<forall>x\<in>st. num \<le> the (nums x) \<longrightarrow> the (nums x) < hi \<longrightarrow>
          (v, x) \<in> (edges succs)\<^sup>* \<and> (x, v) \<in> (edges succs)\<^sup>*))"

fun frames_ok ::
  "('n \<Rightarrow> 'n list) \<Rightarrow> ('n \<rightharpoonup> 32 word) \<Rightarrow> 'n set \<Rightarrow> 32 word \<Rightarrow> 'n stack_element list \<Rightarrow> bool" where
  "frames_ok succs nums st hi [] \<longleftrightarrow> (\<forall>x\<in>st. hi \<le> the (nums x))"
| "frames_ok succs nums st hi (f # fs) \<longleftrightarrow> frame_ok succs nums st hi f
     \<and> (fs \<noteq> [] \<longrightarrow> (se_Node (hd fs), se_Node f) \<in> (edges succs)\<^sup>*)
     \<and> frames_ok succs nums st (the (nums (se_Node f))) fs"

definition scc_inv :: "('n \<Rightarrow> 'n list) \<Rightarrow> 'n \<Rightarrow> 'n scc_iterator \<Rightarrow> bool" where
  "scc_inv succs entry s \<longleftrightarrow>
     (let nums = nodeVisitNumbers s; st = SCCNodeStack s in
       sorted_wrt (\<lambda>x y. the (nums y) < the (nums x)) st
     \<and> (\<forall>x\<in>set st. \<exists>n. nums x = Some n \<and> n \<noteq> - 1 \<and> n \<le> visitNum s)
     \<and> dom nums = set st \<union> emitted s
     \<and> frames_ok succs nums (set st) (- 1) (VisitStack s)
     \<and> (\<forall>x\<in>emitted s. set (succs x) \<subseteq> emitted s)
     \<and> entry \<in> dom nums \<and> dom nums \<subseteq> reach succs entry
     \<and> unat (visitNum s) = card (dom nums))"

lemma scc_invD:
  assumes "scc_inv succs entry s"
  shows "sorted_wrt (\<lambda>x y. the (nodeVisitNumbers s y) < the (nodeVisitNumbers s x)) (SCCNodeStack s)"
    "\<And>x. x \<in> set (SCCNodeStack s) \<Longrightarrow> \<exists>n. nodeVisitNumbers s x = Some n \<and> n \<noteq> - 1 \<and> n \<le> visitNum s"
    "dom (nodeVisitNumbers s) = set (SCCNodeStack s) \<union> emitted s"
    "frames_ok succs (nodeVisitNumbers s) (set (SCCNodeStack s)) (- 1) (VisitStack s)"
    "\<And>x. x \<in> emitted s \<Longrightarrow> set (succs x) \<subseteq> emitted s"
    "entry \<in> dom (nodeVisitNumbers s)" "dom (nodeVisitNumbers s) \<subseteq> reach succs entry"
    "unat (visitNum s) = card (dom (nodeVisitNumbers s))"
  using assms unfolding scc_inv_def Let_def by blast+

definition small_graph :: "('n \<Rightarrow> 'n list) \<Rightarrow> 'n \<Rightarrow> bool" where
  "small_graph succs entry \<longleftrightarrow> finite (reach succs entry) \<and> card (reach succs entry) < 2 ^ 32 - 1"

definition scc_weight :: "('n \<Rightarrow> 'n list) \<Rightarrow> 'n \<Rightarrow> nat" where
  "scc_weight succs entry = (\<Sum>x\<in>reach succs entry. 1 + length (succs x))"

text \<open>What is left to do: the nodes not seen yet and the children left on the stack.\<close>

definition scc_measure :: "('n \<Rightarrow> 'n list) \<Rightarrow> 'n \<Rightarrow> 'n scc_iterator \<Rightarrow> nat" where
  "scc_measure succs entry s =
     (\<Sum>x\<in>reach succs entry - dom (nodeVisitNumbers s). 1 + length (succs x))
     + (\<Sum>f\<leftarrow>VisitStack s. 1 + length (se_NextChild f))"

section \<open>The frames\<close>

lemma explored_mono:
  assumes "explored nums m ys" "m' \<le> m" "\<And>y n. nums y = Some n \<Longrightarrow> \<exists>n'. nums' y = Some n' \<and> n \<le> n'"
  shows "explored nums' m' ys"
  using assms unfolding explored_def by (meson order_trans)

text \<open>A step that gives a number to a node above all frames, or takes nodes above all frames away.\<close>

lemma frame_ok_change:
  assumes "frame_ok succs nums st hi f"
    and same: "\<And>x. x \<in> st \<Longrightarrow> the (nums x) < hi \<Longrightarrow> x \<in> st' \<and> nums' x = nums x"
    and new: "\<And>x. x \<in> st' \<Longrightarrow> the (nums' x) < hi' \<Longrightarrow> x \<in> st \<and> the (nums x) < hi"
    and below: "\<And>x. x \<in> st \<Longrightarrow> the (nums x) < hi \<Longrightarrow> the (nums x) < hi'"
    and grow: "\<And>y n. nums y = Some n \<Longrightarrow> \<exists>n'. nums' y = Some n' \<and> n \<le> n'"
  shows "frame_ok succs nums' st' hi' f"
proof -
  let ?v = "se_Node f" and ?m = "se_MinVisited f"
  note f = assms(1) [unfolded frame_ok_def Let_def]
  have v: "?v \<in> st" "the (nums ?v) < hi" "?m \<le> the (nums ?v)" using f by blast+
  note v' = same [OF v(1,2)] below [OF v(1,2)]
  have e: "explored nums' ?m ys" if "explored nums ?m ys" for ys
    by (rule explored_mono [OF that _ grow]) auto
  obtain y where y: "y \<in> st" "nums y = Some ?m" "(?v, y) \<in> (edges succs)\<^sup>*" using f by blast
  have y': "y \<in> st'" "nums' y = Some ?m" using same [OF y(1)] y(2) v(2,3) by auto
  obtain d where d: "succs ?v = d @ se_NextChild f" "explored nums ?m d" using f by blast
  have old: "x \<in> st" "the (nums x) < hi" "nums' x = nums x" if "x \<in> st'" "the (nums' x) < hi'" for x
    using new [OF that] same by auto
  have seg: "explored nums ?m (succs x)"
    if "x \<in> st" "x \<noteq> ?v" "the (nums ?v) \<le> the (nums x)" "the (nums x) < hi" for x
    using f that by blast
  have both: "(?v, x) \<in> (edges succs)\<^sup>*" "(x, ?v) \<in> (edges succs)\<^sup>*"
    if "x \<in> st" "the (nums ?v) \<le> the (nums x)" "the (nums x) < hi" for x
    using f that by blast+
  show ?thesis
    unfolding frame_ok_def Let_def
  proof (intro conjI ballI impI)
    show "?v \<in> st'" "the (nums' ?v) < hi'" "?m \<le> the (nums' ?v)" using v' v by simp_all
    show "\<exists>y\<in>st'. nums' y = Some ?m \<and> (?v, y) \<in> (edges succs)\<^sup>*" using y' y by blast
    show "\<exists>d. succs ?v = d @ se_NextChild f \<and> explored nums' ?m d" using d e by blast
  next
    fix x
    assume x: "x \<in> st'" "x \<noteq> ?v" "the (nums' ?v) \<le> the (nums' x)" "the (nums' x) < hi'"
    show "explored nums' ?m (succs x)" using old [OF x(1,4)] x(2,3) v' by (intro e seg) auto
  next
    fix x
    assume x: "x \<in> st'" "the (nums' ?v) \<le> the (nums' x)" "the (nums' x) < hi'"
    show "(?v, x) \<in> (edges succs)\<^sup>*" "(x, ?v) \<in> (edges succs)\<^sup>*"
      using old [OF x(1,3)] x(2) v' by (auto intro: both)
  qed
qed

lemma frames_ok_change:
  assumes "frames_ok succs nums st hi fs"
    and same: "\<And>x. x \<in> st \<Longrightarrow> the (nums x) < hi \<Longrightarrow> x \<in> st' \<and> nums' x = nums x"
    and new: "\<And>x. x \<in> st' \<Longrightarrow> the (nums' x) < hi' \<Longrightarrow> x \<in> st \<and> the (nums x) < hi"
    and below: "\<And>x. x \<in> st \<Longrightarrow> the (nums x) < hi \<Longrightarrow> the (nums x) < hi'"
    and grow: "\<And>y n. nums y = Some n \<Longrightarrow> \<exists>n'. nums' y = Some n' \<and> n \<le> n'"
  shows "frames_ok succs nums' st' hi' fs"
  using assms
proof (induction fs arbitrary: hi hi')
  case Nil
  show ?case
    unfolding frames_ok.simps
  proof (rule ballI, rule ccontr)
    fix x
    assume "x \<in> st'" "\<not> hi' \<le> the (nums' x)"
    then have "x \<in> st \<and> the (nums x) < hi" by (intro Nil.prems(3)) simp_all
    then show False using Nil.prems(1) by auto
  qed
next
  case (Cons f fs)
  let ?v = "se_Node f"
  have f: "frame_ok succs nums st hi f" using Cons.prems(1) by simp
  then have v: "?v \<in> st" "the (nums ?v) < hi" by (simp_all add: frame_ok_def Let_def)
  have num: "the (nums' ?v) = the (nums ?v)" using Cons.prems(2) [OF v] by simp
  have below: "the (nums ?v) < hi'" by (rule Cons.prems(4) [OF v])
  have "frames_ok succs nums' st' (the (nums' ?v)) fs"
  proof (rule Cons.IH)
    show "frames_ok succs nums st (the (nums ?v)) fs" using Cons.prems(1) by simp
    show "x \<in> st' \<and> nums' x = nums x" if "x \<in> st" "the (nums x) < the (nums ?v)" for x
      using Cons.prems(2) [OF that(1)] that(2) v(2) by simp
    show "x \<in> st \<and> the (nums x) < the (nums ?v)" if "x \<in> st'" "the (nums' x) < the (nums' ?v)" for x
    proof -
      have "x \<in> st \<and> the (nums x) < hi" using that below num by (intro Cons.prems(3)) auto
      then show ?thesis using Cons.prems(2) [of x] that num by simp
    qed
    show "the (nums x) < the (nums' ?v)" if "x \<in> st" "the (nums x) < the (nums ?v)" for x
      using that num by simp
  qed (rule Cons.prems(5))
  moreover have "frame_ok succs nums' st' hi' f" by (rule frame_ok_change [OF f Cons.prems(2-5)])
  ultimately show ?case using Cons.prems(1) by simp
qed

text \<open>Every node below a bound reaches the node of the frame on top below it.\<close>

lemma reaches_frame:
  assumes "frames_ok succs nums st hi fs" "y \<in> st" "the (nums y) < hi"
  shows "fs \<noteq> [] \<and> (y, se_Node (hd fs)) \<in> (edges succs)\<^sup>*"
  using assms
proof (induction fs arbitrary: hi)
  case (Cons f fs)
  show ?case
  proof (cases "the (nums (se_Node f)) \<le> the (nums y)")
    case True
    then show ?thesis using Cons.prems by (simp add: frame_ok_def Let_def)
  next
    case False
    have "frames_ok succs nums st (the (nums (se_Node f))) fs" using Cons.prems(1) by simp
    from Cons.IH [OF this Cons.prems(2)] False
    have "fs \<noteq> [] \<and> (y, se_Node (hd fs)) \<in> (edges succs)\<^sup>*" by simp
    then show ?thesis using Cons.prems(1) by (auto intro: rtrancl_trans)
  qed
qed auto

section \<open>Steps of the search\<close>

lemma reach_step: "x \<in> reach succs e \<Longrightarrow> y \<in> set (succs x) \<Longrightarrow> y \<in> reach succs e"
  by (auto simp: reach_def edges_def intro: rtrancl_into_rtrancl)

lemma numbers_grow_update:
  "m y = Some n \<Longrightarrow> m x = None \<Longrightarrow> \<exists>n'. (m(x \<mapsto> k)) y = Some n' \<and> n \<le> (n' :: 32 word)"
  by auto

lemma visit_num_bound:
  assumes inv: "scc_inv succs entry s" and small: "small_graph succs entry"
    and n: "n \<in> reach succs entry" "nodeVisitNumbers s n = None"
  shows "visitNum s < visitNum s + 1" "visitNum s + 1 < - 1"
    "unat (visitNum s + 1) = Suc (unat (visitNum s))"
proof -
  have sub: "insert n (dom (nodeVisitNumbers s)) \<subseteq> reach succs entry"
    using scc_invD(7) [OF inv] n by simp
  have "card (insert n (dom (nodeVisitNumbers s))) \<le> card (reach succs entry)"
    using small by (intro card_mono sub) (simp add: small_graph_def)
  moreover have "finite (dom (nodeVisitNumbers s))"
    using sub small by (auto simp: small_graph_def intro: finite_subset)
  ultimately have lt: "unat (visitNum s) + 1 < 2 ^ 32 - 1"
    using scc_invD(8) [OF inv] n small by (simp add: small_graph_def domIff)
  show eq: "unat (visitNum s + 1) = Suc (unat (visitNum s))"
    using lt by (simp add: unat_word_ariths)
  show "visitNum s < visitNum s + 1" using eq by (simp add: word_less_nat_alt)
  have "unat (- 1 :: 32 word) = 2 ^ 32 - 1" by (simp add: unsigned_minus_1_eq_mask mask_eq_exp_minus_1)
  then show "visitNum s + 1 < - 1" using eq lt unfolding word_less_nat_alt by linarith
qed

text \<open>A node is discovered from the frame on top.\<close>

lemma visit_one_inv:
  assumes inv: "scc_inv succs entry s" and small: "small_graph succs entry"
    and n: "n \<in> reach succs entry" "nodeVisitNumbers s n = None"
    and origin: "VisitStack s \<noteq> []" "(se_Node (hd (VisitStack s)), n) \<in> edges succs"
  shows "scc_inv succs entry (DFSVisitOne succs n s)"
proof -
  let ?nums = "nodeVisitNumbers s" and ?st = "SCCNodeStack s" and ?k = "visitNum s + 1"
  let ?nums' = "?nums(n \<mapsto> ?k)"
  note b = visit_num_bound [OF inv small n]
  have st: "\<exists>m. ?nums x = Some m \<and> m \<noteq> - 1 \<and> m \<le> visitNum s" if "x \<in> set ?st" for x
    by (rule scc_invD(2) [OF inv that])
  have fresh: "n \<notin> set ?st" "n \<notin> emitted s" using st [of n] n(2) by (auto simp: emitted_def)
  have le: "the (?nums x) < ?k" if "x \<in> set ?st" for x
    using st [OF that] b(1) by auto
  have em: "emitted (DFSVisitOne succs n s) = emitted s"
  proof -
    have "?k \<noteq> - 1" using b(2) by (rule less_imp_neq)
    then show ?thesis using n(2) by (auto simp: emitted_def DFSVisitOne_def Let_def simp del: add_eq_0_iff)
  qed
  have same: "?nums' x = ?nums x" if "x \<in> set ?st" for x using that fresh by auto
  have frames: "frames_ok succs ?nums' (insert n (set ?st)) ?k (VisitStack s)"
  proof (rule frames_ok_change)
    show "frames_ok succs ?nums (set ?st) (- 1) (VisitStack s)" by (rule scc_invD(4) [OF inv])
    show "x \<in> insert n (set ?st) \<and> ?nums' x = ?nums x" if "x \<in> set ?st" for x using same that by simp
    show "x \<in> set ?st \<and> the (?nums x) < - 1" if "x \<in> insert n (set ?st)" "the (?nums' x) < ?k" for x
      using that le b(2) fresh by (auto split: if_splits intro: less_trans)
    show "\<exists>n'. ?nums' y = Some n' \<and> m \<le> n'" if "?nums y = Some m" for y m
      using numbers_grow_update that n(2) .
  qed (rule le)
  have others: "x = n" if "x \<in> insert n (set ?st)" "?k \<le> the (?nums' x)" for x
  proof (rule ccontr)
    assume "x \<noteq> n"
    with that(1) have x: "x \<in> set ?st" by simp
    from that(2) le [OF x] same [OF x] show False by simp
  qed
  have top: "frame_ok succs ?nums' (insert n (set ?st)) (- 1)
      \<lparr>se_Node = n, se_NextChild = succs n, se_MinVisited = ?k\<rparr>"
    unfolding frame_ok_def Let_def stack_element.simps
  proof (intro conjI ballI impI)
    fix x
    assume x: "x \<in> insert n (set ?st)"
    show "explored ?nums' ?k (succs x)" if "x \<noteq> n" "the (?nums' n) \<le> the (?nums' x)"
      using others [OF x] that by simp
    assume "the (?nums' n) \<le> the (?nums' x)"
    then have "x = n" by (intro others [OF x]) simp
    then show "(n, x) \<in> (edges succs)\<^sup>*" "(x, n) \<in> (edges succs)\<^sup>*" by simp_all
  next
    show "\<exists>d. succs n = d @ succs n \<and> explored ?nums' ?k d" by (intro exI [of _ "[]"]) (simp add: explored_def)
    show "\<exists>y\<in>insert n (set ?st). ?nums' y = Some ?k \<and> (n, y) \<in> (edges succs)\<^sup>*" by simp
  qed (use b(2) in simp_all)
  have "sorted_wrt (\<lambda>x y. the (?nums' y) < the (?nums' x)) ?st"
    using same by (intro sorted_wrt_mono_rel [OF _ scc_invD(1) [OF inv]]) simp
  then have sorted: "sorted_wrt (\<lambda>x y. the (?nums' y) < the (?nums' x)) (n # ?st)"
    using le same by simp
  have fin: "finite (dom ?nums)"
    using scc_invD(7) [OF inv] small by (auto simp: small_graph_def intro: finite_subset)
  have "card (dom ?nums') = Suc (card (dom ?nums))" using fin n(2) by (simp add: domIff)
  then have card: "unat ?k = card (dom ?nums')" using scc_invD(8) [OF inv] b(3) by simp
  have stack: "\<exists>m. ?nums' x = Some m \<and> m \<noteq> - 1 \<and> m \<le> ?k" if "x \<in> set (n # ?st)" for x
  proof (cases "x = n")
    case True
    then show ?thesis using less_imp_neq [OF b(2)] by (simp del: add_eq_0_iff)
  next
    case False
    then show ?thesis using that st [of x] b(1) by auto
  qed
  have dom: "dom ?nums' = set (n # ?st) \<union> emitted s"
    using scc_invD(3) [OF inv] by simp
  let ?t = "DFSVisitOne succs n s"
  let ?top = "\<lparr>se_Node = n, se_NextChild = succs n, se_MinVisited = ?k\<rparr>"
  have sel: "nodeVisitNumbers ?t = ?nums'" "SCCNodeStack ?t = n # ?st" "visitNum ?t = ?k"
      "VisitStack ?t = ?top # VisitStack s"
    by (simp_all add: DFSVisitOne_def Let_def)
  have "frames_ok succs ?nums' (set (n # ?st)) (- 1) (?top # VisitStack s)"
    using top frames origin by (simp add: r_into_rtrancl)
  moreover have "entry \<in> dom ?nums'" using scc_invD(6) [OF inv] by simp
  moreover have "dom ?nums' \<subseteq> reach succs entry" using scc_invD(7) [OF inv] n(1) by simp
  ultimately show ?thesis
    unfolding scc_inv_def Let_def em sel
    using sorted stack dom card scc_invD(5) [OF inv] by blast
qed

lemma scc_inv_frames:
  assumes "scc_inv succs entry s" "frames_ok succs (nodeVisitNumbers s) (set (SCCNodeStack s)) (- 1) fs"
  shows "scc_inv succs entry (s\<lparr>VisitStack := fs\<rparr>)"
proof -
  have "emitted (s\<lparr>VisitStack := fs\<rparr>) = emitted s" by (simp add: emitted_def)
  note em = this
  have sel: "nodeVisitNumbers (s\<lparr>VisitStack := fs\<rparr>) = nodeVisitNumbers s"
      "SCCNodeStack (s\<lparr>VisitStack := fs\<rparr>) = SCCNodeStack s"
      "visitNum (s\<lparr>VisitStack := fs\<rparr>) = visitNum s" "VisitStack (s\<lparr>VisitStack := fs\<rparr>) = fs"
    by simp_all
  show ?thesis unfolding scc_inv_def Let_def em sel using scc_invD [OF assms(1)] assms(2) by blast
qed

text \<open>The frame on top of the visit stack.\<close>

lemma top_frame:
  assumes inv: "scc_inv succs entry s" and f: "VisitStack s = f # fs"
  shows "frames_ok succs (nodeVisitNumbers s) (set (SCCNodeStack s)) (- 1) (f # fs)"
    "frame_ok succs (nodeVisitNumbers s) (set (SCCNodeStack s)) (- 1) f"
    "se_Node f \<in> set (SCCNodeStack s)"
    "\<exists>n. nodeVisitNumbers s (se_Node f) = Some n \<and> se_MinVisited f \<le> n \<and> n < - 1 \<and> n \<le> visitNum s"
    "se_Node f \<in> reach succs entry"
    "\<And>c. c \<in> set (se_NextChild f) \<Longrightarrow> c \<in> set (succs (se_Node f)) \<and> c \<in> reach succs entry"
proof -
  show fr: "frames_ok succs (nodeVisitNumbers s) (set (SCCNodeStack s)) (- 1) (f # fs)"
    using scc_invD(4) [OF inv] f by simp
  then show fo: "frame_ok succs (nodeVisitNumbers s) (set (SCCNodeStack s)) (- 1) f" by simp
  then show v: "se_Node f \<in> set (SCCNodeStack s)" by (simp add: frame_ok_def Let_def)
  show "\<exists>n. nodeVisitNumbers s (se_Node f) = Some n \<and> se_MinVisited f \<le> n \<and> n < - 1 \<and> n \<le> visitNum s"
    using scc_invD(2) [OF inv v] fo by (auto simp: frame_ok_def Let_def)
  have "se_Node f \<in> dom (nodeVisitNumbers s)" using scc_invD(3) [OF inv] v by blast
  then show r: "se_Node f \<in> reach succs entry" using scc_invD(7) [OF inv] by blast
  fix c
  assume "c \<in> set (se_NextChild f)"
  then have "c \<in> set (succs (se_Node f))" using fo by (auto simp: frame_ok_def Let_def)
  with reach_step [OF r] show "c \<in> set (succs (se_Node f)) \<and> c \<in> reach succs entry" by blast
qed

text \<open>The child of a frame was looked at; its number may lower the minimum.\<close>

lemma frame_ok_child:
  assumes f: "frame_ok succs nums st hi f" and c: "se_NextChild f = c # cs" and n: "nums c = Some n"
    and st: "n < se_MinVisited f \<Longrightarrow> c \<in> st"
  shows "frame_ok succs nums st hi
    (f\<lparr>se_NextChild := cs, se_MinVisited := (if n < se_MinVisited f then n else se_MinVisited f)\<rparr>)"
proof -
  let ?v = "se_Node f" and ?m = "if n < se_MinVisited f then n else se_MinVisited f"
  note f' = f [unfolded frame_ok_def Let_def]
  have le: "?m \<le> se_MinVisited f" "?m \<le> n" by auto
  have e: "explored nums ?m ys" if "explored nums (se_MinVisited f) ys" for ys
    by (rule explored_mono [OF that le(1)]) auto
  obtain d where d: "succs ?v = d @ c # cs" "explored nums (se_MinVisited f) d" using f' c by auto
  have "explored nums ?m (d @ [c])" using e [OF d(2)] n le(2) by (auto simp: explored_def)
  then have d': "\<exists>d. succs ?v = d @ cs \<and> explored nums ?m d" using d(1) by (intro exI [of _ "d @ [c]"]) simp
  have "(?v, c) \<in> edges succs" using d(1) by (simp add: edges_def)
  then have y: "\<exists>y\<in>st. nums y = Some ?m \<and> (?v, y) \<in> (edges succs)\<^sup>*"
    using f' n st by (cases "n < se_MinVisited f") (auto intro: r_into_rtrancl)
  have "?m \<le> the (nums ?v)" using le(1) f' by (blast intro: order_trans)
  then show ?thesis using f' e d' y unfolding frame_ok_def Let_def by simp
qed

lemma frames_ok_child:
  assumes "frames_ok succs nums st hi (f # fs)" "frame_ok succs nums st hi f'" "se_Node f' = se_Node f"
  shows "frames_ok succs nums st hi (f' # fs)"
  using assms by simp

lemma visit_child_inv:
  assumes inv: "scc_inv succs entry s" and small: "small_graph succs entry"
    and f: "VisitStack s = f # fs" "se_NextChild f = c # cs"
  shows "scc_inv succs entry (visit_child succs f c cs fs s)"
proof -
  let ?nums = "nodeVisitNumbers s" and ?st = "SCCNodeStack s"
  note top = top_frame [OF inv f(1)]
  have frames: "frames_ok succs ?nums (set ?st) (- 1) (f # fs)" by (rule top(1))
  note fo = top(2)
  obtain vn where vn: "?nums (se_Node f) = Some vn" "se_MinVisited f \<le> vn" "vn < - 1" "vn \<le> visitNum s"
    using top(4) by blast
  have v: "c \<in> set (succs (se_Node f))" and reached: "c \<in> reach succs entry" using top(6) [of c] f(2) by simp_all
  show ?thesis
  proof (cases "?nums c")
    case (Some n)
    have "c \<in> set ?st" if "n < se_MinVisited f"
    proof -
      have "n \<noteq> - 1" using that vn(2,3) by (metis less_le_trans not_less_iff_gr_or_eq order.strict_trans)
      moreover have "c \<in> set ?st \<union> emitted s" using scc_invD(3) [OF inv] Some by blast
      ultimately show ?thesis using Some by (simp add: emitted_def)
    qed
    then have "frame_ok succs ?nums (set ?st) (- 1)
        (f\<lparr>se_NextChild := cs, se_MinVisited := (if n < se_MinVisited f then n else se_MinVisited f)\<rparr>)"
      by (rule frame_ok_child [OF fo f(2) Some])
    then have "frames_ok succs ?nums (set ?st) (- 1)
        (f\<lparr>se_NextChild := cs, se_MinVisited := (if n < se_MinVisited f then n else se_MinVisited f)\<rparr> # fs)"
      using frames by simp
    from scc_inv_frames [OF inv this] Some show ?thesis
      by (simp add: visit_child_def Let_def cong: if_cong)
  next
    case None
    let ?k = "visitNum s + 1"
    let ?top = "\<lparr>se_Node = c, se_NextChild = succs c, se_MinVisited = ?k\<rparr>"
    let ?u = "DFSVisitOne succs c s"
    have u: "scc_inv succs entry ?u"
      using f v by (intro visit_one_inv inv small reached None) (simp_all add: edges_def)
    have stack: "VisitStack ?u = ?top # f # fs" using f(1) by (simp add: DFSVisitOne_def Let_def)
    let ?nums' = "nodeVisitNumbers ?u" and ?st' = "set (SCCNodeStack ?u)"
    have frames': "frames_ok succs ?nums' ?st' (- 1) (?top # f # fs)"
      using scc_invD(4) [OF u] stack by simp
    have c: "?nums' c = Some ?k" by (simp add: DFSVisitOne_def Let_def)
    have "se_MinVisited f \<le> visitNum s" using vn(2,4) by (rule order_trans)
    then have le: "\<not> ?k < se_MinVisited f" using visit_num_bound(1) [OF inv small reached None] by order
    have top: "the (?nums' (se_Node ?top)) = ?k" using c by simp
    have second: "frames_ok succs ?nums' ?st' ?k (f # fs)" using frames' c by simp
    then have "frame_ok succs ?nums' ?st' ?k f" by simp
    from frame_ok_child [OF this f(2) c] le
    have "frame_ok succs ?nums' ?st' ?k (f\<lparr>se_NextChild := cs\<rparr>)" by simp
    then have "frames_ok succs ?nums' ?st' ?k (f\<lparr>se_NextChild := cs\<rparr> # fs)"
      by (rule frames_ok_child [OF second]) simp
    then have "frames_ok succs ?nums' ?st' (- 1) (?top # f\<lparr>se_NextChild := cs\<rparr> # fs)"
      using frames' c by simp
    from scc_inv_frames [OF u this] show ?thesis
      using None by (simp add: visit_child_def DFSVisitOne_def Let_def)
  qed
qed

text \<open>The work left gets less with every child.\<close>

lemma visit_child_measure:
  assumes inv: "scc_inv succs entry s" and small: "small_graph succs entry"
    and f: "VisitStack s = f # fs" "se_NextChild f = c # cs"
  shows "scc_measure succs entry (visit_child succs f c cs fs s) < scc_measure succs entry s"
proof (cases "nodeVisitNumbers s c")
  case None
  let ?R = "reach succs entry - dom (nodeVisitNumbers s)"
  have "c \<in> reach succs entry" using top_frame(6) [OF inv f(1), of c] f(2) by simp
  then have c: "c \<in> ?R" using None by auto
  have "finite ?R" using small by (simp add: small_graph_def)
  from sum.remove [OF this c, of "\<lambda>x. 1 + length (succs x)"]
  have eq: "(\<Sum>x\<in>?R. 1 + length (succs x)) = 1 + length (succs c) + (\<Sum>x\<in>?R - {c}. 1 + length (succs x))" .
  have R: "reach succs entry - insert c (dom (nodeVisitNumbers s)) = ?R - {c}" by blast
  show ?thesis using None f eq
    by (simp add: scc_measure_def visit_child_def DFSVisitOne_def Let_def R)
next
  case (Some n)
  then show ?thesis using f by (simp add: scc_measure_def visit_child_def Let_def)
qed

lemma visit_children:
  assumes "scc_inv succs entry s" "small_graph succs entry" "VisitStack s \<noteq> []"
  shows "case DFSVisitChildren k succs s of
      Done t \<Rightarrow> scc_inv succs entry t \<and> emitted t = emitted s \<and> CurrentSCC t = CurrentSCC s
        \<and> (\<exists>f fs. VisitStack t = f # fs \<and> se_NextChild f = [])
        \<and> scc_measure succs entry t \<le> scc_measure succs entry s
    | Crash \<Rightarrow> False
    | OutOfFuel \<Rightarrow> k < scc_measure succs entry s"
  using assms
proof (induction k arbitrary: s)
  case 0
  then show ?case by (cases "VisitStack s") (auto simp: scc_measure_def)
next
  case (Suc k)
  then obtain f fs where f: "VisitStack s = f # fs" by (cases "VisitStack s") auto
  show ?case
  proof (cases "se_NextChild f")
    case Nil
    then show ?thesis using f Suc.prems(1) by simp
  next
    case (Cons c cs)
    let ?t = "visit_child succs f c cs fs s"
    have t: "scc_inv succs entry ?t" by (rule visit_child_inv [OF Suc.prems(1,2) f Cons])
    have less: "scc_measure succs entry ?t < scc_measure succs entry s"
      by (rule visit_child_measure [OF Suc.prems(1,2) f Cons])
    have ne: "VisitStack ?t \<noteq> []"
      by (simp add: visit_child_def DFSVisitOne_def Let_def split: option.split)
    have em: "emitted ?t = emitted s" "CurrentSCC ?t = CurrentSCC s"
    proof -
      have "visitNum s + 1 \<noteq> - 1" if "nodeVisitNumbers s c = None"
      proof -
        have "c \<in> reach succs entry" using top_frame(6) [OF Suc.prems(1) f, of c] Cons by simp
        from visit_num_bound(2) [OF Suc.prems(1,2) this that] show ?thesis by (rule less_imp_neq)
      qed
      then show "emitted ?t = emitted s" "CurrentSCC ?t = CurrentSCC s"
        by (auto simp: visit_child_def DFSVisitOne_def emitted_def Let_def split: option.split)
    qed
    show ?thesis using Suc.IH [OF t Suc.prems(2) ne] less em f Cons
      by (auto split: outcome.splits)
  qed
qed

section \<open>A frame is left\<close>

text \<open>Its minimum is below its number: its nodes join those of the frame below.\<close>

lemma frames_ok_join:
  assumes frames: "frames_ok succs nums st hi (f # fs)" and f: "se_NextChild f = []"
    and less: "se_MinVisited f < the (nums (se_Node f))"
  shows "fs \<noteq> [] \<and> frames_ok succs nums st hi (lower_min (se_MinVisited f) fs)"
proof -
  let ?v = "se_Node f" and ?E = "(edges succs)\<^sup>*"
  note fo = conjunct1 [OF frames [unfolded frames_ok.simps], unfolded frame_ok_def Let_def]
  have v: "?v \<in> st" "the (nums ?v) < hi" using fo by blast+
  obtain y where y: "y \<in> st" "nums y = Some (se_MinVisited f)" "(?v, y) \<in> ?E" using fo by blast
  have rest: "frames_ok succs nums st (the (nums ?v)) fs" using frames by simp
  have "fs \<noteq> [] \<and> (y, se_Node (hd fs)) \<in> ?E"
    using y less by (intro reaches_frame [OF rest]) simp_all
  then obtain p ps where fs: "fs = p # ps" and yp: "(y, se_Node p) \<in> ?E" by (cases fs) auto
  let ?p = "se_Node p"
  have pv: "(?p, ?v) \<in> ?E" and vp: "(?v, ?p) \<in> ?E" using frames fs y(3) yp by (auto intro: rtrancl_trans)
  note po = rest [unfolded fs frames_ok.simps, THEN conjunct1, unfolded frame_ok_def Let_def]
  define m where "m = (if se_MinVisited f < se_MinVisited p then se_MinVisited f else se_MinVisited p)"
  have m: "m \<le> se_MinVisited f" "m \<le> se_MinVisited p" by (auto simp: m_def)
  have num_p: "the (nums ?p) < the (nums ?v)" using po by blast
  have e: "explored nums m ys" if "explored nums m' ys" "m \<le> m'" for m' ys
    by (rule explored_mono [OF that]) auto
  have vs: "explored nums (se_MinVisited f) (succs ?v)" using fo f by auto
  have "frame_ok succs nums st hi (p\<lparr>se_MinVisited := m\<rparr>)"
    unfolding frame_ok_def Let_def
  proof (intro conjI ballI impI)
    let ?p' = "p\<lparr>se_MinVisited := m\<rparr>"
    show "se_Node ?p' \<in> st" using po by simp
    show "the (nums (se_Node ?p')) < hi" using less_trans [OF num_p v(2)] by simp
    have "se_MinVisited p \<le> the (nums ?p)" using po by blast
    with m(2) show "se_MinVisited ?p' \<le> the (nums (se_Node ?p'))" by simp
    obtain z where z: "z \<in> st" "nums z = Some (se_MinVisited p)" "(?p, z) \<in> ?E" using po by blast
    have "(?p, y) \<in> ?E" using pv y(3) by (rule rtrancl_trans)
    then show "\<exists>y\<in>st. nums y = Some (se_MinVisited ?p') \<and> (se_Node ?p', y) \<in> ?E"
      using y z by (cases "se_MinVisited f < se_MinVisited p") (auto simp: m_def)
    obtain d where d: "succs ?p = d @ se_NextChild p" "explored nums (se_MinVisited p) d" using po by blast
    show "\<exists>d. succs (se_Node ?p') = d @ se_NextChild ?p' \<and> explored nums (se_MinVisited ?p') d"
      using d(1) e [OF d(2) m(2)] by auto
  next
    fix x
    assume x: "x \<in> st" "x \<noteq> se_Node (p\<lparr>se_MinVisited := m\<rparr>)"
      "the (nums (se_Node (p\<lparr>se_MinVisited := m\<rparr>))) \<le> the (nums x)" "the (nums x) < hi"
    then have x': "x \<noteq> ?p" "the (nums ?p) \<le> the (nums x)" by simp_all
    show "explored nums (se_MinVisited (p\<lparr>se_MinVisited := m\<rparr>)) (succs x)"
    proof (cases "the (nums x) < the (nums ?v)")
      case True
      then have "explored nums (se_MinVisited p) (succs x)" using po x(1) x' by blast
      from e [OF this m(2)] show ?thesis by simp
    next
      case False
      then have "explored nums (se_MinVisited f) (succs x)"
        using fo vs x(1,4) by (cases "x = ?v") (simp_all add: not_less)
      from e [OF this m(1)] show ?thesis by simp
    qed
  next
    fix x
    assume x0: "x \<in> st" "the (nums (se_Node (p\<lparr>se_MinVisited := m\<rparr>))) \<le> the (nums x)" "the (nums x) < hi"
    then have x: "x \<in> st" "the (nums ?p) \<le> the (nums x)" "the (nums x) < hi" by simp_all
    have "(?p, x) \<in> ?E \<and> (x, ?p) \<in> ?E"
    proof (cases "the (nums x) < the (nums ?v)")
      case True
      then show ?thesis using po x by blast
    next
      case False
      then have "(?v, x) \<in> ?E \<and> (x, ?v) \<in> ?E" using fo x by simp
      then show ?thesis using pv vp by (blast intro: rtrancl_trans)
    qed
    then show "(se_Node (p\<lparr>se_MinVisited := m\<rparr>), x) \<in> ?E"
        "(x, se_Node (p\<lparr>se_MinVisited := m\<rparr>)) \<in> ?E" by simp_all
  qed
  then show ?thesis using rest fs by (auto simp: lower_min_def m_def)
qed

section \<open>A component is complete\<close>

lemma pop_component_eq:
  assumes "v \<notin> set xs"
  shows "pop_component v (xs @ v # ys) s = Done (s\<lparr>CurrentSCC := CurrentSCC s @ xs @ [v], SCCNodeStack := ys,
      nodeVisitNumbers := (\<lambda>x. if x \<in> set (xs @ [v]) then Some (- 1) else nodeVisitNumbers s x)\<rparr>)"
  using assms by (induction xs arbitrary: s) (auto simp: Let_def fun_eq_iff)

definition new_component ::
  "('n \<Rightarrow> 'n list) \<Rightarrow> 'n scc_iterator \<Rightarrow> 'n scc_iterator \<Rightarrow> bool" where
  "new_component succs s t \<longleftrightarrow> CurrentSCC t \<noteq> [] \<and> distinct (CurrentSCC t)
     \<and> set (CurrentSCC t) \<inter> emitted s = {} \<and> emitted t = emitted s \<union> set (CurrentSCC t)
     \<and> (\<forall>x\<in>set (CurrentSCC t). \<forall>y\<in>set (CurrentSCC t). (x, y) \<in> (edges succs)\<^sup>*)"

lemma lower_min_id:
  assumes "frames_ok succs nums st hi fs" "hi \<le> m"
  shows "lower_min m fs = fs"
proof (cases fs)
  case (Cons p ps)
  then have "frame_ok succs nums st hi p" using assms(1) by simp
  then have "se_MinVisited p < hi" unfolding frame_ok_def Let_def by (meson le_less_trans)
  then have "\<not> m < se_MinVisited p" using assms(2) by order
  then show ?thesis using Cons by (simp add: lower_min_def)
qed (simp add: lower_min_def)

lemma distinct_descending:
  "sorted_wrt (\<lambda>x y. g y < (g x :: 32 word)) xs \<Longrightarrow> distinct xs"
  by (induction xs) auto

lemma component_inv:
  assumes inv: "scc_inv succs entry t" and f: "VisitStack t = f # fs" "se_NextChild f = []"
    and m: "nodeVisitNumbers t (se_Node f) = Some (se_MinVisited f)" and cur: "CurrentSCC t = []"
  shows "\<exists>u. pop_component (se_Node f) (SCCNodeStack t) (t\<lparr>VisitStack := lower_min (se_MinVisited f) fs\<rparr>) = Done u
    \<and> scc_inv succs entry u \<and> new_component succs t u \<and> VisitStack u = fs
    \<and> dom (nodeVisitNumbers u) = dom (nodeVisitNumbers t)"
proof -
  let ?v = "se_Node f" and ?m = "se_MinVisited f" and ?nums = "nodeVisitNumbers t" and ?E = "(edges succs)\<^sup>*"
  note top = top_frame [OF inv f(1)]
  note fo = top(2) [unfolded frame_ok_def Let_def]
  have rest: "frames_ok succs ?nums (set (SCCNodeStack t)) ?m fs" using top(1) m by simp
  obtain xs ys where st: "SCCNodeStack t = xs @ ?v # ys" using split_list [OF top(3)] by blast
  note sorted = scc_invD(1) [OF inv, unfolded st]
  have above: "?m < the (?nums x)" if "x \<in> set xs" for x
    using sorted that m by (auto simp: sorted_wrt_append)
  have below: "the (?nums y) < ?m" if "y \<in> set ys" for y
    using sorted that m by (auto simp: sorted_wrt_append)
  have v: "?v \<notin> set xs" "?v \<notin> set ys" using above [of ?v] below [of ?v] m by auto
  have num: "\<exists>n. ?nums x = Some n \<and> n \<noteq> - 1 \<and> n \<le> visitNum t" if "x \<in> set (SCCNodeStack t)" for x
    by (rule scc_invD(2) [OF inv that])
  have num1: "the (?nums x) < - 1" if x: "x \<in> set (SCCNodeStack t)" for x
  proof -
    obtain n where "?nums x = Some n" "n \<noteq> - 1" using num [OF x] by blast
    then show ?thesis using word_order.not_eq_extremum [of n] by simp
  qed
  define C where "C = xs @ [?v]"
  have C: "x \<in> set C \<longleftrightarrow> x \<in> set (SCCNodeStack t) \<and> ?m \<le> the (?nums x)" for x
    using above below m by (fastforce simp: C_def st)
  define u where "u = t\<lparr>VisitStack := fs, CurrentSCC := C, SCCNodeStack := ys,
      nodeVisitNumbers := (\<lambda>x. if x \<in> set C then Some (- 1) else ?nums x)\<rparr>"
  let ?nums' = "nodeVisitNumbers u"
  have sel: "?nums' = (\<lambda>x. if x \<in> set C then Some (- 1) else ?nums x)" "SCCNodeStack u = ys"
    "visitNum u = visitNum t" "VisitStack u = fs" "CurrentSCC u = C"
    by (simp_all add: u_def)
  have keep: "nodeVisitNumbers (t\<lparr>VisitStack := fs\<rparr>) = ?nums" by simp
  have pop: "pop_component ?v (SCCNodeStack t) (t\<lparr>VisitStack := lower_min ?m fs\<rparr>) = Done u"
    unfolding st pop_component_eq [OF v(1)] lower_min_id [OF rest order_refl] keep
    using cur by (simp add: u_def C_def)
  have ysC: "y \<notin> set C" if "y \<in> set ys" for y using below [OF that] C [of y] by auto
  have em: "emitted u = emitted t \<union> set C" by (auto simp: emitted_def sel(1))
  have disj: "set C \<inter> emitted t = {}" using C num1 by (fastforce simp: emitted_def)
  have stack: "set (SCCNodeStack t) = set C \<union> set ys" by (auto simp: st C_def)
  have grow: "\<exists>n'. ?nums' y = Some n' \<and> n \<le> n'" if "?nums y = Some n" for y n
    using that by (simp add: sel(1))
  have frames: "frames_ok succs ?nums' (set ys) (- 1) fs"
  proof (rule frames_ok_change [OF rest _ _ _ grow])
    show "x \<in> set ys \<and> ?nums' x = ?nums x" if "x \<in> set (SCCNodeStack t)" "the (?nums x) < ?m" for x
    proof -
      have xC: "x \<notin> set C" using that(2) C [of x] by (simp add: not_le)
      then have "x \<in> set ys" using that(1) stack by blast
      then show ?thesis using xC by (simp add: sel(1))
    qed
    show "x \<in> set (SCCNodeStack t) \<and> the (?nums x) < ?m" if "x \<in> set ys" for x
      using that below stack by blast
    show "the (?nums x) < - 1" if "x \<in> set (SCCNodeStack t)" for x by (rule num1 [OF that])
  qed
  have closed: "set (succs x) \<subseteq> emitted u" if "x \<in> emitted u" for x
  proof (cases "x \<in> emitted t")
    case True
    then show ?thesis using scc_invD(5) [OF inv] em by blast
  next
    case False
    then have x: "x \<in> set (SCCNodeStack t)" "?m \<le> the (?nums x)" using that em C by auto
    have "explored ?nums ?m (succs x)"
      using fo f(2) x num1 [OF x(1)] m by (cases "x = ?v") auto
    moreover have "y \<in> set C \<or> y \<in> emitted t" if "?nums y = Some n" "?m \<le> n" for y n
      using that scc_invD(3) [OF inv] C [of y] by auto
    ultimately show ?thesis unfolding explored_def em by blast
  qed
  have sorted': "sorted_wrt (\<lambda>x y. the (?nums' y) < the (?nums' x)) ys"
  proof (rule sorted_wrt_mono_rel)
    show "sorted_wrt (\<lambda>x y. the (?nums y) < the (?nums x)) ys" using sorted by (simp add: sorted_wrt_append)
  qed (simp add: sel(1) ysC)
  have num': "\<exists>n. ?nums' x = Some n \<and> n \<noteq> - 1 \<and> n \<le> visitNum t" if "x \<in> set ys" for x
  proof -
    have "x \<in> set (SCCNodeStack t)" using that stack by blast
    from num [OF this] ysC [OF that] show ?thesis by (simp add: sel(1))
  qed
  have "\<exists>n. ?nums x = Some n" if "x \<in> set C" for x using scc_invD(3) [OF inv] stack that by blast
  then have dom: "dom ?nums' = dom ?nums" by (auto simp: sel(1) split: if_splits)
  have dom': "dom ?nums' = set ys \<union> emitted u" unfolding dom em scc_invD(3) [OF inv] stack by blast
  have "scc_inv succs entry u"
    unfolding scc_inv_def Let_def sel(2,3,4)
    using sorted' num' dom' frames closed scc_invD(6,7,8) [OF inv, folded dom] by blast
  moreover have "distinct C"
    using distinct_descending [OF sorted] by (auto simp: C_def)
  moreover have "(x, y) \<in> ?E" if "x \<in> set C" "y \<in> set C" for x y
    using fo that C num1 m by (auto intro: rtrancl_trans [of x ?v])
  moreover have "C \<noteq> []" by (simp add: C_def)
  ultimately show ?thesis
    using pop dom em disj sel(4,5) unfolding new_component_def by blast
qed

text \<open>The next component, or the end of the search.\<close>

definition scc_next :: "('n \<Rightarrow> 'n list) \<Rightarrow> 'n \<Rightarrow> 'n scc_iterator \<Rightarrow> 'n scc_iterator \<Rightarrow> bool" where
  "scc_next succs entry s t \<longleftrightarrow> scc_inv succs entry t
     \<and> (if CurrentSCC t = [] then VisitStack t = [] \<and> emitted t = emitted s
        else new_component succs s t \<and> scc_measure succs entry t < scc_measure succs entry s)"

lemma next_scc_loop_spec:
  assumes "scc_inv succs entry s" "small_graph succs entry" "CurrentSCC s = []"
  shows "case next_scc_loop k succs s of
      Done t \<Rightarrow> scc_next succs entry s t
    | Crash \<Rightarrow> False
    | OutOfFuel \<Rightarrow> k \<le> scc_measure succs entry s"
  using assms
proof (induction k arbitrary: s)
  case (Suc k)
  show ?case
  proof (cases "VisitStack s")
    case Nil
    then show ?thesis using Suc.prems by (simp add: scc_next_def)
  next
    case Cons
    then have ne: "VisitStack s \<noteq> []" by simp
    note vc = visit_children [OF Suc.prems(1,2) ne, of k]
    show ?thesis
    proof (cases "DFSVisitChildren k succs s")
      case (Done t)
      with vc obtain f fs where t: "scc_inv succs entry t" "emitted t = emitted s" "CurrentSCC t = []"
          "VisitStack t = f # fs" "se_NextChild f = []" "scc_measure succs entry t \<le> scc_measure succs entry s"
        using Suc.prems(3) by auto
      let ?u = "t\<lparr>VisitStack := lower_min (se_MinVisited f) fs\<rparr>"
      have nums: "nodeVisitNumbers ?u = nodeVisitNumbers t" "SCCNodeStack ?u = SCCNodeStack t" by simp_all
      have step: "next_scc_loop (Suc k) succs s =
          (if nodeVisitNumbers t (se_Node f) \<noteq> Some (se_MinVisited f) then next_scc_loop k succs ?u
           else pop_component (se_Node f) (SCCNodeStack t) ?u)"
        using ne Done t(4) by (simp add: Let_def)
      show ?thesis
      proof (cases "nodeVisitNumbers t (se_Node f) = Some (se_MinVisited f)")
        case True
        obtain u where u: "pop_component (se_Node f) (SCCNodeStack t) ?u = Done u" "scc_inv succs entry u"
            "new_component succs t u" "VisitStack u = fs" "dom (nodeVisitNumbers u) = dom (nodeVisitNumbers t)"
          using component_inv [OF t(1,4,5) True t(3)] by blast
        have "scc_measure succs entry u < scc_measure succs entry t"
          by (simp add: scc_measure_def u(4,5) t(4))
        then show ?thesis
          using True step u t(2,6) by (simp add: scc_next_def new_component_def)
      next
        case False
        have "se_MinVisited f < the (nodeVisitNumbers t (se_Node f))"
          using top_frame(4) [OF t(1,4)] False by auto
        from frames_ok_join [OF top_frame(1) [OF t(1,4)] t(5) this]
        have u: "scc_inv succs entry ?u" by (intro scc_inv_frames [OF t(1)]) simp
        have less: "scc_measure succs entry ?u < scc_measure succs entry t"
          by (cases fs) (simp_all add: scc_measure_def t(4) lower_min_def)
        have em: "emitted ?u = emitted s" using t(2) by (simp add: emitted_def)
        have nx: "scc_next succs entry s w" if "scc_next succs entry ?u w" for w
        proof -
          have eq: "new_component succs ?u w = new_component succs s w" by (simp only: new_component_def em)
          have m: "scc_measure succs entry ?u \<le> scc_measure succs entry s" using less t(6) by simp
          show ?thesis using that m unfolding scc_next_def eq em by (simp split: if_splits)
        qed
        have "CurrentSCC ?u = []" using t(3) by simp
        note IH = Suc.IH [OF u Suc.prems(2) this]
        have eq: "next_scc_loop (Suc k) succs s = next_scc_loop k succs ?u" unfolding step using False by simp
        show ?thesis
        proof (cases "next_scc_loop k succs ?u")
          case (Done w)
          then show ?thesis using IH nx eq by simp
        next
          case Crash
          then show ?thesis using IH by simp
        next
          case OutOfFuel
          then have "k \<le> scc_measure succs entry ?u" using IH by simp
          then show ?thesis unfolding eq OutOfFuel using less t(6) by simp
        qed
      qed
    next
      case Crash
      then show ?thesis using vc by simp
    next
      case OutOfFuel
      then show ?thesis using vc ne by simp
    qed
  qed
qed simp

lemma scc_inv_current:
  assumes inv: "scc_inv succs entry s"
  shows "scc_inv succs entry (s\<lparr>CurrentSCC := c\<rparr>)"
proof -
  have em: "emitted (s\<lparr>CurrentSCC := c\<rparr>) = emitted s" by (simp add: emitted_def)
  have sel: "nodeVisitNumbers (s\<lparr>CurrentSCC := c\<rparr>) = nodeVisitNumbers s"
      "SCCNodeStack (s\<lparr>CurrentSCC := c\<rparr>) = SCCNodeStack s"
      "visitNum (s\<lparr>CurrentSCC := c\<rparr>) = visitNum s" "VisitStack (s\<lparr>CurrentSCC := c\<rparr>) = VisitStack s"
    by simp_all
  show ?thesis unfolding scc_inv_def Let_def em sel using scc_invD [OF inv] by blast
qed

lemma GetNextSCC_spec:
  assumes inv: "scc_inv succs entry s" and small: "small_graph succs entry"
  shows "case GetNextSCC k succs s of
      Done t \<Rightarrow> scc_next succs entry s t
    | Crash \<Rightarrow> False
    | OutOfFuel \<Rightarrow> k \<le> scc_measure succs entry s"
proof -
  let ?s = "s\<lparr>CurrentSCC := []\<rparr>"
  have same: "emitted ?s = emitted s" "scc_measure succs entry ?s = scc_measure succs entry s"
    by (simp_all add: emitted_def scc_measure_def)
  have "CurrentSCC ?s = []" by simp
  note spec = next_scc_loop_spec [OF scc_inv_current [OF inv] small this, of k]
  have "scc_next succs entry ?s t = scc_next succs entry s t" for t
    by (simp add: scc_next_def new_component_def same)
  with spec show ?thesis by (simp add: GetNextSCC_def same cong: outcome.case_cong)
qed

section \<open>The enumeration\<close>

text \<open>What the loop over the components has seen: \<open>done\<close> was returned before.\<close>

definition bottom_up :: "('n \<Rightarrow> 'n list) \<Rightarrow> 'n set \<Rightarrow> 'n list list \<Rightarrow> bool" where
  "bottom_up succs before cs \<longleftrightarrow>
     (\<forall>i<length cs. \<forall>x\<in>set (cs ! i). set (succs x) \<subseteq> before \<union> set (concat (take (Suc i) cs)))"

lemma bottom_up_Cons:
  "bottom_up succs before (c # cs) \<longleftrightarrow>
     (\<forall>x\<in>set c. set (succs x) \<subseteq> before \<union> set c) \<and> bottom_up succs (before \<union> set c) cs"
  unfolding bottom_up_def All_less_Suc2 length_Cons by (simp add: Un_assoc)

definition component_of :: "('n \<Rightarrow> 'n list) \<Rightarrow> 'n \<Rightarrow> 'n set" where
  "component_of succs x = {y. (x, y) \<in> (edges succs)\<^sup>* \<and> (y, x) \<in> (edges succs)\<^sup>*}"

lemma closed_reach:
  assumes "\<And>x. x \<in> A \<Longrightarrow> set (succs x) \<subseteq> A" "(x, y) \<in> (edges succs)\<^sup>*" "x \<in> A"
  shows "y \<in> A"
  using assms(2,3) by (induction rule: rtrancl_induct) (use assms(1) in \<open>auto simp: edges_def\<close>)

lemma new_component_maximal:
  assumes inv: "scc_inv succs entry s" "scc_inv succs entry t" and new: "new_component succs s t"
    and x: "x \<in> set (CurrentSCC t)"
  shows "set (CurrentSCC t) = component_of succs x"
proof
  show "set (CurrentSCC t) \<subseteq> component_of succs x"
    using new x by (auto simp: new_component_def component_of_def)
  show "component_of succs x \<subseteq> set (CurrentSCC t)"
  proof
    fix y
    assume "y \<in> component_of succs x"
    then have y: "(x, y) \<in> (edges succs)\<^sup>*" "(y, x) \<in> (edges succs)\<^sup>*" by (simp_all add: component_of_def)
    have "y \<in> emitted t"
      using new x by (intro closed_reach [OF scc_invD(5) [OF inv(2)] y(1)]) (simp_all add: new_component_def)
    moreover have "y \<notin> emitted s"
    proof
      assume "y \<in> emitted s"
      from closed_reach [OF scc_invD(5) [OF inv(1)] y(2) this] show False
        using new x by (auto simp: new_component_def)
    qed
    ultimately show "y \<in> set (CurrentSCC t)" using new by (simp add: new_component_def)
  qed
qed

text \<open>What is returned from a state on, given what was returned before its current component.\<close>

definition scc_list_ok :: "('n \<Rightarrow> 'n list) \<Rightarrow> 'n \<Rightarrow> 'n set \<Rightarrow> 'n list list \<Rightarrow> bool" where
  "scc_list_ok succs entry before cs \<longleftrightarrow>
     distinct (concat cs) \<and> before \<union> set (concat cs) = reach succs entry \<and> before \<inter> set (concat cs) = {}
   \<and> (\<forall>c\<in>set cs. c \<noteq> [] \<and> (\<forall>x\<in>set c. set c = component_of succs x)) \<and> bottom_up succs before cs"

lemma search_end:
  assumes inv: "scc_inv succs entry s" and stack: "VisitStack s = []"
  shows "emitted s = reach succs entry"
proof -
  have "SCCNodeStack s = []"
  proof (cases "SCCNodeStack s")
    case (Cons x xs)
    then have x: "x \<in> set (SCCNodeStack s)" by simp
    obtain n where n: "nodeVisitNumbers s x = Some n" "n \<noteq> - 1" using scc_invD(2) [OF inv x] by blast
    have "- 1 \<le> the (nodeVisitNumbers s x)" using scc_invD(4) [OF inv] x stack by simp
    then show ?thesis using n by (simp add: word_order.extremum_unique)
  qed simp
  then have dom: "dom (nodeVisitNumbers s) = emitted s" using scc_invD(3) [OF inv] by simp
  have "entry \<in> emitted s" using scc_invD(6) [OF inv] dom by simp
  then have "reach succs entry \<subseteq> emitted s"
    using closed_reach [OF scc_invD(5) [OF inv]] by (auto simp: reach_def)
  then show ?thesis using scc_invD(7) [OF inv] dom by auto
qed

lemma scc_rest_spec:
  assumes "scc_inv succs entry s" "small_graph succs entry" "scc_inv succs entry s0"
    "if CurrentSCC s = [] then VisitStack s = [] \<and> emitted s = emitted s0 else new_component succs s0 s"
  shows "case scc_rest k succs s of
      Done cs \<Rightarrow> scc_list_ok succs entry (emitted s0) cs
    | Crash \<Rightarrow> False
    | OutOfFuel \<Rightarrow> k \<le> Suc (scc_measure succs entry s)"
  using assms
proof (induction k arbitrary: s s0)
  case (Suc k)
  show ?case
  proof (cases "CurrentSCC s = []")
    case True
    then have "emitted s0 = reach succs entry" using search_end [OF Suc.prems(1)] Suc.prems(4) by simp
    then show ?thesis using True by (simp add: isAtEnd_def scc_list_ok_def bottom_up_def)
  next
    case False
    then have new: "new_component succs s0 s" using Suc.prems(4) by simp
    note spec = GetNextSCC_spec [OF Suc.prems(1,2), of k]
    show ?thesis
    proof (cases "GetNextSCC k succs s")
      case (Done t)
      then have t: "scc_next succs entry s t" using spec by simp
      then have inv: "scc_inv succs entry t" by (simp add: scc_next_def)
      have "if CurrentSCC t = [] then VisitStack t = [] \<and> emitted t = emitted s else new_component succs s t"
        using t by (simp add: scc_next_def split: if_splits)
      note IH = Suc.IH [OF inv Suc.prems(2) Suc.prems(1) this]
      show ?thesis
      proof (cases "scc_rest k succs t")
        case (Done cs)
        let ?C = "CurrentSCC s"
        have em: "emitted s = emitted s0 \<union> set ?C" using new by (simp add: new_component_def)
        have ok: "scc_list_ok succs entry (emitted s) cs" using IH Done by simp
        have "\<forall>x\<in>set ?C. set ?C = component_of succs x"
          using new_component_maximal [OF Suc.prems(3,1) new] by blast
        moreover have "\<forall>x\<in>set ?C. set (succs x) \<subseteq> emitted s0 \<union> set ?C"
          using scc_invD(5) [OF Suc.prems(1)] em by blast
        ultimately have "scc_list_ok succs entry (emitted s0) (?C # cs)"
          using ok new em unfolding scc_list_ok_def bottom_up_Cons new_component_def by auto
        then show ?thesis using False Done \<open>GetNextSCC k succs s = Done t\<close> by (simp add: isAtEnd_def)
      next
        case Crash
        then show ?thesis using IH by simp
      next
        case OutOfFuel
        have "Suc k \<le> Suc (scc_measure succs entry s)"
        proof (cases "CurrentSCC t = []")
          case True
          then have "k = 0" using OutOfFuel by (cases k) (simp_all add: isAtEnd_def)
          then show ?thesis by simp
        next
          case False
          then show ?thesis using IH OutOfFuel t by (simp add: scc_next_def)
        qed
        then show ?thesis using False OutOfFuel \<open>GetNextSCC k succs s = Done t\<close> by (simp add: isAtEnd_def)
      qed
    next
      case Crash
      then show ?thesis using spec by simp
    next
      case OutOfFuel
      then show ?thesis using spec False by (simp add: isAtEnd_def)
    qed
  qed
qed simp

lemma start_inv:
  assumes small: "small_graph succs entry"
  shows "scc_inv succs entry (DFSVisitOne succs entry scc_empty)"
    "emitted (DFSVisitOne succs entry scc_empty) = {}"
    "scc_measure succs entry (DFSVisitOne succs entry scc_empty) = scc_weight succs entry"
proof -
  let ?s = "DFSVisitOne succs entry scc_empty"
  let ?f = "\<lparr>se_Node = entry, se_NextChild = succs entry, se_MinVisited = 1\<rparr>"
  have sel: "visitNum ?s = 1" "nodeVisitNumbers ?s = [entry \<mapsto> 1]" "SCCNodeStack ?s = [entry]"
      "VisitStack ?s = [?f]"
    by (simp_all add: DFSVisitOne_def scc_empty_def Let_def)
  have lt: "(1 :: 32 word) < - 1" "(1 :: 32 word) \<noteq> - 1"
    by (simp_all add: word_less_nat_alt unsigned_minus_1_eq_mask mask_eq_exp_minus_1)
  show em: "emitted ?s = {}" by (simp add: emitted_def sel)
  have entry: "entry \<in> reach succs entry" by (simp add: reach_def)
  have "frame_ok succs [entry \<mapsto> 1] {entry} (- 1) ?f"
    using lt by (simp add: frame_ok_def Let_def explored_def)
  then have "frames_ok succs [entry \<mapsto> 1] {entry} (- 1) [?f]" by simp
  then show "scc_inv succs entry ?s"
    unfolding scc_inv_def Let_def em sel using lt entry by simp
  have fin: "finite (reach succs entry)" using small by (simp add: small_graph_def)
  show "scc_measure succs entry ?s = scc_weight succs entry"
    unfolding scc_measure_def scc_weight_def sel
    using sum.remove [OF fin entry, of "\<lambda>x. 1 + length (succs x)"] by simp
qed

lemma all_sccs_spec:
  assumes small: "small_graph succs entry"
  shows "case all_sccs k succs entry of
      Done cs \<Rightarrow> scc_list_ok succs entry {} cs
    | Crash \<Rightarrow> False
    | OutOfFuel \<Rightarrow> k \<le> scc_weight succs entry"
proof -
  let ?s = "DFSVisitOne succs entry scc_empty"
  note start = start_inv [OF small]
  note spec = GetNextSCC_spec [OF start(1) small, of k, unfolded start(3)]
  show ?thesis
  proof (cases "GetNextSCC k succs ?s")
    case (Done t)
    then have t: "scc_next succs entry ?s t" using spec by simp
    have cond: "if CurrentSCC t = [] then VisitStack t = [] \<and> emitted t = emitted ?s else new_component succs ?s t"
      using t by (simp add: scc_next_def split: if_splits)
    have inv: "scc_inv succs entry t" using t by (simp add: scc_next_def)
    note rest = scc_rest_spec [OF inv small start(1) cond, of k, unfolded start(2)]
    have eq: "all_sccs k succs entry = scc_rest k succs t" using Done by (simp add: all_sccs_def scc_begin_def)
    have "k \<le> scc_weight succs entry" if fuel: "scc_rest k succs t = OutOfFuel"
    proof (cases "CurrentSCC t = []")
      case True
      then have "k = 0" using fuel by (cases k) (simp_all add: isAtEnd_def)
      then show ?thesis by simp
    next
      case False
      then show ?thesis using rest fuel t by (simp add: scc_next_def start(3))
    qed
    then show ?thesis using rest eq by (auto split: outcome.splits)
  qed (use spec in \<open>simp_all add: all_sccs_def scc_begin_def\<close>)
qed

lemma reach_subset:
  assumes "entry \<in> A" "\<And>x. x \<in> A \<Longrightarrow> set (succs x) \<subseteq> A"
  shows "reach succs entry \<subseteq> A"
  using closed_reach [OF assms(2) _ assms(1)] by (auto simp: reach_def)

lemma small_graphI:
  assumes "entry \<in> A" "\<And>x. x \<in> A \<Longrightarrow> set (succs x) \<subseteq> A" "finite A" "card A < 2 ^ 32 - 1"
  shows "small_graph succs entry"
proof -
  note sub = reach_subset [OF assms(1), of succs, OF assms(2)]
  show ?thesis unfolding small_graph_def
    using finite_subset [OF sub assms(3)] card_mono [OF assms(3) sub] assms(4) by linarith
qed

lemma scc_weight_le:
  assumes "entry \<in> A" "\<And>x. x \<in> A \<Longrightarrow> set (succs x) \<subseteq> A" "finite A"
  shows "scc_weight succs entry \<le> (\<Sum>x\<in>A. 1 + length (succs x))"
  unfolding scc_weight_def by (rule sum_mono2 [OF assms(3) reach_subset [OF assms(1), of succs, OF assms(2)]]) simp_all

lemma hasLoop_iff:
  assumes "CurrentSCC s = c" "x \<in> set c" "set c = component_of succs x" "distinct c"
  shows "hasLoop succs s = Done ((x, x) \<in> (edges succs)\<^sup>+)"
proof -
  obtain n ns where c: "c = n # ns" using assms(2) by (cases c) auto
  show ?thesis
  proof (cases ns)
    case Nil
    then have comp: "component_of succs x = {x}" "n = x" using assms c by auto
    have "x \<in> set (succs x)" if "(x, x) \<in> (edges succs)\<^sup>+"
    proof -
      from tranclD [OF that] obtain z where z: "(x, z) \<in> edges succs" "(z, x) \<in> (edges succs)\<^sup>*" by blast
      then have "z \<in> component_of succs x" by (auto simp: component_of_def)
      then show ?thesis using comp z(1) by (simp add: edges_def)
    qed
    moreover have "(x, x) \<in> (edges succs)\<^sup>+" if "x \<in> set (succs x)"
      using that by (intro r_into_trancl) (simp add: edges_def)
    ultimately show ?thesis using assms(1) c Nil comp by (auto simp: hasLoop_def)
  next
    case (Cons m ms)
    obtain y where y: "y \<in> set c" "y \<noteq> x" using assms(4) c Cons by (cases "n = x") auto
    then have "(x, y) \<in> (edges succs)\<^sup>+" "(y, x) \<in> (edges succs)\<^sup>*"
      using assms(3) by (auto simp: component_of_def rtrancl_eq_or_trancl)
    then have "(x, x) \<in> (edges succs)\<^sup>+" by (rule trancl_rtrancl_trancl)
    then show ?thesis using assms(1) c Cons by (simp add: hasLoop_def)
  qed
qed

section \<open>The result\<close>

text \<open>
  C9: on a graph whose nodes can be numbered with 32 bits, the loop over the iterator returns, and what it
  sees are the strongly connected components of the nodes reachable from the entry: every node once, every
  component complete, and all successors of a component in it or in an earlier one.
\<close>

theorem scc_iterator_exact:
  assumes "small_graph succs entry" "scc_weight succs entry < k"
  shows "\<exists>cs. all_sccs k succs entry = Done cs \<and> distinct (concat cs)
     \<and> set (concat cs) = reach succs entry
     \<and> (\<forall>c\<in>set cs. c \<noteq> [] \<and> (\<forall>x\<in>set c. set c = component_of succs x))
     \<and> (\<forall>i<length cs. \<forall>x\<in>set (cs ! i). set (succs x) \<subseteq> set (concat (take (Suc i) cs)))"
  using all_sccs_spec [OF assms(1), of k] assms(2)
  by (auto simp: scc_list_ok_def bottom_up_def split: outcome.splits)

definition scc_demo :: "nat \<Rightarrow> nat list" where
  "scc_demo x = (if x = 0 then [1] else if x = 1 then [2, 3] else if x = 2 then [1]
     else if x = 3 then [3, 4] else [])"

lemma scc_demo_small: "small_graph scc_demo 0" "scc_weight scc_demo 0 < 20"
proof -
  let ?A = "{0, 1, 2, 3, 4} :: nat set"
  have A: "0 \<in> ?A" "set (scc_demo x) \<subseteq> ?A" if "x \<in> ?A" for x using that by (auto simp: scc_demo_def)
  show "small_graph scc_demo 0" by (rule small_graphI [of _ ?A]) (auto simp: scc_demo_def)
  have "scc_weight scc_demo 0 \<le> (\<Sum>x\<in>?A. 1 + length (scc_demo x))"
    by (rule scc_weight_le) (auto simp: scc_demo_def)
  then show "scc_weight scc_demo 0 < 20" by (simp add: scc_demo_def)
qed

theorem scc_iterator_exact_witness:
  "all_sccs 20 scc_demo 0 = Done [[4], [3], [2, 1], [0]] \<and> reach scc_demo 0 = {0, 1, 2, 3, 4}"
proof -
  have run: "all_sccs 20 scc_demo 0 = Done [[4], [3], [2, 1], [0]]" by code_simp
  obtain cs where cs: "all_sccs 20 scc_demo 0 = Done cs" "set (concat cs) = reach scc_demo 0"
    using scc_iterator_exact [OF scc_demo_small] by blast
  then have "cs = [[4], [3], [2, 1], [0]]" using run by simp
  with cs(2) have "reach scc_demo 0 = {0, 1, 2, 3, 4}" by (simp add: insert_commute)
  then show ?thesis using run by simp
qed

end
