(* ===== verification/CallGraph.thy ===== *)
theory CallGraph
  imports ModuleEnv SCCIterator
begin

text \<open>
  The call graph of a module (\<^verbatim>\<open>lib/Analysis/CallGraph.cpp\<close>): a node for each function, one that calls
  everything visible from outside, and one that stands for unknown callees. A node is identified by the
  function it was created for. The edges of a node are its call records, in the order they were added.
\<close>

section \<open>The graph\<close>

datatype cg_node = ExternalCallingNode | CallsExternalNode | FunctionNode vid

record call_graph =
  FunctionMap :: "vid option \<rightharpoonup> cg_node" \<comment> \<open>the null function is the external calling node's\<close>
  CalledFunctions :: "cg_node \<Rightarrow> (vid option \<times> cg_node) list"
  NumReferences :: "cg_node \<Rightarrow> nat"

definition getFunction :: "cg_node \<Rightarrow> vid option" where
  "getFunction n = (case n of FunctionNode f \<Rightarrow> Some f | _ \<Rightarrow> None)"

definition node_for :: "vid option \<Rightarrow> cg_node" where
  "node_for F = (case F of None \<Rightarrow> ExternalCallingNode | Some f \<Rightarrow> FunctionNode f)"

definition getOrInsertFunction :: "vid option \<Rightarrow> call_graph \<Rightarrow> cg_node \<times> call_graph" where
  "getOrInsertFunction F G = (case FunctionMap G F of
     Some n \<Rightarrow> (n, G)
   | None \<Rightarrow> (node_for F, G\<lparr>FunctionMap := (FunctionMap G)(F \<mapsto> node_for F)\<rparr>))"

definition addCalledFunction :: "cg_node \<Rightarrow> vid option \<Rightarrow> cg_node \<Rightarrow> call_graph \<Rightarrow> call_graph" where
  "addCalledFunction n call m G = G\<lparr>
     CalledFunctions := (CalledFunctions G)(n := CalledFunctions G n @ [(call, m)]),
     NumReferences := (NumReferences G)(m := NumReferences G m + 1)\<rparr>"

text \<open>One instruction of the loop over the body.\<close>

definition add_call :: "module_env \<Rightarrow> cg_node \<Rightarrow> vid \<Rightarrow> call_graph \<Rightarrow> call_graph" where
  "add_call E n i G =
    (if \<not> is_call_base (mmod E) i then G
     else case called_function (mmod E) i of
       None \<Rightarrow> addCalledFunction n (Some i) CallsExternalNode G
     | Some callee \<Rightarrow>
         if \<not> mleaf E callee then addCalledFunction n (Some i) CallsExternalNode G
         else if \<not> mintrinsic E callee then
           (let (m, G') = getOrInsertFunction (Some callee) G in addCalledFunction n (Some i) m G')
         else G)"

definition addToCallGraph :: "module_env \<Rightarrow> vid \<Rightarrow> call_graph \<Rightarrow> call_graph" where
  "addToCallGraph E f G =
    (let (n, G1) = getOrInsertFunction (Some f) G;
         G2 = (if \<not> hasLocalLinkage E f \<or> hasAddressTaken E f
               then addCalledFunction ExternalCallingNode None n G1 else G1);
         G3 = (if isDeclaration E f \<and> \<not> mintrinsic E f
               then addCalledFunction n None CallsExternalNode G2 else G2)
     in fold (add_call E n) (fn_insts E f) G3)"

definition build_call_graph :: "module_env \<Rightarrow> call_graph" where
  "build_call_graph E =
    (let (n, G) = getOrInsertFunction None
           \<lparr>FunctionMap = Map.empty, CalledFunctions = (\<lambda>_. []), NumReferences = (\<lambda>_. 0)\<rparr>
     in fold (addToCallGraph E) (mfunctions E) G)"

text \<open>\<^verbatim>\<open>GraphTraits<CallGraph *>\<close>: the children of a node, and \<^verbatim>\<open>operator[]\<close>.\<close>

definition cg_succs :: "call_graph \<Rightarrow> cg_node \<Rightarrow> cg_node list" where
  "cg_succs G n = map snd (CalledFunctions G n)"

definition cg_lookup :: "call_graph \<Rightarrow> vid \<Rightarrow> cg_node outcome" where
  "cg_lookup G f = (case FunctionMap G (Some f) of None \<Rightarrow> Crash | Some n \<Rightarrow> Done n)"

section \<open>The edges it ends up with\<close>

definition calls_directly :: "module_env \<Rightarrow> vid \<Rightarrow> vid \<Rightarrow> bool" where
  "calls_directly E i g \<longleftrightarrow> is_call_base (mmod E) i \<and> called_function (mmod E) i = Some g
     \<and> mleaf E g \<and> \<not> mintrinsic E g"

definition calls_unknown :: "module_env \<Rightarrow> vid \<Rightarrow> bool" where
  "calls_unknown E i \<longleftrightarrow> is_call_base (mmod E) i
     \<and> (case called_function (mmod E) i of None \<Rightarrow> True | Some g \<Rightarrow> \<not> mleaf E g)"

definition call_edges :: "module_env \<Rightarrow> vid \<Rightarrow> cg_node set" where
  "call_edges E f = {FunctionNode g | g. \<exists>i\<in>set (fn_insts E f). calls_directly E i g}
     \<union> (if (isDeclaration E f \<and> \<not> mintrinsic E f) \<or> (\<exists>i\<in>set (fn_insts E f). calls_unknown E i)
        then {CallsExternalNode} else {})"

definition entry_edge :: "module_env \<Rightarrow> vid \<Rightarrow> bool" where
  "entry_edge E f \<longleftrightarrow> \<not> hasLocalLinkage E f \<or> hasAddressTaken E f"

text \<open>Nodes are those of their functions, and each record counts as one reference.\<close>

definition cg_inv :: "call_graph \<Rightarrow> bool" where
  "cg_inv G \<longleftrightarrow> (\<forall>F n. FunctionMap G F = Some n \<longrightarrow> n = node_for F)
     \<and> CalledFunctions G CallsExternalNode = []"

lemma getOrInsert_inv:
  assumes "cg_inv G"
  shows "fst (getOrInsertFunction F G) = node_for F" "cg_inv (snd (getOrInsertFunction F G))"
    "CalledFunctions (snd (getOrInsertFunction F G)) = CalledFunctions G"
    "FunctionMap (snd (getOrInsertFunction F G)) = (FunctionMap G)(F \<mapsto> node_for F)"
  using assms by (auto simp: getOrInsertFunction_def cg_inv_def fun_eq_iff split: option.splits)

lemma add_call_succs:
  assumes "cg_inv G" "n \<noteq> CallsExternalNode"
  shows "cg_inv (add_call E n i G)"
    "m \<noteq> n \<Longrightarrow> cg_succs (add_call E n i G) m = cg_succs G m"
    "set (cg_succs (add_call E n i G) n) = set (cg_succs G n) \<union> {FunctionNode g | g. calls_directly E i g}
       \<union> (if calls_unknown E i then {CallsExternalNode} else {})"
    "dom (FunctionMap G) \<subseteq> dom (FunctionMap (add_call E n i G))"
    "calls_directly E i g \<Longrightarrow> Some g \<in> dom (FunctionMap (add_call E n i G))"
proof -
  have "cg_inv (add_call E n i G)
    \<and> (m \<noteq> n \<longrightarrow> cg_succs (add_call E n i G) m = cg_succs G m)
    \<and> set (cg_succs (add_call E n i G) n) = set (cg_succs G n) \<union> {FunctionNode g | g. calls_directly E i g}
       \<union> (if calls_unknown E i then {CallsExternalNode} else {})
    \<and> dom (FunctionMap G) \<subseteq> dom (FunctionMap (add_call E n i G))
    \<and> (calls_directly E i g \<longrightarrow> Some g \<in> dom (FunctionMap (add_call E n i G)))"
  proof (cases "is_call_base (mmod E) i")
    case False
    then show ?thesis using assms(1) by (simp add: add_call_def calls_directly_def calls_unknown_def)
  next
    case True
    show ?thesis
    proof (cases "called_function (mmod E) i")
      case None
      then show ?thesis using assms True
        by (auto simp: add_call_def calls_directly_def calls_unknown_def addCalledFunction_def cg_succs_def cg_inv_def)
    next
      case (Some c)
      obtain k G' where G': "getOrInsertFunction (Some c) G = (k, G')" by fastforce
      note ins = getOrInsert_inv [OF assms(1), of "Some c", unfolded G' fst_conv snd_conv]
      have eq: "add_call E n i G = (if \<not> mleaf E c then addCalledFunction n (Some i) CallsExternalNode G
          else if \<not> mintrinsic E c then addCalledFunction n (Some i) (FunctionNode c) G' else G)"
        using True Some ins(1) by (simp add: add_call_def G' node_for_def)
      have direct: "calls_directly E i g' \<longleftrightarrow> g' = c \<and> mleaf E c \<and> \<not> mintrinsic E c" for g'
        using True Some by (auto simp: calls_directly_def)
      have unknown: "calls_unknown E i \<longleftrightarrow> \<not> mleaf E c" using True Some by (simp add: calls_unknown_def)
      show ?thesis
        using assms ins(2,3,4) unfolding eq direct unknown
        by (auto simp: addCalledFunction_def cg_succs_def cg_inv_def node_for_def)
    qed
  qed
  then show "cg_inv (add_call E n i G)"
    "m \<noteq> n \<Longrightarrow> cg_succs (add_call E n i G) m = cg_succs G m"
    "set (cg_succs (add_call E n i G) n) = set (cg_succs G n) \<union> {FunctionNode g | g. calls_directly E i g}
       \<union> (if calls_unknown E i then {CallsExternalNode} else {})"
    "dom (FunctionMap G) \<subseteq> dom (FunctionMap (add_call E n i G))"
    "calls_directly E i g \<Longrightarrow> Some g \<in> dom (FunctionMap (add_call E n i G))"
    by blast+
qed

lemma add_calls_succs:
  assumes "cg_inv G" "n \<noteq> CallsExternalNode"
  shows "cg_inv (fold (add_call E n) is G)
    \<and> (\<forall>m. m \<noteq> n \<longrightarrow> cg_succs (fold (add_call E n) is G) m = cg_succs G m)
    \<and> set (cg_succs (fold (add_call E n) is G) n) = set (cg_succs G n)
       \<union> {FunctionNode g | g. \<exists>i\<in>set is. calls_directly E i g}
       \<union> (if \<exists>i\<in>set is. calls_unknown E i then {CallsExternalNode} else {})
    \<and> dom (FunctionMap G) \<subseteq> dom (FunctionMap (fold (add_call E n) is G))
    \<and> (\<forall>g. (\<exists>i\<in>set is. calls_directly E i g) \<longrightarrow> Some g \<in> dom (FunctionMap (fold (add_call E n) is G)))"
  using assms(1)
proof (induction "is" arbitrary: G)
  case (Cons i "is")
  note one = add_call_succs [OF Cons.prems assms(2), where E = E and i = i]
  note rest = Cons.IH [OF one(1)]
  let ?H = "add_call E n i G"
  have "set (cg_succs (fold (add_call E n) is ?H) n) = set (cg_succs ?H n)
       \<union> {FunctionNode g | g. \<exists>j\<in>set is. calls_directly E j g}
       \<union> (if \<exists>j\<in>set is. calls_unknown E j then {CallsExternalNode} else {})"
    using rest by blast
  then have succs: "set (cg_succs (fold (add_call E n) is ?H) n) = set (cg_succs G n)
       \<union> {FunctionNode g | g. \<exists>j\<in>set (i # is). calls_directly E j g}
       \<union> (if \<exists>j\<in>set (i # is). calls_unknown E j then {CallsExternalNode} else {})"
    unfolding one(3) by auto
  note sub = conjunct1 [OF conjunct2 [OF conjunct2 [OF conjunct2 [OF rest]]]]
  have "Some g \<in> dom (FunctionMap (fold (add_call E n) is ?H))"
    if any: "\<exists>j\<in>set (i # is). calls_directly E j g" for g
  proof -
    consider "calls_directly E i g" | "\<exists>j\<in>set is. calls_directly E j g" using any by auto
    then show ?thesis
    proof cases
      case 1
      from subsetD [OF sub one(5) [OF this]] show ?thesis .
    next
      case 2
      then show ?thesis using rest by blast
    qed
  qed
  then have there: "\<forall>g. (\<exists>j\<in>set (i # is). calls_directly E j g)
      \<longrightarrow> Some g \<in> dom (FunctionMap (fold (add_call E n) is ?H))" by blast
  have "cg_succs (fold (add_call E n) is ?H) m = cg_succs G m" if "m \<noteq> n" for m
    using rest one(2) [OF that] that by simp
  then have others: "\<forall>m. m \<noteq> n \<longrightarrow> cg_succs (fold (add_call E n) is ?H) m = cg_succs G m" by blast
  have dom: "dom (FunctionMap G) \<subseteq> dom (FunctionMap (fold (add_call E n) is ?H))"
    by (rule order_trans [OF one(4) sub])
  have fold: "fold (add_call E n) (i # is) G = fold (add_call E n) is ?H" by simp
  show ?case unfolding fold
    by (rule conjI [OF conjunct1 [OF rest] conjI [OF others conjI [OF succs conjI [OF dom there]]]])
qed simp

lemma add_to_graph_succs:
  assumes "cg_inv G"
  shows "cg_inv (addToCallGraph E f G)
    \<and> set (cg_succs (addToCallGraph E f G) ExternalCallingNode) =
        set (cg_succs G ExternalCallingNode) \<union> (if entry_edge E f then {FunctionNode f} else {})
    \<and> set (cg_succs (addToCallGraph E f G) (FunctionNode f)) = set (cg_succs G (FunctionNode f)) \<union> call_edges E f
    \<and> (\<forall>g. g \<noteq> f \<longrightarrow> cg_succs (addToCallGraph E f G) (FunctionNode g) = cg_succs G (FunctionNode g))
    \<and> dom (FunctionMap G) \<subseteq> dom (FunctionMap (addToCallGraph E f G))
    \<and> (\<forall>g. FunctionNode g \<in> call_edges E f \<longrightarrow> Some g \<in> dom (FunctionMap (addToCallGraph E f G)))"
proof -
  obtain n G1 where G1: "getOrInsertFunction (Some f) G = (n, G1)" by fastforce
  note ins = getOrInsert_inv [OF assms, of "Some f", unfolded G1 fst_conv snd_conv]
  have n: "n = FunctionNode f" using ins(1) by (simp add: node_for_def)
  define G2 where "G2 = (if entry_edge E f then addCalledFunction ExternalCallingNode None n G1 else G1)"
  define G3 where "G3 = (if isDeclaration E f \<and> \<not> mintrinsic E f
      then addCalledFunction n None CallsExternalNode G2 else G2)"
  have eq: "addToCallGraph E f G = fold (add_call E n) (fn_insts E f) G3"
    by (simp add: addToCallGraph_def G1 G2_def G3_def entry_edge_def Let_def)
  have inv: "cg_inv G3" using ins(2) n
    by (auto simp: G3_def G2_def cg_inv_def addCalledFunction_def)
  have map: "FunctionMap G3 = FunctionMap G1" by (simp add: G3_def G2_def addCalledFunction_def)
  have calls: "CalledFunctions G1 = CalledFunctions G" by (rule ins(3))
  have ext: "set (cg_succs G3 ExternalCallingNode) =
      set (cg_succs G ExternalCallingNode) \<union> (if entry_edge E f then {FunctionNode f} else {})"
    using n by (simp add: G3_def G2_def cg_succs_def addCalledFunction_def calls)
  have own: "set (cg_succs G3 (FunctionNode f)) = set (cg_succs G (FunctionNode f))
      \<union> (if isDeclaration E f \<and> \<not> mintrinsic E f then {CallsExternalNode} else {})"
    using n by (simp add: G3_def G2_def cg_succs_def addCalledFunction_def calls)
  have other: "cg_succs G3 (FunctionNode g) = cg_succs G (FunctionNode g)" if "g \<noteq> f" for g
    using that n by (simp add: G3_def G2_def cg_succs_def addCalledFunction_def calls)
  have "n \<noteq> CallsExternalNode" using n by simp
  note all = add_calls_succs [OF inv this, of E "fn_insts E f", folded eq, unfolded map ins(4)]
  have "set (cg_succs (addToCallGraph E f G) (FunctionNode f)) = set (cg_succs G (FunctionNode f)) \<union> call_edges E f"
    using all own unfolding n call_edges_def by auto
  moreover have "Some g \<in> dom (FunctionMap (addToCallGraph E f G))" if "FunctionNode g \<in> call_edges E f" for g
    using all that by (auto simp: call_edges_def split: if_splits)
  ultimately show ?thesis using all ext other n by auto
qed

lemma build_graph_fold:
  assumes "cg_inv G"
  shows "cg_inv (fold (addToCallGraph E) fs G)
    \<and> set (cg_succs (fold (addToCallGraph E) fs G) ExternalCallingNode) =
        set (cg_succs G ExternalCallingNode) \<union> {FunctionNode f | f. f \<in> set fs \<and> entry_edge E f}
    \<and> (\<forall>f. set (cg_succs (fold (addToCallGraph E) fs G) (FunctionNode f)) =
        set (cg_succs G (FunctionNode f)) \<union> (if f \<in> set fs then call_edges E f else {}))
    \<and> dom (FunctionMap G) \<subseteq> dom (FunctionMap (fold (addToCallGraph E) fs G))
    \<and> (\<forall>f g. f \<in> set fs \<longrightarrow> FunctionNode g \<in> call_edges E f \<longrightarrow>
         Some g \<in> dom (FunctionMap (fold (addToCallGraph E) fs G)))"
  using assms
proof (induction fs arbitrary: G)
  case (Cons f fs)
  let ?H = "addToCallGraph E f G"
  note one = add_to_graph_succs [OF Cons.prems, where E = E and f = f]
  note rest = Cons.IH [OF conjunct1 [OF one]]
  have "set (cg_succs (fold (addToCallGraph E) fs ?H) ExternalCallingNode) =
        set (cg_succs G ExternalCallingNode) \<union> {FunctionNode g | g. g \<in> set (f # fs) \<and> entry_edge E g}"
    using rest one by auto
  moreover have "set (cg_succs (fold (addToCallGraph E) fs ?H) (FunctionNode g)) =
        set (cg_succs G (FunctionNode g)) \<union> (if g \<in> set (f # fs) then call_edges E g else {})" for g
    using rest one by (cases "g = f") auto
  moreover have "Some g \<in> dom (FunctionMap (fold (addToCallGraph E) fs ?H))"
    if "h \<in> set (f # fs)" "FunctionNode g \<in> call_edges E h" for g h
    using that rest one unfolding list.set by blast
  moreover have "dom (FunctionMap G) \<subseteq> dom (FunctionMap (fold (addToCallGraph E) fs ?H))"
    using rest one by blast
  ultimately show ?case using conjunct1 [OF rest] unfolding fold_simps comp_apply by simp
qed simp

lemma build_graph_edges:
  shows "set (cg_succs (build_call_graph E) ExternalCallingNode) =
      {FunctionNode f | f. f \<in> set (mfunctions E) \<and> entry_edge E f}"
    "set (cg_succs (build_call_graph E) (FunctionNode f)) = (if f \<in> set (mfunctions E) then call_edges E f else {})"
    "cg_succs (build_call_graph E) CallsExternalNode = []"
    "f \<in> set (mfunctions E) \<Longrightarrow> FunctionNode g \<in> call_edges E f \<Longrightarrow>
      cg_lookup (build_call_graph E) g = Done (FunctionNode g)"
proof -
  let ?G0 = "\<lparr>FunctionMap = Map.empty, CalledFunctions = (\<lambda>_. []), NumReferences = (\<lambda>_. 0)\<rparr>"
  have "cg_inv ?G0" by (simp add: cg_inv_def)
  obtain n G where G: "getOrInsertFunction None ?G0 = (n, G)" by fastforce
  note ins = getOrInsert_inv [OF \<open>cg_inv ?G0\<close>, of None, unfolded G fst_conv snd_conv]
  have eq: "build_call_graph E = fold (addToCallGraph E) (mfunctions E) G"
    by (simp add: build_call_graph_def G)
  note all = build_graph_fold [OF ins(2), of E "mfunctions E", folded eq]
  have none: "cg_succs G m = []" for m by (simp add: cg_succs_def ins(3))
  show "set (cg_succs (build_call_graph E) ExternalCallingNode) =
      {FunctionNode f | f. f \<in> set (mfunctions E) \<and> entry_edge E f}"
    using all none by simp
  show "set (cg_succs (build_call_graph E) (FunctionNode f)) = (if f \<in> set (mfunctions E) then call_edges E f else {})"
    using all none by simp
  show "cg_succs (build_call_graph E) CallsExternalNode = []"
    using all by (simp add: cg_inv_def cg_succs_def)
  assume f: "f \<in> set (mfunctions E)" "FunctionNode g \<in> call_edges E f"
  then obtain m where m: "FunctionMap (build_call_graph E) (Some g) = Some m" using all by blast
  moreover have "m = node_for (Some g)" using all m unfolding cg_inv_def by blast
  ultimately show "cg_lookup (build_call_graph E) g = Done (FunctionNode g)"
    by (simp add: cg_lookup_def node_for_def)
qed

end
