(* ===== verification/GlobalUses.thy ===== *)
theory GlobalUses
  imports CallGraph
begin

text \<open>
  Whether the address of a global escapes, and which functions read and write through it
  (\<^verbatim>\<open>GlobalsAAResult::AnalyzeUsesOfPointer\<close> in \<^verbatim>\<open>lib/Analysis/GlobalsModRef.cpp\<close>). The two optional sets of
  functions are the state of the walk; a null pointer to a set is \<open>None\<close>.
\<close>

section \<open>The walk over the uses\<close>

record access_fns =
  Readers :: "vid list option"
  Writers :: "vid list option"

definition fn_insert :: "vid \<Rightarrow> vid list \<Rightarrow> vid list" where
  "fn_insert f fs = (if f \<in> set fs then fs else fs @ [f])"

definition insert_reader :: "vid \<Rightarrow> access_fns \<Rightarrow> access_fns" where
  "insert_reader f s = s\<lparr>Readers := map_option (fn_insert f) (Readers s)\<rparr>"

definition insert_writer :: "vid \<Rightarrow> access_fns \<Rightarrow> access_fns" where
  "insert_writer f s = s\<lparr>Writers := map_option (fn_insert f) (Writers s)\<rparr>"

text \<open>
  The branches of the loop body: the use escapes, is harmless, is a read or a write, is followed (with the
  destination that is still fine to store to), or is a constant to be looked at.
\<close>

datatype use_class = UEscape | UHarmless | URead | UWrite | UFollow "vid option" | UConstant

definition classify_use :: "module_env \<Rightarrow> vid \<Rightarrow> vid option \<Rightarrow> vid \<Rightarrow> nat \<Rightarrow> use_class outcome" where
  "classify_use E v okay u i =
    (let M = mmod E in
     if is_op M OLoad u then Done URead
     else if is_op M OStore u then
       (case operand M u 1 of None \<Rightarrow> Crash
        | Some p \<Rightarrow> Done (if v = p then UWrite else if Some p \<noteq> okay then UEscape else UHarmless))
     else if is_operator M OGetElementPtr u then Done (UFollow None)
     else if is_operator M OBitCast u then Done (UFollow okay)
     else if is_call_base M u then
       Done (if isDataOperand E u i then (if isArgOperand E u i \<and> mfree E u then UWrite else UEscape)
             else UHarmless)
     else if is_op M OICmp u then
       (case operand M u 1 of None \<Rightarrow> Crash
        | Some p \<Rightarrow> Done (if vkind (mval M p) \<noteq> KConstantPointerNull then UEscape else UHarmless))
     else if is_constant M u then Done (if is_global_value M u then UEscape else UConstant)
     else Done UEscape)"

fun AnalyzeUsesOfPointer :: "nat \<Rightarrow> module_env \<Rightarrow> vid \<Rightarrow> vid option \<Rightarrow> (access_fns, bool) smon" and
  analyze_uses :: "nat \<Rightarrow> module_env \<Rightarrow> vid \<Rightarrow> vid option \<Rightarrow> (vid \<times> nat) list \<Rightarrow> (access_fns, bool) smon" where
  "AnalyzeUsesOfPointer 0 E v okay s = OutOfFuel"
| "AnalyzeUsesOfPointer (Suc k) E v okay s =
    (if \<not> is_pointer (vtype (mval (mmod E) v)) then Done (True, s)
     else analyze_uses k E v okay (vuses (mval (mmod E) v)) s)"
| "analyze_uses k E v okay [] s = Done (False, s)"
| "analyze_uses k E v okay ((u, i) # us) s = (case classify_use E v okay u i of
     Crash \<Rightarrow> Crash | OutOfFuel \<Rightarrow> OutOfFuel
   | Done c \<Rightarrow> (case c of
       UEscape \<Rightarrow> Done (True, s)
     | UHarmless \<Rightarrow> analyze_uses k E v okay us s
     | URead \<Rightarrow> analyze_uses k E v okay us (insert_reader (xparent (menv E) u) s)
     | UWrite \<Rightarrow> analyze_uses k E v okay us (insert_writer (xparent (menv E) u) s)
     | UFollow okay' \<Rightarrow> (case AnalyzeUsesOfPointer k E u okay' s of
         Crash \<Rightarrow> Crash | OutOfFuel \<Rightarrow> OutOfFuel
       | Done (b, t) \<Rightarrow> if b then Done (True, t) else analyze_uses k E v okay us t)
     | UConstant \<Rightarrow> (case isConstantUsed k E u of
         Crash \<Rightarrow> Crash | OutOfFuel \<Rightarrow> OutOfFuel
       | Done b \<Rightarrow> if b then Done (True, s) else analyze_uses k E v okay us s)))"

section \<open>What it decides\<close>

text \<open>The pointers computed from a pointer, each with the destination that is fine to store it to.\<close>

definition follows :: "module_env \<Rightarrow> ((vid \<times> vid option) \<times> (vid \<times> vid option)) set" where
  "follows E = {((p, okay), (u, okay')). \<exists>i. (u, i) \<in> set (vuses (mval (mmod E) p))
     \<and> classify_use E p okay u i = Done (UFollow okay')}"

definition escapes_here :: "module_env \<Rightarrow> vid \<Rightarrow> vid option \<Rightarrow> (vid \<times> nat) list \<Rightarrow> bool" where
  "escapes_here E p okay us \<longleftrightarrow> (\<exists>(u, i)\<in>set us. classify_use E p okay u i = Done UEscape
     \<or> (classify_use E p okay u i = Done UConstant \<and> constant_live E u))"

definition address_escapes :: "module_env \<Rightarrow> vid \<Rightarrow> vid option \<Rightarrow> bool" where
  "address_escapes E v okay \<longleftrightarrow> (\<exists>p okay'. ((v, okay), (p, okay')) \<in> (follows E)\<^sup>*
     \<and> (\<not> is_pointer (vtype (mval (mmod E) p)) \<or> escapes_here E p okay' (vuses (mval (mmod E) p))))"

definition accessing :: "module_env \<Rightarrow> use_class \<Rightarrow> vid \<Rightarrow> vid option \<Rightarrow> vid set" where
  "accessing E c v okay = {f. \<exists>p okay' u i. ((v, okay), (p, okay')) \<in> (follows E)\<^sup>*
     \<and> (u, i) \<in> set (vuses (mval (mmod E) p)) \<and> classify_use E p okay' u i = Done c \<and> f = xparent (menv E) u}"

definition added :: "vid list option \<Rightarrow> vid list option \<Rightarrow> vid set \<Rightarrow> bool" where
  "added a b A \<longleftrightarrow> (a = None \<longleftrightarrow> b = None) \<and> (\<forall>xs ys. a = Some xs \<longrightarrow> b = Some ys \<longrightarrow> set ys = set xs \<union> A)"

lemma added_refl: "added a a {}" and added_trans: "added a b A \<Longrightarrow> added b c B \<Longrightarrow> added a c (A \<union> B)"
  by (auto simp: added_def)

lemma added_insert: "added a (map_option (fn_insert f) a) {f}"
  by (auto simp: added_def fn_insert_def)

lemma address_escapes_step:
  "address_escapes E v okay \<longleftrightarrow> \<not> is_pointer (vtype (mval (mmod E) v))
     \<or> escapes_here E v okay (vuses (mval (mmod E) v))
     \<or> (\<exists>(u, i)\<in>set (vuses (mval (mmod E) v)). \<exists>okay'. classify_use E v okay u i = Done (UFollow okay')
          \<and> address_escapes E u okay')"
    (is "?l \<longleftrightarrow> ?a \<or> ?b \<or> ?c")
proof
  assume ?l
  then obtain p okay' where p: "((v, okay), (p, okay')) \<in> (follows E)\<^sup>*"
    "\<not> is_pointer (vtype (mval (mmod E) p)) \<or> escapes_here E p okay' (vuses (mval (mmod E) p))"
    unfolding address_escapes_def by blast
  from p(1) show "?a \<or> ?b \<or> ?c"
  proof (cases rule: converse_rtranclE)
    case base
    then show ?thesis using p(2) by simp
  next
    case (step y)
    then obtain u i o' where "y = (u, o')" "(u, i) \<in> set (vuses (mval (mmod E) v))"
      "classify_use E v okay u i = Done (UFollow o')" by (cases y) (auto simp: follows_def)
    moreover from this step(2) p(2) have "address_escapes E u o'" unfolding address_escapes_def by blast
    ultimately show ?thesis by blast
  qed
next
  assume "?a \<or> ?b \<or> ?c"
  then show ?l
  proof (elim disjE)
    assume ?c
    then obtain u i o' where u: "(u, i) \<in> set (vuses (mval (mmod E) v))"
      "classify_use E v okay u i = Done (UFollow o')" "address_escapes E u o'" by blast
    then have "((v, okay), (u, o')) \<in> follows E" by (auto simp: follows_def)
    then show ?l using u(3) unfolding address_escapes_def by (meson converse_rtrancl_into_rtrancl)
  qed (auto simp: address_escapes_def)
qed

lemma accessing_step:
  assumes "\<And>okay'. c \<noteq> UFollow okay'"
  shows "accessing E c v okay = {xparent (menv E) u | u i. (u, i) \<in> set (vuses (mval (mmod E) v))
        \<and> classify_use E v okay u i = Done c}
     \<union> (\<Union>(u, i)\<in>set (vuses (mval (mmod E) v)). \<Union>okay'\<in>{o'. classify_use E v okay u i = Done (UFollow o')}.
          accessing E c u okay')"
    (is "?l = ?a \<union> ?b")
proof
  show "?l \<subseteq> ?a \<union> ?b"
  proof
    fix f
    assume "f \<in> ?l"
    then obtain p o' u i where f: "((v, okay), (p, o')) \<in> (follows E)\<^sup>*"
      "(u, i) \<in> set (vuses (mval (mmod E) p))" "classify_use E p o' u i = Done c" "f = xparent (menv E) u"
      unfolding accessing_def by blast
    from f(1) show "f \<in> ?a \<union> ?b"
    proof (cases rule: converse_rtranclE)
      case base
      then show ?thesis using f by auto
    next
      case (step y)
      then obtain w j o2 where w: "y = (w, o2)" "(w, j) \<in> set (vuses (mval (mmod E) v))"
        "classify_use E v okay w j = Done (UFollow o2)" by (cases y) (auto simp: follows_def)
      then have "f \<in> accessing E c w o2" using step(2) f unfolding accessing_def by blast
      then show ?thesis using w by blast
    qed
  qed
  show "?a \<union> ?b \<subseteq> ?l"
  proof
    fix f
    assume "f \<in> ?a \<union> ?b"
    then show "f \<in> ?l"
    proof
      assume "f \<in> ?b"
      then obtain w j o2 where w: "(w, j) \<in> set (vuses (mval (mmod E) v))"
        "classify_use E v okay w j = Done (UFollow o2)" "f \<in> accessing E c w o2" by blast
      then have "((v, okay), (w, o2)) \<in> follows E" by (auto simp: follows_def)
      then show ?thesis using w(3) unfolding accessing_def by (auto intro: converse_rtrancl_into_rtrancl)
    qed (auto simp: accessing_def)
  qed
qed

text \<open>The accesses through a list of uses, directly or through the pointers followed.\<close>

definition use_accesses :: "module_env \<Rightarrow> use_class \<Rightarrow> vid \<Rightarrow> vid option \<Rightarrow> (vid \<times> nat) list \<Rightarrow> vid set" where
  "use_accesses E c v okay us = {xparent (menv E) u | u i. (u, i) \<in> set us \<and> classify_use E v okay u i = Done c}
     \<union> (\<Union>(u, i)\<in>set us. \<Union>okay'\<in>{o'. classify_use E v okay u i = Done (UFollow o')}. accessing E c u okay')"

definition uses_escape :: "module_env \<Rightarrow> vid \<Rightarrow> vid option \<Rightarrow> (vid \<times> nat) list \<Rightarrow> bool" where
  "uses_escape E v okay us \<longleftrightarrow> escapes_here E v okay us
     \<or> (\<exists>(u, i)\<in>set us. \<exists>okay'. classify_use E v okay u i = Done (UFollow okay') \<and> address_escapes E u okay')"

definition access_post :: "access_fns \<Rightarrow> access_fns \<Rightarrow> vid set \<Rightarrow> vid set \<Rightarrow> bool" where
  "access_post s t R W \<longleftrightarrow> added (Readers s) (Readers t) R \<and> added (Writers s) (Writers t) W"

lemma access_post_trans: "access_post s t R W \<Longrightarrow> access_post t u R' W' \<Longrightarrow> access_post s u (R \<union> R') (W \<union> W')"
  unfolding access_post_def using added_trans by blast

lemma access_post_insert:
  "access_post s (insert_reader f s) {f} {}" "access_post s (insert_writer f s) {} {f}"
  by (simp_all add: access_post_def insert_reader_def insert_writer_def added_insert added_refl)

lemma use_accesses_Cons:
  "use_accesses E c v okay ((u, i) # us) = (case classify_use E v okay u i of
      Done d \<Rightarrow> (if d = c then {xparent (menv E) u} else {})
        \<union> (case d of UFollow o' \<Rightarrow> accessing E c u o' | _ \<Rightarrow> {})
    | _ \<Rightarrow> {}) \<union> use_accesses E c v okay us"
  unfolding use_accesses_def by (auto split: outcome.split use_class.split)

lemma uses_escape_Cons:
  "uses_escape E v okay ((u, i) # us) \<longleftrightarrow> (case classify_use E v okay u i of
      Done d \<Rightarrow> (case d of UEscape \<Rightarrow> True | UConstant \<Rightarrow> constant_live E u
        | UFollow o' \<Rightarrow> address_escapes E u o' | _ \<Rightarrow> False)
    | _ \<Rightarrow> False) \<or> uses_escape E v okay us"
  unfolding uses_escape_def escapes_here_def by (auto split: outcome.split use_class.split)

lemma analyze_exact:
  "AnalyzeUsesOfPointer k E v okay s = Done (b, t) \<Longrightarrow>
     b = address_escapes E v okay \<and> (\<not> b \<longrightarrow> access_post s t (accessing E URead v okay) (accessing E UWrite v okay))"
  "analyze_uses k E v okay us s = Done (b, t) \<Longrightarrow>
     b = uses_escape E v okay us
     \<and> (\<not> b \<longrightarrow> access_post s t (use_accesses E URead v okay us) (use_accesses E UWrite v okay us))"
proof (induction k E v okay s and k E v okay us s arbitrary: b t and b t
    rule: AnalyzeUsesOfPointer_analyze_uses.induct)
  case (2 k E v okay s)
  have e: "address_escapes E v okay \<longleftrightarrow> \<not> is_pointer (vtype (mval (mmod E) v))
      \<or> uses_escape E v okay (vuses (mval (mmod E) v))"
    by (subst address_escapes_step) (simp add: uses_escape_def)
  have a: "accessing E c v okay = use_accesses E c v okay (vuses (mval (mmod E) v))"
    if "\<And>okay'. c \<noteq> UFollow okay'" for c
    by (subst accessing_step [OF that]) (simp_all add: use_accesses_def)
  show ?case using 2 by (auto simp: e a split: if_splits)
next
  case (3 k E v okay s)
  then show ?case
    by (simp add: uses_escape_def escapes_here_def use_accesses_def access_post_def added_refl)
next
  case (4 k E v okay u i us s)
  note cons = use_accesses_Cons [of E URead v okay u i us] use_accesses_Cons [of E UWrite v okay u i us]
    uses_escape_Cons [of E v okay u i us]
  show ?case
  proof (cases "classify_use E v okay u i")
    case (Done c)
    note IH = "4.IH" [OF Done]
    show ?thesis
    proof (cases c)
      case UEscape
      then show ?thesis using "4.prems" Done cons by auto
    next
      case UHarmless
      then show ?thesis using IH(1) [OF UHarmless] "4.prems" Done cons by auto
    next
      case URead
      then show ?thesis using IH(2) [OF URead] "4.prems" Done cons
        access_post_trans [OF access_post_insert(1)] by fastforce
    next
      case UWrite
      then show ?thesis using IH(3) [OF UWrite] "4.prems" Done cons
        access_post_trans [OF access_post_insert(2)] by fastforce
    next
      case (UFollow o')
      then obtain b1 t1 where t1: "AnalyzeUsesOfPointer k E u o' s = Done (b1, t1)"
        using "4.prems" Done by (auto split: outcome.splits)
      note head = IH(4) [OF UFollow t1]
      show ?thesis
      proof (cases b1)
        case True
        then show ?thesis using head "4.prems" Done UFollow t1 cons by auto
      next
        case False
        then have rest: "analyze_uses k E v okay us t1 = Done (b, t)" using "4.prems" Done UFollow t1 by simp
        have "b = uses_escape E v okay us \<and> (\<not> b \<longrightarrow> access_post t1 t (use_accesses E URead v okay us)
            (use_accesses E UWrite v okay us))"
          using IH(5) [OF UFollow t1 refl False rest] .
        then show ?thesis using head False cons Done UFollow access_post_trans by auto
      qed
    next
      case UConstant
      then obtain b1 where b1: "isConstantUsed k E u = Done b1"
        using "4.prems" Done by (auto split: outcome.splits)
      then have "b1 = constant_live E u" by (rule isConstantUsed_live)
      then show ?thesis using IH(6) [OF UConstant b1] "4.prems" Done UConstant b1 cons by (cases b1) auto
    qed
  qed (use "4.prems" in auto)
qed simp_all

section \<open>Termination\<close>

text \<open>
  A rank that falls from a pointer to the pointers computed from it, and from a constant to the constants
  that use it; and stores and comparisons have their operands.
\<close>

definition uses_ranked :: "module_env \<Rightarrow> (vid \<Rightarrow> nat) \<Rightarrow> bool" where
  "uses_ranked E r \<longleftrightarrow>
     (\<forall>p u i okay okay'. (u, i) \<in> set (vuses (mval (mmod E) p)) \<longrightarrow>
        classify_use E p okay u i = Done (UFollow okay') \<longrightarrow> r u < r p)
   \<and> (\<forall>c u. u \<in> set (users (mmod E) c) \<longrightarrow> is_constant (mmod E) u \<longrightarrow> \<not> is_global_value (mmod E) u \<longrightarrow> r u < r c)
   \<and> (\<forall>p u i. (u, i) \<in> set (vuses (mval (mmod E) p)) \<longrightarrow>
        is_op (mmod E) OStore u \<or> is_op (mmod E) OICmp u \<longrightarrow> operand (mmod E) u 1 \<noteq> None)"

lemma constant_use_returns:
  assumes ranked: "uses_ranked E r"
  shows "r c < k \<Longrightarrow> isConstantUsed k E c \<noteq> OutOfFuel"
    "(\<forall>u\<in>set us. is_constant (mmod E) u \<longrightarrow> \<not> is_global_value (mmod E) u \<longrightarrow> r u < k) \<Longrightarrow>
      constant_used_by k E us \<noteq> OutOfFuel"
proof (induction k arbitrary: c us)
  case 0
  {
    case 1
    then show ?case by simp
  next
    case 2
    then show ?case by (induction us) auto
  }
next
  case (Suc k)
  {
    case 1
    then have "\<forall>u\<in>set (users (mmod E) c). is_constant (mmod E) u \<longrightarrow> \<not> is_global_value (mmod E) u \<longrightarrow> r u < k"
      using ranked unfolding uses_ranked_def by (meson less_Suc_eq_le order_less_le_trans)
    then show ?case using Suc.IH(2) by simp
  next
    have one: "isConstantUsed (Suc k) E c \<noteq> OutOfFuel" if "r c < Suc k" for c
    proof -
      have "\<forall>u\<in>set (users (mmod E) c). is_constant (mmod E) u \<longrightarrow> \<not> is_global_value (mmod E) u \<longrightarrow> r u < k"
        using ranked that unfolding uses_ranked_def by (meson less_Suc_eq_le order_less_le_trans)
      then show ?thesis using Suc.IH(2) by simp
    qed
    case 2
    then show ?case
    proof (induction us)
      case (Cons u us)
      have "constant_used_by (Suc k) E us \<noteq> OutOfFuel" using Cons by simp
      then show ?case using Cons.prems one [of u] by (auto simp del: isConstantUsed.simps split: outcome.split)
    qed simp
  }
qed

lemma classify_ranked:
  assumes "uses_ranked E r" "(u, i) \<in> set (vuses (mval (mmod E) p))"
  obtains c where "classify_use E p okay u i = Done c"
    "\<And>okay'. c = UFollow okay' \<Longrightarrow> r u < r p" "c = UConstant \<Longrightarrow> r u < r p"
proof -
  have op: "operand (mmod E) u 1 \<noteq> None" if "is_op (mmod E) OStore u \<or> is_op (mmod E) OICmp u"
    using assms that unfolding uses_ranked_def by blast
  then have "classify_use E p okay u i \<noteq> Crash \<and> classify_use E p okay u i \<noteq> OutOfFuel"
    by (auto simp: classify_use_def Let_def split: option.split)
  then obtain c where c: "classify_use E p okay u i = Done c"
    by (cases "classify_use E p okay u i") auto
  moreover have "r u < r p" if "c = UFollow okay'" for okay'
    using assms c that unfolding uses_ranked_def by blast
  moreover have "r u < r p" if "c = UConstant"
  proof -
    have "is_constant (mmod E) u" "\<not> is_global_value (mmod E) u"
      using c that by (auto simp: classify_use_def Let_def split: if_splits option.splits)
    moreover have "u \<in> set (users (mmod E) p)" using assms(2) by (force simp: users_def)
    ultimately show ?thesis using assms(1) unfolding uses_ranked_def by blast
  qed
  ultimately show ?thesis by (rule that)
qed

lemma analyze_uses_list:
  assumes ranked: "uses_ranked E r" and us: "set us \<subseteq> set (vuses (mval (mmod E) v))" and v: "r v \<le> k"
    and rec: "\<And>u okay s. r u < k \<Longrightarrow> \<exists>b t. AnalyzeUsesOfPointer k E u okay s = Done (b, t)"
  shows "\<exists>b t. analyze_uses k E v okay us s = Done (b, t)"
  using us
proof (induction us arbitrary: s)
  case (Cons x us)
  obtain u i where x: "x = (u, i)" by fastforce
  obtain c where c: "classify_use E v okay u i = Done c"
    "\<And>okay'. c = UFollow okay' \<Longrightarrow> r u < r v" "c = UConstant \<Longrightarrow> r u < r v"
    using classify_ranked [OF ranked, of u i v okay] Cons.prems x by auto
  have IH: "\<exists>b t. analyze_uses k E v okay us s = Done (b, t)" for s using Cons by simp
  show ?case
  proof (cases c)
    case (UFollow o')
    then have "r u < k" using c(2) v by fastforce
    then obtain b t where "AnalyzeUsesOfPointer k E u o' s = Done (b, t)" using rec by blast
    then show ?thesis using IH [of t] x c(1) UFollow by (cases b) (simp_all, blast)
  next
    case UConstant
    then have "r u < k" using c(3) v by fastforce
    then obtain b where "isConstantUsed k E u = Done b"
      using constant_use_returns(1) [OF ranked] isConstantUsed_no_crash(1) outcome.exhaust by metis
    then show ?thesis using IH x c(1) UConstant by (cases b) (simp_all, blast)
  qed (use IH x c(1) in \<open>simp_all, blast?\<close>)
qed (simp, blast)

lemma analyze_returns:
  assumes ranked: "uses_ranked E r"
  shows "r v < k \<Longrightarrow> \<exists>b t. AnalyzeUsesOfPointer k E v okay s = Done (b, t)"
proof (induction k arbitrary: v okay s)
  case (Suc k)
  show ?case
  proof (cases "is_pointer (vtype (mval (mmod E) v))")
    case True
    have "\<exists>b t. analyze_uses k E v okay (vuses (mval (mmod E) v)) s = Done (b, t)"
      using Suc by (intro analyze_uses_list [OF ranked]) simp_all
    then show ?thesis using True by simp
  qed (simp, blast)
qed simp

end
