(* ===== verification/FunctionInfo.thy ===== *)
theory FunctionInfo
  imports CallSite
begin

text \<open>
  The mod/ref record of a function (\<^verbatim>\<open>GlobalsAAResult::FunctionInfo\<close> in \<^verbatim>\<open>lib/Analysis/GlobalsModRef.cpp\<close>): three
  bits, and a map from globals to what the function does to them. In the code the bits are the low bits of
  the pointer to the map; a null pointer is \<open>None\<close>.
\<close>

section \<open>The record\<close>

record fi_record =
  fi_int :: "32 word" \<comment> \<open>\<^verbatim>\<open>Info.getInt()\<close>\<close>
  fi_map :: "(vid \<times> ModRefInfo) list option" \<comment> \<open>\<^verbatim>\<open>Info.getPointer()\<close>\<close>

definition MayReadAnyGlobal :: "32 word" where
  "MayReadAnyGlobal = 4"

definition function_info0 :: fi_record where
  "function_info0 = \<lparr>fi_int = 0, fi_map = None\<rparr>"

definition globalClearMayReadAnyGlobal :: "32 word \<Rightarrow> ModRefInfo" where
  "globalClearMayReadAnyGlobal I = mri_of_bits ((I AND mri_bits ModRef) OR mri_bits NoModRef)"

definition fi_getModRefInfo :: "fi_record \<Rightarrow> ModRefInfo" where
  "fi_getModRefInfo FI = globalClearMayReadAnyGlobal (fi_int FI)"

definition addModRefInfo :: "ModRefInfo \<Rightarrow> fi_record \<Rightarrow> fi_record" where
  "addModRefInfo r FI = FI\<lparr>fi_int := fi_int FI OR mri_bits (setMust r)\<rparr>"

definition mayReadAnyGlobal :: "fi_record \<Rightarrow> bool" where
  "mayReadAnyGlobal FI = (fi_int FI AND MayReadAnyGlobal \<noteq> 0)"

definition setMayReadAnyGlobal :: "fi_record \<Rightarrow> fi_record" where
  "setMayReadAnyGlobal FI = FI\<lparr>fi_int := fi_int FI OR MayReadAnyGlobal\<rparr>"

definition getModRefInfoForGlobal :: "fi_record \<Rightarrow> vid \<Rightarrow> ModRefInfo" where
  "getModRefInfoForGlobal FI gv =
    (let GlobalMRI = (if mayReadAnyGlobal FI then Ref else NoModRef) in
     case fi_map FI of
       None \<Rightarrow> GlobalMRI
     | Some P \<Rightarrow> (case map_of P gv of None \<Rightarrow> GlobalMRI | Some r \<Rightarrow> unionModRef GlobalMRI r))"

text \<open>A new entry of the map is value-initialised, to the enumerator 0.\<close>

definition addModRefInfoForGlobal :: "vid \<Rightarrow> ModRefInfo \<Rightarrow> fi_record \<Rightarrow> fi_record" where
  "addModRefInfoForGlobal gv r FI =
    (let P = (case fi_map FI of None \<Rightarrow> [] | Some P \<Rightarrow> P);
         GlobalMRI = (case map_of P gv of None \<Rightarrow> mri_of_bits 0 | Some q \<Rightarrow> q)
     in FI\<lparr>fi_map := Some (alist_put gv (unionModRef GlobalMRI r) P)\<rparr>)"

definition addFunctionInfo :: "fi_record \<Rightarrow> fi_record \<Rightarrow> fi_record" where
  "addFunctionInfo other FI =
    (let FI1 = addModRefInfo (fi_getModRefInfo other) FI;
         FI2 = (if mayReadAnyGlobal other then setMayReadAnyGlobal FI1 else FI1)
     in case fi_map other of None \<Rightarrow> FI2
        | Some P \<Rightarrow> fold (\<lambda>(gv, r). addModRefInfoForGlobal gv r) P FI2)"

definition eraseModRefInfoForGlobal :: "vid \<Rightarrow> fi_record \<Rightarrow> fi_record" where
  "eraseModRefInfoForGlobal gv FI = FI\<lparr>fi_map := map_option (filter (\<lambda>p. fst p \<noteq> gv)) (fi_map FI)\<rparr>"

section \<open>What a record allows\<close>

text \<open>The accesses to any memory, and to one global (whose address does not escape).\<close>

definition fi_allows :: "fi_record \<Rightarrow> vid option \<Rightarrow> access set" where
  "fi_allows FI q = (case q of None \<Rightarrow> accs (fi_getModRefInfo FI)
     | Some gv \<Rightarrow> accs (getModRefInfoForGlobal FI gv))"

definition fi_wf :: "fi_record \<Rightarrow> bool" where
  "fi_wf FI \<longleftrightarrow> fi_int FI < 8 \<and> distinct (map fst (case fi_map FI of None \<Rightarrow> [] | Some P \<Rightarrow> P))"

lemma accs_bits: "accs r = (if bit (mri_bits r) 1 then {AMod} else {}) \<union> (if bit (mri_bits r) 0 then {ARef} else {})"
  by (cases r) (auto simp: accs_values mri_bits_def bit_numeral_rec)

lemma bits_4_7: "bit (4 :: 32 word) n \<longleftrightarrow> n = 2" "bit (7 :: 32 word) n \<longleftrightarrow> n < 3"
proof -
  have "(7 :: 32 word) = mask 3" by (simp add: mask_eq_exp_minus_1)
  then show "bit (7 :: 32 word) n \<longleftrightarrow> n < 3" by (auto simp only: bit_mask_iff len_of_numeral_defs) (simp_all)
  have "(4 :: 32 word) = 2 ^ 2" by simp
  then show "bit (4 :: 32 word) n \<longleftrightarrow> n = 2" by (auto simp only: bit_exp_iff) (simp_all)
qed

lemma accs_of_int: "accs (globalClearMayReadAnyGlobal I) =
    (if bit I 1 then {AMod} else {}) \<union> (if bit I 0 then {ARef} else {})"
proof -
  have 4: "(I AND mri_bits ModRef) OR mri_bits NoModRef = (I OR 4) AND 7"
    unfolding mri_bits_def ModRefInfo.case by (rule bit_word_eqI) (simp only: bit_and_iff bit_or_iff bits_4_7, auto)
  show ?thesis
    unfolding accs_bits globalClearMayReadAnyGlobal_def 4 mri_bits_of_bits [OF and_7_less]
    by (simp only: bit_and_iff bit_or_iff bits_4_7, simp)
qed

lemma accs_getModRefInfo: "accs (fi_getModRefInfo FI) =
    (if bit (fi_int FI) 1 then {AMod} else {}) \<union> (if bit (fi_int FI) 0 then {ARef} else {})"
  by (simp add: fi_getModRefInfo_def accs_of_int)

lemma bit_setMust: "bit (mri_bits (setMust r)) n \<longleftrightarrow> n = 0 \<and> ARef \<in> accs r \<or> n = 1 \<and> AMod \<in> accs r"
proof -
  have three: "mri_bits MustModRef = mask 2" by (simp add: mri_bits_def mask_eq_exp_minus_1)
  have "mri_bits r AND mask 2 < 8"
    by (cases r) (simp_all add: mri_bits_def mask_eq_exp_minus_1)
  then have "mri_bits (setMust r) = mri_bits r AND mask 2"
    unfolding setMust_def three by (rule mri_bits_of_bits)
  then have "bit (mri_bits (setMust r)) n \<longleftrightarrow> bit (mri_bits r) n \<and> n < 2"
    by (simp add: bit_simps) (auto dest: bit_imp_le_length)
  then show ?thesis by (auto simp: accs_bits less_2_cases_iff split: if_splits)
qed

lemma mayReadAny_bit: "mayReadAnyGlobal FI \<longleftrightarrow> bit (fi_int FI) 2"
proof -
  have "MayReadAnyGlobal = 2 ^ 2" by (simp add: MayReadAnyGlobal_def)
  then show ?thesis unfolding mayReadAnyGlobal_def by (metis and_exp_eq_0_iff_not_bit)
qed

lemma bit_MayReadAnyGlobal: "bit MayReadAnyGlobal n \<longleftrightarrow> n = 2"
  unfolding MayReadAnyGlobal_def by (rule bits_4_7)

definition fi_entry :: "fi_record \<Rightarrow> vid \<Rightarrow> access set" where
  "fi_entry FI gv = (case Option.bind (fi_map FI) (\<lambda>P. map_of P gv) of None \<Rightarrow> {} | Some r \<Rightarrow> accs r)"

lemma fi_allows_eq:
  "fi_allows FI None = (if bit (fi_int FI) 1 then {AMod} else {}) \<union> (if bit (fi_int FI) 0 then {ARef} else {})"
  "fi_allows FI (Some gv) = (if bit (fi_int FI) 2 then {ARef} else {}) \<union> fi_entry FI gv"
  by (auto simp: fi_allows_def accs_getModRefInfo getModRefInfoForGlobal_def fi_entry_def mayReadAny_bit
      accs_union accs_values Let_def split: option.split)

named_theorems fi_simps \<open>the operations as operations on what is allowed\<close>

lemma fi_allows_0 [fi_simps]: "fi_allows function_info0 q = {}"
  by (cases q) (simp_all add: fi_allows_eq function_info0_def fi_entry_def)

lemma accs_cases: "A = (if AMod \<in> A then {AMod} else {}) \<union> (if ARef \<in> A then {ARef} else {})"
proof (rule set_eqI)
  show "x \<in> A \<longleftrightarrow> x \<in> (if AMod \<in> A then {AMod} else {}) \<union> (if ARef \<in> A then {ARef} else {})" for x
    by (cases x) auto
qed

lemma fi_allows_add [fi_simps]:
  "fi_allows (addModRefInfo r FI) None = fi_allows FI None \<union> accs r"
  "fi_allows (addModRefInfo r FI) (Some gv) = fi_allows FI (Some gv)"
  by (subst accs_cases [of "accs r"], simp add: fi_allows_eq addModRefInfo_def bit_or_iff bit_setMust)
    (auto simp: fi_allows_eq addModRefInfo_def fi_entry_def bit_or_iff bit_setMust)

lemma fi_allows_any [fi_simps]:
  "fi_allows (setMayReadAnyGlobal FI) None = fi_allows FI None"
  "fi_allows (setMayReadAnyGlobal FI) (Some gv) = insert ARef (fi_allows FI (Some gv))"
  by (auto simp: fi_allows_eq setMayReadAnyGlobal_def fi_entry_def bit_or_iff bit_MayReadAnyGlobal)

lemma fi_entry_global: "fi_entry (addModRefInfoForGlobal gv r FI) g = fi_entry FI g \<union> (if g = gv then accs r else {})"
proof -
  have "accs (mri_of_bits 0) = {}" by (simp add: mri_of_bits_def accs_values)
  then show ?thesis
    by (auto simp: fi_entry_def addModRefInfoForGlobal_def Let_def accs_union split: option.splits)
qed

lemma fi_allows_global [fi_simps]:
  "fi_allows (addModRefInfoForGlobal gv r FI) None = fi_allows FI None"
  "fi_allows (addModRefInfoForGlobal gv r FI) (Some g) = fi_allows FI (Some g) \<union> (if g = gv then accs r else {})"
  by (auto simp: fi_allows_eq fi_entry_global) (simp_all add: addModRefInfoForGlobal_def Let_def)

lemma fi_allows_entries:
  "fi_allows (fold (\<lambda>(gv, r). addModRefInfoForGlobal gv r) P FI) None = fi_allows FI None"
  "fi_allows (fold (\<lambda>(gv, r). addModRefInfoForGlobal gv r) P FI) (Some g) =
     fi_allows FI (Some g) \<union> (\<Union>(gv, r)\<in>set P. if g = gv then accs r else {})"
  by (induction P arbitrary: FI) (auto simp: fi_allows_global)

lemma entries_map_of:
  assumes "distinct (map fst P)"
  shows "(\<Union>(gv, r)\<in>set P. if g = gv then accs r else {}) = (case map_of P g of None \<Rightarrow> {} | Some r \<Rightarrow> accs r)"
proof (cases "map_of P g")
  case None
  then have "g \<notin> fst ` set P" by (simp add: map_of_eq_None_iff)
  then show ?thesis using None by (auto split: if_splits simp: image_iff)
next
  case (Some r)
  have "r' = r" if "(g, r') \<in> set P" for r' using map_of_is_SomeI [OF assms that] Some by simp
  then have "(if g = fst p then accs (snd p) else {}) \<subseteq> accs r" if "p \<in> set P" for p
    using that by (cases p) auto
  then have "(\<Union>p\<in>set P. if g = fst p then accs (snd p) else {}) = accs r"
    using map_of_SomeD [OF Some] by force
  then show ?thesis using Some by (simp add: case_prod_beta)
qed

lemma fi_wf_ops:
  "fi_wf function_info0"
  "fi_wf FI \<Longrightarrow> fi_wf (addModRefInfo r FI)" "fi_wf FI \<Longrightarrow> fi_wf (setMayReadAnyGlobal FI)"
  "fi_wf FI \<Longrightarrow> fi_wf (addModRefInfoForGlobal gv r FI)"
  "fi_wf FI \<Longrightarrow> fi_wf (eraseModRefInfoForGlobal gv FI)"
proof -
  have less_8: "w < 8 \<longleftrightarrow> w AND 7 = w" for w :: "32 word"
  proof
    assume "w AND 7 = w"
    then show "w < 8" using and_7_less [of w] by simp
  next
    assume "w < 8"
    have "w AND mask 3 = w" using \<open>w < 8\<close> by (intro less_mask_eq) simp
    then show "w AND 7 = w" by (simp add: mask_eq_exp_minus_1)
  qed
  have or_less: "v OR w < 8" if "v < 8" "w < 8" for v w :: "32 word"
    using that unfolding less_8 by (metis bit.conj_disj_distrib2)
  show "fi_wf function_info0" by (simp add: fi_wf_def function_info0_def)
  show "fi_wf FI \<Longrightarrow> fi_wf (addModRefInfo r FI)"
    by (simp add: fi_wf_def addModRefInfo_def or_less mri_bits_less)
  show "fi_wf FI \<Longrightarrow> fi_wf (setMayReadAnyGlobal FI)"
    by (simp add: fi_wf_def setMayReadAnyGlobal_def or_less MayReadAnyGlobal_def)
  show "fi_wf FI \<Longrightarrow> fi_wf (addModRefInfoForGlobal gv r FI)"
    by (auto simp: fi_wf_def addModRefInfoForGlobal_def Let_def split: option.split)
  show "fi_wf FI \<Longrightarrow> fi_wf (eraseModRefInfoForGlobal gv FI)"
    by (auto simp: fi_wf_def eraseModRefInfoForGlobal_def distinct_map_filter split: option.split)
qed

lemma fi_wf_add_function: "fi_wf FI \<Longrightarrow> fi_wf (addFunctionInfo other FI)"
proof -
  have "fi_wf (fold (\<lambda>(gv, r). addModRefInfoForGlobal gv r) P F)" if "fi_wf F" for P F
    using that by (induction P arbitrary: F) (auto intro: fi_wf_ops)
  then show "fi_wf FI \<Longrightarrow> fi_wf (addFunctionInfo other FI)"
    by (simp add: addFunctionInfo_def Let_def fi_wf_ops split: option.split)
qed

text \<open>Adding another record is the union of what the two allow.\<close>

lemma fi_allows_add_function [fi_simps]:
  assumes "fi_wf other"
  shows "fi_allows (addFunctionInfo other FI) q = fi_allows FI q \<union> fi_allows other q"
proof (cases q)
  case None
  have "fi_allows (addFunctionInfo other FI) None = fi_allows FI None \<union> accs (fi_getModRefInfo other)"
    by (simp add: addFunctionInfo_def Let_def fi_simps fi_allows_entries split: option.split)
  then show ?thesis using None by (simp add: fi_allows_def)
next
  case (Some g)
  have "fi_allows (addFunctionInfo other FI) (Some g) =
      fi_allows FI (Some g) \<union> (if mayReadAnyGlobal other then {ARef} else {}) \<union> fi_entry other g"
  proof (cases "fi_map other")
    case None
    then show ?thesis by (auto simp: addFunctionInfo_def Let_def fi_simps fi_entry_def)
  next
    case (Some P)
    then have "distinct (map fst P)" using assms by (simp add: fi_wf_def)
    from entries_map_of [OF this, of g] have e: "(\<Union>(gv, r)\<in>set P. if g = gv then accs r else {}) = fi_entry other g"
      by (simp add: fi_entry_def Some)
    show ?thesis unfolding addFunctionInfo_def Let_def Some option.case fi_allows_entries e
      by (auto simp: fi_simps)
  qed
  then show ?thesis using Some by (auto simp: fi_allows_eq(2) [of other] mayReadAny_bit)
qed

lemma fi_allows_erase:
  "fi_allows (eraseModRefInfoForGlobal gv FI) None = fi_allows FI None"
  "g \<noteq> gv \<Longrightarrow> fi_allows (eraseModRefInfoForGlobal gv FI) (Some g) = fi_allows FI (Some g)"
  "fi_entry (eraseModRefInfoForGlobal gv FI) gv = {}"
proof -
  have m: "map_of (filter (\<lambda>p. fst p \<noteq> gv) P) g = (if g = gv then None else map_of P g)" for P g
    by (induction P) auto
  have e: "fi_entry (eraseModRefInfoForGlobal gv FI) g = (if g = gv then {} else fi_entry FI g)" for g
    by (cases "fi_map FI") (simp_all add: fi_entry_def eraseModRefInfoForGlobal_def m)
  show "fi_entry (eraseModRefInfoForGlobal gv FI) gv = {}" by (simp add: e)
  have "fi_int (eraseModRefInfoForGlobal gv FI) = fi_int FI" by (simp add: eraseModRefInfoForGlobal_def)
  then show "fi_allows (eraseModRefInfoForGlobal gv FI) None = fi_allows FI None"
    "g \<noteq> gv \<Longrightarrow> fi_allows (eraseModRefInfoForGlobal gv FI) (Some g) = fi_allows FI (Some g)"
    by (simp_all add: fi_allows_eq e)
qed

end
