(* ===== verification/GlobalsState.thy ===== *)
theory GlobalsState
  imports GlobalUses FunctionInfo
begin

text \<open>
  The state of the globals analysis (\<^verbatim>\<open>GlobalsAAResult\<close>) and the scan of the module that fills it: globals
  whose address does not escape, globals that own the memory they point to, and for each function what it
  does to each global; and the callback that forgets a deleted value.
\<close>

section \<open>The state\<close>

record globals_aa =
  NonAddressTakenGlobals :: "vid set"
  IndirectGlobals :: "vid set"
  AllocsForIndirectGlobals :: "(vid \<times> vid) list"
  FunctionInfos :: "(vid option \<times> fi_record) list" \<comment> \<open>the key may be a null pointer\<close>
  FunctionToSCCMap :: "(vid \<times> 32 word) list"
  Handles :: "vid list" \<comment> \<open>the values with a deletion callback, the latest first\<close>

definition globals_aa0 :: globals_aa where
  "globals_aa0 = \<lparr>NonAddressTakenGlobals = {}, IndirectGlobals = {}, AllocsForIndirectGlobals = [],
     FunctionInfos = [], FunctionToSCCMap = [], Handles = []\<rparr>"

definition add_handle :: "vid \<Rightarrow> globals_aa \<Rightarrow> globals_aa" where
  "add_handle v st = st\<lparr>Handles := v # Handles st\<rparr>"

definition getFunctionInfo :: "globals_aa \<Rightarrow> vid \<Rightarrow> fi_record option" where
  "getFunctionInfo st f = map_of (FunctionInfos st) (Some f)"

text \<open>\<^verbatim>\<open>FunctionInfos[F]\<close> as a reference that is written through.\<close>

definition update_info :: "vid option \<Rightarrow> (fi_record \<Rightarrow> fi_record) \<Rightarrow> globals_aa \<Rightarrow> globals_aa" where
  "update_info F g st = st\<lparr>FunctionInfos := alist_put F
     (g (case map_of (FunctionInfos st) F of None \<Rightarrow> function_info0 | Some fi \<Rightarrow> fi)) (FunctionInfos st)\<rparr>"

definition erase_info :: "vid option \<Rightarrow> globals_aa \<Rightarrow> globals_aa" where
  "erase_info F st = st\<lparr>FunctionInfos := filter (\<lambda>p. fst p \<noteq> F) (FunctionInfos st)\<rparr>"

text \<open>\<^verbatim>\<open>DeletionCallbackHandle::deleted\<close>, for one handle on the value.\<close>

definition handle_deleted :: "module_env \<Rightarrow> vid \<Rightarrow> globals_aa \<Rightarrow> globals_aa" where
  "handle_deleted E v st =
    (let st1 = (if vkind (mval (mmod E) v) = KFunction then erase_info (Some v) st else st);
         st2 = (if is_global_value (mmod E) v \<and> v \<in> NonAddressTakenGlobals st1 then
            (let a = st1\<lparr>NonAddressTakenGlobals := NonAddressTakenGlobals st1 - {v}\<rparr>;
                 b = (if v \<in> IndirectGlobals a then
                        a\<lparr>IndirectGlobals := IndirectGlobals a - {v},
                          AllocsForIndirectGlobals := filter (\<lambda>p. snd p \<noteq> v) (AllocsForIndirectGlobals a)\<rparr>
                      else a)
             in b\<lparr>FunctionInfos := map (\<lambda>(F, fi). (F, eraseModRefInfoForGlobal v fi)) (FunctionInfos b)\<rparr>)
            else st1)
     in st2\<lparr>AllocsForIndirectGlobals := filter (\<lambda>p. fst p \<noteq> v) (AllocsForIndirectGlobals st2),
            Handles := remove1 v (Handles st2)\<rparr>)"

section \<open>Indirect globals\<close>

definition no_sets :: access_fns where
  "no_sets = \<lparr>Readers = None, Writers = None\<rparr>"

text \<open>The loop over the users of the global: the allocations stored to it, or nothing if it bails out.\<close>

fun indirect_users :: "nat \<Rightarrow> module_env \<Rightarrow> vid \<Rightarrow> vid list \<Rightarrow> vid list \<Rightarrow> vid list option outcome" where
  "indirect_users k E gv allocs [] = Done (Some allocs)"
| "indirect_users k E gv allocs (u # us) =
    (let M = mmod E in
     if is_op M OLoad u then
       (case AnalyzeUsesOfPointer k E u None no_sets of
          Done (b, _) \<Rightarrow> if b then Done None else indirect_users k E gv allocs us
        | Crash \<Rightarrow> Crash | OutOfFuel \<Rightarrow> OutOfFuel)
     else if is_op M OStore u then
       (case operand M u 0 of None \<Rightarrow> Crash
        | Some x \<Rightarrow>
          if x = gv then Done None
          else if vkind (mval M x) = KConstantPointerNull then indirect_users k E gv allocs us
          else let ptr = munder E x in
               if \<not> malloc_like E ptr then Done None
               else (case AnalyzeUsesOfPointer k E ptr (Some gv) no_sets of
                  Done (b, _) \<Rightarrow> if b then Done None else indirect_users k E gv (allocs @ [ptr]) us
                | Crash \<Rightarrow> Crash | OutOfFuel \<Rightarrow> OutOfFuel))
     else Done None)"

definition remember_alloc :: "vid \<Rightarrow> vid \<Rightarrow> globals_aa \<Rightarrow> globals_aa" where
  "remember_alloc gv a st =
     add_handle a (st\<lparr>AllocsForIndirectGlobals := alist_put a gv (AllocsForIndirectGlobals st)\<rparr>)"

definition AnalyzeIndirectGlobalMemory :: "nat \<Rightarrow> module_env \<Rightarrow> vid \<Rightarrow> (globals_aa, bool) smon" where
  "AnalyzeIndirectGlobalMemory k E gv st = (case minitializer E gv of
     None \<Rightarrow> Crash
   | Some c \<Rightarrow>
      if \<not> mnull E c then Done (False, st)
      else (case indirect_users k E gv [] (users (mmod E) gv) of
         Crash \<Rightarrow> Crash | OutOfFuel \<Rightarrow> OutOfFuel
       | Done None \<Rightarrow> Done (False, st)
       | Done (Some allocs) \<Rightarrow>
           (let st1 = fold (remember_alloc gv) (rev allocs) st in
            Done (True, add_handle gv (st1\<lparr>IndirectGlobals := insert gv (IndirectGlobals st1)\<rparr>)))))"

section \<open>The scan of the module\<close>

definition analyze_function :: "nat \<Rightarrow> module_env \<Rightarrow> vid \<Rightarrow> globals_aa \<times> vid set \<Rightarrow> (globals_aa \<times> vid set) outcome" where
  "analyze_function k E f = (\<lambda>(st, tracked).
     if \<not> hasLocalLinkage E f then Done (st, tracked)
     else case AnalyzeUsesOfPointer k E f None no_sets of
       Crash \<Rightarrow> Crash | OutOfFuel \<Rightarrow> OutOfFuel
     | Done (b, _) \<Rightarrow>
         if b then Done (st, tracked)
         else Done (add_handle f (st\<lparr>NonAddressTakenGlobals := insert f (NonAddressTakenGlobals st)\<rparr>),
                    insert f tracked))"

text \<open>One turn of the loop over the readers or over the writers of a global.\<close>

definition record_access :: "vid \<Rightarrow> ModRefInfo \<Rightarrow> vid \<Rightarrow> globals_aa \<times> vid set \<Rightarrow> globals_aa \<times> vid set" where
  "record_access gv r f = (\<lambda>(st, tracked).
     let st1 = (if f \<in> tracked then st else add_handle f st)
     in (update_info (Some f) (addModRefInfoForGlobal gv r) st1, insert f tracked))"

definition value_is_pointer :: "module_env \<Rightarrow> vid \<Rightarrow> bool" where
  "value_is_pointer E gv = (case pointer_element (vtype (mval (mmod E) gv)) of
     None \<Rightarrow> False | Some t \<Rightarrow> is_pointer t)"

definition analyze_global :: "nat \<Rightarrow> module_env \<Rightarrow> vid \<Rightarrow> globals_aa \<times> vid set \<Rightarrow> (globals_aa \<times> vid set) outcome" where
  "analyze_global k E gv = (\<lambda>(st, tracked).
     if \<not> hasLocalLinkage E gv then Done (st, tracked)
     else case AnalyzeUsesOfPointer k E gv None
            \<lparr>Readers = Some [], Writers = if mconstant E gv then None else Some []\<rparr> of
       Crash \<Rightarrow> Crash | OutOfFuel \<Rightarrow> OutOfFuel
     | Done (b, s) \<Rightarrow>
         if b then Done (st, tracked)
         else
          (let st1 = add_handle gv (st\<lparr>NonAddressTakenGlobals := insert gv (NonAddressTakenGlobals st)\<rparr>);
               (st2, tracked2) = fold (record_access gv Ref) (case Readers s of None \<Rightarrow> [] | Some fs \<Rightarrow> fs) (st1, tracked);
               (st3, tracked3) = (if mconstant E gv then (st2, tracked2)
                  else fold (record_access gv Mod) (case Writers s of None \<Rightarrow> [] | Some fs \<Rightarrow> fs) (st2, tracked2))
           in if value_is_pointer E gv
              then (case AnalyzeIndirectGlobalMemory k E gv st3 of
                  Crash \<Rightarrow> Crash | OutOfFuel \<Rightarrow> OutOfFuel
                | Done (_, st4) \<Rightarrow> Done (st4, tracked3))
              else Done (st3, tracked3)))"

fun ofold :: "('x \<Rightarrow> 's \<Rightarrow> 's outcome) \<Rightarrow> 'x list \<Rightarrow> 's \<Rightarrow> 's outcome" where
  "ofold f [] s = Done s"
| "ofold f (x # xs) s = (case f x s of
     Done t \<Rightarrow> ofold f xs t | Crash \<Rightarrow> Crash | OutOfFuel \<Rightarrow> OutOfFuel)"

definition AnalyzeGlobals :: "nat \<Rightarrow> module_env \<Rightarrow> globals_aa \<Rightarrow> globals_aa outcome" where
  "AnalyzeGlobals k E st =
    (case ofold (analyze_function k E) (mfunctions E) (st, {}) of
       Crash \<Rightarrow> Crash | OutOfFuel \<Rightarrow> OutOfFuel
     | Done (st1, tracked) \<Rightarrow> (case ofold (analyze_global k E) (mglobals E) (st1, tracked) of
         Crash \<Rightarrow> Crash | OutOfFuel \<Rightarrow> OutOfFuel
       | Done (st2, _) \<Rightarrow> Done st2))"

text \<open>The numbers of the components; the numbering is not read by any query.\<close>

definition CollectSCCMembership :: "cg_node list list \<Rightarrow> globals_aa \<Rightarrow> globals_aa" where
  "CollectSCCMembership sccs st = snd (fold (\<lambda>scc (ID, s).
     (ID + 1, fold (\<lambda>n s. case getFunction n of None \<Rightarrow> s
        | Some f \<Rightarrow> s\<lparr>FunctionToSCCMap := alist_put f ID (FunctionToSCCMap s)\<rparr>) scc s)) sccs (0, st))"

section \<open>What the scan finds\<close>

definition info_allows :: "globals_aa \<Rightarrow> vid \<Rightarrow> vid option \<Rightarrow> access set" where
  "info_allows st f q = (case getFunctionInfo st f of None \<Rightarrow> {} | Some fi \<Rightarrow> fi_allows fi q)"

definition direct_accesses :: "module_env \<Rightarrow> vid \<Rightarrow> vid \<Rightarrow> access set" where
  "direct_accesses E gv f = (if f \<in> accessing E URead gv None then {ARef} else {})
     \<union> (if \<not> mconstant E gv \<and> f \<in> accessing E UWrite gv None then {AMod} else {})"

definition kept_inside :: "module_env \<Rightarrow> vid \<Rightarrow> bool" where
  "kept_inside E gv \<longleftrightarrow> hasLocalLinkage E gv \<and> \<not> address_escapes E gv None"

lemma ofold_induct:
  assumes "ofold f xs s = Done t" "P [] s"
    and "\<And>x ys s t. P ys s \<Longrightarrow> f x s = Done t \<Longrightarrow> x \<in> set xs \<Longrightarrow> P (ys @ [x]) t"
  shows "P xs t"
proof -
  have "P (zs @ ys) t" if "ofold f ys s = Done t" "P zs s" "set ys \<subseteq> set xs" for ys zs s
    using that
  proof (induction ys arbitrary: zs s)
    case (Cons y ys)
    then obtain u where u: "f y s = Done u" "ofold f ys u = Done t" by (auto split: outcome.splits)
    from assms(3) [OF Cons.prems(2) u(1)] Cons.prems(3) have "P (zs @ [y]) u" by simp
    from Cons.IH [OF u(2) this] Cons.prems(3) show ?case by simp
  qed simp
  from this [OF assms(1,2)] show ?thesis by simp
qed

lemma info_of_update: "getFunctionInfo (update_info (Some f) g st) h =
    (if h = f then Some (g (case getFunctionInfo st f of None \<Rightarrow> function_info0 | Some fi \<Rightarrow> fi))
     else getFunctionInfo st h)"
  by (auto simp: getFunctionInfo_def update_info_def)

lemma info_allows_update:
  "info_allows (update_info (Some f) (addModRefInfoForGlobal gv r) st) h q = info_allows st h q
     \<union> (if h = f \<and> q = Some gv then accs r else {})"
  by (cases q) (auto simp: info_allows_def info_of_update fi_simps split: option.split)

lemma record_access_fold:
  assumes "fold (record_access gv r) fs (st, tr) = (st', tr')"
  shows "(\<forall>h q. info_allows st' h q = info_allows st h q \<union> (if h \<in> set fs \<and> q = Some gv then accs r else {}))
    \<and> NonAddressTakenGlobals st' = NonAddressTakenGlobals st \<and> IndirectGlobals st' = IndirectGlobals st
    \<and> AllocsForIndirectGlobals st' = AllocsForIndirectGlobals st
    \<and> tr' = tr \<union> set fs \<and> set (Handles st') = set (Handles st) \<union> (set fs - tr)
    \<and> fst ` set (FunctionInfos st') = fst ` set (FunctionInfos st) \<union> Some ` set fs"
  using assms
proof (induction fs arbitrary: st tr)
  case (Cons f fs)
  let ?st1 = "update_info (Some f) (addModRefInfoForGlobal gv r) (if f \<in> tr then st else add_handle f st)"
  have step: "record_access gv r f (st, tr) = (?st1, insert f tr)" by (simp add: record_access_def Let_def)
  have "fold (record_access gv r) fs (?st1, insert f tr) = (st', tr')"
    using Cons.prems unfolding fold_simps comp_apply step .
  note IH = Cons.IH [OF this]
  have handle: "info_allows (add_handle f st) h q = info_allows st h q" for h q
    by (simp add: info_allows_def getFunctionInfo_def add_handle_def)
  have i: "info_allows ?st1 h q = info_allows st h q \<union> (if h = f \<and> q = Some gv then accs r else {})" for h q
    by (simp add: info_allows_update handle)
  have "info_allows st' h q = info_allows st h q \<union> (if h \<in> set (f # fs) \<and> q = Some gv then accs r else {})" for h q
    using IH i [of h q] by auto
  moreover have "NonAddressTakenGlobals st' = NonAddressTakenGlobals st" "IndirectGlobals st' = IndirectGlobals st"
    "AllocsForIndirectGlobals st' = AllocsForIndirectGlobals st" "tr' = tr \<union> set (f # fs)"
    using IH by (auto simp: update_info_def add_handle_def)
  moreover have "set (Handles st') = set (Handles st) \<union> (set (f # fs) - tr)"
    using IH by (auto simp: update_info_def add_handle_def)
  moreover have "fst ` set (FunctionInfos st') = fst ` set (FunctionInfos st) \<union> Some ` set (f # fs)"
    using IH by (simp add: update_info_def add_handle_def)
  ultimately show ?case by blast
qed simp

lemma infos_wf_update:
  assumes "\<forall>fi\<in>snd ` set (FunctionInfos st). fi_wf fi" "\<And>fi. fi_wf fi \<Longrightarrow> fi_wf (g fi)"
  shows "\<forall>fi\<in>snd ` set (FunctionInfos (update_info F g st)). fi_wf fi"
proof -
  have put: "snd ` set (alist_put k v m) \<subseteq> insert v (snd ` set m)" for k v and m :: "('a \<times> 'b) list"
    by (induction k v m rule: alist_put.induct) auto
  have "fi_wf (case map_of (FunctionInfos st) F of None \<Rightarrow> function_info0 | Some fi \<Rightarrow> fi)"
    using assms(1) by (force simp: fi_wf_ops dest: map_of_SomeD split: option.split)
  then show ?thesis using assms(1) assms(2) put unfolding update_info_def by fastforce
qed

text \<open>When a global owns what it points to, and the allocations stored to it.\<close>

definition owned_store :: "module_env \<Rightarrow> vid \<Rightarrow> vid \<Rightarrow> bool" where
  "owned_store E gv x \<longleftrightarrow> x \<noteq> gv \<and> (vkind (mval (mmod E) x) = KConstantPointerNull
     \<or> (malloc_like E (munder E x) \<and> \<not> address_escapes E (munder E x) (Some gv)))"

definition owner_user :: "module_env \<Rightarrow> vid \<Rightarrow> vid \<Rightarrow> bool" where
  "owner_user E gv u \<longleftrightarrow>
     (is_op (mmod E) OLoad u \<and> \<not> address_escapes E u None)
   \<or> (\<not> is_op (mmod E) OLoad u \<and> is_op (mmod E) OStore u
        \<and> (\<exists>x. operand (mmod E) u 0 = Some x \<and> owned_store E gv x))"

definition owns_memory :: "module_env \<Rightarrow> vid \<Rightarrow> bool" where
  "owns_memory E gv \<longleftrightarrow> (\<exists>c. minitializer E gv = Some c \<and> mnull E c)
     \<and> (\<forall>u\<in>set (users (mmod E) gv). owner_user E gv u)"

definition stored_allocs :: "module_env \<Rightarrow> vid list \<Rightarrow> vid set" where
  "stored_allocs E us = {munder E x | u x. u \<in> set us \<and> is_op (mmod E) OStore u
     \<and> operand (mmod E) u 0 = Some x \<and> vkind (mval (mmod E) x) \<noteq> KConstantPointerNull}"

lemma indirect_users_exact:
  "indirect_users k E gv allocs us = Done res \<Longrightarrow>
     (res \<noteq> None \<longleftrightarrow> (\<forall>u\<in>set us. owner_user E gv u))
     \<and> (\<forall>as. res = Some as \<longrightarrow> set as = set allocs \<union> stored_allocs E us)"
proof (induction k E gv allocs us rule: indirect_users.induct)
  case (1 k E gv allocs)
  then show ?case by (auto simp: stored_allocs_def)
next
  case (2 k E gv allocs u us)
  let ?M = "mmod E"
  have cons: "stored_allocs E (u # us) = stored_allocs E us
      \<union> {munder E x | x. is_op ?M OStore u \<and> operand ?M u 0 = Some x \<and> vkind (mval ?M x) \<noteq> KConstantPointerNull}"
    by (auto simp: stored_allocs_def)
  consider (load) "is_op ?M OLoad u" | (store) "\<not> is_op ?M OLoad u" "is_op ?M OStore u"
    | (other) "\<not> is_op ?M OLoad u" "\<not> is_op ?M OStore u" by blast
  then show ?case
  proof cases
    case load
    then obtain b t where b: "AnalyzeUsesOfPointer k E u None no_sets = Done (b, t)"
      using "2.prems" by (auto simp: Let_def split: outcome.splits)
    have e: "b = address_escapes E u None" using analyze_exact(1) [OF b] by blast
    have st: "\<not> is_op ?M OStore u" using load by (simp add: is_op_def)
    show ?thesis
    proof (cases b)
      case True
      then show ?thesis using "2.prems" load b e st by (auto simp: owner_user_def)
    next
      case False
      then have "indirect_users k E gv allocs us = Done res" using "2.prems" load b by simp
      from "2.IH"(1) [OF refl load b refl False this] show ?thesis
        using load e False st cons by (auto simp: owner_user_def)
    qed
  next
    case store
    then obtain x where x: "operand ?M u 0 = Some x" using "2.prems" by (auto simp: Let_def split: option.splits)
    show ?thesis
    proof (cases "x = gv")
      case True
      then show ?thesis using "2.prems" store x by (auto simp: owner_user_def owned_store_def)
    next
      case ne: False
      show ?thesis
      proof (cases "vkind (mval ?M x) = KConstantPointerNull")
        case True
        then have "indirect_users k E gv allocs us = Done res" using "2.prems" store x ne by simp
        from "2.IH"(2) [OF refl store x ne True this] show ?thesis
          using store x ne True cons by (auto simp: owner_user_def owned_store_def)
      next
        case nn: False
        show ?thesis
        proof (cases "malloc_like E (munder E x)")
          case False
          then show ?thesis using "2.prems" store x ne nn by (auto simp: owner_user_def owned_store_def Let_def)
        next
          case True
          then obtain b t where b: "AnalyzeUsesOfPointer k E (munder E x) (Some gv) no_sets = Done (b, t)"
            using "2.prems" store x ne nn by (auto simp: Let_def split: outcome.splits)
          have e: "b = address_escapes E (munder E x) (Some gv)" using analyze_exact(1) [OF b] by blast
          show ?thesis
          proof (cases b)
            case bt: True
            then show ?thesis using "2.prems" store x ne nn True b e
              by (auto simp: owner_user_def owned_store_def)
          next
            case bf: False
            then have run: "indirect_users k E gv (allocs @ [munder E x]) us = Done res"
              using "2.prems" store x ne nn True b by (simp add: Let_def)
            have "\<not> \<not> malloc_like E (munder E x)" using True by simp
            from "2.IH"(3) [OF refl store x ne nn refl this b refl bf run] show ?thesis
              using store x ne nn True cons e bf by (auto simp: owner_user_def owned_store_def)
          qed
        qed
      qed
    qed
  next
    case other
    then show ?thesis using "2.prems" by (auto simp: owner_user_def)
  qed
qed

lemma remember_allocs:
  shows "map_of (AllocsForIndirectGlobals (fold (remember_alloc gv) as st)) a =
      (if a \<in> set as then Some gv else map_of (AllocsForIndirectGlobals st) a)"
    "set (Handles (fold (remember_alloc gv) as st)) = set (Handles st) \<union> set as"
    "NonAddressTakenGlobals (fold (remember_alloc gv) as st) = NonAddressTakenGlobals st"
    "IndirectGlobals (fold (remember_alloc gv) as st) = IndirectGlobals st"
    "FunctionInfos (fold (remember_alloc gv) as st) = FunctionInfos st"
  by (induction as arbitrary: st) (auto simp: remember_alloc_def add_handle_def)

lemma analyze_indirect_exact:
  assumes "AnalyzeIndirectGlobalMemory k E gv st = Done (b, st')"
  shows "b = owns_memory E gv"
    "IndirectGlobals st' = (if b then insert gv (IndirectGlobals st) else IndirectGlobals st)"
    "map_of (AllocsForIndirectGlobals st') a =
       (if b \<and> a \<in> stored_allocs E (users (mmod E) gv) then Some gv else map_of (AllocsForIndirectGlobals st) a)"
    "set (Handles st') = set (Handles st) \<union> (if b then insert gv (stored_allocs E (users (mmod E) gv)) else {})"
    "NonAddressTakenGlobals st' = NonAddressTakenGlobals st" "FunctionInfos st' = FunctionInfos st"
proof -
  obtain c where c: "minitializer E gv = Some c"
    using assms by (auto simp: AnalyzeIndirectGlobalMemory_def split: option.splits)
  have "b = owns_memory E gv
    \<and> IndirectGlobals st' = (if b then insert gv (IndirectGlobals st) else IndirectGlobals st)
    \<and> map_of (AllocsForIndirectGlobals st') a =
       (if b \<and> a \<in> stored_allocs E (users (mmod E) gv) then Some gv else map_of (AllocsForIndirectGlobals st) a)
    \<and> set (Handles st') = set (Handles st) \<union> (if b then insert gv (stored_allocs E (users (mmod E) gv)) else {})
    \<and> NonAddressTakenGlobals st' = NonAddressTakenGlobals st \<and> FunctionInfos st' = FunctionInfos st"
  proof (cases "mnull E c")
    case False
    then show ?thesis using assms c by (auto simp: AnalyzeIndirectGlobalMemory_def owns_memory_def)
  next
    case True
    then obtain res where res: "indirect_users k E gv [] (users (mmod E) gv) = Done res"
      using assms c by (auto simp: AnalyzeIndirectGlobalMemory_def split: outcome.splits)
    note ex = indirect_users_exact [OF res]
    show ?thesis
    proof (cases res)
      case None
      then show ?thesis using assms c True res ex by (auto simp: AnalyzeIndirectGlobalMemory_def owns_memory_def)
    next
      case (Some as)
      then have "b" and st': "st' = add_handle gv ((fold (remember_alloc gv) (rev as) st)\<lparr>IndirectGlobals :=
          insert gv (IndirectGlobals (fold (remember_alloc gv) (rev as) st))\<rparr>)"
        using assms c True res by (auto simp: AnalyzeIndirectGlobalMemory_def Let_def)
      moreover have "owns_memory E gv" "set as = stored_allocs E (users (mmod E) gv)"
        using ex Some c True by (auto simp: owns_memory_def)
      ultimately show ?thesis by (auto simp: remember_allocs add_handle_def)
    qed
  qed
  then show "b = owns_memory E gv"
    "IndirectGlobals st' = (if b then insert gv (IndirectGlobals st) else IndirectGlobals st)"
    "map_of (AllocsForIndirectGlobals st') a =
       (if b \<and> a \<in> stored_allocs E (users (mmod E) gv) then Some gv else map_of (AllocsForIndirectGlobals st) a)"
    "set (Handles st') = set (Handles st) \<union> (if b then insert gv (stored_allocs E (users (mmod E) gv)) else {})"
    "NonAddressTakenGlobals st' = NonAddressTakenGlobals st" "FunctionInfos st' = FunctionInfos st"
    by blast+
qed

section \<open>The scan is exact\<close>

definition fi_keys :: "fi_record \<Rightarrow> vid set" where
  "fi_keys fi = fst ` set (case fi_map fi of None \<Rightarrow> [] | Some P \<Rightarrow> P)"

lemma fi_keys_ops:
  "fi_keys function_info0 = {}" "fi_keys (addModRefInfo r fi) = fi_keys fi"
  "fi_keys (setMayReadAnyGlobal fi) = fi_keys fi"
  "fi_keys (addModRefInfoForGlobal gv r fi) = insert gv (fi_keys fi)"
  "fi_keys (eraseModRefInfoForGlobal gv fi) = fi_keys fi - {gv}"
  by (auto simp: fi_keys_def function_info0_def addModRefInfo_def setMayReadAnyGlobal_def
      addModRefInfoForGlobal_def eraseModRefInfoForGlobal_def Let_def split: option.split)

lemma fi_keys_add_function: "fi_keys (addFunctionInfo other fi) = fi_keys fi \<union> fi_keys other"
proof -
  have "fi_keys (fold (\<lambda>(gv, r). addModRefInfoForGlobal gv r) P F) = fi_keys F \<union> fst ` set P" for P F
    by (induction P arbitrary: F) (auto simp: fi_keys_ops)
  then show ?thesis
    by (auto simp: addFunctionInfo_def Let_def fi_keys_ops fi_keys_def [of other] split: option.split)
qed

definition infos_ok :: "globals_aa \<Rightarrow> bool" where
  "infos_ok st \<longleftrightarrow> (\<forall>(F, fi)\<in>set (FunctionInfos st). fi_wf fi \<and> fi_keys fi \<subseteq> NonAddressTakenGlobals st)"

lemma set_of_alist_put: "set (alist_put k v m) \<subseteq> insert (k, v) (set m)"
  by (induction k v m rule: alist_put.induct) auto

lemma infos_ok_update:
  assumes "infos_ok st" "\<And>fi. fi_wf fi \<Longrightarrow> fi_keys fi \<subseteq> NonAddressTakenGlobals st \<Longrightarrow>
      fi_wf (g fi) \<and> fi_keys (g fi) \<subseteq> NonAddressTakenGlobals st"
  shows "infos_ok (update_info F g st)"
proof -
  let ?old = "case map_of (FunctionInfos st) F of None \<Rightarrow> function_info0 | Some fi \<Rightarrow> fi"
  have "fi_wf ?old \<and> fi_keys ?old \<subseteq> NonAddressTakenGlobals st"
    using assms(1) by (auto simp: infos_ok_def fi_wf_ops fi_keys_ops dest: map_of_SomeD split: option.split)
  then have "fi_wf (g ?old) \<and> fi_keys (g ?old) \<subseteq> NonAddressTakenGlobals st" by (intro assms(2)) simp_all
  then show ?thesis
    using assms(1) set_of_alist_put [of F "g ?old" "FunctionInfos st"]
    unfolding infos_ok_def update_info_def by fastforce
qed

lemma infos_ok_more: "infos_ok st \<Longrightarrow> FunctionInfos st' = FunctionInfos st \<Longrightarrow>
    NonAddressTakenGlobals st \<subseteq> NonAddressTakenGlobals st' \<Longrightarrow> infos_ok st'"
  unfolding infos_ok_def by fastforce

lemma infos_ok_record:
  assumes "infos_ok st" "gv \<in> NonAddressTakenGlobals st"
  shows "infos_ok (fst (fold (record_access gv r) fs (st, tr)))"
  using assms
proof (induction fs arbitrary: st tr)
  case (Cons f fs)
  let ?st0 = "if f \<in> tr then st else add_handle f st"
  have 0: "infos_ok ?st0" "NonAddressTakenGlobals ?st0 = NonAddressTakenGlobals st"
    using Cons.prems(1) by (auto simp: add_handle_def infos_ok_def)
  have "infos_ok (update_info (Some f) (addModRefInfoForGlobal gv r) ?st0)"
    by (rule infos_ok_update [OF 0(1)]) (use Cons.prems(2) 0(2) in \<open>simp add: fi_wf_ops fi_keys_ops\<close>)
  then show ?case using Cons.IH Cons.prems(2) 0(2) by (simp add: record_access_def Let_def update_info_def)
qed simp

text \<open>What holds after the functions \<open>fs\<close> and the global variables \<open>gs\<close>.\<close>

definition found :: "module_env \<Rightarrow> vid set \<Rightarrow> vid \<Rightarrow> vid option \<Rightarrow> access set" where
  "found E gs h q = (case q of None \<Rightarrow> {}
     | Some gv \<Rightarrow> if gv \<in> gs \<and> kept_inside E gv then direct_accesses E gv h else {})"

definition owners :: "module_env \<Rightarrow> vid set \<Rightarrow> vid set" where
  "owners E gs = {gv \<in> gs. kept_inside E gv \<and> value_is_pointer E gv \<and> owns_memory E gv}"

definition handled :: "vid set \<Rightarrow> globals_aa \<Rightarrow> bool" where
  "handled tracked st \<longleftrightarrow> NonAddressTakenGlobals st \<union> tracked \<subseteq> set (Handles st)
     \<and> dom (map_of (AllocsForIndirectGlobals st)) \<subseteq> set (Handles st)
     \<and> fst ` set (FunctionInfos st) \<subseteq> Some ` tracked"

definition scan_inv :: "module_env \<Rightarrow> vid list \<Rightarrow> vid list \<Rightarrow> globals_aa \<times> vid set \<Rightarrow> bool" where
  "scan_inv E fs gs = (\<lambda>(st, tracked).
     NonAddressTakenGlobals st = {g \<in> set fs \<union> set gs. kept_inside E g}
   \<and> (\<forall>h q. info_allows st h q = found E (set gs) h q) \<and> infos_ok st
   \<and> IndirectGlobals st = owners E (set gs)
   \<and> (\<forall>a gv. map_of (AllocsForIndirectGlobals st) a = Some gv \<longrightarrow>
        gv \<in> owners E (set gs) \<and> a \<in> stored_allocs E (users (mmod E) gv))
   \<and> handled tracked st)"

lemma scan_function_step:
  assumes inv: "scan_inv E fs [] s" and run: "analyze_function k E f s = Done t"
  shows "scan_inv E (fs @ [f]) [] t"
proof -
  obtain st tr where s: "s = (st, tr)" by fastforce
  show ?thesis
  proof (cases "kept_inside E f")
    case False
    have "t = s"
    proof (cases "hasLocalLinkage E f")
      case True
      then obtain b u where b: "AnalyzeUsesOfPointer k E f None no_sets = Done (b, u)"
        using run s by (auto simp: analyze_function_def split: outcome.splits)
      then have "b" using analyze_exact(1) [OF b] False True by (auto simp: kept_inside_def)
      then show ?thesis using run s b True by (simp add: analyze_function_def)
    qed (use run s in \<open>simp add: analyze_function_def\<close>)
    moreover have "{g \<in> set fs \<union> set []. kept_inside E g} = {g \<in> set (fs @ [f]) \<union> set []. kept_inside E g}"
      using False by auto
    ultimately show ?thesis using inv by (simp add: scan_inv_def s)
  next
    case True
    then obtain b u where b: "AnalyzeUsesOfPointer k E f None no_sets = Done (b, u)"
      using run s by (auto simp: analyze_function_def kept_inside_def split: outcome.splits)
    then have "\<not> b" using analyze_exact(1) [OF b] True by (auto simp: kept_inside_def)
    then have t: "t = (add_handle f (st\<lparr>NonAddressTakenGlobals := insert f (NonAddressTakenGlobals st)\<rparr>), insert f tr)"
      using run s b True by (simp add: analyze_function_def kept_inside_def)
    let ?st = "add_handle f (st\<lparr>NonAddressTakenGlobals := insert f (NonAddressTakenGlobals st)\<rparr>)"
    note old = inv [unfolded scan_inv_def s prod.case]
    have na: "NonAddressTakenGlobals st = {g \<in> set fs \<union> set []. kept_inside E g}"
      and al: "\<forall>h q. info_allows st h q = found E (set []) h q" and ok: "infos_ok st"
      and ind: "IndirectGlobals st = owners E (set [])"
      and m: "\<forall>a gv. map_of (AllocsForIndirectGlobals st) a = Some gv \<longrightarrow>
        gv \<in> owners E (set []) \<and> a \<in> stored_allocs E (users (mmod E) gv)" and h: "handled tr st"
      using old by - (elim conjE, assumption)+
    have "infos_ok ?st" by (rule infos_ok_more [OF ok]) (auto simp: add_handle_def)
    moreover have "NonAddressTakenGlobals ?st = {g \<in> set (fs @ [f]) \<union> set []. kept_inside E g}"
      using na True by (auto simp: add_handle_def)
    moreover have "info_allows ?st h q = found E (set []) h q" for h q
      using al by (simp add: info_allows_def getFunctionInfo_def add_handle_def)
    moreover have "handled (insert f tr) ?st" using h by (auto simp: handled_def add_handle_def)
    moreover have "IndirectGlobals ?st = owners E (set [])"
      "AllocsForIndirectGlobals ?st = AllocsForIndirectGlobals st"
      using ind by (simp_all add: add_handle_def)
    ultimately show ?thesis using m unfolding scan_inv_def t prod.case by simp
  qed
qed

lemma found_more:
  "found E (insert gv gs) h q = found E gs h q \<union>
     (if q = Some gv \<and> kept_inside E gv then direct_accesses E gv h else {})"
  by (auto simp: found_def split: option.split)

lemma scan_global_step:
  assumes inv: "scan_inv E fs gs s" and run: "analyze_global k E gv s = Done t"
  shows "scan_inv E fs (gs @ [gv]) t"
proof -
  obtain st tr where s: "s = (st, tr)" by fastforce
  let ?sets = "\<lparr>Readers = Some [], Writers = if mconstant E gv then None else Some []\<rparr>"
  show ?thesis
  proof (cases "kept_inside E gv")
    case False
    have "t = s"
    proof (cases "hasLocalLinkage E gv")
      case True
      then obtain b u where b: "AnalyzeUsesOfPointer k E gv None ?sets = Done (b, u)"
        using run s by (auto simp: analyze_global_def split: outcome.splits)
      then have "b" using analyze_exact(1) [OF b] False True by (auto simp: kept_inside_def)
      then show ?thesis using run s b True by (simp add: analyze_global_def)
    qed (use run s in \<open>simp add: analyze_global_def\<close>)
    moreover have "{g \<in> set fs \<union> set (gs @ [gv]). kept_inside E g} = {g \<in> set fs \<union> set gs. kept_inside E g}"
      "owners E (set (gs @ [gv])) = owners E (set gs)" using False by (auto simp: owners_def)
    moreover have "found E (set (gs @ [gv])) = found E (set gs)"
      using False by (simp add: fun_eq_iff found_more)
    ultimately show ?thesis using inv by (simp add: scan_inv_def s)
  next
    case kept: True
    then obtain b rw where b: "AnalyzeUsesOfPointer k E gv None ?sets = Done (b, rw)"
      using run s by (auto simp: analyze_global_def kept_inside_def split: outcome.splits)
    note ex = analyze_exact(1) [OF b]
    have nb: "\<not> b" using ex kept by (auto simp: kept_inside_def)
    define st1 where "st1 = add_handle gv (st\<lparr>NonAddressTakenGlobals := insert gv (NonAddressTakenGlobals st)\<rparr>)"
    define rs where "rs = (case Readers rw of None \<Rightarrow> [] | Some fs \<Rightarrow> fs)"
    define ws where "ws = (if mconstant E gv then [] else case Writers rw of None \<Rightarrow> [] | Some fs \<Rightarrow> fs)"
    have rs: "set rs = accessing E URead gv None" and ws: "set ws = (if mconstant E gv then {} else accessing E UWrite gv None)"
      using ex nb by (auto simp: access_post_def added_def rs_def ws_def split: option.split)
    obtain st2 tr2 where 2: "fold (record_access gv Ref) rs (st1, tr) = (st2, tr2)" by fastforce
    obtain st3 tr3 where 3: "fold (record_access gv Mod) ws (st2, tr2) = (st3, tr3)" by fastforce
    note r2 = record_access_fold [OF 2] and r3 = record_access_fold [OF 3]
    have eq: "analyze_global k E gv s = (if value_is_pointer E gv
        then (case AnalyzeIndirectGlobalMemory k E gv st3 of
                Crash \<Rightarrow> Crash | OutOfFuel \<Rightarrow> OutOfFuel | Done (_, st4) \<Rightarrow> Done (st4, tr3))
        else Done (st3, tr3))"
      using kept b nb 2 3
      by (cases "mconstant E gv") (simp_all add: analyze_global_def kept_inside_def s st1_def rs_def ws_def Let_def)
    have old: "NonAddressTakenGlobals st = {g \<in> set fs \<union> set gs. kept_inside E g}"
      "\<And>h q. info_allows st h q = found E (set gs) h q" "infos_ok st" "IndirectGlobals st = owners E (set gs)"
      "\<And>a gv. map_of (AllocsForIndirectGlobals st) a = Some gv \<Longrightarrow>
        gv \<in> owners E (set gs) \<and> a \<in> stored_allocs E (users (mmod E) gv)" "handled tr st"
      using inv by (auto simp: scan_inv_def s)
    have na: "NonAddressTakenGlobals st3 = {g \<in> set fs \<union> set (gs @ [gv]). kept_inside E g}"
      using r2 r3 kept by (auto simp: st1_def add_handle_def old(1))
    have al: "info_allows st1 h q = info_allows st h q" for h q
      by (simp add: st1_def add_handle_def info_allows_def getFunctionInfo_def)
    have infos: "info_allows st3 h q = found E (set (gs @ [gv])) h q" for h q
    proof -
      have "info_allows st3 h q = found E (set gs) h q \<union> (if h \<in> set rs \<and> q = Some gv then {ARef} else {})
          \<union> (if h \<in> set ws \<and> q = Some gv then {AMod} else {})"
        using r2 r3 al [of h q] old(2) [of h q] by (simp add: accs_values)
      also have "\<dots> = found E (set gs) h q \<union> (if q = Some gv then direct_accesses E gv h else {})"
        unfolding rs ws direct_accesses_def by auto
      finally show ?thesis using kept by (simp add: found_more)
    qed
    have ok1: "infos_ok st1"
      by (rule infos_ok_more [OF old(3)]) (auto simp: st1_def add_handle_def)
    have in1: "gv \<in> NonAddressTakenGlobals st1" by (simp add: st1_def add_handle_def)
    have ok2: "infos_ok st2" using infos_ok_record [OF ok1 in1, of Ref rs tr] unfolding 2 by simp
    have in2: "gv \<in> NonAddressTakenGlobals st2" using in1 r2 by simp
    have ok3: "infos_ok st3" using infos_ok_record [OF ok2 in2, of Mod ws tr2] unfolding 3 by simp
    have h3: "handled tr3 st3" "gv \<in> set (Handles st3)"
      using old(6) r2 r3 by (auto simp: handled_def st1_def add_handle_def)
    have same3: "IndirectGlobals st3 = owners E (set gs)"
        "AllocsForIndirectGlobals st3 = AllocsForIndirectGlobals st"
      using r2 r3 old(4) by (simp_all add: st1_def add_handle_def)
    show ?thesis
    proof (cases "value_is_pointer E gv")
      case False
      then have "t = (st3, tr3)" using run eq by simp
      moreover have "owners E (set (gs @ [gv])) = owners E (set gs)" using False by (auto simp: owners_def)
      ultimately show ?thesis using na infos ok3 h3 same3 old(5) by (simp add: scan_inv_def)
    next
      case True
      then obtain c st4 where 4: "AnalyzeIndirectGlobalMemory k E gv st3 = Done (c, st4)" and t: "t = (st4, tr3)"
        using run eq by (auto split: outcome.splits)
      note i = analyze_indirect_exact [OF 4]
      have own: "owners E (set (gs @ [gv])) = (if c then insert gv (owners E (set gs)) else owners E (set gs))"
        using True kept i(1) by (auto simp: owners_def)
      have "info_allows st4 h q = info_allows st3 h q" for h q
        by (simp add: info_allows_def getFunctionInfo_def i(6))
      moreover have "infos_ok st4" by (rule infos_ok_more [OF ok3 i(6)]) (simp add: i(5))
      moreover have "handled tr3 st4"
        using h3 unfolding handled_def i(4,5,6) by (auto simp: i(3) split: if_splits)
      moreover have "gw \<in> owners E (set (gs @ [gv])) \<and> a \<in> stored_allocs E (users (mmod E) gw)"
        if "map_of (AllocsForIndirectGlobals st4) a = Some gw" for a gw
        using that old(5) [of a gw] unfolding i(3) same3(2) own by (auto split: if_splits)
      ultimately show ?thesis
        unfolding t scan_inv_def prod.case i(2,5) same3(1) using na infos own by simp
    qed
  qed
qed

lemma scan_inv_start: "scan_inv E [] [] (globals_aa0\<lparr>FunctionToSCCMap := m\<rparr>, {})"
  by (auto simp: scan_inv_def globals_aa0_def info_allows_def getFunctionInfo_def found_def infos_ok_def
      owners_def handled_def split: option.split)

lemma AnalyzeGlobals_exact:
  assumes "AnalyzeGlobals k E (globals_aa0\<lparr>FunctionToSCCMap := m\<rparr>) = Done st"
  shows "\<exists>tracked. scan_inv E (mfunctions E) (mglobals E) (st, tracked)"
proof -
  obtain s1 s2 where 1: "ofold (analyze_function k E) (mfunctions E) (globals_aa0\<lparr>FunctionToSCCMap := m\<rparr>, {}) = Done s1"
    and 2: "ofold (analyze_global k E) (mglobals E) s1 = Done s2" "st = fst s2"
    using assms by (auto simp: AnalyzeGlobals_def split: outcome.splits prod.splits)
  have "scan_inv E (mfunctions E) [] s1"
    by (rule ofold_induct [where P = "\<lambda>fs s. scan_inv E fs [] s", OF 1 scan_inv_start]) (rule scan_function_step)
  from ofold_induct [where P = "\<lambda>gs s. scan_inv E (mfunctions E) gs s", OF 2(1) this] scan_global_step
  have "scan_inv E (mfunctions E) (mglobals E) s2" by blast
  then show ?thesis using 2(2) by (metis prod.collapse)
qed

lemma CollectSCC_frame: "\<exists>m. CollectSCCMembership sccs globals_aa0 = globals_aa0\<lparr>FunctionToSCCMap := m\<rparr>"
proof -
  let ?g = "\<lambda>ID n s. case getFunction n of None \<Rightarrow> s
        | Some f \<Rightarrow> s\<lparr>FunctionToSCCMap := alist_put f ID (FunctionToSCCMap s)\<rparr>"
  have inner: "\<exists>m. fold (?g ID) scc (globals_aa0\<lparr>FunctionToSCCMap := m0\<rparr>) = globals_aa0\<lparr>FunctionToSCCMap := m\<rparr>"
    for ID scc m0
  proof (induction scc arbitrary: m0)
    case Nil
    show ?case unfolding fold_simps id_apply by blast
  next
    case (Cons n scc)
    show ?case
    proof (cases "getFunction n")
      case None
      then show ?thesis using Cons.IH [of m0] by simp
    next
      case (Some f)
      then show ?thesis using Cons.IH [of "alist_put f ID m0"] by simp
    qed
  qed
  have "\<exists>ID' m. fold (\<lambda>scc (ID, s). (ID + 1, fold (?g ID) scc s)) sccs (ID, globals_aa0\<lparr>FunctionToSCCMap := m0\<rparr>)
      = (ID', globals_aa0\<lparr>FunctionToSCCMap := m\<rparr>)" for ID m0
  proof (induction sccs arbitrary: ID m0)
    case (Cons scc sccs)
    obtain m where "fold (?g ID) scc (globals_aa0\<lparr>FunctionToSCCMap := m0\<rparr>) = globals_aa0\<lparr>FunctionToSCCMap := m\<rparr>"
      using inner by blast
    then show ?case using Cons.IH [of "ID + 1" m] by simp
  next
    case Nil
    show ?case unfolding fold_simps id_apply by blast
  qed
  from this [of 0 "[]"] obtain ID' m where
    "fold (\<lambda>scc (ID, s). (ID + 1, fold (?g ID) scc s)) sccs (0, globals_aa0\<lparr>FunctionToSCCMap := []\<rparr>)
      = (ID', globals_aa0\<lparr>FunctionToSCCMap := m\<rparr>)" by blast
  moreover have "globals_aa0\<lparr>FunctionToSCCMap := []\<rparr> = globals_aa0" by (simp add: globals_aa0_def)
  ultimately show ?thesis by (auto simp: CollectSCCMembership_def)
qed

section \<open>Forgetting a deleted value\<close>

definition mentions :: "globals_aa \<Rightarrow> vid \<Rightarrow> bool" where
  "mentions st v \<longleftrightarrow> v \<in> NonAddressTakenGlobals st \<or> v \<in> IndirectGlobals st
     \<or> v \<in> fst ` set (AllocsForIndirectGlobals st) \<or> v \<in> snd ` set (AllocsForIndirectGlobals st)
     \<or> Some v \<in> fst ` set (FunctionInfos st) \<or> (\<exists>(F, fi)\<in>set (FunctionInfos st). v \<in> fi_keys fi)"

definition globals_inv :: "module_env \<Rightarrow> globals_aa \<Rightarrow> bool" where
  "globals_inv E st \<longleftrightarrow> infos_ok st \<and> IndirectGlobals st \<subseteq> NonAddressTakenGlobals st
     \<and> snd ` set (AllocsForIndirectGlobals st) \<subseteq> IndirectGlobals st
     \<and> (\<forall>g\<in>NonAddressTakenGlobals st. is_global_value (mmod E) g)
     \<and> (\<forall>f. Some f \<in> fst ` set (FunctionInfos st) \<longrightarrow> vkind (mval (mmod E) f) = KFunction)"

lemma fi_wf_erase: "fi_wf fi \<Longrightarrow> fi_wf (eraseModRefInfoForGlobal gv fi)"
  by (rule fi_wf_ops)

lemma deleted_forgets:
  assumes inv: "globals_inv E st"
  shows "globals_inv E (handle_deleted E v st)" "\<not> mentions (handle_deleted E v st) v"
    "w \<noteq> v \<Longrightarrow> mentions (handle_deleted E v st) w \<Longrightarrow> mentions st w"
proof -
  let ?M = "mmod E" and ?t = "handle_deleted E v st"
  have na: "NonAddressTakenGlobals ?t = NonAddressTakenGlobals st - {v}"
    using inv by (auto simp: handle_deleted_def Let_def erase_info_def globals_inv_def)
  have ind: "IndirectGlobals ?t = IndirectGlobals st - {v}"
    using inv by (auto simp: handle_deleted_def Let_def erase_info_def globals_inv_def)
  have allocs: "set (AllocsForIndirectGlobals ?t) = {p \<in> set (AllocsForIndirectGlobals st). fst p \<noteq> v \<and> snd p \<noteq> v}"
    using inv by (auto simp: handle_deleted_def Let_def erase_info_def globals_inv_def)
  let ?L = "filter (\<lambda>p. fst p \<noteq> Some v) (FunctionInfos st)"
  have filt: "(if vkind (mval ?M v) = KFunction then ?L else FunctionInfos st) = ?L"
  proof (cases "vkind (mval ?M v) = KFunction")
    case False
    then have "Some v \<notin> fst ` set (FunctionInfos st)" using inv by (auto simp: globals_inv_def)
    then have "?L = FunctionInfos st" by (intro filter_True) (auto simp: image_iff)
    then show ?thesis by simp
  qed simp
  have "is_global_value ?M v" if "v \<in> NonAddressTakenGlobals st" using inv that by (simp add: globals_inv_def)
  then have "FunctionInfos ?t = (if v \<in> NonAddressTakenGlobals st
      then map (\<lambda>(F, fi). (F, eraseModRefInfoForGlobal v fi)) ?L else ?L)"
    using filt by (auto simp: handle_deleted_def Let_def erase_info_def)
  then have infos: "set (FunctionInfos ?t) = (\<lambda>(F, fi). (F, if v \<in> NonAddressTakenGlobals st
        then eraseModRefInfoForGlobal v fi else fi)) ` {p \<in> set (FunctionInfos st). fst p \<noteq> Some v}"
    by (auto simp: image_iff)
  have ok: "infos_ok ?t"
    unfolding infos_ok_def infos na
    using inv by (auto simp: globals_inv_def infos_ok_def fi_keys_ops fi_wf_ops)
  show "globals_inv E ?t"
    unfolding globals_inv_def
  proof (intro conjI allI impI)
    fix f
    assume "Some f \<in> fst ` set (FunctionInfos ?t)"
    then have "Some f \<in> fst ` set (FunctionInfos st)" unfolding infos by force
    then show "vkind (mval ?M f) = KFunction" using inv by (simp add: globals_inv_def)
  qed (use ok inv in \<open>auto simp: globals_inv_def na ind allocs\<close>)
  show "\<not> mentions ?t v"
    using inv unfolding mentions_def na ind allocs infos
    by (auto simp: globals_inv_def infos_ok_def fi_keys_ops)
  show "mentions st w" if "w \<noteq> v" "mentions ?t w"
    using that(2) [unfolded mentions_def]
  proof (elim disjE)
    assume "Some w \<in> fst ` set (FunctionInfos ?t)"
    then have "Some w \<in> fst ` set (FunctionInfos st)" unfolding infos by force
    then show "mentions st w" by (simp add: mentions_def)
  next
    assume "\<exists>(F, fi)\<in>set (FunctionInfos ?t). w \<in> fi_keys fi"
    then show "mentions st w" unfolding infos mentions_def by (auto simp: fi_keys_ops split: if_splits)
  qed (auto simp: na ind allocs mentions_def)
qed

end
