(* ===== verification/GlobalsPropagate.thy ===== *)
theory GlobalsPropagate
  imports GlobalsState AAResults
begin

text \<open>
  The propagation of mod/ref information over the call graph (\<^verbatim>\<open>GlobalsAAResult::AnalyzeCallGraph\<close>): the
  strongly connected components are visited callees first, and each gets one record that covers what its
  functions do. What a function may do is an inductive relation over the module; the records are sound for it.
\<close>

section \<open>One component\<close>

definition the_info :: "globals_aa \<Rightarrow> vid \<Rightarrow> fi_record" where
  "the_info st f = (case getFunctionInfo st f of None \<Rightarrow> function_info0 | Some fi \<Rightarrow> fi)"

definition erase_infos :: "cg_node list \<Rightarrow> globals_aa \<Rightarrow> globals_aa" where
  "erase_infos scc st = fold (\<lambda>n. erase_info (getFunction n)) scc st"

text \<open>The loop over the callees of a node; true is \<^verbatim>\<open>KnowNothing\<close>. The record updated is that of \<open>F\<close>.\<close>

fun scan_callees ::
  "call_graph \<Rightarrow> cg_node list \<Rightarrow> vid \<Rightarrow> cg_node list \<Rightarrow> (globals_aa, bool) smon" where
  "scan_callees G scc F [] st = Done (False, st)"
| "scan_callees G scc F (n # ns) st = (case getFunction n of
     None \<Rightarrow> Done (True, st)
   | Some callee \<Rightarrow> (case getFunctionInfo st callee of
       Some fi \<Rightarrow> scan_callees G scc F ns (update_info (Some F) (addFunctionInfo fi) st)
     | None \<Rightarrow> (case cg_lookup G callee of
         Crash \<Rightarrow> Crash | OutOfFuel \<Rightarrow> OutOfFuel
       | Done node \<Rightarrow> if node \<notin> set scc then Done (True, st) else scan_callees G scc F ns st)))"

text \<open>The loop over the members: the function tested and updated is the one of the first member.\<close>

fun scan_members ::
  "module_env \<Rightarrow> call_graph \<Rightarrow> cg_node list \<Rightarrow> vid \<Rightarrow> cg_node list \<Rightarrow> (globals_aa, bool) smon" where
  "scan_members E G scc F [] st = Done (False, st)"
| "scan_members E G scc F (n # ns) st =
    (if isDeclaration E F \<or> moptnone E F then
       (if fn_doesNotAccessMemory E F then scan_members E G scc F ns st
        else if fn_onlyReadsMemory E F then
          (let st1 = update_info (Some F) (addModRefInfo Ref) st;
               st2 = (if \<not> mintrinsic E F \<and> \<not> fn_onlyAccessesArgMemory E F
                      then update_info (Some F) setMayReadAnyGlobal st1 else st1)
           in scan_members E G scc F ns st2)
        else
          (let st1 = update_info (Some F) (addModRefInfo ModRef) st
           in if \<not> mintrinsic E F then Done (True, st1) else scan_members E G scc F ns st1))
     else case scan_callees G scc F (cg_succs G n) st of
       Crash \<Rightarrow> Crash | OutOfFuel \<Rightarrow> OutOfFuel
     | Done (b, t) \<Rightarrow> if b then Done (True, t) else scan_members E G scc F ns t)"

definition scan_inst :: "module_env \<Rightarrow> vid \<Rightarrow> fi_record \<Rightarrow> fi_record" where
  "scan_inst E i fi =
    (if is_call_base (mmod E) i then
       (if malloc_fn E i \<or> mfree E i then addModRefInfo ModRef fi
        else case called_function (mmod E) i of
          None \<Rightarrow> fi
        | Some callee \<Rightarrow>
            if mintrinsic E callee
            then if mdbg E i then fi
                 else addModRefInfo (createModRefInfo (p_fun_behavior AAResultBase callee)) fi
            else fi)
     else
       (let fi1 = (if mayReadFromMemory (mcfl E) i then addModRefInfo Ref fi else fi)
        in if mayWriteToMemory (mcfl E) i then addModRefInfo Mod fi1 else fi1))"

fun scan_insts :: "module_env \<Rightarrow> vid list \<Rightarrow> fi_record \<Rightarrow> fi_record" where
  "scan_insts E [] fi = fi"
| "scan_insts E (i # is) fi =
    (if isModAndRefSet (fi_getModRefInfo fi) then fi else scan_insts E is (scan_inst E i fi))"

text \<open>The second loop over the members reads the function of each; a null pointer crashes.\<close>

fun scan_bodies :: "module_env \<Rightarrow> cg_node list \<Rightarrow> fi_record \<Rightarrow> fi_record outcome" where
  "scan_bodies E [] fi = Done fi"
| "scan_bodies E (n # ns) fi =
    (if isModAndRefSet (fi_getModRefInfo fi) then Done fi
     else case getFunction n of
       None \<Rightarrow> Crash
     | Some f \<Rightarrow> if moptnone E f then scan_bodies E ns fi
                 else scan_bodies E ns (scan_insts E (fn_insts E f) fi))"

definition analyze_scc :: "module_env \<Rightarrow> call_graph \<Rightarrow> cg_node list \<Rightarrow> globals_aa \<Rightarrow> globals_aa outcome" where
  "analyze_scc E G scc st = (case scc of
     [] \<Rightarrow> Crash
   | head # others \<Rightarrow> (case getFunction head of
       None \<Rightarrow> Done (erase_infos scc st)
     | Some F \<Rightarrow>
         if \<not> isDefinitionExact E F then Done (erase_infos scc st)
         else (case scan_members E G scc F scc (add_handle F (update_info (Some F) (\<lambda>fi. fi) st)) of
             Crash \<Rightarrow> Crash | OutOfFuel \<Rightarrow> OutOfFuel
           | Done (KnowNothing, st1) \<Rightarrow>
               if KnowNothing then Done (erase_infos scc st1)
               else (case scan_bodies E scc (the_info st1 F) of
                   Crash \<Rightarrow> Crash | OutOfFuel \<Rightarrow> OutOfFuel
                 | Done fi \<Rightarrow>
                     Done (fold (\<lambda>n. update_info (getFunction n) (\<lambda>_. fi)) others
                             (update_info (Some F) (\<lambda>_. fi) st1))))))"

definition AnalyzeCallGraph :: "module_env \<Rightarrow> call_graph \<Rightarrow> cg_node list list \<Rightarrow> globals_aa \<Rightarrow> globals_aa outcome" where
  "AnalyzeCallGraph E G sccs st = ofold (analyze_scc E G) sccs st"

text \<open>Both loops over the components see what the iterator enumerates.\<close>

definition analyzeModule :: "nat \<Rightarrow> module_env \<Rightarrow> globals_aa outcome" where
  "analyzeModule k E =
    (let G = build_call_graph E in
     case all_sccs k (cg_succs G) ExternalCallingNode of
       Crash \<Rightarrow> Crash | OutOfFuel \<Rightarrow> OutOfFuel
     | Done sccs \<Rightarrow> (case AnalyzeGlobals k E (CollectSCCMembership sccs globals_aa0) of
         Crash \<Rightarrow> Crash | OutOfFuel \<Rightarrow> OutOfFuel
       | Done st \<Rightarrow> AnalyzeCallGraph E G sccs st))"

section \<open>What a function may do\<close>

text \<open>
  The question is \<open>None\<close> for any memory, or a global whose address does not escape. A function whose
  definition is not exact may do anything. One without a body to rely on does what its attributes allow: a
  function that only reads may call back and read a global, unless it is an intrinsic or touches only its
  arguments. Other functions do what their instructions do, and what the functions they call do.
\<close>

definition attr_effect :: "module_env \<Rightarrow> vid option \<Rightarrow> vid \<Rightarrow> access set" where
  "attr_effect E q f =
    (if fn_doesNotAccessMemory E f then {}
     else if fn_onlyReadsMemory E f then
       (if q \<noteq> None \<and> (mintrinsic E f \<or> fn_onlyAccessesArgMemory E f) then {} else {ARef})
     else if q \<noteq> None \<and> mintrinsic E f then {} else UNIV)"

definition own_effect :: "module_env \<Rightarrow> vid \<Rightarrow> access set" where
  "own_effect E i =
    (if is_call_base (mmod E) i then
       (if malloc_fn E i \<or> mfree E i then UNIV
        else case called_function (mmod E) i of
          None \<Rightarrow> {} | Some g \<Rightarrow> if mintrinsic E g \<and> \<not> mdbg E i then UNIV else {})
     else {a. a = ARef \<and> mayReadFromMemory (mcfl E) i \<or> a = AMod \<and> mayWriteToMemory (mcfl E) i})"

inductive effect :: "module_env \<Rightarrow> vid option \<Rightarrow> vid \<Rightarrow> access \<Rightarrow> bool" for E q where
  inexact: "\<not> isDefinitionExact E f \<Longrightarrow> effect E q f a"
| attributes: "isDeclaration E f \<or> moptnone E f \<Longrightarrow> a \<in> attr_effect E q f \<Longrightarrow> effect E q f a"
| own: "\<not> isDeclaration E f \<Longrightarrow> \<not> moptnone E f \<Longrightarrow> i \<in> set (fn_insts E f) \<Longrightarrow> q = None
    \<Longrightarrow> a \<in> own_effect E i \<Longrightarrow> effect E q f a"
| unknown: "\<not> isDeclaration E f \<Longrightarrow> \<not> moptnone E f \<Longrightarrow> i \<in> set (fn_insts E f) \<Longrightarrow> calls_unknown E i
    \<Longrightarrow> effect E q f a"
| call: "\<not> isDeclaration E f \<Longrightarrow> \<not> moptnone E f \<Longrightarrow> i \<in> set (fn_insts E f) \<Longrightarrow> calls_directly E i g
    \<Longrightarrow> effect E q g a \<Longrightarrow> effect E q f a"
| direct: "q = Some gv \<Longrightarrow> a \<in> direct_accesses E gv f \<Longrightarrow> effect E q f a"

definition tracked_question :: "module_env \<Rightarrow> vid option \<Rightarrow> bool" where
  "tracked_question E q \<longleftrightarrow> (\<forall>gv. q = Some gv \<longrightarrow> gv \<in> set (mglobals E) \<and> kept_inside E gv)"

text \<open>
  Functions that call each other in a cycle through another function: their definitions are exact and they
  are not \<^verbatim>\<open>optnone\<close>. The code looks at these flags for the first function of a component only.
\<close>

definition plain :: "module_env \<Rightarrow> vid \<Rightarrow> bool" where
  "plain E f \<longleftrightarrow> isDefinitionExact E f \<and> \<not> isDeclaration E f \<and> \<not> moptnone E f"

definition plain_cycles :: "module_env \<Rightarrow> bool" where
  "plain_cycles E \<longleftrightarrow> (\<forall>f n. n \<noteq> FunctionNode f \<longrightarrow>
     n \<in> component_of (cg_succs (build_call_graph E)) (FunctionNode f) \<longrightarrow> plain E f)"

section \<open>A record grows\<close>

definition grows :: "vid \<Rightarrow> globals_aa \<Rightarrow> globals_aa \<Rightarrow> bool" where
  "grows F st st' \<longleftrightarrow> infos_ok st' \<and> getFunctionInfo st' F \<noteq> None
     \<and> NonAddressTakenGlobals st' = NonAddressTakenGlobals st
     \<and> (\<forall>h. h \<noteq> F \<longrightarrow> getFunctionInfo st' h = getFunctionInfo st h)
     \<and> (\<forall>q. info_allows st F q \<subseteq> info_allows st' F q)"

lemma grows_refl: "infos_ok st \<Longrightarrow> getFunctionInfo st F \<noteq> None \<Longrightarrow> grows F st st"
  by (simp add: grows_def)

lemma grows_trans: "grows F a b \<Longrightarrow> grows F b c \<Longrightarrow> grows F a c"
  unfolding grows_def by (simp, blast)

lemma info_ok: "infos_ok st \<Longrightarrow> getFunctionInfo st f = Some fi \<Longrightarrow>
    fi_wf fi \<and> fi_keys fi \<subseteq> NonAddressTakenGlobals st"
  by (auto simp: infos_ok_def getFunctionInfo_def dest: map_of_SomeD)

lemma grows_update:
  assumes "infos_ok st" "\<And>fi. fi_wf fi \<Longrightarrow> fi_keys fi \<subseteq> NonAddressTakenGlobals st \<Longrightarrow>
      fi_wf (g fi) \<and> fi_keys (g fi) \<subseteq> NonAddressTakenGlobals st"
    and "\<And>fi q. fi_wf fi \<Longrightarrow> fi_allows fi q \<subseteq> fi_allows (g fi) q"
  shows "grows F st (update_info (Some F) g st)"
    "getFunctionInfo (update_info (Some F) g st) F = Some (g (the_info st F))"
proof -
  show eq: "getFunctionInfo (update_info (Some F) g st) F = Some (g (the_info st F))"
    by (simp add: info_of_update the_info_def)
  have "info_allows st F q \<subseteq> fi_allows (the_info st F) q" for q
    by (auto simp: info_allows_def the_info_def split: option.split)
  moreover have "fi_wf (the_info st F)"
    using info_ok [OF assms(1)] by (auto simp: the_info_def fi_wf_ops split: option.split)
  ultimately have sub: "info_allows st F q \<subseteq> fi_allows (g (the_info st F)) q" for q using assms(3) by blast
  have "info_allows (update_info (Some F) g st) F q = fi_allows (g (the_info st F)) q" for q
    by (simp add: info_allows_def eq)
  moreover have "NonAddressTakenGlobals (update_info (Some F) g st) = NonAddressTakenGlobals st"
    by (simp add: update_info_def)
  moreover have "getFunctionInfo (update_info (Some F) g st) h = getFunctionInfo st h" if "h \<noteq> F" for h
    using that by (simp add: info_of_update)
  ultimately show "grows F st (update_info (Some F) g st)"
    using infos_ok_update [OF assms(1,2)] sub unfolding grows_def by (simp add: eq)
qed

text \<open>What the scan of the callees leaves covered: each is a function with a record, or in the component.\<close>

definition covered :: "globals_aa \<Rightarrow> call_graph \<Rightarrow> cg_node list \<Rightarrow> vid \<Rightarrow> cg_node \<Rightarrow> globals_aa \<Rightarrow> bool" where
  "covered st G scc F n st' \<longleftrightarrow> (\<exists>c. getFunction n = Some c
     \<and> (c \<noteq> F \<longrightarrow> (\<forall>q. info_allows st c q \<subseteq> info_allows st' F q))
     \<and> (getFunctionInfo st c = None \<longrightarrow> (\<exists>m. cg_lookup G c = Done m \<and> m \<in> set scc)))"

lemma covered_grows: "covered st G scc F n st' \<Longrightarrow> grows F st' st'' \<Longrightarrow> covered st G scc F n st''"
  unfolding covered_def grows_def by (elim exE conjE) (intro exI conjI; blast)

lemma covered_before:
  assumes "grows F st0 st" "covered st G scc F n st'" "getFunctionInfo st0 F \<noteq> None"
  shows "covered st0 G scc F n st'"
proof -
  have same: "getFunctionInfo st0 c = getFunctionInfo st c" if "c \<noteq> F" for c
    using assms(1) that by (simp add: grows_def)
  have "info_allows st0 c q = info_allows st c q" if "c \<noteq> F" for c q
    using same [OF that] by (simp add: info_allows_def)
  moreover have "getFunctionInfo st c = None" if "getFunctionInfo st0 c = None" for c
    using assms(3) that same by metis
  ultimately show ?thesis using assms(2) unfolding covered_def by metis
qed

lemma scan_callees_grows:
  assumes "scan_callees G scc F ns st = Done (b, st')" "infos_ok st" "getFunctionInfo st F \<noteq> None"
  shows "grows F st st' \<and> (\<not> b \<longrightarrow> (\<forall>n\<in>set ns. covered st G scc F n st'))"
  using assms
proof (induction G scc F ns st rule: scan_callees.induct)
  case (1 G scc F st)
  then show ?case by (simp add: grows_refl)
next
  case (2 G scc F n ns st)
  show ?case
  proof (cases "getFunction n")
    case None
    then show ?thesis using "2.prems" by (auto simp: grows_refl)
  next
    case c: (Some c)
    show ?thesis
    proof (cases "getFunctionInfo st c")
      case None
      then obtain m where m: "cg_lookup G c = Done m" using "2.prems"(1) c by (auto split: outcome.splits)
      show ?thesis
      proof (cases "m \<in> set scc")
        case False
        then show ?thesis using "2.prems" c None m by (auto simp: grows_refl)
      next
        case True
        then have run: "scan_callees G scc F ns st = Done (b, st')" using "2.prems"(1) c None m by simp
        have "\<not> m \<notin> set scc" using True by simp
        note IH = "2.IH"(1) [OF c None m this run "2.prems"(2,3)]
        have "covered st G scc F n st'" using c None m True by (auto simp: covered_def info_allows_def)
        then show ?thesis using IH by simp
      qed
    next
      case (Some fi)
      let ?u = "update_info (Some F) (addFunctionInfo fi) st"
      have fi: "fi_wf fi" "fi_keys fi \<subseteq> NonAddressTakenGlobals st" using info_ok [OF "2.prems"(2) Some] by auto
      have g: "grows F st ?u" and e: "getFunctionInfo ?u F = Some (addFunctionInfo fi (the_info st F))"
        by (rule grows_update [OF "2.prems"(2)];
            use fi in \<open>auto simp: fi_keys_add_function fi_wf_add_function fi_allows_add_function\<close>)+
      have run: "scan_callees G scc F ns ?u = Done (b, st')" using "2.prems"(1) c Some by simp
      have ok: "infos_ok ?u" "getFunctionInfo ?u F \<noteq> None" using g e by (auto simp: grows_def)
      note IH = "2.IH"(2) [OF c Some run ok]
      have "info_allows st c q \<subseteq> info_allows ?u F q" for q
        using e Some fi by (auto simp: info_allows_def fi_allows_add_function)
      then have "covered st G scc F n ?u" using c Some by (simp add: covered_def)
      moreover have "covered st G scc F m st'" if "\<not> b" "m \<in> set ns" for m
        using covered_before [OF g _ "2.prems"(3)] IH that by blast
      ultimately show ?thesis using IH g covered_grows grows_trans by auto
    qed
  qed
qed

text \<open>The loop over the members.\<close>

lemma grows_add:
  assumes "infos_ok st"
  shows "grows F st (update_info (Some F) (addModRefInfo r) st)"
    "info_allows (update_info (Some F) (addModRefInfo r) st) F q =
       info_allows st F q \<union> (if q = None then accs r else {})"
    "grows F st (update_info (Some F) setMayReadAnyGlobal st)"
    "info_allows (update_info (Some F) setMayReadAnyGlobal st) F q =
       info_allows st F q \<union> (if q = None then {} else {ARef})"
proof -
  have old: "fi_allows (the_info st F) q = info_allows st F q" for q
    by (simp add: the_info_def info_allows_def fi_allows_0 split: option.split)
  have add: "fi_allows fi p \<subseteq> fi_allows (addModRefInfo r fi) p" for fi p
    by (cases p) (auto simp: fi_allows_add)
  have any: "fi_allows fi p \<subseteq> fi_allows (setMayReadAnyGlobal fi) p" for fi p
    by (cases p) (auto simp: fi_allows_any)
  note ga = grows_update [OF assms, where F = F and g = "addModRefInfo r", OF _ add]
  note gs = grows_update [OF assms, where F = F and g = setMayReadAnyGlobal, OF _ any]
  show "grows F st (update_info (Some F) (addModRefInfo r) st)" by (rule ga(1)) (simp add: fi_wf_ops fi_keys_ops)
  show "grows F st (update_info (Some F) setMayReadAnyGlobal st)" by (rule gs(1)) (simp add: fi_wf_ops fi_keys_ops)
  have "getFunctionInfo (update_info (Some F) (addModRefInfo r) st) F = Some (addModRefInfo r (the_info st F))"
    by (rule ga(2)) (simp add: fi_wf_ops fi_keys_ops)
  then show "info_allows (update_info (Some F) (addModRefInfo r) st) F q =
       info_allows st F q \<union> (if q = None then accs r else {})"
    by (cases q) (simp_all add: info_allows_def [of "update_info _ _ _"] fi_allows_add old)
  have "getFunctionInfo (update_info (Some F) setMayReadAnyGlobal st) F = Some (setMayReadAnyGlobal (the_info st F))"
    by (rule gs(2)) (simp add: fi_wf_ops fi_keys_ops)
  then show "info_allows (update_info (Some F) setMayReadAnyGlobal st) F q =
       info_allows st F q \<union> (if q = None then {} else {ARef})"
    by (cases q) (simp_all add: info_allows_def [of "update_info _ _ _"] fi_allows_any old)
qed

lemma scan_members_attributes:
  assumes "scan_members E G scc F ns st = Done (b, st')" "infos_ok st" "getFunctionInfo st F \<noteq> None"
    and "isDeclaration E F \<or> moptnone E F"
  shows "grows F st st' \<and> (\<not> b \<longrightarrow> ns \<noteq> [] \<longrightarrow> (\<forall>q. attr_effect E q F \<subseteq> info_allows st' F q))"
  using assms(1-3)
proof (induction ns arbitrary: st)
  case (Cons n ns)
  let ?r = "update_info (Some F) (addModRefInfo Ref) st"
  let ?ra = "update_info (Some F) setMayReadAnyGlobal ?r"
  let ?m = "update_info (Some F) (addModRefInfo ModRef) st"
  have step: "grows F st st' \<and> (\<not> b \<longrightarrow> (\<forall>q. attr_effect E q F \<subseteq> info_allows st' F q))"
    if g: "grows F st t" and run: "scan_members E G scc F ns t = Done (b, st')"
      and here: "\<And>q. attr_effect E q F \<subseteq> info_allows t F q" for t
  proof -
    have "infos_ok t" "getFunctionInfo t F \<noteq> None" using g by (auto simp: grows_def)
    from Cons.IH [OF run this] have g2: "grows F t st'" by blast
    moreover have "attr_effect E q F \<subseteq> info_allows st' F q" for q
      using here [of q] g2 unfolding grows_def by (meson order_trans)
    ultimately show ?thesis using grows_trans [OF g] by blast
  qed
  have ok: "infos_ok ?r" using grows_add(1) [OF Cons.prems(2)] by (simp add: grows_def)
  consider (no) "fn_doesNotAccessMemory E F"
    | (read) "\<not> fn_doesNotAccessMemory E F" "fn_onlyReadsMemory E F"
    | (any) "\<not> fn_doesNotAccessMemory E F" "\<not> fn_onlyReadsMemory E F" by blast
  then show ?case
  proof cases
    case no
    have "scan_members E G scc F ns st = Done (b, st')" using Cons.prems(1) assms(4) no by simp
    from step [OF grows_refl [OF Cons.prems(2,3)] this] no show ?thesis by (simp add: attr_effect_def)
  next
    case read
    show ?thesis
    proof (cases "\<not> mintrinsic E F \<and> \<not> fn_onlyAccessesArgMemory E F")
      case True
      then have "scan_members E G scc F ns ?ra = Done (b, st')" using Cons.prems(1) assms(4) read by simp
      from step [OF grows_trans [OF grows_add(1) [OF Cons.prems(2)] grows_add(3) [OF ok]] this] read
      show ?thesis by (simp add: attr_effect_def grows_add [OF Cons.prems(2)] grows_add [OF ok] accs_values)
    next
      case False
      then have "scan_members E G scc F ns ?r = Done (b, st')" using Cons.prems(1) assms(4) read by auto
      from step [OF grows_add(1) [OF Cons.prems(2)] this] read False
      show ?thesis by (simp add: attr_effect_def grows_add [OF Cons.prems(2)] accs_values)
    qed
  next
    case any
    show ?thesis
    proof (cases "mintrinsic E F")
      case True
      then have "scan_members E G scc F ns ?m = Done (b, st')" using Cons.prems(1) assms(4) any by simp
      from step [OF grows_add(1) [OF Cons.prems(2)] this] any True
      show ?thesis by (simp add: attr_effect_def grows_add [OF Cons.prems(2)] accs_values access_UNIV)
    next
      case False
      then have "b" "st' = ?m" using Cons.prems(1) assms(4) any by auto
      then show ?thesis using grows_add(1) [OF Cons.prems(2)] by simp
    qed
  qed
qed (simp add: grows_refl)

lemma scan_members_callees:
  assumes "scan_members E G scc F ns st = Done (b, st')" "infos_ok st" "getFunctionInfo st F \<noteq> None"
    and "\<not> isDeclaration E F" "\<not> moptnone E F"
  shows "grows F st st' \<and> (\<not> b \<longrightarrow> (\<forall>n\<in>set ns. \<forall>m\<in>set (cg_succs G n). covered st G scc F m st'))"
  using assms(1-3)
proof (induction ns arbitrary: st)
  case (Cons n ns)
  obtain c t where c: "scan_callees G scc F (cg_succs G n) st = Done (c, t)"
    using Cons.prems(1) assms(4,5) by (auto split: outcome.splits)
  note here = scan_callees_grows [OF c Cons.prems(2,3)]
  show ?case
  proof (cases c)
    case True
    then show ?thesis using Cons.prems(1) assms(4,5) c here by simp
  next
    case False
    then have run: "scan_members E G scc F ns t = Done (b, st')" using Cons.prems(1) assms(4,5) c by simp
    have "infos_ok t" "getFunctionInfo t F \<noteq> None" using here by (auto simp: grows_def)
    note IH = Cons.IH [OF run this]
    have g: "grows F st t" "grows F t st'" using here IH by auto
    have "covered st G scc F m st'" if "m \<in> set (cg_succs G n)" for m
      by (rule covered_grows [OF _ g(2)]) (use here False that in blast)
    moreover have "covered st G scc F m st'" if "\<not> b" "k \<in> set ns" "m \<in> set (cg_succs G k)" for k m
      by (rule covered_before [OF g(1) _ Cons.prems(3)]) (use IH that in blast)
    ultimately show ?thesis using grows_trans [OF g] by auto
  qed
qed (simp add: grows_refl)

text \<open>The scan of the bodies adds what the instructions do, unless the record is saturated.\<close>

definition extends :: "fi_record \<Rightarrow> fi_record \<Rightarrow> bool" where
  "extends fi fi' \<longleftrightarrow> (fi_wf fi \<longrightarrow> fi_wf fi') \<and> fi_keys fi' = fi_keys fi \<and> (\<forall>q. fi_allows fi q \<subseteq> fi_allows fi' q)"

lemma extends_refl: "extends fi fi"
  by (simp add: extends_def)

lemma extends_trans: "extends a b \<Longrightarrow> extends b c \<Longrightarrow> extends a c"
  unfolding extends_def by (simp, meson order_trans)

lemma extends_add: "extends fi (addModRefInfo r fi)"
proof -
  have "fi_allows fi q \<subseteq> fi_allows (addModRefInfo r fi) q" for q by (cases q) (auto simp: fi_allows_add)
  then show ?thesis by (simp add: extends_def fi_wf_ops fi_keys_ops)
qed

lemma saturated: "isModAndRefSet (fi_getModRefInfo fi) \<Longrightarrow> fi_allows fi None = UNIV"
  unfolding fi_allows_def option.case by (cases "fi_getModRefInfo fi") (simp_all add: mri_defs mri_bits_def accs_values access_UNIV)

lemma accs_createUnknown: "accs (createModRefInfo (p_fun_behavior AAResultBase f)) = UNIV"
  by (simp add: AAResultBase_def createModRefInfo_def fmrb_values mri_of_bits_def accs_values access_UNIV)

lemma scan_inst_own: "extends fi (scan_inst E i fi) \<and> own_effect E i \<subseteq> fi_allows (scan_inst E i fi) None"
proof (cases "is_call_base (mmod E) i")
  case True
  then show ?thesis
    by (auto simp: scan_inst_def own_effect_def extends_add extends_refl fi_allows_add accs_values access_UNIV
        accs_createUnknown split: option.split)
next
  case False
  then show ?thesis
    by (auto simp: scan_inst_def own_effect_def Let_def extends_refl extends_add fi_allows_add accs_values
        intro: extends_trans [OF extends_add extends_add])
qed

lemma scan_insts_own:
  "extends fi (scan_insts E is fi) \<and> (\<forall>i\<in>set is. own_effect E i \<subseteq> fi_allows (scan_insts E is fi) None)"
proof (induction "is" arbitrary: fi)
  case (Cons i "is")
  show ?case
  proof (cases "isModAndRefSet (fi_getModRefInfo fi)")
    case True
    then show ?thesis using saturated [OF True] by (simp add: extends_refl)
  next
    case False
    note one = scan_inst_own [of fi E i] and rest = Cons.IH [of "scan_inst E i fi"]
    have "own_effect E i \<subseteq> fi_allows (scan_insts E is (scan_inst E i fi)) None"
      using one rest unfolding extends_def by (meson order_trans)
    then show ?thesis using False one rest extends_trans by auto
  qed
qed (simp add: extends_refl)

lemma scan_bodies_own:
  "scan_bodies E ns fi = Done fi' \<Longrightarrow> extends fi fi' \<and> (\<forall>n\<in>set ns. \<forall>f. getFunction n = Some f \<longrightarrow>
     \<not> moptnone E f \<longrightarrow> (\<forall>i\<in>set (fn_insts E f). own_effect E i \<subseteq> fi_allows fi' None))"
proof (induction ns arbitrary: fi)
  case (Cons n ns)
  show ?case
  proof (cases "isModAndRefSet (fi_getModRefInfo fi)")
    case True
    then have "fi' = fi" using Cons.prems by simp
    then show ?thesis using saturated [OF True] by (simp add: extends_refl)
  next
    case False
    then obtain f where f: "getFunction n = Some f" using Cons.prems by (auto split: option.splits)
    show ?thesis
    proof (cases "moptnone E f")
      case True
      then have "scan_bodies E ns fi = Done fi'" using Cons.prems False f by simp
      from Cons.IH [OF this] show ?thesis using True f by auto
    next
      case opt: False
      then have "scan_bodies E ns (scan_insts E (fn_insts E f) fi) = Done fi'" using Cons.prems False f by simp
      note rest = Cons.IH [OF this] and one = scan_insts_own [of fi E "fn_insts E f"]
      have "own_effect E i \<subseteq> fi_allows fi' None" if "i \<in> set (fn_insts E f)" for i
        using one rest that unfolding extends_def by (meson order_trans)
      then show ?thesis using rest one f extends_trans by auto
    qed
  qed
qed (simp add: extends_refl)

section \<open>The records are sound\<close>

definition calls_closed :: "module_env \<Rightarrow> bool" where
  "calls_closed E \<longleftrightarrow> (\<forall>f\<in>set (mfunctions E). \<forall>i\<in>set (fn_insts E f). \<forall>g. calls_directly E i g \<longrightarrow> g \<in> set (mfunctions E))"

definition processed_ok :: "module_env \<Rightarrow> vid option \<Rightarrow> cg_node set \<Rightarrow> globals_aa \<Rightarrow> bool" where
  "processed_ok E q P st \<longleftrightarrow> infos_ok st
     \<and> (\<forall>f fi a. FunctionNode f \<in> P \<longrightarrow> getFunctionInfo st f = Some fi \<longrightarrow> effect E q f a \<longrightarrow> a \<in> fi_allows fi q)
     \<and> (\<forall>f gv. FunctionNode f \<notin> P \<longrightarrow> q = Some gv \<longrightarrow> direct_accesses E gv f \<subseteq> info_allows st f q)"

lemma erase_infos_info:
  "getFunctionInfo (erase_infos scc st) f = (if FunctionNode f \<in> set scc then None else getFunctionInfo st f)"
  "infos_ok st \<Longrightarrow> infos_ok (erase_infos scc st)"
proof -
  have "map_of (filter (\<lambda>p. fst p \<noteq> F) m) (Some f) = (if F = Some f then None else map_of m (Some f))"
    for F and m :: "(vid option \<times> fi_record) list" by (induction m) auto
  then have one: "getFunctionInfo (erase_info F st) f = (if F = Some f then None else getFunctionInfo st f)" for F st
    by (simp add: getFunctionInfo_def erase_info_def)
  have fn: "getFunction n = Some f \<longleftrightarrow> n = FunctionNode f" for n by (cases n) (auto simp: getFunction_def)
  show "getFunctionInfo (erase_infos scc st) f = (if FunctionNode f \<in> set scc then None else getFunctionInfo st f)"
    unfolding erase_infos_def by (induction scc arbitrary: st) (auto simp: one fn)
  show "infos_ok st \<Longrightarrow> infos_ok (erase_infos scc st)"
    unfolding erase_infos_def by (induction scc arbitrary: st) (auto simp: erase_info_def infos_ok_def)
qed

lemma clone_infos:
  "getFunctionInfo (fold (\<lambda>n. update_info (getFunction n) (\<lambda>_. fi)) ns st) f =
     (if FunctionNode f \<in> set ns then Some fi else getFunctionInfo st f)"
  "infos_ok st \<Longrightarrow> fi_wf fi \<Longrightarrow> fi_keys fi \<subseteq> NonAddressTakenGlobals st \<Longrightarrow>
     infos_ok (fold (\<lambda>n. update_info (getFunction n) (\<lambda>_. fi)) ns st)"
proof -
  have fn: "getFunction n = Some f \<longleftrightarrow> n = FunctionNode f" for n by (cases n) (auto simp: getFunction_def)
  have none: "getFunctionInfo (update_info None (\<lambda>_. fi) st) f = getFunctionInfo st f" for st
    by (simp add: getFunctionInfo_def update_info_def)
  have one: "getFunctionInfo (update_info (getFunction n) (\<lambda>_. fi) st) f =
      (if n = FunctionNode f then Some fi else getFunctionInfo st f)" for n st
    by (cases "getFunction n") (auto simp: none info_of_update fn simp flip: fn)
  show "getFunctionInfo (fold (\<lambda>n. update_info (getFunction n) (\<lambda>_. fi)) ns st) f =
     (if FunctionNode f \<in> set ns then Some fi else getFunctionInfo st f)"
    by (induction ns arbitrary: st) (auto simp: one)
  have keep: "NonAddressTakenGlobals (update_info F g st) = NonAddressTakenGlobals st" for F g st
    by (simp add: update_info_def)
  show "infos_ok st \<Longrightarrow> fi_wf fi \<Longrightarrow> fi_keys fi \<subseteq> NonAddressTakenGlobals st \<Longrightarrow>
     infos_ok (fold (\<lambda>n. update_info (getFunction n) (\<lambda>_. fi)) ns st)"
  proof (induction ns arbitrary: st)
    case (Cons n ns)
    have "infos_ok (update_info (getFunction n) (\<lambda>_. fi) st)"
      by (rule infos_ok_update [OF Cons.prems(1)]) (use Cons.prems(2,3) in simp)
    then show ?case using Cons.IH Cons.prems(2,3) by (simp add: keep)
  qed simp
qed

text \<open>Every member but the first is called from inside the component.\<close>

lemma called_inside:
  assumes "y \<in> component_of succs x" "y \<noteq> x"
  shows "\<exists>m\<in>component_of succs x. y \<in> set (succs m)"
proof -
  have y: "(x, y) \<in> (edges succs)\<^sup>*" "(y, x) \<in> (edges succs)\<^sup>*" using assms(1) by (simp_all add: component_of_def)
  then obtain m where m: "(x, m) \<in> (edges succs)\<^sup>*" "(m, y) \<in> edges succs" using assms(2) by (metis rtranclE)
  then have "m \<in> component_of succs x" using y(2) by (simp add: component_of_def converse_rtrancl_into_rtrancl)
  then show ?thesis using m(2) by (auto simp: edges_def)
qed

text \<open>One component whose record is kept: it covers what its members do.\<close>

lemma component_record:
  fixes E scc q
  defines "G \<equiv> build_call_graph E"
  assumes comp: "set scc = component_of (cg_succs G) (FunctionNode F)" "FunctionNode F \<in> set scc"
    and below: "\<And>x. x \<in> set scc \<Longrightarrow> set (cg_succs G x) \<subseteq> P \<union> set scc" "P \<inter> set scc = {}"
    and fns: "\<And>f. FunctionNode f \<in> set scc \<Longrightarrow> f \<in> set (mfunctions E)"
    and plain: "plain_cycles E" and inv: "processed_ok E q P st"
    and exact: "isDefinitionExact E F"
    and st0: "infos_ok st0" "getFunctionInfo st0 F \<noteq> None" "\<And>q. info_allows st F q \<subseteq> info_allows st0 F q"
      "\<And>h. h \<noteq> F \<Longrightarrow> getFunctionInfo st0 h = getFunctionInfo st h"
    and members: "scan_members E G scc F scc st0 = Done (False, st1)"
    and bodies: "scan_bodies E scc (the_info st1 F) = Done fi"
    and eff: "effect E q f a" "FunctionNode f \<in> set scc"
  shows "a \<in> fi_allows fi q"
proof -
  have grow: "grows F st0 st1"
    using scan_members_attributes [OF members st0(1,2)] scan_members_callees [OF members st0(1,2)] by blast
  have "info_allows st1 F q = fi_allows (the_info st1 F) q"
    by (simp add: info_allows_def the_info_def fi_allows_0 split: option.split)
  then have up: "info_allows st1 F q \<subseteq> fi_allows fi q"
    using scan_bodies_own [OF bodies] by (simp add: extends_def)
  have allows: "info_allows st c q = info_allows st0 c q" if "c \<noteq> F" for c
    using st0(4) [OF that] by (simp add: info_allows_def)
  have alike: "f = F \<or> plain E f \<and> plain E F" if "FunctionNode f \<in> set scc" for f
  proof (cases "f = F")
    case False
    have "FunctionNode F \<in> component_of (cg_succs G) (FunctionNode f)" "FunctionNode f \<in> component_of (cg_succs G) (FunctionNode F)"
      using that comp(1) by (auto simp: component_of_def)
    then have "plain E f" "plain E F"
      using plain [unfolded plain_cycles_def, folded G_def, rule_format] False by (metis cg_node.inject)+
    then show ?thesis by simp
  qed simp
  have exact_all: "isDefinitionExact E f" if "FunctionNode f \<in> set scc" for f
    using alike [OF that] exact by (elim disjE) (simp_all add: plain_def)
  have first: "f = F" if "FunctionNode f \<in> set scc" "isDeclaration E f \<or> moptnone E f" for f
    using alike [OF that(1)] that(2) by (elim disjE) (simp_all add: plain_def)
  have F_body: "\<not> isDeclaration E F" "\<not> moptnone E F"
    if "FunctionNode f \<in> set scc" "f = F \<longrightarrow> \<not> isDeclaration E f \<and> \<not> moptnone E f" for f
    using alike [OF that(1)] that(2) by (auto simp: plain_def)
  have cov: "covered st0 G scc F m st1"
    if "\<not> isDeclaration E F" "\<not> moptnone E F" "n \<in> set scc" "m \<in> set (cg_succs G n)" for n m
    using scan_members_callees [OF members st0(1,2) that(1,2)] that(3,4) by blast
  from eff show ?thesis
  proof (induction rule: effect.induct)
    case (inexact f a)
    then show ?case using exact_all by blast
  next
    case (attributes f a)
    then have "f = F" by (intro first) simp_all
    moreover have "scc \<noteq> []" using comp(2) by auto
    ultimately show ?case
      using scan_members_attributes [OF members st0(1,2)] attributes up by blast
  next
    case (own f i a)
    then have "own_effect E i \<subseteq> fi_allows fi None"
      using scan_bodies_own [OF bodies] by (auto simp: getFunction_def)
    then show ?case using own by auto
  next
    case (unknown f i a)
    then have "\<not> isDeclaration E F" "\<not> moptnone E F" using F_body by blast+
    moreover have "CallsExternalNode \<in> set (cg_succs G (FunctionNode f))"
      using unknown fns by (auto simp: G_def build_graph_edges(2) call_edges_def)
    ultimately have "covered st0 G scc F CallsExternalNode st1" using cov unknown by blast
    then show ?case by (simp add: covered_def getFunction_def)
  next
    case (call f i g a)
    then have F: "\<not> isDeclaration E F" "\<not> moptnone E F" using F_body by blast+
    have e: "FunctionNode g \<in> call_edges E f" using call by (auto simp: call_edges_def)
    then have succ: "FunctionNode g \<in> set (cg_succs G (FunctionNode f))"
      using call fns by (simp add: G_def build_graph_edges(2))
    then have c: "covered st0 G scc F (FunctionNode g) st1" using cov [OF F] call by blast
    show ?case
    proof (cases "FunctionNode g \<in> set scc")
      case True
      then show ?thesis by (rule call.IH)
    next
      case False
      then have P: "FunctionNode g \<in> P" and ne: "g \<noteq> F" using below(1) succ call comp(2) by auto
      have "cg_lookup G g = Done (FunctionNode g)"
        using build_graph_edges(4) [OF fns e] call by (simp add: G_def)
      then obtain fig where fig: "getFunctionInfo st0 g = Some fig" "info_allows st0 g q \<subseteq> info_allows st1 F q"
        using c False ne by (auto simp: covered_def getFunction_def)
      then have "a \<in> fi_allows fig q" using inv P call st0(4) [OF ne] by (simp add: processed_ok_def)
      then show ?thesis using fig up by (auto simp: info_allows_def)
    qed
  next
    case (direct gv a f)
    have d: "direct_accesses E gv f \<subseteq> info_allows st f q"
      using inv direct below(2) by (auto simp: processed_ok_def)
    show ?case
    proof (cases "f = F")
      case True
      have "info_allows st F q \<subseteq> fi_allows fi q"
        using st0(3) [of q] grow up unfolding grows_def by (meson order_trans)
      then show ?thesis using d direct True by auto
    next
      case False
      then obtain m where m: "m \<in> set scc" "FunctionNode f \<in> set (cg_succs G m)"
        using called_inside [of "FunctionNode f" "cg_succs G" "FunctionNode F"] direct comp by auto
      have F: "\<not> isDeclaration E F" "\<not> moptnone E F" using F_body direct False by blast+
      have "info_allows st0 f q \<subseteq> info_allows st1 F q"
        using cov [OF F m] False by (auto simp: covered_def getFunction_def)
      then show ?thesis using d direct allows [OF False] up by auto
    qed
  qed
qed

lemma analyze_scc_step:
  fixes E scc q
  defines "G \<equiv> build_call_graph E"
  assumes comp: "scc \<noteq> []" "\<And>x. x \<in> set scc \<Longrightarrow> set scc = component_of (cg_succs G) x"
    and below: "\<And>x. x \<in> set scc \<Longrightarrow> set (cg_succs G x) \<subseteq> P \<union> set scc" "P \<inter> set scc = {}"
    and fns: "\<And>f. FunctionNode f \<in> set scc \<Longrightarrow> f \<in> set (mfunctions E)"
    and plain: "plain_cycles E" and inv: "processed_ok E q P st"
    and run: "analyze_scc E G scc st = Done st'"
  shows "processed_ok E q (P \<union> set scc) st'"
proof -
  obtain n ns where scc: "scc = n # ns" using comp(1) by (cases scc) auto
  have erased: "processed_ok E q (P \<union> set scc) (erase_infos scc t)"
    if "infos_ok t" "\<And>h. FunctionNode h \<notin> set scc \<Longrightarrow> getFunctionInfo t h = getFunctionInfo st h" for t
    using inv that by (auto simp: processed_ok_def erase_infos_info info_allows_def split: if_splits)
  have ok: "infos_ok st" using inv by (simp add: processed_ok_def)
  show ?thesis
  proof (cases "getFunction n")
    case None
    then have "st' = erase_infos scc st" using run scc by (simp add: analyze_scc_def)
    then show ?thesis using erased [OF ok] by simp
  next
    case (Some F)
    then have n: "n = FunctionNode F" by (cases n) (auto simp: getFunction_def)
    show ?thesis
    proof (cases "isDefinitionExact E F")
      case False
      then have "st' = erase_infos scc st" using run scc Some by (simp add: analyze_scc_def)
      then show ?thesis using erased [OF ok] by simp
    next
      case exact: True
      define st0 where "st0 = add_handle F (update_info (Some F) (\<lambda>fi. fi) st)"
      have infos: "FunctionInfos st0 = FunctionInfos (update_info (Some F) (\<lambda>fi. fi) st)"
        "NonAddressTakenGlobals st0 = NonAddressTakenGlobals st"
        by (simp_all add: st0_def add_handle_def update_info_def)
      have get0: "getFunctionInfo st0 h = getFunctionInfo (update_info (Some F) (\<lambda>fi. fi) st) h" for h
        by (simp add: getFunctionInfo_def infos(1))
      note grow0 = grows_update(1) [OF ok, of "\<lambda>fi. fi" F]
      have st0: "infos_ok st0" "getFunctionInfo st0 F \<noteq> None" "\<And>p. info_allows st F p \<subseteq> info_allows st0 F p"
        "\<And>h. h \<noteq> F \<Longrightarrow> getFunctionInfo st0 h = getFunctionInfo st h"
        using grow0 infos by (auto simp: grows_def get0 info_allows_def infos_ok_def update_info_def)
      obtain b st1 where members: "scan_members E G scc F scc st0 = Done (b, st1)"
        using run scc Some exact by (auto simp: analyze_scc_def st0_def split: outcome.splits)
      have grow: "grows F st0 st1"
        using scan_members_attributes [OF members st0(1,2)] scan_members_callees [OF members st0(1,2)] by blast
      have st1: "infos_ok st1" "\<And>h. h \<noteq> F \<Longrightarrow> getFunctionInfo st1 h = getFunctionInfo st h"
        using grow st0(4) by (auto simp: grows_def)
      have F: "FunctionNode F \<in> set scc" using scc n by simp
      show ?thesis
      proof (cases b)
        case True
        then have "st' = erase_infos scc st1" using run scc Some exact members by (simp add: analyze_scc_def st0_def)
        moreover have "getFunctionInfo st1 h = getFunctionInfo st h" if "FunctionNode h \<notin> set scc" for h
          using F that by (intro st1(2)) auto
        ultimately show ?thesis using erased [OF st1(1)] by simp
      next
        case False
        then obtain fi where bodies: "scan_bodies E scc (the_info st1 F) = Done fi"
          and st': "st' = fold (\<lambda>n. update_info (getFunction n) (\<lambda>_. fi)) ns (update_info (Some F) (\<lambda>_. fi) st1)"
          using run scc Some exact members by (auto simp: analyze_scc_def st0_def split: outcome.splits)
        have "fi_wf (the_info st1 F) \<and> fi_keys (the_info st1 F) \<subseteq> NonAddressTakenGlobals st1"
          using info_ok [OF st1(1)] by (auto simp: the_info_def fi_wf_ops fi_keys_ops split: option.split)
        then have fi: "fi_wf fi" "fi_keys fi \<subseteq> NonAddressTakenGlobals st1"
          using scan_bodies_own [OF bodies] by (auto simp: extends_def)
        have members': "scan_members E (build_call_graph E) scc F scc st0 = Done (False, st1)"
          using members False by (simp add: G_def)
        have kept: "a \<in> fi_allows fi q" if "effect E q h a" "FunctionNode h \<in> set scc" for h a
          by (rule component_record [OF comp(2) [OF F, unfolded G_def] F below [unfolded G_def] fns plain inv exact
                st0 members' bodies that])
        have "infos_ok (update_info (Some F) (\<lambda>_. fi) st1)"
          by (rule infos_ok_update [OF st1(1)]) (use fi in simp)
        moreover have "fi_keys fi \<subseteq> NonAddressTakenGlobals (update_info (Some F) (\<lambda>_. fi) st1)"
          using fi(2) by (simp add: update_info_def)
        ultimately have "infos_ok st'" unfolding st' by (intro clone_infos(2) fi(1))
        moreover have get: "getFunctionInfo st' h =
            (if FunctionNode h \<in> set scc then Some fi else getFunctionInfo st h)" for h
          using st1(2) unfolding st' scc n by (auto simp: clone_infos(1) info_of_update)
        ultimately show ?thesis using inv kept by (auto simp: processed_ok_def info_allows_def split: if_splits)
      qed
    qed
  qed
qed

lemma AnalyzeCallGraph_sound:
  fixes E q
  defines "G \<equiv> build_call_graph E"
  assumes "AnalyzeCallGraph E G sccs st = Done st'" "processed_ok E q P st" "plain_cycles E"
    and "\<forall>c\<in>set sccs. c \<noteq> [] \<and> (\<forall>x\<in>set c. set c = component_of (cg_succs G) x)"
    and "bottom_up (cg_succs G) P sccs" "P \<inter> set (concat sccs) = {}" "distinct (concat sccs)"
    and "\<And>f. FunctionNode f \<in> set (concat sccs) \<Longrightarrow> f \<in> set (mfunctions E)"
  shows "processed_ok E q (P \<union> set (concat sccs)) st'"
  using assms(2-)
proof (induction sccs arbitrary: st P)
  case (Cons c sccs)
  obtain t where t: "analyze_scc E G c st = Done t" "AnalyzeCallGraph E G sccs t = Done st'"
    using Cons.prems(1) by (auto simp: AnalyzeCallGraph_def split: outcome.splits)
  have c: "c \<noteq> []" "\<And>x. x \<in> set c \<Longrightarrow> set c = component_of (cg_succs (build_call_graph E)) x"
    using Cons.prems(4) unfolding G_def by auto
  have below: "\<And>x. x \<in> set c \<Longrightarrow> set (cg_succs (build_call_graph E) x) \<subseteq> P \<union> set c" "P \<inter> set c = {}"
    using Cons.prems(5,6) unfolding G_def bottom_up_Cons by auto
  have "processed_ok E q (P \<union> set c) t"
    by (rule analyze_scc_step [OF c below _ Cons.prems(3,2) t(1) [unfolded G_def]]) (use Cons.prems(8) in auto)
  then have "processed_ok E q (P \<union> set c \<union> set (concat sccs)) st'"
    by (rule Cons.IH [OF t(2)]) (use Cons.prems in \<open>auto simp: bottom_up_Cons\<close>)
  then show ?case by (simp add: Un_assoc)
qed (simp add: AnalyzeCallGraph_def)

lemma reachable_functions:
  assumes "calls_closed E" "FunctionNode f \<in> reach (cg_succs (build_call_graph E)) ExternalCallingNode"
  shows "f \<in> set (mfunctions E)"
proof -
  have "reach (cg_succs (build_call_graph E)) ExternalCallingNode
      \<subseteq> {n. \<forall>g. n = FunctionNode g \<longrightarrow> g \<in> set (mfunctions E)}"
  proof (rule reach_subset)
    fix x assume x: "x \<in> {n. \<forall>g. n = FunctionNode g \<longrightarrow> g \<in> set (mfunctions E)}"
    show "set (cg_succs (build_call_graph E) x) \<subseteq> {n. \<forall>g. n = FunctionNode g \<longrightarrow> g \<in> set (mfunctions E)}"
      using x assms(1) by (cases x) (auto simp: build_graph_edges call_edges_def calls_closed_def split: if_splits)
  qed simp
  then show ?thesis using assms(2) by blast
qed

lemma analyzed_start:
  assumes "scan_inv E (mfunctions E) (mglobals E) (st, tracked)" "tracked_question E q"
  shows "processed_ok E q {} st"
  using assms by (auto simp: scan_inv_def processed_ok_def found_def tracked_question_def)

lemma analyzeModule_processed:
  assumes "analyzeModule k E = Done st" "small_graph (cg_succs (build_call_graph E)) ExternalCallingNode"
    and "calls_closed E" "plain_cycles E" "tracked_question E q"
  shows "processed_ok E q (reach (cg_succs (build_call_graph E)) ExternalCallingNode) st"
proof -
  let ?G = "build_call_graph E"
  obtain sccs where sccs: "all_sccs k (cg_succs ?G) ExternalCallingNode = Done sccs"
    using assms(1) by (auto simp: analyzeModule_def Let_def split: outcome.splits)
  obtain m where m: "CollectSCCMembership sccs globals_aa0 = globals_aa0\<lparr>FunctionToSCCMap := m\<rparr>"
    using CollectSCC_frame by blast
  obtain st0 where st0: "AnalyzeGlobals k E (globals_aa0\<lparr>FunctionToSCCMap := m\<rparr>) = Done st0"
    "AnalyzeCallGraph E ?G sccs st0 = Done st"
    using assms(1) sccs by (auto simp: analyzeModule_def Let_def m split: outcome.splits)
  obtain tracked where "scan_inv E (mfunctions E) (mglobals E) (st0, tracked)"
    using AnalyzeGlobals_exact [OF st0(1)] by blast
  then have "processed_ok E q {} st0" by (rule analyzed_start [OF _ assms(5)])
  have list: "scc_list_ok (cg_succs ?G) ExternalCallingNode {} sccs"
    using all_sccs_spec [OF assms(2), of k] sccs by simp
  then have all: "set (concat sccs) = reach (cg_succs ?G) ExternalCallingNode" by (simp add: scc_list_ok_def)
  have "processed_ok E q ({} \<union> set (concat sccs)) st"
    by (rule AnalyzeCallGraph_sound [OF st0(2) \<open>processed_ok E q {} st0\<close> assms(4)])
      (use list reachable_functions [OF assms(3)] in \<open>auto simp: scc_list_ok_def\<close>)
  then show ?thesis using all by (metis Un_empty_left)
qed

end
