(* ===== verification/GlobalsProps.thy ===== *)
theory GlobalsProps
  imports GlobalsPropagate
begin

text \<open>
  What the globals analysis promises as a whole: it returns on a well-formed module, and the records it
  leaves cover what the functions do. Small modules on which it is run close the file.
\<close>

section \<open>The analysis returns\<close>

definition initialized :: "module_env \<Rightarrow> bool" where
  "initialized E \<longleftrightarrow> (\<forall>gv\<in>set (mglobals E). hasLocalLinkage E gv \<longrightarrow> minitializer E gv \<noteq> None)"

definition use_user :: "module_env \<Rightarrow> vid \<Rightarrow> bool" where
  "use_user E v \<longleftrightarrow> (\<forall>u\<in>set (users (mmod E) v). is_op (mmod E) OStore u \<longrightarrow> operand (mmod E) u 0 \<noteq> None)"

lemma ranked_users: "uses_ranked E r \<Longrightarrow> use_user E v"
proof -
  assume ranked: "uses_ranked E r"
  have "operand (mmod E) u 0 \<noteq> None" if u: "u \<in> set (users (mmod E) v)" "is_op (mmod E) OStore u" for u
  proof -
    obtain i where "(u, i) \<in> set (vuses (mval (mmod E) v))" using u(1) by (auto simp: users_def)
    then have "operand (mmod E) u 1 \<noteq> None" using ranked u(2) unfolding uses_ranked_def by blast
    then show ?thesis by (auto simp: operand_def split: if_splits)
  qed
  then show "use_user E v" by (simp add: use_user_def)
qed

lemma ofold_returns:
  assumes "\<And>x s. x \<in> set xs \<Longrightarrow> \<exists>t. f x s = Done t"
  shows "\<exists>t. ofold f xs s = Done t"
  using assms
proof (induction xs arbitrary: s)
  case (Cons x xs)
  obtain u where "f x s = Done u" using Cons.prems by fastforce
  then show ?case using Cons by simp
qed simp

lemma indirect_users_returns:
  assumes "uses_ranked E r" "\<And>v. r v < k"
    and "\<forall>u\<in>set us. is_op (mmod E) OStore u \<longrightarrow> operand (mmod E) u 0 \<noteq> None"
  shows "\<exists>res. indirect_users k E gv allocs us = Done res"
  using assms(3)
proof (induction us arbitrary: allocs)
  case (Cons u us)
  have runs: "\<exists>b t. AnalyzeUsesOfPointer k E v okay s = Done (b, t)" for v okay s
    by (rule analyze_returns [OF assms(1,2)])
  have rest: "\<exists>res. indirect_users k E gv allocs us = Done res" for allocs using Cons by simp
  obtain b t where load: "AnalyzeUsesOfPointer k E u None no_sets = Done (b, t)" using runs by blast
  show ?case
  proof (cases "is_op (mmod E) OLoad u")
    case True
    then show ?thesis using load rest by simp
  next
    case no_load: False
    show ?thesis
    proof (cases "is_op (mmod E) OStore u")
      case True
      then obtain x where x: "operand (mmod E) u 0 = Some x" using Cons.prems by auto
      obtain b t where "AnalyzeUsesOfPointer k E (munder E x) (Some gv) no_sets = Done (b, t)" using runs by blast
      then show ?thesis using no_load True x rest by (simp add: Let_def)
    qed (use no_load in simp)
  qed
qed simp

lemma AnalyzeGlobals_returns:
  assumes "uses_ranked E r" "\<And>v. r v < k" "initialized E"
  shows "\<exists>st'. AnalyzeGlobals k E st = Done st'"
proof -
  have runs: "\<exists>b t. AnalyzeUsesOfPointer k E v okay s = Done (b, t)" for v okay s
    by (rule analyze_returns [OF assms(1,2)])
  have "\<exists>t. analyze_function k E f s = Done t" for f s
  proof -
    obtain b t where "AnalyzeUsesOfPointer k E f None no_sets = Done (b, t)" using runs by blast
    then show ?thesis by (cases s) (simp add: analyze_function_def)
  qed
  then have "\<exists>s. ofold (analyze_function k E) (mfunctions E) (st, {}) = Done s"
    by (intro ofold_returns)
  then obtain s where s: "ofold (analyze_function k E) (mfunctions E) (st, {}) = Done s" by blast
  have "\<exists>t. analyze_global k E gv s = Done t" if "gv \<in> set (mglobals E)" for gv s
  proof -
    obtain st tr where st: "s = (st, tr)" by fastforce
    obtain b t where b: "AnalyzeUsesOfPointer k E gv None
        \<lparr>Readers = Some [], Writers = if mconstant E gv then None else Some []\<rparr> = Done (b, t)" using runs by blast
    have "\<exists>b t. AnalyzeIndirectGlobalMemory k E gv u = Done (b, t)" if local: "hasLocalLinkage E gv" for u
    proof -
      obtain c where c: "minitializer E gv = Some c"
        using assms(3) \<open>gv \<in> set (mglobals E)\<close> local unfolding initialized_def by blast
      obtain res where "indirect_users k E gv [] (users (mmod E) gv) = Done res"
        using indirect_users_returns [OF assms(1,2)] ranked_users [OF assms(1)] unfolding use_user_def by blast
      then show ?thesis using c by (cases res) (simp_all add: AnalyzeIndirectGlobalMemory_def Let_def, blast+)
    qed
    then show ?thesis
    proof (cases "hasLocalLinkage E gv \<and> \<not> b")
      case True
      let ?st1 = "add_handle gv (st\<lparr>NonAddressTakenGlobals := insert gv (NonAddressTakenGlobals st)\<rparr>)"
      obtain st2 tr2 where 2: "fold (record_access gv Ref) (case Readers t of None \<Rightarrow> [] | Some fs \<Rightarrow> fs) (?st1, tr) = (st2, tr2)"
        by fastforce
      obtain st3 tr3 where 3: "(if mconstant E gv then (st2, tr2)
          else fold (record_access gv Mod) (case Writers t of None \<Rightarrow> [] | Some fs \<Rightarrow> fs) (st2, tr2)) = (st3, tr3)"
        by fastforce
      obtain b4 st4 where "AnalyzeIndirectGlobalMemory k E gv st3 = Done (b4, st4)"
        using \<open>hasLocalLinkage E gv \<Longrightarrow> \<exists>b t. AnalyzeIndirectGlobalMemory k E gv st3 = Done (b, t)\<close> True by blast
      then show ?thesis using True b 2 3
        by (cases "mconstant E gv") (simp_all add: analyze_global_def st Let_def)
    qed (use b in \<open>auto simp: analyze_global_def st\<close>)
  qed
  then have "\<exists>s'. ofold (analyze_global k E) (mglobals E) s = Done s'" by (intro ofold_returns)
  then obtain s' where "ofold (analyze_global k E) (mglobals E) s = Done s'" by blast
  then show ?thesis using s by (cases s; cases s') (simp add: AnalyzeGlobals_def)
qed





section \<open>The result\<close>


text \<open>
  A module for the theorem: \<^verbatim>\<open>main\<close> (0) calls \<open>f\<close> (1), which calls \<open>g\<close> (2) and reads the global 10; \<open>g\<close> calls
  \<open>f\<close> and writes the global 10. Nothing uses the global 11.
\<close>

definition gm_value :: "vid \<Rightarrow> ir_value" where
  "gm_value v = (let call = value0\<lparr>vkind := KInstruction OCall\<rparr>;
       fn = value0\<lparr>vkind := KFunction, vtype := PointerTy 0 (FunctionTy VoidTy [])\<rparr>;
       gv = value0\<lparr>vkind := KGlobalVariable, vtype := PointerTy 0 (IntTy 32)\<rparr> in
     if v = 0 then fn
     else if v = 1 then fn\<lparr>vuses := [(20, 0), (23, 0)]\<rparr>
     else if v = 2 then fn\<lparr>vuses := [(21, 0)]\<rparr>
     else if v = 10 then gv\<lparr>vuses := [(22, 0), (24, 1)]\<rparr>
     else if v = 11 then gv
     else if v = 20 \<or> v = 23 then call\<lparr>voperands := [1]\<rparr>
     else if v = 21 then call\<lparr>voperands := [2]\<rparr>
     else if v = 22 then value0\<lparr>vkind := KInstruction OLoad, vtype := IntTy 32, voperands := [10]\<rparr>
     else if v = 24 then value0\<lparr>vkind := KInstruction OStore, voperands := [30, 10]\<rparr>
     else if v = 30 then value0\<lparr>vkind := KConstantOther, vtype := IntTy 32, vuses := [(24, 0)]\<rparr>
     else value0)"

definition gm_function :: "vid \<Rightarrow> ir_function" where
  "gm_function f = function0\<lparr>fdecl := False,
     fblocks := (if f = 0 then [[20]] else if f = 1 then [[21, 22]] else if f = 2 then [[23, 24]] else [])\<rparr>"

definition gm_module :: module_env where
  "gm_module = (module_env0 \<lparr>cx = (env0 \<lparr>mval = gm_value, mfun = gm_function\<rparr>)
          \<lparr>xparent := (\<lambda>i. if i = 20 then 0 else if i = 21 \<or> i = 22 then 1 else 2)\<rparr>,
       cgep_offset = (\<lambda>_. None), cmalloc_free = (\<lambda>_. False), cexact = (\<lambda>_. True), cvararg = (\<lambda>_. False),
       cdisallowed = (\<lambda>_ _. False)\<rparr>)
     \<lparr>mfunctions := [0, 1, 2], mglobals := [10, 11],
      mlinkage := (\<lambda>v. if v = 0 then ExternalLinkage else InternalLinkage), minitializer := (\<lambda>_. Some 30)\<rparr>"



lemma gm_succs:
  "cg_succs (build_call_graph gm_module) ExternalCallingNode = [FunctionNode 0]"
  "cg_succs (build_call_graph gm_module) CallsExternalNode = []"
  "cg_succs (build_call_graph gm_module) (FunctionNode 0) = [FunctionNode 1]"
  "cg_succs (build_call_graph gm_module) (FunctionNode 1) = [FunctionNode 2]"
  "cg_succs (build_call_graph gm_module) (FunctionNode 2) = [FunctionNode 1]"
  by code_simp+


lemma plain_cyclesI:
  assumes "\<And>f. f \<in> set (mfunctions E) \<Longrightarrow> plain E f"
  shows "plain_cycles E"
  unfolding plain_cycles_def
proof (intro allI impI)
  fix f n
  assume n: "n \<noteq> FunctionNode f" "n \<in> component_of (cg_succs (build_call_graph E)) (FunctionNode f)"
  then have "(FunctionNode f, n) \<in> (edges (cg_succs (build_call_graph E)))\<^sup>+"
    by (simp add: component_of_def rtrancl_eq_or_trancl)
  then obtain m where "(FunctionNode f, m) \<in> edges (cg_succs (build_call_graph E))" by (blast dest: tranclD)
  then have "set (cg_succs (build_call_graph E) (FunctionNode f)) \<noteq> {}" by (auto simp: edges_def)
  then show "plain E f" using assms by (simp add: build_graph_edges(2) split: if_splits)
qed

lemmas gm_defs = gm_module_def module_env0_def env0_def gm_value_def gm_function_def value0_def function0_def

lemma gm_closed: "initialized gm_module" "calls_closed gm_module" "plain_cycles gm_module"
proof -
  show "initialized gm_module" by (simp add: initialized_def gm_defs)
  show "calls_closed gm_module"
    by (auto simp: calls_closed_def calls_directly_def fn_insts_def called_function_def is_call_base_def is_op_def
        gm_defs Let_def)
  show "plain_cycles gm_module"
    by (rule plain_cyclesI) (auto simp: plain_def isDefinitionExact_def linkageMayBeDerefined_def
        isInterposableLinkage_def isDeclaration_def gm_defs)
qed

lemma gm_uses: "vuses (mval (mmod gm_module) v) =
    (if v = 1 then [(20, 0), (23, 0)] else if v = 2 then [(21, 0)]
     else if v = 10 then [(22, 0), (24, 1)] else if v = 30 then [(24, 0)] else [])"
  by (simp add: gm_defs Let_def)

lemma gm_ranked: "uses_ranked gm_module (\<lambda>_. 0)"
proof -
  have ops: "vkind (mval (mmod gm_module) 20) = KInstruction OCall" "vkind (mval (mmod gm_module) 21) = KInstruction OCall"
    "vkind (mval (mmod gm_module) 23) = KInstruction OCall" "vkind (mval (mmod gm_module) 22) = KInstruction OLoad"
    "vkind (mval (mmod gm_module) 24) = KInstruction OStore" "voperands (mval (mmod gm_module) 24) = [30, 10]"
    by (simp_all add: gm_defs Let_def)
  show ?thesis
    by (auto simp: uses_ranked_def gm_uses classify_use_def is_op_def is_operator_def is_call_base_def is_constant_def
        users_def operand_def ops Let_def split: if_splits)
qed





section \<open>The parts\<close>


text \<open>
  C17: the scan of a module with initialised local globals returns. The tracked globals are the local ones whose
  address does not escape, the records say what each function does to them itself, and the indirect globals are
  those that own their memory: null at first, and assigned allocations that do not escape otherwise.
\<close>

theorem scan_of_module_exact:
  assumes "uses_ranked E r" "\<And>v. r v < k" "initialized E"
  shows "\<exists>st. AnalyzeGlobals k E globals_aa0 = Done st
     \<and> NonAddressTakenGlobals st = {g \<in> set (mfunctions E) \<union> set (mglobals E). kept_inside E g}
     \<and> IndirectGlobals st = owners E (set (mglobals E))
     \<and> (\<forall>f. info_allows st f None = {} \<and> (\<forall>g. info_allows st f (Some g) =
          (if g \<in> set (mglobals E) \<and> kept_inside E g then direct_accesses E g f else {})))"
proof -
  have start: "globals_aa0\<lparr>FunctionToSCCMap := []\<rparr> = globals_aa0" by (simp add: globals_aa0_def)
  obtain st where st: "AnalyzeGlobals k E globals_aa0 = Done st" using AnalyzeGlobals_returns [OF assms] by blast
  from AnalyzeGlobals_exact [of k E "[]", unfolded start, OF this] show ?thesis
    using st by (auto simp: scan_inv_def found_def)
qed


text \<open>
  C19: the call graph has exactly the right edges: from the external node to the functions visible or taken the
  address of, from a function to the functions it calls, and to the unknown callee when it is a declaration or
  calls something unknown; and the node of every callee is found.
\<close>

theorem call_graph_exact:
  "set (cg_succs (build_call_graph E) ExternalCallingNode) = {FunctionNode f | f. f \<in> set (mfunctions E) \<and> entry_edge E f}
   \<and> (\<forall>f. set (cg_succs (build_call_graph E) (FunctionNode f)) = (if f \<in> set (mfunctions E) then call_edges E f else {}))
   \<and> (\<forall>f\<in>set (mfunctions E). \<forall>g. FunctionNode g \<in> call_edges E f \<longrightarrow>
        cg_lookup (build_call_graph E) g = Done (FunctionNode g))"
proof (intro conjI allI ballI impI)
  show "cg_lookup (build_call_graph E) g = Done (FunctionNode g)"
    if "f \<in> set (mfunctions E)" "FunctionNode g \<in> call_edges E f" for f g
    by (rule build_graph_edges(4) [OF that])
qed (rule build_graph_edges(1), rule build_graph_edges(2))


theorem scan_of_module_exact_witness:
  "\<exists>st. AnalyzeGlobals 20 gm_module globals_aa0 = Done st \<and> NonAddressTakenGlobals st \<inter> {10, 11} = {10, 11}
     \<and> info_allows st 2 (Some 10) = {AMod} \<and> direct_accesses gm_module 10 2 = {AMod}"
proof -
  obtain st where st: "AnalyzeGlobals 20 gm_module globals_aa0 = Done st"
    "NonAddressTakenGlobals st = {g \<in> set (mfunctions gm_module) \<union> set (mglobals gm_module). kept_inside gm_module g}"
    "\<And>g. info_allows st 2 (Some g) = (if g \<in> set (mglobals gm_module) \<and> kept_inside gm_module g
       then direct_accesses gm_module g 2 else {})"
    using scan_of_module_exact [OF gm_ranked _ gm_closed(1), of 20] by auto
  have "case AnalyzeGlobals 20 gm_module globals_aa0 of
      Done st \<Rightarrow> 10 \<in> NonAddressTakenGlobals st \<and> 11 \<in> NonAddressTakenGlobals st \<and> info_allows st 2 (Some 10) = {AMod}
    | _ \<Rightarrow> False" by code_simp
  then have "10 \<in> NonAddressTakenGlobals st" "11 \<in> NonAddressTakenGlobals st" "info_allows st 2 (Some 10) = {AMod}"
    using st(1) by simp_all
  moreover from this have "direct_accesses gm_module 10 2 = {AMod}" using st(3) [of 10] by (simp split: if_splits)
  ultimately show ?thesis using st(1) by blast
qed



theorem call_graph_exact_witness:
  "call_edges gm_module 1 = {FunctionNode 2} \<and> cg_lookup (build_call_graph gm_module) 2 = Done (FunctionNode 2)"
proof -
  note edges = call_graph_exact [of gm_module]
  have 1: "1 \<in> set (mfunctions gm_module)" by (simp add: gm_module_def)
  then have "call_edges gm_module 1 = set (cg_succs (build_call_graph gm_module) (FunctionNode 1))"
    using edges by simp
  then have "call_edges gm_module 1 = {FunctionNode 2}" by (simp add: gm_succs del: One_nat_def)
  moreover from this have "cg_lookup (build_call_graph gm_module) 2 = Done (FunctionNode 2)"
    using edges 1 by simp
  ultimately show ?thesis by blast
qed

end
