(* ===== verification/GlobalsAlias.thy ===== *)
theory GlobalsAlias
  imports GlobalsProps AAProps
begin

text \<open>
  The queries of the globals analysis (\<^verbatim>\<open>GlobalsAAResult::alias\<close>, \<^verbatim>\<open>getModRefInfo\<close> and \<^verbatim>\<open>getModRefBehavior\<close> in
  \<^verbatim>\<open>lib/Analysis/GlobalsModRef.cpp\<close>) over the state that the scan and the propagation fill.
\<close>

section \<open>Values that cannot be a global whose address does not escape\<close>












section \<open>The queries\<close>











section \<open>What the queries rely on\<close>







section \<open>Alias answers are sound\<close>








section \<open>The provider is sound\<close>















section \<open>The result\<close>







end
