(* ===== verification/Spec2Isabelle.thy ===== *)
theory Spec2Isabelle
  imports EscapeProps ConnectionNode AAProps CFLProps CaptureProps RangeProps ScevAA GlobalsProps GlobalsAlias
begin

text \<open>
  The escape analysis of this fork of LLVM and the alias analyses it is run on.

  The fork adds one plug-in to LLVM, \<^verbatim>\<open>lib/Transforms/Escape\<close> (\<^verbatim>\<open>Escape.cpp\<close>, \<^verbatim>\<open>Node.h\<close>), which decides for
  every call of \<^verbatim>\<open>__go_new\<close> whether the allocated object escapes the function or the thread. It is run as
  \<^verbatim>\<open>opt -load LLVMEscape.so -mem2reg -instnamer -basicaa -globals-aa -cfl-anders-aa -scev-aa -escape\<close>: the
  plug-in asks the alias analysis aggregation (\<^verbatim>\<open>AAResults\<close>) whether two pointers may alias, the aggregation
  asks its providers in order, and one of the providers is the inclusion-based analysis over context-free
  reachability (\<^verbatim>\<open>CFLAndersAliasAnalysis.cpp\<close>). The development follows that chain of calls.

  \<^bold>\<open>Shared material.\<close> \<open>Prelude\<close> has the outcomes of a C++ computation (\<open>Done\<close>, \<open>Crash\<close> for undefined
  behaviour and failed assertions, \<open>OutOfFuel\<close> for the model's own bound on recursion), the state monad
  over them with its fuel ordering, hexadecimal printing and association lists. \<open>IR\<close> is the in-memory IR as
  the analyses read it: values are identified by their address and have a kind, a type, operands and a use
  list. \<open>MemAccess\<close> is the memory SSA form as its clients see it. \<open>ModRef\<close> has the enumerations of
  \<^verbatim>\<open>AliasAnalysis.h\<close> as words with the bit operations of the source, and the atomic orderings. \<open>CallSite\<close> adds
  the attributes of functions and calls and the accessors of \<^verbatim>\<open>CallBase\<close>.

  \<^bold>\<open>The plug-in\<close> (\<open>Escape*\<close>, \<open>ConnectionNode\<close>). \<open>Escape\<close> has every method of \<^verbatim>\<open>EscapeAnalysis\<close> and the three
  passes; the record \<open>esc_state\<close> holds the members the methods change (current function, track list,
  output), \<open>esc_env\<close> what they read. The methods call each other in a cycle, so they are one recursion on
  fuel. \<open>EscapeFuel\<close> shows that more fuel never changes an answer, \<open>EscapeFrame\<close> which members a call
  restores, \<open>EscapeBases\<close> that \<^verbatim>\<open>foundEscape\<close> computes a class of a base of the pointer, \<open>EscapeTrack\<close> that a
  \<open>NoEscape\<close> verdict of \<^verbatim>\<open>track\<close> is sound when it saw all the uses, and \<open>EscapeProps\<close> what the passes report and
  where the code departs from its purpose. \<open>ConnectionNode\<close> has the nodes of \<^verbatim>\<open>Node.h\<close>.

  \<^bold>\<open>The aggregation\<close> (\<open>MemLocation\<close>, \<open>AAResults\<close>, \<open>AASound\<close>, \<open>AAProps\<close>). \<open>MemLocation\<close> encodes \<^verbatim>\<open>LocationSize\<close>
  in 64 bits and builds the location of each kind of access; \<open>AAResults\<close> has the queries over a list of
  providers; \<open>AASound\<close> shows that every combined answer is sound when each provider is, with the soundness of
  a provider stated over the accesses an execution may make; \<open>AAProps\<close> has the remaining queries.

  \<^bold>\<open>The inclusion-based analysis\<close> (\<open>CFL*\<close>). \<open>CFLSummary\<close> has attributes, interface values and function
  summaries (\<^verbatim>\<open>AliasAnalysisSummary\<close>), \<open>CFLGraph\<close> the expression graph and its builder (\<^verbatim>\<open>CFLGraph.h\<close>),
  \<open>CFLReach\<close> the two worklists of \<^verbatim>\<open>buildInfoFrom\<close>, \<open>CFLAnders\<close> what is kept of a function, its summary, the
  cache and the queries. \<open>CFLSolve\<close> shows that the reachability worklist computes the least relations closed
  under the automaton of the source and ends within 7 N N + 2 rounds for N nodes; \<open>CFLSym\<close> that aliases are
  symmetric as pairs; \<open>CFLAttr\<close> that the attribute worklist ends within 32 N + 2 rounds with exactly the
  attributes that reach a node; \<open>CFLBuild\<close> that the builder keeps the graph well formed and adds an edge for
  every flow of a pointer; \<open>CFLQuery\<close> and \<open>CFLPointsTo\<close> that a \<open>NoAlias\<close> answer implies disjoint points-to
  sets; \<open>CFLCache\<close> that the cache holds finished information only and is never changed once it does;
  \<open>CFLTotal\<close> that a query returns when constant expressions nest less deep than their fuel (the nesting plus
  2 is enough) and scans may nest one deeper than there are functions. \<open>CFLProps\<close> states the properties.

  \<^bold>\<open>Captures and reachability\<close> (\<open>OrderedBB\<close>, \<open>CFGReach\<close>, \<open>StripCasts\<close>, \<open>CaptureTracking\<close>, \<open>CaptureSound\<close>,
  \<open>CaptureProps\<close>). The aggregation asks whether an object is captured before a call. \<open>OrderedBB\<close> is the lazy
  numbering of a block (\<^verbatim>\<open>OrderedBasicBlock.cpp\<close>), shown to implement the list order for any sequence of
  queries, erasures and replacements; \<open>CFGReach\<close> the reachability queries of \<^verbatim>\<open>CFG.cpp\<close>, whose negative
  answers are sound; \<open>StripCasts\<close> the loop behind \<^verbatim>\<open>Value::stripPointerCasts\<close>, with a round of fuel for each
  value of a closed set. \<open>CaptureTracking\<close> has the walk over the uses of a pointer with the tracker as an
  argument, and the two trackers; \<open>CaptureSound\<close> states the contract of a tracker as a locale and shows that
  under it the walk ends within a round for every use of a derived value and notes exactly the captures
  explored; \<open>CaptureProps\<close> interprets the contract for both trackers.

  \<^bold>\<open>Ranges and scalar evolution\<close> (\<open>Range*\<close>, \<open>ScevAA\<close>). The provider \<^verbatim>\<open>-scev-aa\<close> compares the ranges of the
  differences of addresses. \<open>Range\<close> has the class \<^verbatim>\<open>ConstantRange\<close> (\<^verbatim>\<open>lib/IR/ConstantRange.cpp\<close>), half open intervals
  of words that may wrap around, with membership and the extreme elements; \<open>RangeSets\<close> containment, complement,
  intersection and union, \<open>RangeICmp\<close> the ranges of comparisons, known bits and metadata, \<open>RangeArith\<close> the
  conversions and the operators. \<open>RangeTransfer\<close> states the contract of an operator as a locale and interprets it for
  each of them; \<open>RangeCast\<close> shows the conversions sound, and with them the product, which is computed at twice the
  width. \<open>RangeOverflow\<close> has the five overflow tests, shown exact through one locale of extreme pairs, and
  \<open>RangeNoWrap\<close> the regions without wrap-around, with the rounding divisions of \<^verbatim>\<open>APInt.cpp\<close> against the integers.
  \<open>RangeProps\<close> states the properties. \<open>ScevAA\<close> is the provider: under true ranges it meets the soundness
  \<open>AASound\<close> asks of a provider. Two rounds of fuel are enough, since the base of a base is itself.

  \<^bold>\<open>Globals\<close> (\<open>SCCIterator\<close>, \<open>ModuleEnv\<close>, \<open>CallGraph\<close>, \<open>GlobalUses\<close>, \<open>FunctionInfo\<close>, \<open>Globals*\<close>). The provider
  \<^verbatim>\<open>-globals-aa\<close> is a whole-module analysis. \<open>SCCIterator\<close> is the iterator over strongly connected components
  (\<^verbatim>\<open>ADT/SCCIterator.h\<close>) over any successor function: it enumerates exactly the components, successors first, within one
  round of fuel for every node and edge, as long as 32 bits number the nodes. \<open>ModuleEnv\<close> has linkage, function attributes
  and the predicates on instructions, \<open>CallGraph\<close> the call graph with its edges characterised. \<open>GlobalUses\<close> is the
  walk over the uses of a global, \<open>FunctionInfo\<close> the record of a function as bits and a map, with each operation as an
  operation on the accesses allowed; \<open>GlobalsState\<close> the members of \<^verbatim>\<open>GlobalsAAResult\<close>, the scan of the module, shown
  exact, and the deletion callback; \<open>GlobalsPropagate\<close> the propagation over the components, with the effects of
  functions as an inductive relation that the records cover. \<open>GlobalsProps\<close> states the properties and runs the
  analysis on small modules, one of which shows a write that is missed. \<open>GlobalsAlias\<close> has the queries, and shows that they
  meet the soundness \<open>AASound\<close> asks of a provider. The fuel of a walk bounds the nesting of its recursion: any
  number above a rank of the values that falls along the uses is enough.

  \<^bold>\<open>Parameters.\<close> What the providers other than the modelled ones answer, the expressions, differences and
  ranges of scalar evolution, the type sizes of the data layout, the library functions known to \<^verbatim>\<open>TargetLibraryInfo\<close>, constant offsets of \<^verbatim>\<open>getelementptr\<close> and the memory SSA form
  are fields of the environments; \<^verbatim>\<open>GetUnderlyingObject\<close> is an argument of \<open>callCapturesBefore\<close> and a field of the
  module environment; dominator trees and
  loops are given by what the reachability queries read of them.

  \<^bold>\<open>Not modelled.\<close> The construction of the memory SSA form, the other providers (\<^verbatim>\<open>BasicAA\<close>, the
  unification-based analysis), the construction of scalar evolution's expressions, \<^verbatim>\<open>mem2reg\<close>, the pass
  manager and everything that mutates the IR; the rest of LLVM (code generation, object files, tools, front ends) does not take part in this
  analysis.
\<close>

end
